(* ===== verification/Prelude.thy ===== *)
theory Prelude
  imports Main "HOL-Library.Word" "HOL-Library.Multiset" "HOL-Library.Sublist" "HOL-Library.Monad_Syntax"
begin

text \<open>
  Shared vocabulary of the development: the machine types of the C sources (LP64: \<open>int\<close> is 32
  bits, \<open>long\<close> and pointers are 64 bits), the null pointer, the collections of rewrite rules the
  component proofs draw on, and the list facts several components need.
\<close>

unbundle bit_operations_syntax

section \<open>Machine types\<close>

text \<open>
  \<open>ptr\<close> is the identity of a C object (the address of a list node, of a function call record and
  so on); only equality of addresses and the null address matter to the code.  \<open>pointer_t\<close> is the
  integer type the trace uses for addresses of the traced process (sp\_rtrace\_defs.h).
\<close>

type_synonym ptr = nat
type_synonym byte = "8 word"
type_synonym u16 = "16 word"
type_synonym u32 = "32 word"
type_synonym u64 = "64 word"
type_synonym pointer_t = "64 word"

abbreviation (input) NULL :: ptr where
  "NULL \<equiv> 0"

text \<open>A comparison callback (\<open>op_binary_t\<close> of data\_ops.h) returns a signed long.\<close>

type_synonym 'a op_compare = "'a \<Rightarrow> 'a \<Rightarrow> int"

section \<open>Collections\<close>

named_theorems dlist_upd \<open>field access after a link update\<close>
named_theorems frame_rules \<open>what an operation leaves unchanged\<close>
named_theorems codec_simps \<open>reading back what was written\<close>

section \<open>Guards\<close>

text \<open>An access that the C program must not make is the value \<open>None\<close>.\<close>

definition guard :: "bool \<Rightarrow> unit option" where
  "guard b = (if b then Some () else None)"

lemma guard_simps [simp]: "guard True = Some ()" "guard False = None" "guard b = Some u \<longleftrightarrow> b"
  by (auto simp: guard_def)

section \<open>Comparison callbacks\<close>

text \<open>
  What the sorting and searching code needs of a comparison callback: the sign is antisymmetric,
  and ``not greater'' is transitive.
\<close>

definition cmp_antisym :: "'a op_compare \<Rightarrow> bool" where
  "cmp_antisym cmp \<longleftrightarrow> (\<forall>x y. cmp x y > 0 \<longleftrightarrow> cmp y x < 0)"

definition cmp_trans :: "'a op_compare \<Rightarrow> bool" where
  "cmp_trans cmp \<longleftrightarrow> (\<forall>x y z. cmp x y \<le> 0 \<longrightarrow> cmp y z \<le> 0 \<longrightarrow> cmp x z \<le> 0)"

lemma cmp_antisymD:
  assumes "cmp_antisym cmp"
  shows "cmp x y > 0 \<longleftrightarrow> cmp y x < 0" "cmp x y \<le> 0 \<longleftrightarrow> cmp y x \<ge> 0"
  using assms by (simp_all add: cmp_antisym_def not_less [symmetric])

lemma cmp_transD: "cmp_trans cmp \<Longrightarrow> cmp x y \<le> 0 \<Longrightarrow> cmp y z \<le> 0 \<Longrightarrow> cmp x z \<le> 0"
  by (simp add: cmp_trans_def)

definition sorted_cmp :: "'a op_compare \<Rightarrow> 'a list \<Rightarrow> bool" where
  "sorted_cmp cmp = sorted_wrt (\<lambda>x y. cmp x y \<le> 0)"

lemma sorted_cmp_simps [simp]:
  "sorted_cmp cmp []"
  "sorted_cmp cmp (x # xs) \<longleftrightarrow> (\<forall>y\<in>set xs. cmp x y \<le> 0) \<and> sorted_cmp cmp xs"
  by (simp_all add: sorted_cmp_def)

lemma sorted_cmp_append:
  "sorted_cmp cmp (xs @ ys) \<longleftrightarrow>
     sorted_cmp cmp xs \<and> sorted_cmp cmp ys \<and> (\<forall>x\<in>set xs. \<forall>y\<in>set ys. cmp x y \<le> 0)"
  by (auto simp: sorted_cmp_def sorted_wrt_append)

section \<open>Alignment\<close>

lemma align4: "4 dvd n + (4 - n mod 4) mod (4::nat)"
proof -
  have "n mod 4 = 0 \<or> n mod 4 = 1 \<or> n mod 4 = 2 \<or> n mod 4 = 3" by presburger
  then show ?thesis
  proof (elim disjE)
    assume "n mod 4 = 1" then show ?thesis by simp presburger
  next
    assume "n mod 4 = 2" then show ?thesis by simp presburger
  next
    assume "n mod 4 = 3" then show ?thesis by simp presburger
  qed (simp add: dvd_eq_mod_eq_0)
qed

section \<open>Lists\<close>

lemma hd_append_two [simp]: "hd (xs @ y # z # zs) = hd (xs @ [y])"
  by (cases xs) auto

lemma hd_in_append: "hd (xs @ [q]) \<in> insert q (set xs)"
  by (cases xs) auto

lemma last_in_Cons: "last (p # xs) \<in> insert p (set xs)"
  by (cases xs rule: rev_cases) auto

lemma takeWhile_eq_self_iff: "takeWhile P xs = xs \<longleftrightarrow> (\<forall>x\<in>set xs. P x)"
  by (induction xs) auto

lemma remove1_split: "p \<notin> set xs \<Longrightarrow> remove1 p (xs @ p # ys) = xs @ ys"
  by (simp add: remove1_append)

end
