(* ===== verification/Proto.thy ===== *)
theory Proto
  imports Prelude
begin

text \<open>
  The binary trace protocol of src/common/sp\_rtrace\_proto.h: the packet type codes and the
  helpers that write and read the fields of a packet.  A writer returns the bytes it stores; a
  reader gets the bytes from its pointer to the end of the accessible memory and returns the value
  with the number of bytes to advance, and \<open>None\<close> stands for an access behind that end.
  Multi-byte values are little endian.
\<close>

section \<open>C strings\<close>

text \<open>A C string is the byte sequence in front of its terminating zero byte.\<close>

type_synonym cstring = "byte list"

definition cstr :: "byte list \<Rightarrow> cstring" where
  "cstr bs = takeWhile (\<lambda>b. b \<noteq> 0) bs"

definition str :: "string \<Rightarrow> cstring" where
  "str s = map of_char s"

definition is_cstring :: "byte list \<Rightarrow> bool" where
  "is_cstring s \<longleftrightarrow> 0 \<notin> set s"

lemma cstr_append_zeros: "is_cstring s \<Longrightarrow> cstr (s @ replicate n 0) = s"
proof -
  assume "is_cstring s"
  then have "\<And>b. b \<in> set s \<Longrightarrow> b \<noteq> 0" by (auto simp: is_cstring_def)
  then show ?thesis by (simp add: cstr_def takeWhile_append2 takeWhile_replicate)
qed

lemma cstr_is_cstring [simp]: "is_cstring (cstr bs)"
  by (auto simp: cstr_def is_cstring_def dest: set_takeWhileD)

lemma cstr_id: "is_cstring s \<Longrightarrow> cstr s = s"
  using cstr_append_zeros [of s 0] by simp

section \<open>Little endian integers\<close>

fun le_bytes :: "nat \<Rightarrow> nat \<Rightarrow> byte list" where
  "le_bytes 0 v = []"
| "le_bytes (Suc n) v = word_of_nat v # le_bytes n (v div 256)"

fun le_nat :: "byte list \<Rightarrow> nat" where
  "le_nat [] = 0"
| "le_nat (b # bs) = unat b + 256 * le_nat bs"

lemma le_bytes_numeral:
  "le_bytes (numeral k) v = word_of_nat v # le_bytes (pred_numeral k) (v div 256)"
  by (simp add: numeral_eq_Suc [of k])

lemma length_le_bytes [simp]: "length (le_bytes n v) = n"
  by (induction n arbitrary: v) auto

lemma le_nat_le_bytes: "le_nat (le_bytes n v) = v mod 256 ^ n"
proof (induction n arbitrary: v)
  case (Suc n)
  have "v mod (256 * 256 ^ n) = 256 * (v div 256 mod 256 ^ n) + v mod 256"
    by (simp add: mod_mult2_eq)
  then show ?case using Suc by (simp add: unat_of_nat take_bit_eq_mod unsigned_of_nat)
qed simp

lemma le_nat_bound: "le_nat bs < 256 ^ length bs"
proof (induction bs)
  case (Cons b bs)
  have "unat b < 256" using unsigned_less [of b] by simp
  then show ?case using Cons by simp
qed simp

lemma le_bytes_le_nat: "length bs = n \<Longrightarrow> le_bytes n (le_nat bs) = bs"
proof (induction bs arbitrary: n)
  case (Cons b bs)
  have "unat b < 256" using unsigned_less [of b] by simp
  then have "(unat b + 256 * le_nat bs) div 256 = le_nat bs" by simp
  moreover have "(word_of_nat (unat b + 256 * le_nat bs) :: 8 word) = b"
    using \<open>unat b < 256\<close> by (simp add: word_unat_eq_iff unat_of_nat del: of_nat_add of_nat_mult)
  ultimately show ?case using Cons by (cases n) auto
qed simp

section \<open>Packet types and constants\<close>

definition PACKET_TYPE :: "u32 \<Rightarrow> u32 \<Rightarrow> u32 \<Rightarrow> u32 \<Rightarrow> u32" where
  "PACKET_TYPE b1 b2 b3 b4 = b1 OR push_bit 8 b2 OR push_bit 16 b3 OR push_bit 24 b4"

definition MODULE_INFO :: u32 where "MODULE_INFO = PACKET_TYPE 77 73 78 70"
definition MEMORY_MAP :: u32 where "MEMORY_MAP = PACKET_TYPE 77 77 65 80"
definition CONTEXT_REGISTRY :: u32 where "CONTEXT_REGISTRY = PACKET_TYPE 67 84 88 82"
definition FUNCTION_CALL :: u32 where "FUNCTION_CALL = PACKET_TYPE 67 65 76 76"
definition BACKTRACE :: u32 where "BACKTRACE = PACKET_TYPE 66 84 82 67"
definition FUNCTION_ARGS :: u32 where "FUNCTION_ARGS = PACKET_TYPE 65 82 71 83"
definition PROCESS_INFO :: u32 where "PROCESS_INFO = PACKET_TYPE 80 73 78 70"
definition NEW_LIBRARY :: u32 where "NEW_LIBRARY = PACKET_TYPE 78 76 73 66"
definition HEAP_INFO :: u32 where "HEAP_INFO = PACKET_TYPE 72 73 78 70"
definition OUTPUT_SETTINGS :: u32 where "OUTPUT_SETTINGS = PACKET_TYPE 79 67 70 71"
definition RESOURCE_REGISTRY :: u32 where "RESOURCE_REGISTRY = PACKET_TYPE 82 69 83 82"
definition ATTACHMENT :: u32 where "ATTACHMENT = PACKET_TYPE 70 73 76 69"

lemmas packet_type_defs = MODULE_INFO_def MEMORY_MAP_def CONTEXT_REGISTRY_def FUNCTION_CALL_def
  BACKTRACE_def FUNCTION_ARGS_def PROCESS_INFO_def NEW_LIBRARY_def HEAP_INFO_def
  OUTPUT_SETTINGS_def RESOURCE_REGISTRY_def ATTACHMENT_def

lemma packet_type_values [simp]:
  "MODULE_INFO = 1179535693" "MEMORY_MAP = 1346456909" "CONTEXT_REGISTRY = 1381520451"
  "FUNCTION_CALL = 1280065859" "BACKTRACE = 1129468994" "FUNCTION_ARGS = 1397183041"
  "PROCESS_INFO = 1179535696" "NEW_LIBRARY = 1112099918" "HEAP_INFO = 1179535688"
  "OUTPUT_SETTINGS = 1195787087" "RESOURCE_REGISTRY = 1381188946" "ATTACHMENT = 1162627398"
  by (simp_all add: packet_type_defs PACKET_TYPE_def)

definition VERSION_MAJOR :: byte where "VERSION_MAJOR = 2"
definition VERSION_MINOR :: byte where "VERSION_MINOR = 0"
definition HS_LITTLE_ENDIAN :: byte where "HS_LITTLE_ENDIAN = 0"
definition HS_BIG_ENDIAN :: byte where "HS_BIG_ENDIAN = 1"
definition HS_ID :: byte where "HS_ID = 240"

lemmas proto_consts [simp] = VERSION_MAJOR_def VERSION_MINOR_def HS_LITTLE_ENDIAN_def
  HS_BIG_ENDIAN_def HS_ID_def

abbreviation (input) PROTO_ALIGN :: nat where "PROTO_ALIGN \<equiv> 4"
abbreviation (input) TYPE_SIZE :: nat where "TYPE_SIZE \<equiv> 4"
abbreviation (input) LENGTH_SIZE :: nat where "LENGTH_SIZE \<equiv> 4"

definition ALIGN_SIZE :: "nat \<Rightarrow> nat" where
  "ALIGN_SIZE n = n + (PROTO_ALIGN - n mod PROTO_ALIGN) mod PROTO_ALIGN"

lemma ALIGN_SIZE_aligned: "4 dvd ALIGN_SIZE n" "n \<le> ALIGN_SIZE n" "ALIGN_SIZE n < n + 4"
proof -
  show "4 dvd ALIGN_SIZE n"
    unfolding ALIGN_SIZE_def by (rule align4)
qed (simp_all add: ALIGN_SIZE_def)

section \<open>Reading\<close>

text \<open>Memory of \<open>n\<close> bytes at the pointer, if that much is accessible.\<close>

definition fetch :: "nat \<Rightarrow> byte list \<Rightarrow> byte list option" where
  "fetch n ptr = (if n \<le> length ptr then Some (take n ptr) else None)"

definition read_byte :: "byte list \<Rightarrow> (byte \<times> nat) option" where
  "read_byte ptr = map_option (\<lambda>bs. (hd bs, 1)) (fetch 1 ptr)"

definition read_dword :: "byte list \<Rightarrow> (u32 \<times> nat) option" where
  "read_dword ptr = map_option (\<lambda>bs. (word_of_nat (le_nat bs), 4)) (fetch 4 ptr)"

text \<open>The double word is read as an \<open>int\<close>, so its sign bit is extended.\<close>

definition read_dword2long :: "byte list \<Rightarrow> (u64 \<times> nat) option" where
  "read_dword2long ptr = map_option (\<lambda>bs. (scast (word_of_nat (le_nat bs) :: 32 word), 4)) (fetch 4 ptr)"

definition read_word :: "byte list \<Rightarrow> (u16 \<times> nat) option" where
  "read_word ptr = map_option (\<lambda>bs. (word_of_nat (le_nat bs), 2)) (fetch 2 ptr)"

definition read_pointer :: "byte list \<Rightarrow> (pointer_t \<times> nat) option" where
  "read_pointer ptr = map_option (\<lambda>bs. (word_of_nat (le_nat bs), 8)) (fetch 8 ptr)"

datatype read_error = EINVAL

text \<open>The string field: \<open>Inl EINVAL\<close> when the text does not fit into the \<open>n\<close> bytes of the output buffer.\<close>

definition read_string :: "byte list \<Rightarrow> nat \<Rightarrow> (read_error + cstring \<times> nat) option" where
  "read_string ptr n =
     Option.bind (read_word ptr) (\<lambda>(len, k).
       (let len = unat len; ptr = drop k ptr
        in if len \<ge> n then Some (Inl EINVAL)
           else if len \<noteq> 0 then map_option (\<lambda>bs. Inr (cstr bs, len + 2)) (fetch len ptr)
           else Some (Inr ([], TYPE_SIZE))))"

definition read_stringa :: "byte list \<Rightarrow> (cstring \<times> nat) option" where
  "read_stringa ptr =
     Option.bind (read_word ptr) (\<lambda>(len, k).
       (let len = unat len; ptr = drop k ptr
        in if len \<noteq> 0 then map_option (\<lambda>bs. (cstr bs, len + 2)) (fetch len ptr)
           else Some ([], TYPE_SIZE)))"

definition read_chunk :: "byte list \<Rightarrow> nat \<Rightarrow> (byte list \<times> nat) option" where
  "read_chunk ptr n = map_option (\<lambda>bs. (bs, n)) (fetch n ptr)"

section \<open>Writing\<close>

definition write_byte :: "byte \<Rightarrow> byte list" where
  "write_byte v = [v]"

definition write_dword :: "u32 \<Rightarrow> byte list" where
  "write_dword v = le_bytes 4 (unat v)"

definition write_pointer :: "pointer_t \<Rightarrow> byte list" where
  "write_pointer v = le_bytes 8 (unat v)"

text \<open>
  The text is copied behind its 16 bit size and padded with zero bytes, and the size of the padded
  text is stored as a \<open>short\<close>.  A null string is written as a zero double word.
\<close>

function pad_zeros :: "nat \<Rightarrow> nat" where
  "pad_zeros n = (if n mod PROTO_ALIGN \<noteq> 0 then Suc (pad_zeros (Suc n)) else 0)"
  by pat_completeness auto
termination
  by (relation "measure (\<lambda>n. (4 - n mod 4) mod 4)") (auto simp: mod_Suc)

declare pad_zeros.simps [simp del]

definition write_string :: "cstring option \<Rightarrow> byte list" where
  "write_string s =
     (case s of
        Some s \<Rightarrow>
          (let n = 2 + length s;
               pad = pad_zeros n
           in le_bytes 2 (n + pad - 2) @ s @ replicate pad 0)
      | None \<Rightarrow> write_dword 0)"

section \<open>Reading back what was written\<close>

lemma fetch_append [simp]: "length bs = n \<Longrightarrow> fetch n (bs @ rest) = Some bs"
  by (simp add: fetch_def)

lemma fetch_None_iff: "fetch n ptr = None \<longleftrightarrow> length ptr < n"
  by (auto simp: fetch_def)

lemma length_write [simp]:
  "length (write_byte b) = 1" "length (write_dword d) = 4" "length (write_pointer p) = 8"
  by (simp_all add: write_byte_def write_dword_def write_pointer_def)

lemma read_byte_write [codec_simps]: "read_byte (write_byte b @ rest) = Some (b, 1)"
  by (simp add: read_byte_def write_byte_def fetch_def)

lemma word_of_nat_le32: "(word_of_nat (le_nat (le_bytes 4 (unat (d :: u32)))) :: u32) = d"
proof -
  have "unat d < 4294967296" using unsigned_less [of d] by simp
  then show ?thesis by (simp add: le_nat_le_bytes)
qed

lemma read_dword_write [codec_simps]: "read_dword (write_dword d @ rest) = Some (d, 4)"
  by (simp add: read_dword_def write_dword_def word_of_nat_le32)

lemma read_dword2long_write [codec_simps]:
  "read_dword2long (write_dword d @ rest) = Some (scast d, 4)"
  by (simp add: read_dword2long_def write_dword_def word_of_nat_le32)

lemma read_pointer_write [codec_simps]: "read_pointer (write_pointer p @ rest) = Some (p, 8)"
proof -
  have "unat p < 18446744073709551616" using unsigned_less [of p] by simp
  then show ?thesis by (simp add: read_pointer_def write_pointer_def le_nat_le_bytes)
qed

lemma pad_zeros_eq: "pad_zeros n = (4 - n mod 4) mod 4"
proof (induction n rule: pad_zeros.induct)
  case (1 n)
  then show ?case by (subst pad_zeros.simps) (auto simp: mod_Suc)
qed

lemma pad_zeros_aligned: "4 dvd n + pad_zeros n" "pad_zeros n < 4"
proof -
  show "4 dvd n + pad_zeros n" unfolding pad_zeros_eq by (rule align4)
qed (simp add: pad_zeros_eq)

lemma length_write_string: "4 dvd length (write_string s)"
  using pad_zeros_aligned(1) [of "Suc (Suc (length (the s)))"]
  by (auto simp: write_string_def Let_def split: option.split)

text \<open>What a string field contains when it is read back: the null string becomes the empty one.\<close>

definition stored_text :: "cstring option \<Rightarrow> cstring" where
  "stored_text s = (case s of Some s \<Rightarrow> s | None \<Rightarrow> [])"

text \<open>The 16 bit size field holds texts up to 65532 bytes.\<close>

definition fits_string :: "cstring option \<Rightarrow> bool" where
  "fits_string s \<longleftrightarrow> is_cstring (stored_text s) \<and> length (stored_text s) < 65533"

lemma read_stringa_write [codec_simps]:
  assumes "fits_string s"
  shows "read_stringa (write_string s @ rest) = Some (stored_text s, length (write_string s))"
proof (cases s)
  case None
  have "write_string None = [0, 0, 0, 0]" by (simp add: write_string_def write_dword_def le_bytes_numeral)
  moreover have "read_stringa ([0, 0, 0, 0] @ rest) = Some ([], 4)"
    by (simp add: read_stringa_def read_word_def fetch_def)
  ultimately show ?thesis using None by (simp add: stored_text_def)
next
  case (Some t)
  let ?pad = "pad_zeros (2 + length t)"
  have small: "length t + ?pad < 65536" and pos: "length t + ?pad \<noteq> 0"
    using assms Some pad_zeros_aligned [of "2 + length t"]
    by (auto simp: fits_string_def stored_text_def pad_zeros_eq)
  have t: "is_cstring t" using assms Some by (simp add: fits_string_def stored_text_def)
  have len: "unat (word_of_nat (le_nat (le_bytes 2 (length t + ?pad))) :: u16) = length t + ?pad"
    using small by (simp add: le_nat_le_bytes unat_of_nat del: of_nat_add)
  have "fetch (length t + ?pad) (t @ replicate ?pad 0 @ rest) = Some (t @ replicate ?pad 0)"
    by (simp add: fetch_def)
  with Some t len pos show ?thesis
    by (simp add: write_string_def read_stringa_def read_word_def stored_text_def Let_def cstr_append_zeros)
qed

lemma read_string_write:
  assumes "fits_string (Some s)" "length s + 4 < n"
  shows "read_string (write_string (Some s) @ rest) n = Some (Inr (s, length (write_string (Some s))))"
proof -
  let ?pad = "pad_zeros (2 + length s)"
  have small: "length s + ?pad < 65536" and pos: "length s + ?pad \<noteq> 0" and fit: "length s + ?pad < n"
    using assms pad_zeros_aligned [of "2 + length s"]
    by (auto simp: fits_string_def stored_text_def pad_zeros_eq)
  have len: "unat (word_of_nat (le_nat (le_bytes 2 (length s + ?pad))) :: u16) = length s + ?pad"
    using small by (simp add: le_nat_le_bytes unat_of_nat del: of_nat_add)
  have "fetch (length s + ?pad) (s @ replicate ?pad 0 @ rest) = Some (s @ replicate ?pad 0)"
    by (simp add: fetch_def)
  with assms len pos fit show ?thesis
    by (simp add: write_string_def read_string_def read_word_def stored_text_def fits_string_def Let_def cstr_append_zeros)
qed

end
