(* ===== verification/Emu_Heap.thy ===== *)
theory Emu_Heap
  imports Proto
begin

text \<open>
  The internal heap of the memory tracing module (sp\_rtrace\_memory.c), which serves the allocations
  made before the original allocation functions are known.  The memory is a map from addresses to
  bytes, so that the sizes stored in front of the chunks, the contents of the blocks and copying
  between them are explicit.
\<close>

section \<open>Memory\<close>

type_synonym memory = "nat \<Rightarrow> byte"

definition load_u32 :: "memory \<Rightarrow> nat \<Rightarrow> nat" where
  "load_u32 m p = le_nat [m p, m (p + 1), m (p + 2), m (p + 3)]"

definition store_u32 :: "memory \<Rightarrow> nat \<Rightarrow> nat \<Rightarrow> memory" where
  "store_u32 m p v = (let bs = le_bytes 4 v in m(p := bs ! 0, p + 1 := bs ! 1, p + 2 := bs ! 2, p + 3 := bs ! 3))"

lemma load_store_u32: "load_u32 (store_u32 m p v) p = v mod 2 ^ 32"
proof -
  let ?bs = "le_bytes 4 v"
  have "[?bs ! 0, ?bs ! 1, ?bs ! 2, ?bs ! 3] = ?bs" by (simp add: le_bytes_numeral)
  then show ?thesis using le_nat_le_bytes [of 4 v] by (simp add: load_u32_def store_u32_def Let_def)
qed

lemma store_u32_other: "x < p \<or> p + 4 \<le> x \<Longrightarrow> store_u32 m p v x = m x"
  by (auto simp: store_u32_def Let_def)

lemma load_store_other: "p + 4 \<le> q \<or> q + 4 \<le> p \<Longrightarrow> load_u32 (store_u32 m q v) p = load_u32 m p"
  by (auto simp: load_u32_def store_u32_other)

lemma load_u32_bound: "load_u32 m p < 2 ^ 32"
  using le_nat_bound [of "[m p, m (p + 1), m (p + 2), m (p + 3)]"] by (simp add: load_u32_def)

text \<open>The copy loops run upwards, byte by byte.\<close>

fun copy_bytes :: "nat \<Rightarrow> nat \<Rightarrow> nat \<Rightarrow> memory \<Rightarrow> memory" where
  "copy_bytes 0 src dst m = m"
| "copy_bytes (Suc n) src dst m = copy_bytes n (src + 1) (dst + 1) (m(dst := m src))"

fun zero_bytes :: "nat \<Rightarrow> nat \<Rightarrow> memory \<Rightarrow> memory" where
  "zero_bytes 0 p m = m"
| "zero_bytes (Suc n) p m = zero_bytes n (p + 1) (m(p := 0))"

lemma zero_bytes_at: "zero_bytes n p m x = (if p \<le> x \<and> x < p + n then 0 else m x)"
  by (induction n arbitrary: p m) auto

lemma copy_bytes_at:
  "src + n \<le> dst \<or> dst + n \<le> src \<Longrightarrow> copy_bytes n src dst m x = (if dst \<le> x \<and> x < dst + n then m (src + (x - dst)) else m x)"
proof (induction n arbitrary: src dst m)
  case (Suc n)
  have disj: "src + 1 + n \<le> dst + 1 \<or> dst + 1 + n \<le> src + 1" using Suc.prems by auto
  define m' where "m' = m(dst := m src)"
  have eq: "copy_bytes (Suc n) src dst m x = (if dst + 1 \<le> x \<and> x < dst + 1 + n then m' (src + 1 + (x - (dst + 1))) else m' x)"
    unfolding copy_bytes.simps m'_def by (rule Suc.IH [OF disj])
  show ?case
  proof (cases "dst + 1 \<le> x \<and> x < dst + 1 + n")
    case True
    then have "src + 1 + (x - (dst + 1)) = src + (x - dst)" "src + (x - dst) \<noteq> dst" using Suc.prems by auto
    with True show ?thesis unfolding eq by (auto simp: m'_def)
  qed (unfold eq, auto simp: m'_def)
qed auto

section \<open>The allocator\<close>

definition EMU_HEAP_SIZE :: nat where "EMU_HEAP_SIZE = 1024 * 4"
definition EMU_HEAP_ALIGN :: nat where "EMU_HEAP_ALIGN = 8"

record emu_heap =
  eh_base :: nat
  eh_tail :: nat
  eh_mem :: memory

text \<open>\<open>None\<close> is the exit of the program when the heap is used up.  Addresses are computed modulo the size of a word.\<close>

definition emu_alloc_mem :: "nat \<Rightarrow> nat \<Rightarrow> emu_heap \<Rightarrow> (nat \<times> emu_heap) option" where
  "emu_alloc_mem n align s = (
     let chunk_size = load_u32 (eh_mem s) (eh_tail s);
         new_ptr = eh_tail s + chunk_size + 4;
         offset = new_ptr AND (align - 1);
         new_ptr = (if offset \<noteq> 0 then new_ptr + (align - offset) else new_ptr)
     in if (new_ptr + n) mod 2 ^ 64 \<ge> eh_base s + EMU_HEAP_SIZE then None
        else Some (new_ptr, s\<lparr>eh_tail := new_ptr - 4, eh_mem := store_u32 (eh_mem s) (new_ptr - 4) (n + 4)\<rparr>))"

definition emu_malloc :: "nat \<Rightarrow> emu_heap \<Rightarrow> (nat \<times> emu_heap) option" where
  "emu_malloc n s = emu_alloc_mem n EMU_HEAP_ALIGN s"

text \<open>The total size is computed as a size and stored in an int, which is converted back by sign extension.\<close>

definition emu_calloc :: "nat \<Rightarrow> nat \<Rightarrow> emu_heap \<Rightarrow> (nat \<times> emu_heap) option" where
  "emu_calloc nmemb n s = (
     let total_size = sint (word_of_nat (nmemb * n) :: u32)
     in do { (memptr, s) \<leftarrow> emu_alloc_mem (unat (word_of_int total_size :: u64)) EMU_HEAP_ALIGN s;
             Some (memptr, s\<lparr>eh_mem := zero_bytes (nat total_size) memptr (eh_mem s)\<rparr>) })"

definition EINVAL :: int where "EINVAL = 22"

text \<open>The error code, and the pointer when it is set.\<close>

definition emu_posix_memalign :: "nat \<Rightarrow> nat \<Rightarrow> emu_heap \<Rightarrow> (int \<times> nat option \<times> emu_heap) option" where
  "emu_posix_memalign align n s =
     (if align mod 8 \<noteq> 0 \<or> (align - 1) AND align \<noteq> 0 \<or> align = 0 then Some (EINVAL, None, s)
      else do { (memptr, s) \<leftarrow> emu_alloc_mem n (if align < EMU_HEAP_ALIGN then EMU_HEAP_ALIGN else align) s;
                Some (if memptr \<noteq> 0 then 0 else 12, Some memptr, s) })"

definition emu_free :: "nat \<Rightarrow> emu_heap \<Rightarrow> emu_heap" where
  "emu_free p s = (if eh_tail s + 4 = p then s\<lparr>eh_mem := store_u32 (eh_mem s) (eh_tail s) 0\<rparr> else s)"

definition emu_realloc :: "nat \<Rightarrow> nat \<Rightarrow> emu_heap \<Rightarrow> (nat \<times> emu_heap) option" where
  "emu_realloc p n s = (
     let chunk_size = (if p \<noteq> 0 then load_u32 (eh_mem s) (p - 4) else 0)
     in do { (ptr_new, s) \<leftarrow> emu_alloc_mem n EMU_HEAP_ALIGN (emu_free p s);
             Some (ptr_new,
               if ptr_new \<noteq> 0 \<and> ptr_new \<noteq> p
               then s\<lparr>eh_mem := copy_bytes (if n > chunk_size then chunk_size else n) p ptr_new (eh_mem s)\<rparr>
               else s) })"

definition is_in_internal_heap :: "emu_heap \<Rightarrow> nat \<Rightarrow> bool" where
  "is_in_internal_heap s p \<longleftrightarrow> eh_base s \<le> p \<and> p < eh_base s + EMU_HEAP_SIZE"

text \<open>The heap as it is loaded: zeroed, the tail at its start.\<close>

definition emu_init :: "nat \<Rightarrow> emu_heap" where
  "emu_init base = \<lparr>eh_base = base, eh_tail = base, eh_mem = (\<lambda>_. 0)\<rparr>"

section \<open>Invariant\<close>

text \<open>
  The blocks in use, by address and size, oldest first.  They lie in the heap below the end of the
  last chunk, the size of the last chunk is stored outside of them, and every block has its size
  stored in front of it.
\<close>

definition emu_inv :: "emu_heap \<Rightarrow> (nat \<times> nat) list \<Rightarrow> bool" where
  "emu_inv s bs \<longleftrightarrow> (let t = eh_tail s; c = load_u32 (eh_mem s) t in
     eh_base s \<le> t \<and> t + c \<le> eh_base s + EMU_HEAP_SIZE \<and> eh_base s + EMU_HEAP_SIZE < 2 ^ 63 \<and>
     sorted_wrt (\<lambda>(a, n) (b, m). a + n + 4 \<le> b) bs \<and>
     (\<forall>(a, n)\<in>set bs. eh_base s + 4 \<le> a \<and> a mod 8 = 0 \<and> load_u32 (eh_mem s) (a - 4) = n + 4 \<and>
        (a + n \<le> t \<or> (a = t + 4 \<and> c = n + 4))))"

text \<open>\<open>same_block\<close>: the contents of a block are unchanged.\<close>

definition same_block :: "memory \<Rightarrow> memory \<Rightarrow> nat \<times> nat \<Rightarrow> bool" where
  "same_block m m' b \<longleftrightarrow> (\<forall>i. i < snd b \<longrightarrow> m' (fst b + i) = m (fst b + i))"

lemma emu_init_inv: "base + EMU_HEAP_SIZE < 2 ^ 63 \<Longrightarrow> emu_inv (emu_init base) []"
  by (simp add: emu_inv_def emu_init_def load_u32_def)

text \<open>Writing to the blocks in use does no harm.\<close>

lemma sorted_wrt_cases: "sorted_wrt R xs \<Longrightarrow> x \<in> set xs \<Longrightarrow> y \<in> set xs \<Longrightarrow> x = y \<or> R x y \<or> R y x"
  by (induction xs) auto

lemma emu_inv_writes:
  assumes "emu_inv s bs" "\<forall>x. m x \<noteq> eh_mem s x \<longrightarrow> (\<exists>b\<in>set bs. fst b \<le> x \<and> x < fst b + snd b)"
  shows "emu_inv (s\<lparr>eh_mem := m\<rparr>) bs"
proof -
  let ?t = "eh_tail s"
  have blk: "eh_base s + 4 \<le> fst b" "fst b + snd b \<le> ?t \<or> fst b = ?t + 4" if "b \<in> set bs" for b
    using assms(1) that by (auto simp: emu_inv_def Let_def)
  have "m x = eh_mem s x" if "?t \<le> x" "x < ?t + 4" for x
    using assms(2) blk that by fastforce
  then have t: "load_u32 m ?t = load_u32 (eh_mem s) ?t" by (simp add: load_u32_def)
  have hd: "load_u32 m (fst b - 4) = load_u32 (eh_mem s) (fst b - 4)" if b: "b \<in> set bs" for b
  proof -
    have "m x = eh_mem s x" if x: "fst b - 4 \<le> x" "x < fst b" for x
    proof (rule ccontr)
      assume "m x \<noteq> eh_mem s x"
      then obtain d where d: "d \<in> set bs" "fst d \<le> x" "x < fst d + snd d" using assms(2) by blast
      have "sorted_wrt (\<lambda>(a, n) (b, m). a + n + 4 \<le> b) bs" using assms(1) by (simp add: emu_inv_def Let_def)
      from sorted_wrt_cases [OF this b d(1)] show False using d x blk(1) [OF b] by (auto simp: case_prod_beta)
    qed
    then show ?thesis using blk(1) [OF b] by (simp add: load_u32_def)
  qed
  then show ?thesis using assms(1) t by (fastforce simp: emu_inv_def Let_def)
qed

lemma and_mask_mod: "x AND (2 ^ k - 1) = x mod (2 ^ k :: nat)"
  by (simp add: take_bit_eq_mod [symmetric] take_bit_eq_mask mask_eq_exp_minus_1)

lemma align_up:
  assumes "x AND (2 ^ k - 1) = r"
  shows "(if r \<noteq> 0 then x + (2 ^ k - r) else x) mod 2 ^ k = (0 :: nat)" "r < 2 ^ k"
proof -
  have r: "r = x mod 2 ^ k" using assms and_mask_mod [of x k] by simp
  show "r < 2 ^ k" using r by simp
  show "(if r \<noteq> 0 then x + (2 ^ k - r) else x) mod 2 ^ k = 0"
  proof (cases "r = 0")
    case False
    have "x + (2 ^ k - r) = (x div 2 ^ k) * 2 ^ k + 2 ^ k" using div_mult_mod_eq [of x "2 ^ k"] r mod_less_divisor [of "2 ^ k" x] by simp
    then have "x + (2 ^ k - r) = (x div 2 ^ k + 1) * 2 ^ k" by simp
    then show ?thesis using False by (metis mod_mult_self2_is_0)
  qed (use r in simp)
qed

text \<open>
  An allocation returns an aligned block inside the heap, apart from all blocks in use, whose
  contents it leaves alone.
\<close>

lemma emu_alloc_ok:
  assumes inv: "emu_inv s bs" and a: "3 \<le> k" "k < 62" and n: "n < 2 ^ 62" and r: "emu_alloc_mem n (2 ^ k) s = Some (p, s')"
  shows "p mod 2 ^ k = 0 \<and> eh_base s + 4 \<le> p \<and> p + n < eh_base s + EMU_HEAP_SIZE \<and> emu_inv s' (bs @ [(p, n)]) \<and>
    (\<forall>b\<in>set bs. fst b + snd b + 4 \<le> p \<and> same_block (eh_mem s) (eh_mem s') b) \<and> eh_base s' = eh_base s \<and>
    (\<forall>x. x < p - 4 \<or> p \<le> x \<longrightarrow> eh_mem s' x = eh_mem s x)"
proof -
  define t c where "t = eh_tail s" and "c = load_u32 (eh_mem s) t"
  define r0 where "r0 = (t + c + 4) AND (2 ^ k - 1)"
  have p: "p = (if r0 \<noteq> 0 then t + c + 4 + (2 ^ k - r0) else t + c + 4)"
    and s': "s' = s\<lparr>eh_tail := p - 4, eh_mem := store_u32 (eh_mem s) (p - 4) (n + 4)\<rparr>"
    and lim: "(p + n) mod 2 ^ 64 < eh_base s + EMU_HEAP_SIZE"
    using r by (auto simp: emu_alloc_mem_def Let_def t_def c_def r0_def split: if_splits)
  have al: "p mod 2 ^ k = 0" "r0 < 2 ^ k" using align_up [OF r0_def [symmetric]] p by auto
  have base: "eh_base s \<le> t" "t + c \<le> eh_base s + EMU_HEAP_SIZE" "eh_base s + EMU_HEAP_SIZE < 2 ^ 63"
    using inv by (auto simp: emu_inv_def Let_def t_def c_def)
  have k62: "(2 :: nat) ^ k \<le> 2 ^ 61" by (rule power_increasing) (use a in auto)
  have ge: "t + c + 4 \<le> p" "p \<le> t + c + 4 + 2 ^ k" using p by auto
  have "p + n < 2 ^ 64" using ge base n k62 by simp
  then have top: "p + n < eh_base s + EMU_HEAP_SIZE" using lim by simp
  have "(8 :: nat) dvd 2 ^ k" using a(1) le_imp_power_dvd [of 3 k "2 :: nat"] by simp
  then have p8: "p mod 8 = 0" using al(1) by (metis dvd_trans mod_eq_0_iff_dvd)
  have blk: "a + m + 4 \<le> p \<and> eh_base s + 4 \<le> a \<and> a mod 8 = 0 \<and> load_u32 (eh_mem s) (a - 4) = m + 4" if "(a, m) \<in> set bs" for a m
    using inv that ge(1) by (auto simp: emu_inv_def Let_def t_def c_def)
  have load: "load_u32 (store_u32 (eh_mem s) (p - 4) (n + 4)) (a - 4) = load_u32 (eh_mem s) (a - 4)" if "(a, m) \<in> set bs" for a m
    using blk [OF that] by (intro load_store_other) auto
  have own: "load_u32 (store_u32 (eh_mem s) (p - 4) (n + 4)) (p - 4) = n + 4"
    using top base(1) ge(1) by (simp add: load_store_u32 EMU_HEAP_SIZE_def)
  have "sorted_wrt (\<lambda>(a, n) (b, m). a + n + 4 \<le> b) (bs @ [(p, n)])"
    using inv blk by (auto simp: sorted_wrt_append emu_inv_def Let_def)
  moreover have "\<forall>(a, m)\<in>set (bs @ [(p, n)]). eh_base s + 4 \<le> a \<and> a mod 8 = 0 \<and>
      load_u32 (eh_mem s') (a - 4) = m + 4 \<and> (a + m \<le> p - 4 \<or> (a = p - 4 + 4 \<and> n + 4 = m + 4))"
    using blk load own p8 base(1) ge(1) by (fastforce simp: s')
  ultimately have "emu_inv s' (bs @ [(p, n)])"
    using base(1,3) ge(1) top own by (simp add: emu_inv_def Let_def s')
  moreover have "same_block (eh_mem s) (eh_mem s') b" if "b \<in> set bs" for b
    using blk [of "fst b" "snd b"] that by (auto simp: same_block_def s' store_u32_other)
  moreover have "\<forall>x. x < p - 4 \<or> p \<le> x \<longrightarrow> eh_mem s' x = eh_mem s x"
    using ge(1) by (auto simp: s' store_u32_other)
  ultimately show ?thesis using al top ge(1) base blk by (auto simp: s')
qed

text \<open>Releasing a block keeps the others; only the space of the last one is used again.\<close>

lemma emu_free_ok:
  assumes "emu_inv s bs"
  shows "emu_inv (emu_free p s) (filter (\<lambda>b. fst b \<noteq> p) bs) \<and> eh_base (emu_free p s) = eh_base s \<and>
    (\<forall>x. x < p - 4 \<or> p \<le> x \<longrightarrow> eh_mem (emu_free p s) x = eh_mem s x)"
proof (cases "eh_tail s + 4 = p")
  case True
  let ?t = "eh_tail s" and ?m = "store_u32 (eh_mem s) (eh_tail s) 0"
  have zero: "load_u32 ?m ?t = 0" by (simp add: load_store_u32)
  have blk: "eh_base s + 4 \<le> a \<and> a mod 8 = 0 \<and> load_u32 ?m (a - 4) = n + 4 \<and> a + n \<le> ?t" if "(a, n) \<in> set bs" "a \<noteq> p" for a n
  proof -
    have "eh_base s + 4 \<le> a \<and> a mod 8 = 0 \<and> load_u32 (eh_mem s) (a - 4) = n + 4 \<and> a + n \<le> ?t"
      using assms that True by (fastforce simp: emu_inv_def Let_def)
    moreover have "load_u32 ?m (a - 4) = load_u32 (eh_mem s) (a - 4)" using calculation by (intro load_store_other) auto
    ultimately show ?thesis by simp
  qed
  have "sorted_wrt (\<lambda>(a, n) (b, m). a + n + 4 \<le> b) (filter (\<lambda>b. fst b \<noteq> p) bs)"
    using assms by (intro sorted_wrt_filter) (simp add: emu_inv_def Let_def)
  moreover have "eh_base s \<le> ?t" "?t \<le> eh_base s + EMU_HEAP_SIZE" "eh_base s + EMU_HEAP_SIZE < 2 ^ 63"
    using assms by (auto simp: emu_inv_def Let_def)
  ultimately show ?thesis using True blk zero by (fastforce simp: emu_inv_def emu_free_def Let_def store_u32_other)
qed (use assms in \<open>auto simp: emu_inv_def emu_free_def Let_def sorted_wrt_filter\<close>)

text \<open>Resizing a block keeps its contents up to the smaller size, and the contents of all others.\<close>

lemma emu_realloc_ok:
  assumes inv: "emu_inv s bs" and b: "(p, m) \<in> set bs" and n: "n < 2 ^ 62" and r: "emu_realloc p n s = Some (q, s')"
  shows "emu_inv s' (filter (\<lambda>b. fst b \<noteq> p) bs @ [(q, n)]) \<and> q mod 8 = 0 \<and> q + n < eh_base s + EMU_HEAP_SIZE \<and>
    (\<forall>i<min m n. eh_mem s' (q + i) = eh_mem s (p + i)) \<and>
    (\<forall>b\<in>set bs. fst b \<noteq> p \<longrightarrow> same_block (eh_mem s) (eh_mem s') b)"
proof -
  let ?s1 = "emu_free p s" and ?bs = "filter (\<lambda>b. fst b \<noteq> p) bs"
  note fr = emu_free_ok [OF inv, of p]
  have p: "eh_base s + 4 \<le> p" "p mod 8 = 0" "load_u32 (eh_mem s) (p - 4) = m + 4"
    "p + m \<le> eh_tail s \<or> p = eh_tail s + 4" using inv b by (auto simp: emu_inv_def Let_def)
  obtain s2 where al: "emu_alloc_mem n (2 ^ 3) ?s1 = Some (q, s2)"
    and s': "s' = (if q \<noteq> 0 \<and> q \<noteq> p then s2\<lparr>eh_mem := copy_bytes (min n (m + 4)) p q (eh_mem s2)\<rparr> else s2)"
    using r p(1,3) by (auto simp: emu_realloc_def Let_def EMU_HEAP_ALIGN_def min_def split: bind_splits)
  have ok: "q mod 8 = 0" "eh_base s + 4 \<le> q" "q + n < eh_base s + EMU_HEAP_SIZE" "emu_inv s2 (?bs @ [(q, n)])"
    "\<forall>b\<in>set ?bs. fst b + snd b + 4 \<le> q \<and> same_block (eh_mem ?s1) (eh_mem s2) b"
    "\<forall>x. x < q - 4 \<or> q \<le> x \<longrightarrow> eh_mem s2 x = eh_mem ?s1 x"
    using emu_alloc_ok [OF _ _ _ n al, of ?bs] fr by auto
  show ?thesis
  proof (cases "p = eh_tail s + 4")
    case True
    have "load_u32 (eh_mem ?s1) (eh_tail ?s1) = 0" "eh_tail ?s1 = eh_tail s"
      using True by (simp_all add: emu_free_def load_store_u32)
    moreover have "p AND 7 = 0"
using p(2) and_mask_mod [of p 3] by simp
    ultimately have q: "q = p" using al True by (auto simp: emu_alloc_mem_def Let_def split: if_splits)
    have "same_block (eh_mem s) (eh_mem s2) b" if "b \<in> set bs" "fst b \<noteq> p" for b
    proof -
      have "fst b + snd b \<le> p - 4" using inv that True by (fastforce simp: emu_inv_def Let_def)
      then show ?thesis using ok(6) fr q by (simp add: same_block_def)
    qed
    then show ?thesis using ok fr q s' by simp
  next
    case False
    then have s1: "?s1 = s" by (simp add: emu_free_def)
    have far: "p + m + 4 \<le> q" using emu_alloc_ok [OF inv _ _ n, of 3 q s2] al b s1 by fastforce
    let ?L = "min n (m + 4)"
    have cp: "copy_bytes ?L p q (eh_mem s2) x = (if q \<le> x \<and> x < q + ?L then eh_mem s2 (p + (x - q)) else eh_mem s2 x)" for x
      using far by (intro copy_bytes_at) simp
    have s'': "s' = s2\<lparr>eh_mem := copy_bytes ?L p q (eh_mem s2)\<rparr>" using s' far ok(2) by simp
    have low: "eh_mem s' x = eh_mem s2 x" if "x < q" for x using that by (simp add: s'' cp)
    have "eh_mem s' (q + i) = eh_mem s (p + i)" if "i < min m n" for i
    proof -
      have "p + i < q - 4" using that far by auto
      then have "eh_mem s2 (p + i) = eh_mem s (p + i)" using ok(6) s1 by metis
      then show ?thesis using that by (simp add: s'' cp)
    qed
    moreover have "emu_inv s' (?bs @ [(q, n)])"
      unfolding s'' using ok(4) by (rule emu_inv_writes) (auto simp: cp)
    moreover have "same_block (eh_mem s) (eh_mem s') b" if "b \<in> set bs" "fst b \<noteq> p" for b
    proof -
      have "fst b + snd b + 4 \<le> q \<and> same_block (eh_mem s) (eh_mem s2) b" using bspec [OF ok(5), of b] that s1 by simp
      then show ?thesis using low by (simp add: same_block_def)
    qed
    ultimately show ?thesis using ok(1,3) by blast
  qed
qed

text \<open>An array of elements is zeroed.\<close>

lemma emu_calloc_ok:
  assumes inv: "emu_inv s bs" and n: "nmemb * n < 2 ^ 31" and r: "emu_calloc nmemb n s = Some (p, s')"
  shows "emu_inv s' (bs @ [(p, nmemb * n)]) \<and> p mod 8 = 0 \<and> p + nmemb * n < eh_base s + EMU_HEAP_SIZE \<and>
    (\<forall>i<nmemb * n. eh_mem s' (p + i) = 0) \<and> (\<forall>b\<in>set bs. same_block (eh_mem s) (eh_mem s') b)"
proof -
  let ?n = "nmemb * n"
  have t: "sint (word_of_nat ?n :: u32) = int ?n"
    using n by (simp add: signed_of_nat signed_take_bit_int_eq_self del: of_nat_mult)
  have u: "unat (word_of_int (int ?n) :: u64) = ?n" using n by (simp add: unat_of_nat del: of_nat_mult)
  obtain s1 where al: "emu_alloc_mem ?n (2 ^ 3) s = Some (p, s1)" and s': "s' = s1\<lparr>eh_mem := zero_bytes ?n p (eh_mem s1)\<rparr>"
    using r unfolding emu_calloc_def Let_def t u nat_int EMU_HEAP_ALIGN_def by (auto split: bind_splits)
  have ok: "p mod 8 = 0" "p + ?n < eh_base s + EMU_HEAP_SIZE" "emu_inv s1 (bs @ [(p, ?n)])"
    "\<forall>b\<in>set bs. fst b + snd b + 4 \<le> p \<and> same_block (eh_mem s) (eh_mem s1) b"
    using emu_alloc_ok [OF inv _ _ _ al] n by auto
  have "emu_inv s' (bs @ [(p, ?n)])" unfolding s' using ok(3) by (rule emu_inv_writes) (auto simp: zero_bytes_at)
  moreover have "same_block (eh_mem s) (eh_mem s') b" if "b \<in> set bs" for b
  proof -
    have "fst b + snd b + 4 \<le> p \<and> same_block (eh_mem s) (eh_mem s1) b" using that ok(4) by blast
    then show ?thesis by (simp add: same_block_def s' zero_bytes_at)
  qed
  ultimately show ?thesis using ok(1,2) by (simp add: s' zero_bytes_at)
qed

text \<open>An invalid alignment is refused, and only that.\<close>

lemma emu_memalign_einval:
  "emu_posix_memalign align n s = Some (EINVAL, None, s) \<longleftrightarrow> align mod 8 \<noteq> 0 \<or> (align - 1) AND align \<noteq> 0 \<or> align = 0"
  by (auto simp: emu_posix_memalign_def split: bind_splits)

text \<open>An allocation succeeds as long as a block with the padding for its alignment fits.\<close>

lemma emu_malloc_total:
  assumes inv: "emu_inv s bs" and n: "eh_tail s + load_u32 (eh_mem s) (eh_tail s) + 4 + 7 + n < eh_base s + EMU_HEAP_SIZE"
  shows "\<exists>p s'. emu_malloc n s = Some (p, s')"
proof -
  let ?x = "eh_tail s + load_u32 (eh_mem s) (eh_tail s) + 4"
  let ?r = "?x AND (8 - 1)"
  let ?p = "if ?r \<noteq> 0 then ?x + (8 - ?r) else ?x"
  have "?p \<le> ?x + 7" by auto
  moreover have "eh_base s + EMU_HEAP_SIZE < 2 ^ 63" using inv by (simp add: emu_inv_def Let_def)
  ultimately have "(?p + n) mod 2 ^ 64 < eh_base s + EMU_HEAP_SIZE" using n by (intro le_less_trans [OF mod_less_eq_dividend]) linarith
  then show ?thesis unfolding emu_malloc_def emu_alloc_mem_def Let_def EMU_HEAP_ALIGN_def by (simp only: linorder_not_le [symmetric] if_False) blast
qed

end
