(* ===== verification/Trace_Library.thy ===== *)
theory Trace_Library
  imports Proto
begin

text \<open>
  Small parts of the client library and of the common code: the call context registry
  (src/library/sp\_rtrace\_context.c), the monitoring filter (src/library/sp\_rtrace\_filter.c)
  and the filter field of the report header (src/common/header.c).
\<close>

section \<open>Call contexts\<close>

definition SP_CONTEXT_NAME_SIZE :: nat where "SP_CONTEXT_NAME_SIZE = 32"

text \<open>\<open>sizeof(int)\<close>\<close>

definition SP_CONTEXT_REGISTRY_SIZE :: nat where "SP_CONTEXT_REGISTRY_SIZE = 4"

record context_state =
  context_mask :: u32
  context_index :: nat
  sp_context_registry :: "cstring list"

definition context_init :: context_state where
  "context_init = \<lparr>context_mask = 0, context_index = 0, sp_context_registry = replicate SP_CONTEXT_REGISTRY_SIZE []\<rparr>"

definition sp_context_create :: "cstring \<Rightarrow> context_state \<Rightarrow> u32 \<times> context_state" where
  "sp_context_create name s =
     (if context_index s < SP_CONTEXT_REGISTRY_SIZE - 1 then
        (push_bit (context_index s) 1,
         s\<lparr>sp_context_registry := (sp_context_registry s)[context_index s := take (SP_CONTEXT_NAME_SIZE - 1) name],
           context_index := context_index s + 1\<rparr>)
      else (0, s))"

definition sp_context_enter :: "u32 \<Rightarrow> context_state \<Rightarrow> context_state" where
  "sp_context_enter context_id s =
     (if push_bit (context_index s) 1 > context_id then s\<lparr>context_mask := context_mask s OR context_id\<rparr> else s)"

definition sp_context_exit :: "u32 \<Rightarrow> context_state \<Rightarrow> context_state" where
  "sp_context_exit context_id s =
     (if push_bit (context_index s) 1 > context_id then s\<lparr>context_mask := context_mask s AND NOT context_id\<rparr> else s)"

definition sp_context_get_mask :: "context_state \<Rightarrow> u32" where
  "sp_context_get_mask s = context_mask s"

definition sp_context_get_count :: "context_state \<Rightarrow> nat" where
  "sp_context_get_count s = context_index s"

definition context_ok :: "context_state \<Rightarrow> bool" where
  "context_ok s \<longleftrightarrow> context_index s \<le> 3 \<and> length (sp_context_registry s) = 4"

lemma context_init_ok: "context_ok context_init"
  by (simp add: context_ok_def context_init_def SP_CONTEXT_REGISTRY_SIZE_def)

lemma sp_context_create_ok:
  assumes "context_ok s" "sp_context_create name s = (cid, s')"
  shows "context_ok s'" "cid \<noteq> 0 \<longleftrightarrow> context_index s < 3"
    "cid \<noteq> 0 \<Longrightarrow> cid = 2 ^ context_index s \<and> sp_context_registry s' ! context_index s = take 31 name \<and>
       context_index s' = context_index s + 1"
  using assms
  by (auto simp: sp_context_create_def context_ok_def SP_CONTEXT_REGISTRY_SIZE_def SP_CONTEXT_NAME_SIZE_def push_bit_eq_mult
      numeral_3_eq_3 less_Suc_eq split: if_splits)

text \<open>A registered context can be entered and left; a mask bit that was set stays set for other contexts.\<close>

lemma context_enter_exit:
  assumes "cid < push_bit (context_index s) 1"
  shows "context_mask (sp_context_enter cid s) = context_mask s OR cid"
    "context_mask (sp_context_exit cid (sp_context_enter cid s)) = context_mask s AND NOT cid"
proof -
  show "context_mask (sp_context_enter cid s) = context_mask s OR cid"
    using assms by (simp add: sp_context_enter_def)
  have "(m OR cid) AND NOT cid = m AND NOT cid" for m :: u32
    by (rule bit_eqI) (auto simp: bit_simps)
  then show "context_mask (sp_context_exit cid (sp_context_enter cid s)) = context_mask s AND NOT cid"
    using assms by (simp add: sp_context_enter_def sp_context_exit_def)
qed

section \<open>The monitoring filter\<close>

definition FILTER_TYPE_NONE :: u32 where "FILTER_TYPE_NONE = 0"
definition FILTER_TYPE_ALLOC :: u32 where "FILTER_TYPE_ALLOC = 1"
definition FILTER_TYPE_FREE :: u32 where "FILTER_TYPE_FREE = 2"
definition FILTER_TYPE_ALL :: u32 where "FILTER_TYPE_ALL = FILTER_TYPE_ALLOC OR FILTER_TYPE_FREE"

lemmas filter_type_defs = FILTER_TYPE_NONE_def FILTER_TYPE_ALLOC_def FILTER_TYPE_FREE_def FILTER_TYPE_ALL_def

text \<open>The size set is the stored part of the \<open>int\<close> array, its end mark \<open>-1\<close> included.\<close>

record sp_rtrace_filter =
  sf_type :: u32
  sf_size_set :: "int list option"

definition SIZE_UNDEFINED :: int where "SIZE_UNDEFINED = -1"
definition INITIAL_SIZESET_SIZE :: nat where "INITIAL_SIZESET_SIZE = 32"

definition sp_rtrace_filter_create :: "u32 \<Rightarrow> sp_rtrace_filter" where
  "sp_rtrace_filter_create type = \<lparr>sf_type = type, sf_size_set = None\<rparr>"

text \<open>\<open>atoi\<close>: white space, an optional sign, decimal digits.\<close>

definition is_space :: "byte \<Rightarrow> bool" where
  "is_space b \<longleftrightarrow> b = 32 \<or> (9 \<le> b \<and> b \<le> 13)"

definition is_digit :: "byte \<Rightarrow> bool" where
  "is_digit b \<longleftrightarrow> 48 \<le> b \<and> b \<le> 57"

definition digits_value :: "cstring \<Rightarrow> int" where
  "digits_value s = fold (\<lambda>d v. v * 10 + (int (unat d) - 48)) (takeWhile is_digit s) 0"

definition atoi :: "cstring \<Rightarrow> int" where
  "atoi s = (case dropWhile is_space s of
       [] \<Rightarrow> 0
     | c # cs \<Rightarrow> if c = 45 then - digits_value cs else if c = 43 then digits_value cs else digits_value (c # cs))"

text \<open>\<open>strtok_r\<close> with one delimiter: the non-empty pieces.\<close>

fun tokens_from :: "byte \<Rightarrow> cstring \<Rightarrow> cstring \<Rightarrow> cstring list" where
  "tokens_from d acc [] = (if acc = [] then [] else [rev acc])"
| "tokens_from d acc (c # cs) =
     (if c = d then (if acc = [] then [] else [rev acc]) @ tokens_from d [] cs else tokens_from d (c # acc) cs)"

definition strtok :: "byte \<Rightarrow> cstring \<Rightarrow> cstring list" where
  "strtok d s = tokens_from d [] s"

text \<open>
  The array of the sizes has \<open>cap\<close> bytes; \<open>limit\<close> is the element count the code believes in.  A
  store behind the allocated bytes is \<open>None\<close>.
\<close>

definition store_size :: "nat \<Rightarrow> int list \<Rightarrow> int \<Rightarrow> int list option" where
  "store_size cap xs v = (if 4 * (length xs + 1) \<le> cap then Some (xs @ [v]) else None)"

fun parse_sizes :: "nat \<Rightarrow> nat \<Rightarrow> int list \<Rightarrow> cstring list \<Rightarrow> int list option" where
  "parse_sizes limit cap xs [] = store_size cap xs SIZE_UNDEFINED"
| "parse_sizes limit cap xs (t # ts) =
     (let (limit, cap) = (if length xs + 1 = limit then (2 * limit, 2 * limit) else (limit, cap))
      in case store_size cap xs (atoi t) of None \<Rightarrow> None | Some xs \<Rightarrow> parse_sizes limit cap xs ts)"

definition sp_rtrace_filter_parse_size_opt :: "sp_rtrace_filter \<Rightarrow> cstring option \<Rightarrow> sp_rtrace_filter option" where
  "sp_rtrace_filter_parse_size_opt flt opt =
     (case opt of
        None \<Rightarrow> Some flt
      | Some opt \<Rightarrow> map_option (\<lambda>xs. flt\<lparr>sf_size_set := Some xs\<rparr>)
          (parse_sizes INITIAL_SIZESET_SIZE INITIAL_SIZESET_SIZE [] (strtok 44 opt)))"

text \<open>The search in the size set; reading behind the stored elements is \<open>None\<close>.\<close>

fun size_match :: "int \<Rightarrow> int list \<Rightarrow> bool option" where
  "size_match v [] = None"
| "size_match v (x # xs) = (if x = SIZE_UNDEFINED then Some False else if v = x then Some True else size_match v xs)"

definition sp_rtrace_filter_validate :: "sp_rtrace_filter \<Rightarrow> u32 \<Rightarrow> int \<Rightarrow> bool option" where
  "sp_rtrace_filter_validate flt type res_size =
     (if unat type \<ge> 3 then None
      else if [FILTER_TYPE_NONE, FILTER_TYPE_FREE, FILTER_TYPE_ALLOC] ! unat type AND sf_type flt = 0 then Some False
      else case sf_size_set flt of None \<Rightarrow> Some True | Some xs \<Rightarrow> size_match res_size xs)"

lemma parse_sizes_short:
  "length xs + length ts < 8 \<Longrightarrow> parse_sizes 32 32 xs ts = Some (xs @ map atoi ts @ [SIZE_UNDEFINED])"
  by (induction ts arbitrary: xs) (auto simp: store_size_def)

text \<open>Eight sizes are one too many: the end mark is stored behind the 32 allocated bytes.\<close>

lemma parse_sizes_overflow:
  "length xs \<le> 8 \<Longrightarrow> length xs + length ts \<ge> 8 \<Longrightarrow> parse_sizes 32 32 xs ts = None"
proof (induction ts arbitrary: xs)
  case (Cons t ts)
  then show ?case by (cases "length xs = 8") (auto simp: store_size_def)
qed (auto simp: store_size_def)

lemma size_match_stored:
  "SIZE_UNDEFINED \<notin> set xs \<Longrightarrow> size_match v (xs @ [SIZE_UNDEFINED]) = Some (v \<in> set xs)"
  by (induction xs) auto

lemma filter_validate_ok:
  assumes "length (strtok 44 opt) < 8" "SIZE_UNDEFINED \<notin> atoi ` set (strtok 44 opt)" "type = 1 \<or> type = 2"
  shows "\<exists>f. sp_rtrace_filter_parse_size_opt (sp_rtrace_filter_create ft) (Some opt) = Some f \<and>
    sp_rtrace_filter_validate f type v =
      Some ((if type = 1 then FILTER_TYPE_FREE else FILTER_TYPE_ALLOC) AND ft \<noteq> 0 \<and> v \<in> atoi ` set (strtok 44 opt))"
  using assms parse_sizes_short [of "[]" "strtok 44 opt"] size_match_stored [of "map atoi (strtok 44 opt)" v]
  by (auto simp: sp_rtrace_filter_parse_size_opt_def INITIAL_SIZESET_SIZE_def sp_rtrace_filter_create_def
      sp_rtrace_filter_validate_def)

section \<open>The filter field of the report header\<close>

definition filter_tags :: "cstring list" where
  "filter_tags = [str ''leaks'', str ''compress'', str ''resolve'']"

definition FILTER_MASK_LEAKS :: u32 where "FILTER_MASK_LEAKS = 1"
definition FILTER_MASK_COMPRESS :: u32 where "FILTER_MASK_COMPRESS = 2"
definition FILTER_MASK_RESOLVE :: u32 where "FILTER_MASK_RESOLVE = 4"
definition FILTER_MASK_RESET :: u32 where "FILTER_MASK_RESET = NOT FILTER_MASK_COMPRESS"

definition has_substring :: "cstring \<Rightarrow> cstring \<Rightarrow> bool" where
  "has_substring s pat = list_ex (\<lambda>n. take (length pat) (drop n s) = pat) [0..<Suc (length s)]"

definition header_get_filter :: "cstring option \<Rightarrow> u32" where
  "header_get_filter field =
     (case field of
        None \<Rightarrow> 0
      | Some s \<Rightarrow> fold (\<lambda>i m. if has_substring s (filter_tags ! i) then m OR push_bit i 1 else m) [0..<3] 0)"

definition header_set_filter :: "u32 \<Rightarrow> cstring option" where
  "header_set_filter m =
     (if m = 0 then None
      else Some (fold (\<lambda>i text. if bit m i then text @ (if text = [] then [] else [124]) @ filter_tags ! i else text) [0..<3] []))"

lemma mask_cases: "(m :: u32) < 8 \<Longrightarrow> m \<in> {0, 1, 2, 3, 4, 5, 6, 7}"
proof -
  assume "m < 8"
  then have "unat m < 8" by (simp add: word_less_nat_alt)
  then have "unat m \<in> {0, 1, 2, 3, 4, 5, 6, 7}" by auto
  then show ?thesis by (auto simp: word_unat_eq_iff)
qed

text \<open>The header field gives back the mask it was made from.\<close>

lemma header_filter_roundtrip: "m < 8 \<Longrightarrow> header_get_filter (header_set_filter m) = m"
  by (drule mask_cases) (elim insertE; simp add: header_get_filter_def header_set_filter_def filter_tags_def str_def
      has_substring_def upt_rec [of _ "numeral _"] bit_simps)

end
