(* ===== verification/Module_Text.thy ===== *)
theory Module_Text
  imports Trace_Library "HOL-Library.Signed_Division"
begin

text \<open>
  The text routines of src/modules/sp\_rtrace\_main.c: the tracing module can not use functions of the
  C library that allocate memory, so it copies and converts texts itself.
\<close>

section \<open>Copying and numbers\<close>

text \<open>\<open>stpncpy\<close> is the text behind \<open>dst\<close> afterwards; the source function returns the pointer to its end.\<close>

fun stpncpy :: "cstring \<Rightarrow> int \<Rightarrow> cstring" where
  "stpncpy [] n = []"
| "stpncpy (c # src) n = (if 0 < n - 1 then c # stpncpy src (n - 1) else [])"

text \<open>The value of \<open>_atoi\<close> is a 32 bit \<open>int\<close>.\<close>

fun atoi_from :: "u32 \<Rightarrow> cstring \<Rightarrow> u32" where
  "atoi_from value [] = value"
| "atoi_from value (c # s) = (if 48 \<le> c \<and> c \<le> 57 then atoi_from (value * 10 + ucast c - 48) s else value)"

definition main_atoi :: "cstring \<Rightarrow> int" where
  "main_atoi s = sint (atoi_from 0 s)"

text \<open>The digits are produced into a buffer of 16 characters, the last digit first.\<close>

function itoa_digits :: "int \<Rightarrow> byte list" where
  "itoa_digits value = word_of_int (value smod 10 + 48) #
     (if value sdiv 10 = 0 then [] else itoa_digits (value sdiv 10))"
  by pat_completeness auto
termination
proof (relation "measure (\<lambda>v. nat \<bar>v\<bar>)", goal_cases)
  case (2 v)
  then have "\<bar>v\<bar> div 10 < \<bar>v\<bar>" by (auto simp: signed_divide_int_def)
  then have "\<bar>v sdiv 10\<bar> < \<bar>v\<bar>"
    by (auto simp: signed_divide_int_def abs_mult sgn_if)
  then show ?case by simp
qed simp

declare itoa_digits.simps [simp del]

definition itoa :: "int \<Rightarrow> cstring" where
  "itoa value = rev (itoa_digits value)"

lemma stpncpy_take: "stpncpy src n = take (nat (n - 1)) src"
proof (induction src n rule: stpncpy.induct)
  case (2 c src n)
  show ?case
  proof (cases "0 < n - 1")
    case True
    then have "nat (n - 1) = Suc (nat (n - 1 - 1))" by linarith
    with True 2 show ?thesis by simp
  qed simp
qed simp

lemma itoa_digits_nonneg:
  "0 \<le> v \<Longrightarrow> itoa_digits v = word_of_int (v mod 10 + 48) # (if v < 10 then [] else itoa_digits (v div 10))"
  by (subst itoa_digits.simps) (auto simp: signed_divide_int_def signed_modulo_int_def sgn_if zdiv_eq_0_iff)

lemma digit_value:
  assumes "0 \<le> d" "d < 10"
  shows "48 \<le> (word_of_int (d + 48) :: byte)" "(word_of_int (d + 48) :: byte) \<le> 57"
    "(ucast (word_of_int (d + 48) :: byte) :: u32) = word_of_int d + 48"
proof -
  have d: "d = 0 \<or> d = 1 \<or> d = 2 \<or> d = 3 \<or> d = 4 \<or> d = 5 \<or> d = 6 \<or> d = 7 \<or> d = 8 \<or> d = 9"
    using assms by presburger
  show "48 \<le> (word_of_int (d + 48) :: byte)" "(word_of_int (d + 48) :: byte) \<le> 57"
    "(ucast (word_of_int (d + 48) :: byte) :: u32) = word_of_int d + 48"
    using d by auto
qed

lemma atoi_itoa_digits:
  "0 \<le> v \<Longrightarrow> atoi_from 0 (rev (itoa_digits v) @ s) = atoi_from (word_of_int v) s"
proof (induction v arbitrary: s rule: itoa_digits.induct)
  case (1 v)
  have d: "0 \<le> v mod 10" "v mod 10 < 10" by simp_all
  show ?case
  proof (cases "v < 10")
    case True
    with 1 d digit_value [OF d] show ?thesis by (simp add: itoa_digits_nonneg)
  next
    case False
    have "v sdiv 10 \<noteq> 0" "v sdiv 10 = v div 10"
      using 1 False by (auto simp: signed_divide_int_def sgn_if zdiv_eq_0_iff)
    then have IH: "atoi_from 0 (rev (itoa_digits (v div 10)) @ s) = atoi_from (word_of_int (v div 10)) s" for s
      using 1 False by (metis pos_imp_zdiv_nonneg_iff zero_less_numeral)
    have "(word_of_int v :: u32) = word_of_int (v div 10) * 10 + word_of_int (v mod 10)"
      by (metis div_mult_mod_eq word_of_int_numeral wi_hom_add wi_hom_mult)
    with 1 False digit_value [OF d] IH show ?thesis by (simp add: itoa_digits_nonneg)
  qed
qed

lemma atoi_itoa:
  assumes "0 \<le> v" "v < 2147483648"
  shows "main_atoi (itoa v) = v"
proof -
  have "sint (word_of_int v :: u32) = v"
    using assms by (simp add: sint_uint uint_word_of_int signed_take_bit_int_eq_self_iff take_bit_int_eq_self)
  then show ?thesis using atoi_itoa_digits [OF assms(1), of "[]"] by (simp add: main_atoi_def itoa_def)
qed

lemma itoa_length: "0 \<le> v \<Longrightarrow> v < 10 ^ n \<Longrightarrow> 0 < n \<Longrightarrow> length (itoa v) \<le> n"
proof (induction n arbitrary: v)
  case (Suc n)
  show ?case
  proof (cases "v < 10")
    case False
    have "v div 10 < 10 ^ n" using Suc.prems by simp
    moreover have "0 < n" using Suc.prems False by (cases n) auto
    moreover note False
    ultimately have *: "v div 10 < 10 ^ n" "0 < n" "\<not> v < 10" by auto
    then show ?thesis using Suc.IH [of "v div 10"] Suc.prems by (simp add: itoa_def itoa_digits_nonneg)
  qed (use Suc.prems in \<open>simp add: itoa_def itoa_digits_nonneg\<close>)
qed simp

section \<open>Relative paths\<close>

text \<open>
  \<open>calc_relative_path from to\<close> after the real paths have been determined; both texts end with their
  terminating zero byte.  \<open>None\<close> is a read behind the end of a text.
\<close>

definition SLASH :: byte where "SLASH = 47"
definition DOT :: byte where "DOT = 46"

fun common_part :: "byte list \<Rightarrow> byte list \<Rightarrow> byte list \<Rightarrow> int \<Rightarrow> (byte list \<times> byte list \<times> byte list \<times> int) option" where
  "common_part (f # fs) (t # ts) best n =
     (if f = t then (if t = SLASH then common_part fs ts ts (n + 1) else common_part fs ts best n)
      else Some (f # fs, t # ts, best, n))"
| "common_part _ _ best n = None"

definition calc_relative_path :: "cstring option \<Rightarrow> cstring option \<Rightarrow> cstring option" where
  "calc_relative_path path_from path_to = do {
     t \<leftarrow> path_to;
     case path_from of
       None \<Rightarrow> Some t
     | Some f \<Rightarrow> do {
         (ptr_from, ptr_to, best, depth_match) \<leftarrow> common_part (f @ [0]) (t @ [0]) [] (-1);
         let (best, depth_match, depth) =
           (if hd ptr_from = 0 \<and> hd ptr_to = SLASH then (tl ptr_to, depth_match + 1, 0)
            else (best, depth_match, 1));
         if depth_match \<le> 0 then Some t
         else do {
           let depth = depth + length (filter (\<lambda>c. c = SLASH) (tl ptr_from));
           Some (concat (replicate depth [DOT, DOT, SLASH]) @ cstr best) } } }"

text \<open>
  Real paths are sequences of components: \<open>/a/b/c\<close>.  The path relative to a directory goes up to the
  last common directory and down from there.
\<close>

definition path_of :: "cstring list \<Rightarrow> cstring" where
  "path_of cs = concat (map (\<lambda>c. SLASH # c) cs)"

definition join_path :: "cstring list \<Rightarrow> cstring" where
  "join_path cs = tl (path_of cs)"

definition is_component :: "cstring \<Rightarrow> bool" where
  "is_component c \<longleftrightarrow> c \<noteq> [] \<and> SLASH \<notin> set c \<and> is_cstring c"

definition up_path :: "nat \<Rightarrow> cstring" where
  "up_path n = concat (replicate n [DOT, DOT, SLASH])"

lemma path_of_simps [simp]: "path_of [] = []" "path_of (c # cs) = SLASH # c @ path_of cs"
  by (simp_all add: path_of_def)

lemma join_path_Cons [simp]: "join_path (c # cs) = c @ path_of cs"
  by (simp add: join_path_def)

lemma path_of_cstring: "\<forall>c\<in>set cs. is_component c \<Longrightarrow> is_cstring (path_of cs)"
  by (induction cs) (auto simp: is_component_def is_cstring_def SLASH_def)

lemma count_slashes: "\<forall>c\<in>set cs. is_component c \<Longrightarrow> length (filter (\<lambda>c. c = SLASH) (path_of cs)) = length cs"
proof (induction cs)
  case (Cons c cs)
  then have "filter (\<lambda>c. c = SLASH) c = []" by (auto simp: is_component_def filter_empty_conv)
  with Cons show ?case by simp
qed simp

lemma common_part_text: "SLASH \<notin> set c \<Longrightarrow> common_part (c @ fs) (c @ ts) best n = common_part fs ts best n"
  by (induction c) auto

lemma common_part_dirs:
  "\<forall>c\<in>set cs. is_component c \<Longrightarrow>
   common_part (path_of cs @ SLASH # fs) (path_of cs @ SLASH # ts) best n = common_part fs ts ts (n + int (length cs) + 1)"
proof (induction cs arbitrary: best n)
  case (Cons c cs)
  then show ?case by (simp add: common_part_text is_component_def algebra_simps)
qed simp

lemma common_part_differ:
  assumes "f \<noteq> t" "SLASH \<notin> set f" "hd fs \<notin> set t" "hd ts \<notin> set f" "fs \<noteq> []" "ts \<noteq> []"
  shows "\<exists>p f' t'. f = p @ f' \<and> t = p @ t' \<and> common_part (f @ fs) (t @ ts) best n = Some (f' @ fs, t' @ ts, best, n) \<and>
    (f' = [] \<or> t' = [] \<or> hd f' \<noteq> hd t')"
proof -
  obtain p f' t' where p: "f = p @ f'" "t = p @ t'" "f' = [] \<or> t' = [] \<or> hd f' \<noteq> hd t'"
    using longest_common_prefix [of f t] by blast
  then have "common_part (f @ fs) (t @ ts) best n = common_part (f' @ fs) (t' @ ts) best n"
    using assms(2) by (simp add: common_part_text)
  also have "\<dots> = Some (f' @ fs, t' @ ts, best, n)"
    using p assms by (cases f'; cases t'; cases fs; cases ts) auto
  finally show ?thesis using p by blast
qed

text \<open>The paths of a directory and of a file that differ first in the components \<open>f\<close> and \<open>t\<close>.\<close>

lemma calc_relative_path_differ:
  assumes "\<forall>c\<in>set (cs @ f # fs @ t # ts). is_component c" "cs \<noteq> []" "f \<noteq> t"
  shows "calc_relative_path (Some (path_of (cs @ f # fs))) (Some (path_of (cs @ t # ts))) =
    Some (up_path (if prefix f t \<and> fs \<noteq> [] then length fs else length fs + 1) @ join_path (t # ts))"
proof -
  let ?fs = "path_of fs @ [0]" and ?ts = "path_of ts @ [0]"
  have hd: "hd ?fs \<in> {SLASH, 0}" "hd ?ts \<in> {SLASH, 0}" by (cases fs; simp) (cases ts; simp)
  have ft: "is_component f" "is_component t" using assms(1) by auto
  then have "hd ?fs \<notin> set t" "hd ?ts \<notin> set f" using hd by (auto simp: is_component_def is_cstring_def)
  then have "\<exists>p f' t'. f = p @ f' \<and> t = p @ t' \<and>
      common_part (f @ ?fs) (t @ ?ts) (t @ ?ts) (int (length cs)) = Some (f' @ ?fs, t' @ ?ts, t @ ?ts, int (length cs)) \<and>
      (f' = [] \<or> t' = [] \<or> hd f' \<noteq> hd t')"
    using assms(3) ft by (intro common_part_differ) (auto simp: is_component_def)
  then obtain p f' t' where p: "f = p @ f'" "t = p @ t'"
    "common_part (f @ ?fs) (t @ ?ts) (t @ ?ts) (int (length cs)) = Some (f' @ ?fs, t' @ ?ts, t @ ?ts, int (length cs))"
    "f' = [] \<or> t' = [] \<or> hd f' \<noteq> hd t'" by blast
  then have cp: "common_part (path_of (cs @ f # fs) @ [0]) (path_of (cs @ t # ts) @ [0]) [] (-1) =
      Some (f' @ ?fs, t' @ ?ts, t @ ?ts, int (length cs))"
    using common_part_dirs [of cs "f @ ?fs" "t @ ?ts" "[]" "-1"] assms(1) by (simp add: path_of_def)
  have cstr: "cstr (t @ ?ts) = t @ path_of ts"
    using cstr_append_zeros [of "t @ path_of ts" 1] ft path_of_cstring [of ts] assms(1)
    by (auto simp: is_component_def is_cstring_def)
  have hdp: "\<not> (hd (f' @ ?fs) = 0 \<and> hd (t' @ ?ts) = SLASH)"
    using p(1,2) ft assms(3) by (cases f'; cases t') (auto simp: is_component_def is_cstring_def)
  have slashes: "length (filter (\<lambda>c. c = SLASH) (tl (f' @ ?fs))) = (if f' = [] \<and> fs \<noteq> [] then length fs - 1 else length fs)"
  proof (cases f')
    case Nil
    show ?thesis
    proof (cases fs)
      case (Cons c fs')
      then have "filter (\<lambda>c. c = SLASH) c = []" using assms(1) by (auto simp: is_component_def filter_empty_conv)
      with Nil Cons count_slashes [of fs'] assms(1) show ?thesis by (simp add: SLASH_def)
    qed (simp add: Nil SLASH_def)
  next
    case (Cons a f1)
    then have "filter (\<lambda>c. c = SLASH) f1 = []" using p(1) ft by (auto simp: is_component_def filter_empty_conv)
    with Cons count_slashes [of fs] assms(1) show ?thesis by (simp add: SLASH_def)
  qed
  have pre: "f' = [] \<longleftrightarrow> prefix f t"
    using p assms(3) by (cases f'; cases t') (auto simp: is_component_def prefix_def)
  have up: "1 + length (filter (\<lambda>c. c = SLASH) (tl (f' @ ?fs))) = (if prefix f t \<and> fs \<noteq> [] then length fs else length fs + 1)"
    unfolding slashes pre by auto
  have "\<not> int (length cs) \<le> 0" using assms(2) by simp
  with cp hdp show ?thesis
    unfolding calc_relative_path_def up [symmetric] by (auto simp: Let_def cstr up_path_def)
qed

lemma calc_relative_path_below:
  assumes "\<forall>c\<in>set (cs @ t # ts). is_component c" "cs \<noteq> []"
  shows "calc_relative_path (Some (path_of cs)) (Some (path_of (cs @ t # ts))) = Some (join_path (t # ts))"
proof -
  obtain ds d where cs: "cs = ds @ [d]" using assms(2) by (metis rev_exhaust)
  have d: "SLASH \<notin> set d" "is_component d" using assms(1) cs by (auto simp: is_component_def)
  have cp: "common_part (path_of cs @ [0]) (path_of (cs @ t # ts) @ [0]) [] (-1) =
      Some ([0], SLASH # t @ path_of ts @ [0], d @ SLASH # t @ path_of ts @ [0], int (length ds))"
    using common_part_dirs [of ds "d @ [0]" "d @ SLASH # t @ path_of ts @ [0]" "[]" "-1"] assms(1) cs
      common_part_text [OF d(1), of "[0]" "SLASH # t @ path_of ts @ [0]"] by (simp add: path_of_def SLASH_def)
  have "cstr (t @ path_of ts @ [0]) = t @ path_of ts"
    using cstr_append_zeros [of "t @ path_of ts" 1] path_of_cstring [of ts] assms(1)
    by (auto simp: is_component_def is_cstring_def)
  with cp show ?thesis by (simp add: calc_relative_path_def)
qed

text \<open>A directory and a file with the same path: the comparison does not stop at the end of the texts.\<close>

lemma calc_relative_path_same: "calc_relative_path (Some p) (Some p) = None"
proof -
  have "common_part q q best n = None" for q best n
    by (induction q arbitrary: best n) auto
  then show ?thesis by (simp add: calc_relative_path_def)
qed

end
