(* ===== verification/Double_List.thy ===== *)
theory Double_List
  imports Prelude
begin

text \<open>
  The intrusive double linked list of src/common/dlist.c and dlist.h, on an explicit heap of
  \<open>next\<close> and \<open>prev\<close> fields: the container, insertion, ordered insertion, lookup, removal,
  traversal with callbacks, and the in-place merge sort.  Loops that follow \<open>next\<close> pointers are
  option-valued: \<open>None\<close> is a loop that does not end (a cyclic heap).  The abstraction relation
  \<open>dlist_rep\<close> connects a list container with the sequence of its nodes; the refinement lemmas
  say that the pointer code implements the operations on sequences.
\<close>

section \<open>The data structures\<close>

text \<open>The link fields of all nodes (\<open>dlist_node_t\<close>).\<close>

record dheap =
  d_next :: "ptr \<Rightarrow> ptr"
  d_prev :: "ptr \<Rightarrow> ptr"

text \<open>The container (\<open>dlist_t\<close>): head is the newest (last), tail the oldest (first) node.\<close>

record dlist =
  dl_head :: ptr
  dl_tail :: ptr

definition set_next :: "ptr \<Rightarrow> ptr \<Rightarrow> dheap \<Rightarrow> dheap" where
  "set_next p v h = h\<lparr>d_next := (d_next h)(p := v)\<rparr>"

definition set_prev :: "ptr \<Rightarrow> ptr \<Rightarrow> dheap \<Rightarrow> dheap" where
  "set_prev p v h = h\<lparr>d_prev := (d_prev h)(p := v)\<rparr>"

definition dlist_first :: "dlist \<Rightarrow> ptr" where
  "dlist_first l = dl_tail l"

definition dlist_last :: "dlist \<Rightarrow> ptr" where
  "dlist_last l = dl_head l"

section \<open>Operations\<close>

definition dlist_init :: dlist where
  "dlist_init = \<lparr>dl_head = NULL, dl_tail = NULL\<rparr>"

text \<open>An array of containers, cleared by \<open>memset\<close>; an array is a function on its indices.\<close>

definition dlist_init_array :: "(nat \<Rightarrow> dlist) \<Rightarrow> nat \<Rightarrow> (nat \<Rightarrow> dlist)" where
  "dlist_init_array ls n = (\<lambda>i. if i < n then \<lparr>dl_head = NULL, dl_tail = NULL\<rparr> else ls i)"

text \<open>A fresh node \<open>p\<close>, as returned by malloc, with both links cleared.\<close>

definition dlist_create_node :: "ptr \<Rightarrow> dheap \<Rightarrow> dheap" where
  "dlist_create_node p h = set_prev p NULL (set_next p NULL h)"

definition dlist_add :: "dheap \<Rightarrow> dlist \<Rightarrow> ptr \<Rightarrow> dheap \<times> dlist" where
  "dlist_add h l node =
     (let (h, l) = (if dl_head l \<noteq> NULL then (set_next (dl_head l) node h, l)
                    else (h, l\<lparr>dl_tail := node\<rparr>));
          h = set_prev node (dl_head l) h;
          h = set_next node NULL h
      in (h, l\<lparr>dl_head := node\<rparr>))"

partial_function (option) add_sorted_seek :: "dheap \<Rightarrow> (ptr \<Rightarrow> ptr \<Rightarrow> int) \<Rightarrow> ptr \<Rightarrow> ptr \<Rightarrow> ptr option" where
  "add_sorted_seek h compare node cur =
     (if d_next h cur \<noteq> NULL \<and> compare node (d_next h cur) > 0
      then add_sorted_seek h compare node (d_next h cur) else Some cur)"

definition dlist_add_sorted ::
    "dheap \<Rightarrow> dlist \<Rightarrow> ptr \<Rightarrow> (ptr \<Rightarrow> ptr \<Rightarrow> int) \<Rightarrow> (dheap \<times> dlist) option" where
  "dlist_add_sorted h l node compare =
     (if dl_tail l = NULL \<or> compare node (dl_tail l) < 0 then
        (let h = set_next node (dl_tail l) h;
             h = set_prev node NULL h;
             (h, l) = (if dl_head l = NULL then (h, l\<lparr>dl_head := node\<rparr>)
                       else (set_prev (dl_tail l) node h, l))
         in Some (h, l\<lparr>dl_tail := node\<rparr>))
      else Option.bind (add_sorted_seek h compare node (dl_tail l)) (\<lambda>cur.
        (let (h, l) = (if d_next h cur = NULL then (h, l\<lparr>dl_head := node\<rparr>)
                       else (set_prev (d_next h cur) node h, l));
             h = set_next node (d_next h cur) h;
             h = set_next cur node h;
             h = set_prev node cur h
         in Some (h, l))))"

partial_function (option) add_sorted_r_seek :: "dheap \<Rightarrow> (ptr \<Rightarrow> ptr \<Rightarrow> int) \<Rightarrow> ptr \<Rightarrow> ptr \<Rightarrow> ptr option" where
  "add_sorted_r_seek h compare node cur =
     (if d_prev h cur \<noteq> NULL \<and> compare node (d_prev h cur) < 0
      then add_sorted_r_seek h compare node (d_prev h cur) else Some cur)"

definition dlist_add_sorted_r ::
    "dheap \<Rightarrow> dlist \<Rightarrow> ptr \<Rightarrow> (ptr \<Rightarrow> ptr \<Rightarrow> int) \<Rightarrow> (dheap \<times> dlist) option" where
  "dlist_add_sorted_r h l node compare =
     (if dl_head l = NULL \<or> compare node (dl_head l) \<ge> 0 then
        (let h = set_prev node (dl_head l) h;
             h = set_next node NULL h;
             (h, l) = (if dl_tail l = NULL then (h, l\<lparr>dl_tail := node\<rparr>)
                       else (set_next (dl_head l) node h, l))
         in Some (h, l\<lparr>dl_head := node\<rparr>))
      else Option.bind (add_sorted_r_seek h compare node (dl_head l)) (\<lambda>cur.
        (let (h, l) = (if d_prev h cur = NULL then (h, l\<lparr>dl_tail := node\<rparr>)
                       else (set_next (d_prev h cur) node h, l));
             h = set_prev node (d_prev h cur) h;
             h = set_prev cur node h;
             h = set_next node cur h
         in Some (h, l))))"

definition compare_pointers :: "ptr \<Rightarrow> ptr \<Rightarrow> int" where
  "compare_pointers data1 data2 = int data1 - int data2"

partial_function (option) find_loop :: "dheap \<Rightarrow> (ptr \<Rightarrow> 'd \<Rightarrow> int) \<Rightarrow> 'd \<Rightarrow> ptr \<Rightarrow> ptr option" where
  "find_loop h compare data node =
     (if node \<noteq> NULL \<and> compare node data \<noteq> 0
      then find_loop h compare data (d_next h node) else Some node)"

text \<open>The callback is an optional argument in C: \<open>dlist_find_ptr\<close> is the call with a null callback.\<close>

definition dlist_find :: "dheap \<Rightarrow> dlist \<Rightarrow> 'd \<Rightarrow> (ptr \<Rightarrow> 'd \<Rightarrow> int) \<Rightarrow> ptr option" where
  "dlist_find h l data compare = find_loop h compare data (dlist_first l)"

definition dlist_find_ptr :: "dheap \<Rightarrow> dlist \<Rightarrow> ptr \<Rightarrow> ptr option" where
  "dlist_find_ptr h l data = dlist_find h l data compare_pointers"

definition dlist_remove :: "dheap \<Rightarrow> dlist \<Rightarrow> ptr \<Rightarrow> dheap \<times> dlist" where
  "dlist_remove h l node =
     (let (h, l) = (if d_prev h node \<noteq> NULL then (set_next (d_prev h node) (d_next h node) h, l)
                    else (h, l\<lparr>dl_tail := d_next h node\<rparr>));
          (h, l) = (if d_next h node \<noteq> NULL then (set_prev (d_next h node) (d_prev h node) h, l)
                    else (h, l\<lparr>dl_head := d_prev h node\<rparr>))
      in (h, l))"

text \<open>
  Traversal.  The callback may change the state that holds the links, so the state is threaded:
  \<open>links s\<close> are the links of state \<open>s\<close>.  The successor is read before the callback runs.
\<close>

partial_function (option) foreach_loop :: "('s \<Rightarrow> dheap) \<Rightarrow> (ptr \<Rightarrow> 's \<Rightarrow> 's) \<Rightarrow> ptr \<Rightarrow> 's \<Rightarrow> 's option" where
  "foreach_loop links do_what node s =
     (if node = NULL then Some s
      else foreach_loop links do_what (d_next (links s) node) (do_what node s))"

definition dlist_foreach :: "('s \<Rightarrow> dheap) \<Rightarrow> dlist \<Rightarrow> (ptr \<Rightarrow> 's \<Rightarrow> 's) \<Rightarrow> 's \<Rightarrow> 's option" where
  "dlist_foreach links l do_what s = foreach_loop links do_what (dlist_first l) s"

definition dlist_foreach2 ::
    "('s \<Rightarrow> dheap) \<Rightarrow> dlist \<Rightarrow> (ptr \<Rightarrow> 'd \<Rightarrow> 's \<Rightarrow> 's) \<Rightarrow> 'd \<Rightarrow> 's \<Rightarrow> 's option" where
  "dlist_foreach2 links l do_what data s =
     foreach_loop links (\<lambda>node. do_what node data) (dlist_first l) s"

partial_function (option) foreach_in_loop ::
    "('s \<Rightarrow> dheap) \<Rightarrow> (ptr \<Rightarrow> 's \<Rightarrow> bool) \<Rightarrow> (ptr \<Rightarrow> 's \<Rightarrow> 's) \<Rightarrow> ptr \<Rightarrow> 's \<Rightarrow> (ptr \<times> 's) option" where
  "foreach_in_loop links do_while do_what from s =
     (if from \<noteq> NULL \<and> do_while from s
      then foreach_in_loop links do_while do_what (d_next (links s) from) (do_what from s)
      else Some (from, s))"

definition dlist_foreach_in ::
    "('s \<Rightarrow> dheap) \<Rightarrow> dlist \<Rightarrow> ptr \<Rightarrow> (ptr \<Rightarrow> 's \<Rightarrow> bool) \<Rightarrow> (ptr \<Rightarrow> 's \<Rightarrow> 's) \<Rightarrow> 's \<Rightarrow> (ptr \<times> 's) option" where
  "dlist_foreach_in links l from do_while do_what s =
     (let from = (if from = NULL then dlist_first l else from)
      in foreach_in_loop links do_while do_what from s)"

definition dlist_foreach2_in ::
    "('s \<Rightarrow> dheap) \<Rightarrow> dlist \<Rightarrow> ptr \<Rightarrow> (ptr \<Rightarrow> 'w \<Rightarrow> 's \<Rightarrow> bool) \<Rightarrow> 'w \<Rightarrow>
     (ptr \<Rightarrow> 'd \<Rightarrow> 's \<Rightarrow> 's) \<Rightarrow> 'd \<Rightarrow> 's \<Rightarrow> (ptr \<times> 's) option" where
  "dlist_foreach2_in links l from do_while data_while do_what data_what s =
     (let from = (if from = NULL then dlist_first l else from)
      in foreach_in_loop links (\<lambda>node. do_while node data_while) (\<lambda>node. do_what node data_what) from s)"

text \<open>\<open>free_node\<close> may be null; otherwise it is called for every node.  The nodes are not unlinked.\<close>

definition dlist_free :: "('s \<Rightarrow> dheap) \<Rightarrow> dlist \<Rightarrow> (ptr \<Rightarrow> 's \<Rightarrow> 's) option \<Rightarrow> 's \<Rightarrow> ('s \<times> dlist) option" where
  "dlist_free links l free_node s =
     (case free_node of
        Some f \<Rightarrow> map_option (\<lambda>s. (s, dlist_init)) (dlist_foreach links l f s)
      | None \<Rightarrow> Some (s, dlist_init))"

section \<open>Merge sort\<close>

text \<open>A list segment (\<open>segment_t\<close>).\<close>

record segment =
  s_head :: ptr
  s_tail :: ptr

text \<open>
  The two inner loops of \<open>merge_segments\<close>.  \<open>Inl\<close> is the \<open>return\<close> inside the loop (with the
  final heap), \<open>Inr\<close> the node at which the loop condition fails.
\<close>

partial_function (option) merge_find1 ::
    "dheap \<Rightarrow> (ptr \<Rightarrow> ptr \<Rightarrow> int) \<Rightarrow> segment \<Rightarrow> ptr \<Rightarrow> ptr \<Rightarrow> (dheap + ptr) option" where
  "merge_find1 h compare segment1 node1 node2 =
     (if compare node1 node2 \<le> 0 then
        (if node1 = s_head segment1 then Some (Inl (set_prev node2 node1 (set_next node1 node2 h)))
         else merge_find1 h compare segment1 (d_next h node1) node2)
      else Some (Inr node1))"

partial_function (option) merge_find2 ::
    "dheap \<Rightarrow> (ptr \<Rightarrow> ptr \<Rightarrow> int) \<Rightarrow> segment \<Rightarrow> ptr \<Rightarrow> ptr \<Rightarrow> (dheap + ptr) option" where
  "merge_find2 h compare segment2 node1 node2 =
     (if compare node2 node1 < 0 then
        (if node2 = s_head segment2 then Some (Inl (set_next node2 node1 (set_prev node1 node2 h)))
         else merge_find2 h compare segment2 node1 (d_next h node2))
      else Some (Inr node2))"

partial_function (option) merge_loop ::
    "dheap \<Rightarrow> (ptr \<Rightarrow> ptr \<Rightarrow> int) \<Rightarrow> segment \<Rightarrow> segment \<Rightarrow> ptr \<Rightarrow> ptr \<Rightarrow> dheap option" where
  "merge_loop h compare segment1 segment2 node1 node2 =
     Option.bind (merge_find1 h compare segment1 node1 node2) (\<lambda>r. case r of
       Inl h' \<Rightarrow> Some h'
     | Inr node1 \<Rightarrow>
         (let h = (if node1 \<noteq> s_tail segment1 then set_next (d_prev h node1) node2 h else h);
              h = set_prev node2 (d_prev h node1) h
          in Option.bind (merge_find2 h compare segment2 node1 node2) (\<lambda>r. case r of
               Inl h' \<Rightarrow> Some h'
             | Inr node2 \<Rightarrow>
                 (let h = set_prev node1 (d_prev h node2) h;
                      h = set_next (d_prev h node1) node1 h
                  in merge_loop h compare segment1 segment2 node1 node2))))"

definition merge_segments ::
    "dheap \<Rightarrow> segment \<Rightarrow> segment \<Rightarrow> (ptr \<Rightarrow> ptr \<Rightarrow> int) \<Rightarrow> dheap option" where
  "merge_segments h segment1 segment2 compare =
     (let node1 = s_tail segment1;
          node2 = s_tail segment2;
          h = set_next (s_head segment1) (s_tail segment2) h;
          h = set_prev (s_tail segment2) (s_head segment1) h
      in merge_loop h compare segment1 segment2 node1 node2)"

text \<open>The loop that finds the middle node.\<close>

partial_function (option) find_middle :: "dheap \<Rightarrow> segment \<Rightarrow> ptr \<Rightarrow> ptr \<Rightarrow> ptr option" where
  "find_middle h segment node1 node2 =
     (if node2 \<noteq> s_head segment then
        (let node1 = d_next h node1; node2 = d_next h node2
         in if node2 = s_head segment then Some node1
            else find_middle h segment node1 (d_next h node2))
      else Some node1)"

partial_function (option) dlist_sort_segment ::
    "dheap \<Rightarrow> segment \<Rightarrow> (ptr \<Rightarrow> ptr \<Rightarrow> int) \<Rightarrow> (dheap \<times> segment) option" where
  "dlist_sort_segment h segment compare =
     (if s_tail segment = s_head segment then Some (h, segment)
      else if d_next h (s_tail segment) = s_head segment then
        (if compare (s_tail segment) (s_head segment) > 0 then
           (let segment = segment\<lparr>s_head := s_tail segment\<rparr>;
                segment = segment\<lparr>s_tail := d_next h (s_head segment)\<rparr>;
                h = set_next (s_tail segment) (s_head segment) h;
                h = set_prev (s_head segment) (s_tail segment) h
            in Some (h, segment))
         else Some (h, segment))
      else
        Option.bind (find_middle h segment (s_tail segment) (s_tail segment)) (\<lambda>node1.
        Option.bind (dlist_sort_segment h \<lparr>s_head = d_prev h node1, s_tail = s_tail segment\<rparr> compare)
          (\<lambda>(h, segment1).
        Option.bind (dlist_sort_segment h \<lparr>s_head = s_head segment, s_tail = node1\<rparr> compare)
          (\<lambda>(h, segment2).
            (let segment = segment\<lparr>s_tail := (if compare (s_tail segment1) (s_tail segment2) \<le> 0
                                              then s_tail segment1 else s_tail segment2)\<rparr>;
                 segment = segment\<lparr>s_head := (if compare (s_head segment1) (s_head segment2) > 0
                                              then s_head segment1 else s_head segment2)\<rparr>
             in map_option (\<lambda>h. (h, segment)) (merge_segments h segment1 segment2 compare))))))"

definition dlist_sort :: "dheap \<Rightarrow> dlist \<Rightarrow> (ptr \<Rightarrow> ptr \<Rightarrow> int) \<Rightarrow> (dheap \<times> dlist) option" where
  "dlist_sort h l compare =
     (if dl_head l = dl_tail l then Some (h, l)
      else map_option (\<lambda>(h, segment).
             (let l = l\<lparr>dl_head := s_head segment\<rparr>;
                  h = set_next (dl_head l) NULL h;
                  l = l\<lparr>dl_tail := s_tail segment\<rparr>;
                  h = set_prev (dl_tail l) NULL h
              in (h, l)))
           (dlist_sort_segment h \<lparr>s_head = dl_head l, s_tail = dl_tail l\<rparr> compare))"

section \<open>The abstraction relation\<close>

lemma set_next_simps [simp, dlist_upd]:
  "d_next (set_next p v h) = (d_next h)(p := v)" "d_prev (set_next p v h) = d_prev h"
  by (simp_all add: set_next_def)

lemma set_prev_simps [simp, dlist_upd]:
  "d_prev (set_prev p v h) = (d_prev h)(p := v)" "d_next (set_prev p v h) = d_next h"
  by (simp_all add: set_prev_def)

text \<open>
  \<open>links h p xs q\<close>: the nodes \<open>xs\<close> are linked both ways, \<open>p\<close> precedes the first of them and
  \<open>q\<close> follows the last.
\<close>

fun links :: "dheap \<Rightarrow> ptr \<Rightarrow> ptr list \<Rightarrow> ptr \<Rightarrow> bool" where
  "links h p [] q \<longleftrightarrow> True"
| "links h p (x # xs) q \<longleftrightarrow> d_prev h x = p \<and> d_next h x = hd (xs @ [q]) \<and> links h x xs q"

definition dlist_rep :: "dheap \<Rightarrow> dlist \<Rightarrow> ptr list \<Rightarrow> bool" where
  "dlist_rep h l xs \<longleftrightarrow> distinct xs \<and> NULL \<notin> set xs \<and> links h NULL xs NULL \<and>
     dl_tail l = hd (xs @ [NULL]) \<and> dl_head l = last (NULL # xs)"

text \<open>Two heaps that agree on the links of a set of nodes.\<close>

definition same_links :: "ptr set \<Rightarrow> dheap \<Rightarrow> dheap \<Rightarrow> bool" where
  "same_links A h h' \<longleftrightarrow> (\<forall>p\<in>A. d_next h' p = d_next h p \<and> d_prev h' p = d_prev h p)"

lemma same_links_refl [simp, intro]: "same_links A h h"
  by (simp add: same_links_def)

lemma same_links_trans: "same_links A h h' \<Longrightarrow> same_links A h' h'' \<Longrightarrow> same_links A h h''"
  by (simp add: same_links_def)

lemma same_links_mono: "same_links A h h' \<Longrightarrow> B \<subseteq> A \<Longrightarrow> same_links B h h'"
  by (auto simp: same_links_def)

lemma links_cong: "same_links (set xs) h h' \<Longrightarrow> links h' p xs q = links h p xs q"
  by (induction xs arbitrary: p) (auto simp: same_links_def)

lemma links_upd_fresh [simp]:
  "y \<notin> set xs \<Longrightarrow> links (set_next y v h) p xs q = links h p xs q"
  "y \<notin> set xs \<Longrightarrow> links (set_prev y v h) p xs q = links h p xs q"
  by (auto intro!: links_cong simp: same_links_def)

lemma links_append:
  "links h p (xs @ ys) q \<longleftrightarrow> links h p xs (hd (ys @ [q])) \<and> links h (last (p # xs)) ys q"
  by (induction xs arbitrary: p) auto

lemma links_nextD: "links h p xs q \<Longrightarrow> xs = us @ z # vs \<Longrightarrow> d_next h z = hd (vs @ [q])"
  by (simp add: links_append)

lemma links_snoc: "links h p (xs @ [y]) q \<longleftrightarrow>
   links h p xs y \<and> d_prev h y = last (p # xs) \<and> d_next h y = q"
  by (simp add: links_append)

lemma links_change_next:
  "links h p (xs @ [y]) q \<Longrightarrow> y \<notin> set xs \<Longrightarrow> links (set_next y q' h) p (xs @ [y]) q'"
  by (simp add: links_snoc)

lemma links_change_prev:
  "links h p (y # ys) q \<Longrightarrow> y \<notin> set ys \<Longrightarrow> links (set_prev y p' h) p' (y # ys) q"
  by simp

lemma dlist_rep_frame [frame_rules]:
  "dlist_rep h l xs \<Longrightarrow> same_links (set xs) h h' \<Longrightarrow> dlist_rep h' l xs"
  by (simp add: dlist_rep_def links_cong)

lemma dlist_rep_distinct: "dlist_rep h l xs \<Longrightarrow> distinct xs"
  and dlist_rep_not_NULL: "dlist_rep h l xs \<Longrightarrow> NULL \<notin> set xs"
  and dlist_rep_first: "dlist_rep h l xs \<Longrightarrow> dlist_first l = hd (xs @ [NULL])"
  and dlist_rep_last: "dlist_rep h l xs \<Longrightarrow> dlist_last l = last (NULL # xs)"
  by (auto simp: dlist_rep_def dlist_first_def dlist_last_def)

lemma dlist_rep_empty:
  assumes "dlist_rep h l xs"
  shows "dl_head l = NULL \<longleftrightarrow> xs = []" "dl_tail l = NULL \<longleftrightarrow> xs = []"
proof -
  show "dl_head l = NULL \<longleftrightarrow> xs = []"
    using assms by (cases xs rule: rev_cases) (auto simp: dlist_rep_def)
  show "dl_tail l = NULL \<longleftrightarrow> xs = []"
    using assms by (cases xs) (auto simp: dlist_rep_def)
qed

lemma links_unique: "links h p xs NULL \<Longrightarrow> links h p ys NULL \<Longrightarrow>
   hd (xs @ [NULL]) = hd (ys @ [NULL]) \<Longrightarrow> NULL \<notin> set xs \<Longrightarrow> NULL \<notin> set ys \<Longrightarrow> xs = ys"
proof (induction xs arbitrary: p ys)
  case Nil
  then show ?case by (cases ys) auto
next
  case (Cons x xs)
  then show ?case by (cases ys) auto
qed

lemma dlist_rep_unique: "dlist_rep h l xs \<Longrightarrow> dlist_rep h l ys \<Longrightarrow> xs = ys"
  by (auto simp: dlist_rep_def intro: links_unique)

lemma dlist_rep_links: "dlist_rep h l (xs @ y # ys) \<Longrightarrow>
   d_prev h y = last (NULL # xs) \<and> d_next h y = hd (ys @ [NULL])"
  by (simp add: dlist_rep_def links_append)

section \<open>Insertion and removal\<close>

lemma dlist_init_rep: "dlist_rep h dlist_init []"
  by (simp add: dlist_rep_def dlist_init_def)

lemma dlist_add_rep:
  assumes "dlist_rep h l xs" "p \<notin> set xs" "p \<noteq> NULL" "dlist_add h l p = (h', l')"
  shows "dlist_rep h' l' (xs @ [p])"
proof (cases xs rule: rev_cases)
  case Nil
  with assms show ?thesis
    by (auto simp: dlist_rep_def dlist_add_def)
next
  case (snoc ys y)
  with assms show ?thesis
    by (auto simp: dlist_rep_def dlist_add_def links_append)
qed

lemma dlist_add_frame [frame_rules]:
  assumes "dlist_rep h l xs" "dlist_add h l p = (h', l')" "A \<inter> insert p (set xs) = {}"
  shows "same_links A h h'"
  using assms
  by (cases xs rule: rev_cases) (auto simp: dlist_rep_def dlist_add_def same_links_def split: if_splits)

lemma dlist_remove_rep:
  assumes rep: "dlist_rep h l (xs @ p # ys)" and rm: "dlist_remove h l p = (h', l')"
  shows "dlist_rep h' l' (xs @ ys)"
  using assms
  by (cases xs rule: rev_cases; cases ys)
    (auto simp: dlist_rep_def dlist_remove_def links_append Let_def)

lemma dlist_remove_frame [frame_rules]:
  assumes "dlist_rep h l xs" "p \<in> set xs" "dlist_remove h l p = (h', l')" "A \<inter> (set xs - {p}) = {}"
  shows "same_links A h h'"
proof -
  from assms(2) obtain us vs where xs: "xs = us @ p # vs"
    by (auto dest: split_list)
  with assms(1) have "d_prev h p \<in> insert NULL (set us)" "d_next h p \<in> insert NULL (set vs)"
    using dlist_rep_links [of h l us p vs] hd_in_append [of vs NULL] last_in_Cons [of NULL us] by auto
  with assms xs show ?thesis
    by (auto simp: dlist_rep_def dlist_remove_def same_links_def Let_def split: if_splits)
qed

lemma dlist_remove_rep_remove1:
  assumes "dlist_rep h l xs" "p \<in> set xs" "dlist_remove h l p = (h', l')"
  shows "dlist_rep h' l' (remove1 p xs)"
proof -
  from assms(2) obtain us vs where xs: "xs = us @ p # vs" and "p \<notin> set us"
    by (auto dest: split_list_first)
  then show ?thesis
    using dlist_remove_rep assms by (simp add: remove1_split)
qed

section \<open>Ordered insertion\<close>

text \<open>
  The sequences the two ordered insertions build.  \<open>ins_sorted\<close> looks from the oldest node and
  never inserts before a first node that compares equal; \<open>ins_sorted_r\<close> looks from the newest
  node and inserts after every node that is not greater.
\<close>

fun ins_sorted :: "'a op_compare \<Rightarrow> 'a \<Rightarrow> 'a list \<Rightarrow> 'a list" where
  "ins_sorted cmp x [] = [x]"
| "ins_sorted cmp x (y # ys) =
     (if cmp x y < 0 then x # y # ys
      else y # takeWhile (\<lambda>z. cmp x z > 0) ys @ x # dropWhile (\<lambda>z. cmp x z > 0) ys)"

definition ins_sorted_r :: "'a op_compare \<Rightarrow> 'a \<Rightarrow> 'a list \<Rightarrow> 'a list" where
  "ins_sorted_r cmp x xs =
     rev (dropWhile (\<lambda>z. cmp x z < 0) (rev xs)) @ x # rev (takeWhile (\<lambda>z. cmp x z < 0) (rev xs))"

lemma mset_ins_sorted: "mset (ins_sorted cmp x xs) = add_mset x (mset xs)"
proof (cases xs)
  case (Cons y ys)
  have "mset (takeWhile P ys) + mset (dropWhile P ys) = mset ys" for P
    by (metis mset_append takeWhile_dropWhile_id)
  with Cons show ?thesis by simp
qed simp

lemma mset_ins_sorted_r: "mset (ins_sorted_r cmp x xs) = add_mset x (mset xs)"
proof -
  have "mset (takeWhile P (rev xs)) + mset (dropWhile P (rev xs)) = mset xs" for P
    by (metis mset_append takeWhile_dropWhile_id mset_rev)
  then show ?thesis by (simp add: ins_sorted_r_def union_commute)
qed

lemma sorted_cmp_splitWhile:
  assumes "sorted_cmp cmp xs"
  shows "sorted_cmp cmp (takeWhile P xs)" "sorted_cmp cmp (dropWhile P xs)"
    "a \<in> set (takeWhile P xs) \<Longrightarrow> b \<in> set (dropWhile P xs) \<Longrightarrow> cmp a b \<le> 0"
  using assms sorted_cmp_append [of cmp "takeWhile P xs" "dropWhile P xs"] by auto

lemma sorted_dropWhile_ge:
  assumes "cmp_trans cmp" "sorted_cmp cmp xs" "b \<in> set (dropWhile (\<lambda>z. cmp x z > 0) xs)"
  shows "cmp x b \<le> 0"
proof -
  let ?ds = "dropWhile (\<lambda>z. cmp x z > 0) xs"
  from assms(3) obtain d ds where ds: "?ds = d # ds" by (cases ?ds) auto
  then have "cmp x d \<le> 0" by (simp add: dropWhile_eq_Cons_conv)
  moreover have "sorted_cmp cmp (d # ds)"
    using sorted_cmp_splitWhile(2) [OF assms(2), of "\<lambda>z. cmp x z > 0"] ds by simp
  ultimately show ?thesis
    using assms(1,3) ds by (auto dest: cmp_transD)
qed

lemma sorted_ins_sorted:
  assumes "cmp_antisym cmp" "cmp_trans cmp" "sorted_cmp cmp xs"
  shows "sorted_cmp cmp (ins_sorted cmp x xs)"
proof (cases xs)
  case (Cons y ys)
  note anti = cmp_antisymD [OF assms(1)]
  let ?P = "\<lambda>z. cmp x z > 0"
  have ys: "sorted_cmp cmp ys" "\<forall>z\<in>set ys. cmp y z \<le> 0" using assms(3) Cons by auto
  show ?thesis
  proof (cases "cmp x y < 0")
    case True
    with Cons assms(3) cmp_transD [OF assms(2), of x y] show ?thesis by auto
  next
    case False
    then have "cmp y x \<le> 0" using anti by (simp add: not_less)
    moreover have "cmp a x \<le> 0" if "a \<in> set (takeWhile ?P ys)" for a
      using set_takeWhileD [OF that] anti(1) [of x a] by auto
    ultimately show ?thesis
      using False Cons ys sorted_cmp_splitWhile(1,2) [OF ys(1), of ?P]
        sorted_cmp_splitWhile(3) [OF ys(1), where P = ?P]
        sorted_dropWhile_ge [OF assms(2) ys(1), of _ x]
      by (auto simp: sorted_cmp_append dest: set_takeWhileD set_dropWhileD)
  qed
qed simp

lemma ins_sorted_r_alt:
  obtains us vs where "xs = us @ vs" "ins_sorted_r cmp x xs = us @ x # vs"
    "\<forall>z\<in>set vs. cmp x z < 0" "us \<noteq> [] \<longrightarrow> cmp x (last us) \<ge> 0"
proof
  let ?P = "\<lambda>z. cmp x z < 0"
  let ?us = "rev (dropWhile ?P (rev xs))" and ?vs = "rev (takeWhile ?P (rev xs))"
  show "xs = ?us @ ?vs" by (simp flip: rev_append)
  show "ins_sorted_r cmp x xs = ?us @ x # ?vs" by (simp add: ins_sorted_r_def)
  show "\<forall>z\<in>set ?vs. ?P z" by (auto dest: set_takeWhileD)
  show "?us \<noteq> [] \<longrightarrow> cmp x (last ?us) \<ge> 0"
    using hd_dropWhile [of ?P "rev xs"] by (auto simp: last_rev not_less)
qed

lemma sorted_ins_sorted_r:
  assumes "cmp_antisym cmp" "cmp_trans cmp" "sorted_cmp cmp xs"
  shows "sorted_cmp cmp (ins_sorted_r cmp x xs)"
proof -
  note anti = cmp_antisymD [OF assms(1)]
  obtain us vs where d: "xs = us @ vs" "ins_sorted_r cmp x xs = us @ x # vs"
    "\<forall>z\<in>set vs. cmp x z < 0" "us \<noteq> [] \<longrightarrow> cmp x (last us) \<ge> 0"
    by (rule ins_sorted_r_alt [of xs cmp x])
  have "cmp a x \<le> 0" if a: "a \<in> set us" for a
  proof -
    from a obtain us' u where us: "us = us' @ [u]" by (cases us rule: rev_cases) auto
    with d anti have "cmp u x \<le> 0" by simp
    moreover have "a = u \<or> cmp a u \<le> 0"
      using a us assms(3) d(1) by (auto simp: sorted_cmp_append)
    ultimately show ?thesis using cmp_transD [OF assms(2), of a u x] by auto
  qed
  with d assms(3) show ?thesis by (auto simp: sorted_cmp_append less_imp_le)
qed

text \<open>The seek loops end, at the node after (before) which the new node belongs.\<close>

lemma add_sorted_seek_links:
  "links h p (cur # vs) NULL \<Longrightarrow> NULL \<notin> set vs \<Longrightarrow>
   add_sorted_seek h cmp x cur = Some (last (cur # takeWhile (\<lambda>z. cmp x z > 0) vs))"
proof (induction vs arbitrary: cur p)
  case Nil
  then show ?case by (simp add: add_sorted_seek.simps)
next
  case (Cons v vs)
  then show ?case by (subst add_sorted_seek.simps) auto
qed

lemma add_sorted_r_seek_links:
  "links h NULL (us @ [cur]) q \<Longrightarrow> NULL \<notin> set us \<Longrightarrow>
   add_sorted_r_seek h cmp x cur = Some (last (cur # takeWhile (\<lambda>z. cmp x z < 0) (rev us)))"
proof (induction us arbitrary: cur q rule: rev_induct)
  case Nil
  then show ?case by (simp add: add_sorted_r_seek.simps)
next
  case (snoc u us)
  then show ?case by (subst add_sorted_r_seek.simps) (auto simp: links_append)
qed

text \<open>Linking a node between its neighbours keeps the list well formed.\<close>

lemma dlist_rep_insert_after:
  assumes "dlist_rep h l (us @ c # vs)" "p \<notin> set (us @ c # vs)" "p \<noteq> NULL"
  shows "case (if d_next h c = NULL then (h, l\<lparr>dl_head := p\<rparr>) else (set_prev (d_next h c) p h, l)) of
     (h1, l1) \<Rightarrow> dlist_rep (set_prev p c (set_next c p (set_next p (d_next h1 c) h1))) l1 (us @ c # p # vs)"
  using assms by (cases vs) (auto simp: dlist_rep_def links_append)

lemma dlist_rep_insert_before:
  assumes "dlist_rep h l (us @ c # vs)" "p \<notin> set (us @ c # vs)" "p \<noteq> NULL"
  shows "case (if d_prev h c = NULL then (h, l\<lparr>dl_tail := p\<rparr>) else (set_next (d_prev h c) p h, l)) of
     (h1, l1) \<Rightarrow> dlist_rep (set_next p c (set_prev c p (set_prev p (d_prev h1 c) h1))) l1 (us @ p # c # vs)"
  using assms by (cases us rule: rev_cases) (auto simp: dlist_rep_def links_append)

lemma dlist_add_sorted_rep:
  assumes rep: "dlist_rep h l xs" and p: "p \<notin> set xs" "p \<noteq> NULL"
  shows "\<exists>h' l'. dlist_add_sorted h l p cmp = Some (h', l') \<and> dlist_rep h' l' (ins_sorted cmp p xs)"
proof (cases "xs = [] \<or> cmp p (hd xs) < 0")
  case True
  with rep p dlist_rep_empty [OF rep] show ?thesis
    by (cases xs) (auto simp: dlist_rep_def dlist_add_sorted_def Let_def)
next
  case False
  then obtain y ys where xs: "xs = y # ys" and y: "\<not> cmp p y < 0" by (cases xs) auto
  let ?P = "\<lambda>z. cmp p z > 0"
  let ?c = "last (y # takeWhile ?P ys)"
  have seek: "add_sorted_seek h cmp p y = Some ?c"
    using rep xs by (intro add_sorted_seek_links) (auto simp: dlist_rep_def)
  have split: "xs = butlast (y # takeWhile ?P ys) @ ?c # dropWhile ?P ys"
    using xs append_butlast_last_id [of "y # takeWhile ?P ys"]
    by (metis append.assoc append_Cons append_Nil list.distinct(1) takeWhile_dropWhile_id)
  have ins: "ins_sorted cmp p xs = butlast (y # takeWhile ?P ys) @ ?c # p # dropWhile ?P ys"
    using xs y append_butlast_last_id [of "y # takeWhile ?P ys"]
    by (metis append.assoc append_Cons append_Nil ins_sorted.simps(2) list.distinct(1))
  have "dl_tail l = y" "y \<noteq> NULL" using rep xs by (auto simp: dlist_rep_def)
  with seek y show ?thesis
    using dlist_rep_insert_after [OF rep [unfolded split] p(1) [unfolded split] p(2)]
    unfolding ins [symmetric]
    by (auto simp: dlist_add_sorted_def Let_def split: if_splits)
qed

lemma dlist_add_sorted_r_rep:
  assumes rep: "dlist_rep h l xs" and p: "p \<notin> set xs" "p \<noteq> NULL"
  shows "\<exists>h' l'. dlist_add_sorted_r h l p cmp = Some (h', l') \<and> dlist_rep h' l' (ins_sorted_r cmp p xs)"
proof (cases "xs = [] \<or> cmp p (last xs) \<ge> 0")
  case True
  then have "ins_sorted_r cmp p xs = xs @ [p]"
    by (cases xs rule: rev_cases) (auto simp: ins_sorted_r_def)
  with True rep p dlist_rep_empty [OF rep] show ?thesis
    by (cases xs rule: rev_cases) (auto simp: dlist_rep_def dlist_add_sorted_r_def links_append Let_def)
next
  case False
  then obtain y ys where xs: "xs = ys @ [y]" and y: "cmp p y < 0" by (cases xs rule: rev_cases) auto
  let ?P = "\<lambda>z. cmp p z < 0"
  let ?t = "y # takeWhile ?P (rev ys)" and ?d = "rev (dropWhile ?P (rev ys))"
  have seek: "add_sorted_r_seek h cmp p y = Some (last ?t)"
    using rep xs by (intro add_sorted_r_seek_links) (auto simp: dlist_rep_def)
  have t: "rev ?t = last ?t # rev (butlast ?t)"
    by (metis append_butlast_last_id list.distinct(1) rev_eq_Cons_iff rev_rev_ident)
  have "ys = ?d @ rev (takeWhile ?P (rev ys))" by (simp flip: rev_append)
  then have split: "xs = ?d @ last ?t # rev (butlast ?t)" using xs t by (metis append.assoc rev.simps(2))
  have ins: "ins_sorted_r cmp p xs = ?d @ p # last ?t # rev (butlast ?t)"
    using xs y t by (simp add: ins_sorted_r_def)
  have "dl_head l = y" "y \<noteq> NULL" using rep xs by (auto simp: dlist_rep_def)
  with seek y show ?thesis
    using dlist_rep_insert_before [OF rep [unfolded split] p(1) [unfolded split] p(2)]
    unfolding ins [symmetric]
    by (auto simp: dlist_add_sorted_r_def Let_def split: if_splits)
qed

section \<open>Lookup and traversal\<close>

lemma find_loop_links:
  "links h p xs NULL \<Longrightarrow> NULL \<notin> set xs \<Longrightarrow>
   find_loop h cmp data (hd (xs @ [NULL])) =
     Some (case find (\<lambda>x. cmp x data = 0) xs of None \<Rightarrow> NULL | Some x \<Rightarrow> x)"
proof (induction xs arbitrary: p)
  case Nil
  then show ?case by (simp add: find_loop.simps)
next
  case (Cons x xs)
  then show ?case by (subst find_loop.simps) auto
qed

lemma dlist_find_rep:
  "dlist_rep h l xs \<Longrightarrow>
   dlist_find h l data cmp = Some (case find (\<lambda>x. cmp x data = 0) xs of None \<Rightarrow> NULL | Some x \<Rightarrow> x)"
  using find_loop_links [of h NULL xs cmp data]
  by (simp add: dlist_find_def dlist_first_def dlist_rep_def)

lemma dlist_find_ptr_rep:
  "dlist_rep h l xs \<Longrightarrow> dlist_find_ptr h l p = Some (if p \<in> set xs then p else NULL)"
  by (auto simp: dlist_find_ptr_def dlist_find_rep compare_pointers_def find_None_iff find_Some_iff
      split: option.splits)

text \<open>
  A traversal visits exactly the nodes that were in the list when it started, in order, provided
  the callback leaves the \<open>next\<close> links of the nodes still to come alone.  It may unlink the
  current node or an earlier one.
\<close>

lemma foreach_loop_fold:
  assumes "links (lk s) p xs NULL" "NULL \<notin> set xs"
    and "\<And>ys x zs. xs = ys @ x # zs \<Longrightarrow>
      \<forall>z\<in>set zs. d_next (lk (f x (fold f ys s))) z = d_next (lk (fold f ys s)) z"
  shows "foreach_loop lk f (hd (xs @ [NULL])) s = Some (fold f xs s)"
proof -
  have "foreach_loop lk f (hd (zs @ [NULL])) (fold f ys s) = Some (fold f zs (fold f ys s))"
    if "xs = ys @ zs" "\<And>us z vs. zs = us @ z # vs \<Longrightarrow> d_next (lk (fold f ys s)) z = hd (vs @ [NULL])" for ys zs
    using that
  proof (induction zs arbitrary: ys)
    case Nil
    then show ?case by (simp add: foreach_loop.simps)
  next
    case (Cons z zs)
    have "d_next (lk (fold f (ys @ [z]) s)) w = hd (vs @ [NULL])" if "zs = us @ w # vs" for us w vs
      using that assms(3) [OF Cons.prems(1)] Cons.prems(2) [of "z # us" w vs] by simp
    then have "foreach_loop lk f (hd (zs @ [NULL])) (fold f (ys @ [z]) s) = Some (fold f zs (fold f (ys @ [z]) s))"
      using Cons.prems(1) by (intro Cons.IH) auto
    with Cons.prems(1) Cons.prems(2) [of "[]" z zs] assms(2) show ?case
      by (subst foreach_loop.simps) auto
  qed
  from this [of "[]" xs] links_nextD [OF assms(1)] show ?thesis by simp
qed

lemma foreach_in_loop_takeWhile:
  assumes "links h p xs NULL" "NULL \<notin> set xs" "\<And>x s. lk (f x s) = lk s" "\<And>x y s. w x (f y s) = w x s" "lk s = h"
  shows "foreach_in_loop lk w f (hd (xs @ [NULL])) s =
     Some (hd (dropWhile (\<lambda>x. w x s) xs @ [NULL]), fold f (takeWhile (\<lambda>x. w x s) xs) s)"
  using assms
proof (induction xs arbitrary: p s)
  case Nil
  then show ?case by (simp add: foreach_in_loop.simps)
next
  case (Cons x xs)
  then show ?case by (subst foreach_in_loop.simps) auto
qed

section \<open>Correctness of the merge sort\<close>

text \<open>Inside a segment only the inner links are meaningful.\<close>

fun chain :: "dheap \<Rightarrow> ptr list \<Rightarrow> bool" where
  "chain h [] \<longleftrightarrow> True"
| "chain h [x] \<longleftrightarrow> True"
| "chain h (x # y # ys) \<longleftrightarrow> d_next h x = y \<and> d_prev h y = x \<and> chain h (y # ys)"

lemma chain_Cons: "ys \<noteq> [] \<Longrightarrow>
   chain h (x # ys) \<longleftrightarrow> d_next h x = hd ys \<and> d_prev h (hd ys) = x \<and> chain h ys"
  by (cases ys) auto

lemma chain_append: "xs \<noteq> [] \<Longrightarrow> ys \<noteq> [] \<Longrightarrow> chain h (xs @ ys) \<longleftrightarrow>
   chain h xs \<and> chain h ys \<and> d_next h (last xs) = hd ys \<and> d_prev h (hd ys) = last xs"
proof (induction xs)
  case (Cons x xs)
  then show ?case by (cases "xs = []") (auto simp: chain_Cons)
qed simp

lemma chain_appendD: "chain h (xs @ ys) \<Longrightarrow> chain h xs \<and> chain h ys"
  by (cases "xs = []"; cases "ys = []") (auto simp: chain_append)

lemma links_iff_chain:
  "links h p xs q \<longleftrightarrow> xs = [] \<or> chain h xs \<and> d_prev h (hd xs) = p \<and> d_next h (last xs) = q"
proof (induction xs arbitrary: p)
  case (Cons x xs)
  then show ?case by (cases xs) auto
qed simp

lemma chain_upd_next [simp]: "y \<notin> set (butlast xs) \<Longrightarrow> chain (set_next y v h) xs = chain h xs"
  by (induction xs rule: chain.induct) auto

lemma chain_upd_prev [simp]: "y \<notin> set (tl xs) \<Longrightarrow> chain (set_prev y v h) xs = chain h xs"
  by (induction xs rule: chain.induct) auto

lemma chain_cong: "same_links (set xs) h h' \<Longrightarrow> chain h' xs = chain h xs"
  by (induction xs rule: chain.induct) (auto simp: same_links_def)

lemma notin_butlast: "y \<notin> set xs \<Longrightarrow> y \<notin> set (butlast xs)"
  by (auto dest: in_set_butlastD)

lemma notin_tl: "y \<notin> set xs \<Longrightarrow> y \<notin> set (tl xs)"
  by (cases xs) auto

lemma last_notin_butlast: "distinct xs \<Longrightarrow> last xs \<notin> set (butlast xs)"
  by (cases xs rule: rev_cases) auto

lemma hd_notin_tl: "distinct xs \<Longrightarrow> hd xs \<notin> set (tl xs) \<or> xs = []"
  by (cases xs) auto

lemma chain_upd_fresh:
  "y \<notin> set xs \<Longrightarrow> chain (set_next y v h) xs = chain h xs"
  "y \<notin> set xs \<Longrightarrow> chain (set_prev y v h) xs = chain h xs"
  by (simp_all add: notin_butlast notin_tl)

text \<open>Connecting two chains.\<close>

lemma chain_join:
  assumes "chain h xs" "chain h ys" "xs \<noteq> []" "ys \<noteq> []" "distinct (xs @ ys)"
  shows "chain (set_prev (hd ys) (last xs) (set_next (last xs) (hd ys) h)) (xs @ ys)"
    and "chain (set_next (last xs) (hd ys) (set_prev (hd ys) (last xs) h)) (xs @ ys)"
proof -
  have "hd ys \<notin> set xs" "last xs \<notin> set ys"
    using assms(3-5) by (auto simp: disjoint_iff)
  then show "chain (set_prev (hd ys) (last xs) (set_next (last xs) (hd ys) h)) (xs @ ys)"
    and "chain (set_next (last xs) (hd ys) (set_prev (hd ys) (last xs) h)) (xs @ ys)"
    using assms last_notin_butlast [of xs] hd_notin_tl [of ys]
    by (auto simp: chain_append notin_butlast notin_tl)
qed

fun merge_cmp :: "'a op_compare \<Rightarrow> 'a list \<Rightarrow> 'a list \<Rightarrow> 'a list" where
  "merge_cmp cmp [] ys = ys"
| "merge_cmp cmp xs [] = xs"
| "merge_cmp cmp (x # xs) (y # ys) =
     (if cmp x y \<le> 0 then x # merge_cmp cmp xs (y # ys) else y # merge_cmp cmp (x # xs) ys)"

lemma merge_cmp_Nil2 [simp]: "merge_cmp cmp xs [] = xs"
  by (cases xs) auto

lemma merge_cmp_take1:
  "merge_cmp cmp xs (y # ys) = takeWhile (\<lambda>x. cmp x y \<le> 0) xs @ merge_cmp cmp (dropWhile (\<lambda>x. cmp x y \<le> 0) xs) (y # ys)"
  by (induction xs) auto

lemma merge_cmp_take2:
  assumes "cmp_antisym cmp"
  shows "merge_cmp cmp (x # xs) ys = takeWhile (\<lambda>y. cmp y x < 0) ys @ merge_cmp cmp (x # xs) (dropWhile (\<lambda>y. cmp y x < 0) ys)"
  using assms by (induction ys) (auto simp: cmp_antisymD not_le)

lemma merge_find1_chain:
  "chain h xs \<Longrightarrow> xs \<noteq> [] \<Longrightarrow> distinct xs \<Longrightarrow> last xs = s_head seg \<Longrightarrow>
   merge_find1 h cmp seg (hd xs) y =
     Some (case dropWhile (\<lambda>x. cmp x y \<le> 0) xs of
             [] \<Rightarrow> Inl (set_prev y (last xs) (set_next (last xs) y h)) | x # _ \<Rightarrow> Inr x)"
proof (induction xs)
  case (Cons x xs)
  show ?case
  proof (cases "xs = []")
    case True
    with Cons.prems show ?thesis by (subst merge_find1.simps) simp
  next
    case False
    then have "x \<noteq> s_head seg" using Cons.prems last_in_set [of xs] by auto
    with Cons False show ?thesis by (subst merge_find1.simps) (simp add: chain_Cons split: list.split del: dropWhile_eq_Nil_conv)
  qed
qed simp

lemma merge_find2_chain:
  "chain h ys \<Longrightarrow> ys \<noteq> [] \<Longrightarrow> distinct ys \<Longrightarrow> last ys = s_head seg \<Longrightarrow>
   merge_find2 h cmp seg x (hd ys) =
     Some (case dropWhile (\<lambda>y. cmp y x < 0) ys of
             [] \<Rightarrow> Inl (set_next (last ys) x (set_prev x (last ys) h)) | y # _ \<Rightarrow> Inr y)"
proof (induction ys)
  case (Cons y ys)
  show ?case
  proof (cases "ys = []")
    case True
    with Cons.prems show ?thesis by (subst merge_find2.simps) simp
  next
    case False
    then have "y \<noteq> s_head seg" using Cons.prems last_in_set [of ys] by auto
    with Cons False show ?thesis by (subst merge_find2.simps) (simp add: chain_Cons split: list.split del: dropWhile_eq_Nil_conv)
  qed
qed simp

text \<open>
  The two relinking steps of the merge loop: the rest of the second segment is hooked behind the
  merged part, and the rest of the first segment is hooked behind the nodes just moved.
\<close>

lemma merge_relink2:
  assumes "chain h (acc @ x # xs)" "chain h (y # ys)" "distinct (acc @ (y # ys) @ x # xs)"
    and "x = t \<longleftrightarrow> acc = []"
  defines "h1 \<equiv> if x \<noteq> t then set_next (d_prev h x) y h else h"
  defines "h2 \<equiv> set_prev y (d_prev h1 x) h1"
  shows "chain h2 (acc @ y # ys)" "chain h2 (x # xs)" "same_links (- set (acc @ (y # ys) @ x # xs)) h h2"
proof -
  have ch: "chain h acc" "chain h (x # xs)"
    using assms(1) chain_appendD [of h acc "x # xs"] by simp_all
  have prev: "d_prev h x = last acc" if "acc \<noteq> []"
    using assms(1) chain_append [OF that, of "x # xs" h] by simp
  show "chain h2 (acc @ y # ys)"
  proof (cases "acc = []")
    case True
    with assms(2-4) show ?thesis by (simp add: h1_def h2_def)
  next
    case False
    have "distinct (acc @ y # ys)" using assms(3) by auto
    with False show ?thesis
      using chain_join(1) [OF ch(1) assms(2) False] assms(4) prev by (simp add: h1_def h2_def)
  qed
  show "chain h2 (x # xs)"
    using ch prev assms(3,4) last_in_set [of acc]
    by (cases "acc = []") (auto simp: h1_def h2_def disjoint_iff notin_butlast)
  show "same_links (- set (acc @ (y # ys) @ x # xs)) h h2"
    using assms(4) prev last_in_set [of acc] by (auto simp: h1_def h2_def same_links_def)
qed

lemma merge_relink1:
  assumes "chain h (acc @ vs @ y # ys)" "chain h (x # xs)" "distinct (acc @ vs @ (y # ys) @ x # xs)" "vs \<noteq> []"
  defines "h' \<equiv> set_next (d_prev h y) x (set_prev x (d_prev h y) h)"
  shows "chain h' ((acc @ vs) @ x # xs)" "chain h' (y # ys)"
    "same_links (- set (acc @ vs @ (y # ys) @ x # xs)) h h'"
proof -
  have prev: "d_prev h y = last vs" and ch: "chain h (acc @ vs)" "chain h (y # ys)"
    using assms(1,4) chain_append [of "acc @ vs" "y # ys" h] by simp_all
  have fresh: "last vs \<notin> set (y # ys)" "x \<notin> set (y # ys)"
    using assms(3) last_in_set [OF assms(4)] by (auto simp: disjoint_iff)
  show "chain h' ((acc @ vs) @ x # xs)"
    using chain_join(2) [OF ch(1) assms(2)] assms(3,4) prev by (auto simp: h'_def)
  show "chain h' (y # ys)"
    unfolding h'_def prev using ch(2) fresh by (metis chain_upd_fresh)
  show "same_links (- set (acc @ vs @ (y # ys) @ x # xs)) h h'"
    using last_in_set [OF assms(4)] by (auto simp: h'_def prev same_links_def)
qed

text \<open>
  The merge loop.  \<open>acc\<close> is the part already in its final place; it is chained to the rest of the
  first segment, and the rest of the second segment is chained on its own.
\<close>

lemma merge_loop_chain:
  assumes anti: "cmp_antisym cmp"
  shows "chain h (acc @ xs) \<Longrightarrow> chain h ys \<Longrightarrow> xs \<noteq> [] \<Longrightarrow> ys \<noteq> [] \<Longrightarrow> distinct (acc @ xs @ ys) \<Longrightarrow>
    last xs = s_head seg1 \<Longrightarrow> last ys = s_head seg2 \<Longrightarrow> s_tail seg1 \<notin> set (tl xs) \<Longrightarrow>
    (acc = [] \<Longrightarrow> hd xs = s_tail seg1) \<Longrightarrow>
    (hd xs = s_tail seg1 \<Longrightarrow> acc = [] \<or> cmp (hd xs) (hd ys) \<le> 0) \<Longrightarrow>
    \<exists>h'. merge_loop h cmp seg1 seg2 (hd xs) (hd ys) = Some h' \<and>
      chain h' (acc @ merge_cmp cmp xs ys) \<and> same_links (- set (acc @ xs @ ys)) h h'"
proof (induction "length ys" arbitrary: h acc xs ys rule: less_induct)
  case less
  note prems = less.prems
  obtain y ys0 where ys: "ys = y # ys0" using prems(4) by (cases ys) auto
  define us where "us = takeWhile (\<lambda>x. cmp x y \<le> 0) xs"
  note find1 = merge_find1_chain [of h xs seg1 cmp y] chain_appendD [OF prems(1)]
  show ?case
  proof (cases "dropWhile (\<lambda>x. cmp x y \<le> 0) xs")
    case Nil
    then have m: "merge_cmp cmp xs ys = xs @ ys"
      using ys merge_cmp_take1 [of cmp xs y ys0] takeWhile_dropWhile_id [of "\<lambda>x. cmp x y \<le> 0" xs]
      by (simp del: dropWhile_eq_Nil_conv)
    let ?h = "set_prev y (last xs) (set_next (last xs) y h)"
    have "merge_loop h cmp seg1 seg2 (hd xs) (hd ys) = Some ?h"
      using find1 prems Nil ys by (subst merge_loop.simps) simp
    moreover have "chain ?h ((acc @ xs) @ ys)"
      using chain_join(1) [of h "acc @ xs" ys] prems ys by simp
    ultimately show ?thesis using m ys prems(3) by (auto simp: same_links_def)
  next
    case (Cons x xs1)
    have xs: "xs = us @ x # xs1" and x: "cmp x y > 0"
      using Cons takeWhile_dropWhile_id [of "\<lambda>x. cmp x y \<le> 0" xs]
      by (simp_all add: us_def dropWhile_eq_Cons_conv not_le)
    let ?acc = "acc @ us"
    have tail: "x = s_tail seg1 \<longleftrightarrow> ?acc = []" "s_tail seg1 \<notin> set xs1"
      using prems(8-10) xs x ys by (cases us; auto)+
    define h1 where "h1 = (if x \<noteq> s_tail seg1 then set_next (d_prev h x) y h else h)"
    define h2 where "h2 = set_prev y (d_prev h1 x) h1"
    have dist: "distinct (?acc @ ys @ x # xs1)" and ch1: "chain h (?acc @ x # xs1)"
      using prems(1,5) xs by auto
    note h2 = merge_relink2 [OF ch1 prems(2) [unfolded ys] dist [unfolded ys] tail(1),
        folded h1_def, folded h2_def, folded ys]
    have "chain h2 ys" using h2(1) chain_appendD by blast
    note find2 = merge_find2_chain [OF this prems(4) _ prems(7), of cmp x]
    define vs where "vs = takeWhile (\<lambda>y. cmp y x < 0) ys"
    have vs: "vs \<noteq> []" using x ys anti by (auto simp: vs_def cmp_antisymD)
    have step: "merge_loop h cmp seg1 seg2 (hd xs) (hd ys) =
       Option.bind (merge_find2 h2 cmp seg2 x y) (\<lambda>r. case r of Inl h' \<Rightarrow> Some h'
         | Inr node2 \<Rightarrow> merge_loop (set_next (d_prev h2 node2) x (set_prev x (d_prev h2 node2) h2))
              cmp seg1 seg2 x node2)"
      using find1 prems Cons ys
      by (subst merge_loop.simps) (simp add: h1_def h2_def Let_def cong: if_cong)
    show ?thesis
    proof (cases "dropWhile (\<lambda>y. cmp y x < 0) ys")
      case Nil
      then have m: "merge_cmp cmp xs ys = us @ ys @ x # xs1"
        using merge_cmp_take1 [of cmp xs y ys0] merge_cmp_take2 [OF anti, of x xs1 ys]
          takeWhile_dropWhile_id [of "\<lambda>y. cmp y x < 0" ys] ys Cons by (simp add: us_def)
      let ?h = "set_next (last ys) x (set_prev x (last ys) h2)"
      have "merge_loop h cmp seg1 seg2 (hd xs) (hd ys) = Some ?h"
        using step find2 Nil ys dist by simp
      moreover have "chain ?h ((?acc @ ys) @ x # xs1)"
        using chain_join(2) [OF h2(1,2)] dist prems(4) by simp
      moreover have "same_links (- set (acc @ xs @ ys)) h ?h"
        using h2(3) xs prems(4) by (auto simp: same_links_def)
      ultimately show ?thesis using m by auto
    next
      case c2: (Cons y1 ys1)
      have yss: "ys = vs @ y1 # ys1" and y1: "cmp y1 x \<ge> 0"
        using c2 takeWhile_dropWhile_id [of "\<lambda>y. cmp y x < 0" ys]
        by (simp_all add: vs_def dropWhile_eq_Cons_conv not_less)
      let ?h = "set_next (d_prev h2 y1) x (set_prev x (d_prev h2 y1) h2)"
      have h3: "chain ?h ((?acc @ vs) @ x # xs1)" "chain ?h (y1 # ys1)"
          "same_links (- set (acc @ xs @ ys)) h2 ?h"
        using merge_relink1 [of h2 ?acc vs y1 ys1 x xs1] h2(1,2) dist vs yss xs
        by (auto simp: same_links_def)
      have "\<exists>h'. merge_loop ?h cmp seg1 seg2 (hd (x # xs1)) (hd (y1 # ys1)) = Some h' \<and>
        chain h' ((?acc @ vs) @ merge_cmp cmp (x # xs1) (y1 # ys1)) \<and>
        same_links (- set ((?acc @ vs) @ (x # xs1) @ (y1 # ys1))) ?h h'"
        using h3(1,2) prems(5-7) xs yss vs y1 anti tail(2)
        by (intro less.hyps) (auto simp: cmp_antisymD)
      then obtain h' where h': "merge_loop ?h cmp seg1 seg2 x y1 = Some h'"
        "chain h' ((?acc @ vs) @ merge_cmp cmp (x # xs1) (y1 # ys1))"
        "same_links (- set (acc @ xs @ ys)) ?h h'" using xs yss by (auto simp: same_links_def)
      have "merge_loop h cmp seg1 seg2 (hd xs) (hd ys) = Some h'"
        using step find2 c2 ys dist h'(1) by simp
      moreover have "merge_cmp cmp xs ys = us @ vs @ merge_cmp cmp (x # xs1) (y1 # ys1)"
        using merge_cmp_take1 [of cmp xs y ys0] merge_cmp_take2 [OF anti, of x xs1 ys] ys Cons c2
        by (simp add: us_def vs_def)
      moreover have "same_links (- set (acc @ xs @ ys)) h h'"
        using h2(3) h3(3) h'(3) xs by (auto simp: same_links_def)
      ultimately show ?thesis using h'(2) by auto
    qed
  qed
qed

text \<open>The reference definition of the sort.\<close>

fun msort_cmp :: "'a op_compare \<Rightarrow> 'a list \<Rightarrow> 'a list" where
  "msort_cmp cmp xs =
     (let n = length xs in
      if n \<le> 1 then xs
      else merge_cmp cmp (msort_cmp cmp (take (n div 2) xs)) (msort_cmp cmp (drop (n div 2) xs)))"

declare msort_cmp.simps [simp del]

lemma mset_merge_cmp: "mset (merge_cmp cmp xs ys) = mset xs + mset ys"
  by (induction cmp xs ys rule: merge_cmp.induct) auto

lemma set_merge_cmp [simp]: "set (merge_cmp cmp xs ys) = set xs \<union> set ys"
  by (induction cmp xs ys rule: merge_cmp.induct) auto

lemma merge_cmp_Nil_iff [simp]: "merge_cmp cmp xs ys = [] \<longleftrightarrow> xs = [] \<and> ys = []"
  by (cases "(cmp, xs, ys)" rule: merge_cmp.cases) auto

lemma mset_msort_cmp: "mset (msort_cmp cmp xs) = mset xs"
proof (induction cmp xs rule: msort_cmp.induct)
  case (1 cmp xs)
  show ?case
  proof (cases "length xs \<le> 1")
    case True
    then show ?thesis by (simp add: msort_cmp.simps [of cmp xs])
  next
    case False
    with "1.IH" have "mset (msort_cmp cmp xs) =
        mset (take (length xs div 2) xs) + mset (drop (length xs div 2) xs)"
      by (simp add: msort_cmp.simps [of cmp xs] mset_merge_cmp Let_def)
    then show ?thesis by (metis append_take_drop_id mset_append)
  qed
qed

lemma set_msort_cmp [simp]: "set (msort_cmp cmp xs) = set xs"
  by (metis mset_msort_cmp set_mset_mset)

lemma distinct_msort_cmp [simp]: "distinct (msort_cmp cmp xs) = distinct xs"
  by (metis mset_msort_cmp mset_eq_imp_distinct_iff)

lemma msort_cmp_Nil_iff [simp]: "msort_cmp cmp xs = [] \<longleftrightarrow> xs = []"
  by (metis mset_msort_cmp mset_zero_iff)

lemma sorted_merge_cmp:
  assumes "cmp_antisym cmp" "cmp_trans cmp"
  shows "sorted_cmp cmp xs \<Longrightarrow> sorted_cmp cmp ys \<Longrightarrow> sorted_cmp cmp (merge_cmp cmp xs ys)"
  using assms
proof (induction cmp xs ys rule: merge_cmp.induct)
  case (3 cmp x xs y ys)
  then show ?case
    by (auto simp: not_le dest: cmp_transD) (metis cmp_antisymD(1) cmp_transD less_imp_le)+
qed auto

lemma sorted_msort_cmp:
  "cmp_antisym cmp \<Longrightarrow> cmp_trans cmp \<Longrightarrow> sorted_cmp cmp (msort_cmp cmp xs)"
proof (induction cmp xs rule: msort_cmp.induct)
  case (1 cmp xs)
  show ?case
  proof (cases "length xs \<le> 1")
    case True
    then have "sorted_cmp cmp xs" by (cases xs) auto
    with True show ?thesis by (simp add: msort_cmp.simps [of cmp xs])
  next
    case False
    with 1 show ?thesis
      by (simp add: msort_cmp.simps [of cmp xs] Let_def sorted_merge_cmp)
  qed
qed

text \<open>Stability: elements that compare equal keep their order.\<close>

lemma merge_cmp_stable:
  assumes "cmp_antisym cmp" "cmp_trans cmp"
  shows "sorted_cmp cmp xs \<Longrightarrow>
    filter (\<lambda>z. cmp z a = 0) (merge_cmp cmp xs ys) = filter (\<lambda>z. cmp z a = 0) xs @ filter (\<lambda>z. cmp z a = 0) ys"
  using assms
proof (induction cmp xs ys rule: merge_cmp.induct)
  case (3 cmp x xs y ys)
  note anti = cmp_antisymD [OF 3(4)]
  have "cmp z a \<noteq> 0" if z: "z \<in> set (x # xs)" and gt: "cmp x y > 0" and ya: "cmp y a = 0" for z
  proof
    assume "cmp z a = 0"
    then have "cmp a z \<le> 0" "cmp y a \<le> 0" using anti [of a z] ya by auto
    then have "cmp y z \<le> 0" using cmp_transD [OF 3(5)] by blast
    have "cmp z y \<le> 0" using \<open>cmp z a = 0\<close> anti [of a y] ya cmp_transD [OF 3(5), of z a y] by auto
    moreover have "cmp x z \<le> 0" using z 3(3) anti [of x x] by auto
    ultimately have "cmp x y \<le> 0" using cmp_transD [OF 3(5)] by blast
    then show False using gt by simp
  qed
  then have "filter (\<lambda>z. cmp z a = 0) (x # xs) = []" if "cmp x y > 0" "cmp y a = 0"
    using that by (intro filter_False) blast
  with 3 show ?case by (auto simp: not_le)
qed auto

lemma msort_cmp_stable:
  "cmp_antisym cmp \<Longrightarrow> cmp_trans cmp \<Longrightarrow>
   filter (\<lambda>z. cmp z a = 0) (msort_cmp cmp xs) = filter (\<lambda>z. cmp z a = 0) xs"
proof (induction cmp xs rule: msort_cmp.induct)
  case (1 cmp xs)
  show ?case
  proof (cases "length xs \<le> 1")
    case True
    then show ?thesis by (simp add: msort_cmp.simps [of cmp xs])
  next
    case False
    with 1 have "filter (\<lambda>z. cmp z a = 0) (msort_cmp cmp xs) =
        filter (\<lambda>z. cmp z a = 0) (take (length xs div 2) xs @ drop (length xs div 2) xs)"
      by (simp add: msort_cmp.simps [of cmp xs] Let_def merge_cmp_stable sorted_msort_cmp
          del: append_take_drop_id)
    then show ?thesis by simp
  qed
qed

lemma hd_merge_cmp: "xs \<noteq> [] \<Longrightarrow> ys \<noteq> [] \<Longrightarrow>
   hd (merge_cmp cmp xs ys) = (if cmp (hd xs) (hd ys) \<le> 0 then hd xs else hd ys)"
  by (cases xs; cases ys) auto

lemma last_merge_cmp:
  assumes "cmp_trans cmp"
  shows "xs \<noteq> [] \<Longrightarrow> ys \<noteq> [] \<Longrightarrow> sorted_cmp cmp xs \<Longrightarrow> sorted_cmp cmp ys \<Longrightarrow>
    last (merge_cmp cmp xs ys) = (if cmp (last xs) (last ys) > 0 then last xs else last ys)"
  using assms
proof (induction cmp xs ys rule: merge_cmp.induct)
  case (3 cmp x xs y ys)
  show ?case
  proof (cases "cmp x y \<le> 0")
    case True
    have "cmp x (last (y # ys)) \<le> 0"
      using True 3(6,7) cmp_transD [of cmp x y "last ys"] last_in_set [of ys] by auto
    with True 3 show ?thesis by (cases "xs = []") auto
  next
    case False
    have "cmp (last (x # xs)) y > 0"
      using False 3(5,7) cmp_transD [of cmp x "last xs" y] last_in_set [of xs] by (force simp: not_le)
    with False 3 show ?thesis by (cases "ys = []") auto
  qed
qed auto

lemma chain_nth: "chain h xs \<Longrightarrow> Suc i < length xs \<Longrightarrow>
   d_next h (xs ! i) = xs ! Suc i \<and> d_prev h (xs ! Suc i) = xs ! i"
proof (induction xs arbitrary: i rule: chain.induct)
  case (3 h x y ys)
  then show ?case by (cases i) auto
qed auto

lemma find_middle_chain:
  assumes "chain h xs" "distinct xs" "s_head seg = last xs"
  shows "2 * i < length xs \<Longrightarrow> find_middle h seg (xs ! i) (xs ! (2 * i)) = Some (xs ! (length xs div 2))"
proof (induction "length xs - i" arbitrary: i rule: less_induct)
  case less
  let ?n = "length xs"
  have last: "xs ! j = s_head seg \<longleftrightarrow> j = ?n - 1" if "j < ?n" for j
    using that assms(2,3) nth_eq_iff_index_eq [of xs j "?n - 1"] last_conv_nth [of xs] by force
  consider "2 * i = ?n - 1" | "Suc (2 * i) = ?n - 1" | "Suc (Suc (2 * i)) < ?n"
    using less.prems by linarith
  then show ?case
  proof cases
    case 1
    then have "?n div 2 = i" using less.prems by auto
    then show ?thesis using 1 less.prems last [of "2 * i"] by (subst find_middle.simps) simp
  next
    case 2
    then have "?n div 2 = Suc i" using less.prems by auto
    then show ?thesis
      using 2 less.prems last [of "2 * i"] last [of "Suc (2 * i)"]
        chain_nth [OF assms(1), of i] chain_nth [OF assms(1), of "2 * i"]
      by (subst find_middle.simps) simp
  next
    case 3
    then have "2 * i \<noteq> ?n - 1" "Suc (2 * i) \<noteq> ?n - 1" by auto
    moreover have "find_middle h seg (xs ! Suc i) (xs ! (2 * Suc i)) = Some (xs ! (?n div 2))"
      using 3 by (intro less.hyps) auto
    ultimately show ?thesis
      using 3 last [of "2 * i"] last [of "Suc (2 * i)"]
        chain_nth [OF assms(1), of i] chain_nth [OF assms(1), of "2 * i"]
        chain_nth [OF assms(1), of "Suc (2 * i)"]
      by (subst find_middle.simps) simp
  qed
qed

definition seg_of :: "ptr list \<Rightarrow> segment" where
  "seg_of xs = \<lparr>s_head = last xs, s_tail = hd xs\<rparr>"

lemma merge_segments_chain:
  assumes "cmp_antisym cmp" "chain h xs" "chain h ys" "xs \<noteq> []" "ys \<noteq> []" "distinct (xs @ ys)"
  shows "\<exists>h'. merge_segments h (seg_of xs) (seg_of ys) cmp = Some h' \<and>
    chain h' (merge_cmp cmp xs ys) \<and> same_links (- set (xs @ ys)) h h'"
proof -
  let ?h = "set_prev (hd ys) (last xs) (set_next (last xs) (hd ys) h)"
  have "chain ?h (xs @ ys)" using chain_join(1) assms by blast
  then have "chain ?h ([] @ xs)" "chain ?h ys" using chain_appendD [of ?h xs ys] by simp_all
  then have "\<exists>h'. merge_loop ?h cmp (seg_of xs) (seg_of ys) (hd xs) (hd ys) = Some h' \<and>
      chain h' ([] @ merge_cmp cmp xs ys) \<and> same_links (- set ([] @ xs @ ys)) ?h h'"
  proof (rule merge_loop_chain [OF assms(1) _ _ assms(4,5)])
    show "distinct ([] @ xs @ ys)" "s_tail (seg_of xs) \<notin> set (tl xs)"
      using assms(4,6) hd_notin_tl [of xs] by (auto simp: seg_of_def)
  qed (simp_all add: seg_of_def)
  moreover have "same_links (- set (xs @ ys)) h ?h"
    using assms(4,5) by (auto simp: same_links_def)
  ultimately show ?thesis
    by (auto simp: merge_segments_def seg_of_def intro: same_links_trans)
qed

lemma dlist_sort_segment_chain:
  assumes cmp: "cmp_antisym cmp" "cmp_trans cmp"
  shows "chain h xs \<Longrightarrow> xs \<noteq> [] \<Longrightarrow> distinct xs \<Longrightarrow>
    \<exists>h'. dlist_sort_segment h (seg_of xs) cmp = Some (h', seg_of (msort_cmp cmp xs)) \<and>
      chain h' (msort_cmp cmp xs) \<and> same_links (- set xs) h h'"
proof (induction "length xs" arbitrary: h xs rule: less_induct)
  case less
  note prems = less.prems
  let ?n = "length xs"
  consider a where "xs = [a]" | a b where "xs = [a, b]" | a b c zs where "xs = a # b # c # zs"
    using prems(2) by (metis list.exhaust)
  then show ?case
  proof cases
    case 1
    then show ?thesis by (subst dlist_sort_segment.simps) (simp add: seg_of_def msort_cmp.simps)
  next
    case 2
    then show ?thesis
      using prems by (subst dlist_sort_segment.simps)
        (auto simp: seg_of_def msort_cmp.simps numeral_2_eq_2 same_links_def not_le)
  next
    case 3
    let ?ys = "take (?n div 2) xs" and ?zs = "drop (?n div 2) xs"
    let ?m1 = "msort_cmp cmp ?ys" and ?m2 = "msort_cmp cmp ?zs"
    have split: "xs = ?ys @ ?zs" by simp
    have ne: "?ys \<noteq> []" "?zs \<noteq> []" and len: "length ?ys < ?n" "length ?zs < ?n"
      using 3 by auto
    have ch: "chain h ?ys" "chain h ?zs"
      using prems(1) chain_appendD [of h ?ys ?zs] by simp_all
    have dist: "distinct ?ys" "distinct ?zs" "set ?ys \<inter> set ?zs = {}"
      using prems(3) set_take_disj_set_drop_if_distinct [of xs "?n div 2" "?n div 2"] by auto
    have mid: "find_middle h (seg_of xs) (hd xs) (hd xs) = Some (hd ?zs)"
      using find_middle_chain [OF prems(1,3), of "seg_of xs" 0] prems(2) 3
      by (simp add: seg_of_def hd_conv_nth hd_drop_conv_nth)
    have prev: "d_prev h (hd ?zs) = last ?ys"
      using prems(1) chain_append [OF ne, of h] by simp
    have ends: "hd ?ys = hd xs" "last ?zs = last xs" using ne prems(2) 3 by (simp_all add: hd_take)
    from less.hyps [OF len(1) ch(1) ne(1) dist(1)] obtain h1 where
      h1: "dlist_sort_segment h (seg_of ?ys) cmp = Some (h1, seg_of ?m1)" "chain h1 ?m1"
        "same_links (- set ?ys) h h1" by auto
    have "chain h1 ?zs"
      using ch(2) chain_cong [of ?zs h h1] same_links_mono [OF h1(3), of "set ?zs"] dist(3) by blast
    from less.hyps [OF len(2) this ne(2) dist(2)] obtain h2 where
      h2: "dlist_sort_segment h1 (seg_of ?zs) cmp = Some (h2, seg_of ?m2)" "chain h2 ?m2"
        "same_links (- set ?zs) h1 h2" by auto
    have "chain h2 ?m1"
      using h1(2) chain_cong [of ?m1 h1 h2] same_links_mono [OF h2(3), of "set ?m1"] dist(3)
      by (metis Int_commute disjoint_eq_subset_Compl set_msort_cmp)
    moreover have "?m1 \<noteq> []" "?m2 \<noteq> []" "distinct (?m1 @ ?m2)" using ne dist by simp_all
    ultimately obtain h3 where h3: "merge_segments h2 (seg_of ?m1) (seg_of ?m2) cmp = Some h3"
      "chain h3 (merge_cmp cmp ?m1 ?m2)" "same_links (- set (?m1 @ ?m2)) h2 h3"
      using merge_segments_chain [OF cmp(1) _ h2(2)] by blast
    have "\<not> ?n \<le> 1" using 3 by simp
    then have m: "msort_cmp cmp xs = merge_cmp cmp ?m1 ?m2"
      by (simp add: msort_cmp.simps [of cmp xs] Let_def)
    have sorted: "sorted_cmp cmp ?m1" "sorted_cmp cmp ?m2" using sorted_msort_cmp cmp by auto
    have "dlist_sort_segment h (seg_of xs) cmp = Some (h3, seg_of (msort_cmp cmp xs))"
    proof -
      have "hd xs \<noteq> last xs" "d_next h (hd xs) \<noteq> last xs" using prems 3 by auto
      then show ?thesis
        using mid prev ends h1(1) h2(1) h3(1) m ne sorted hd_merge_cmp [of ?m1 ?m2 cmp]
          last_merge_cmp [OF cmp(2), of ?m1 ?m2]
        by (subst dlist_sort_segment.simps) (simp add: seg_of_def Let_def)
    qed
    moreover have "same_links (- set xs) h h3"
      using h1(3) h2(3) h3(3) split set_append [of ?ys ?zs]
      by (simp add: same_links_def)
    ultimately show ?thesis using h3(2) m by auto
  qed
qed

theorem dlist_sort_rep:
  assumes "cmp_antisym cmp" "cmp_trans cmp" "dlist_rep h l xs"
  shows "\<exists>h' l'. dlist_sort h l cmp = Some (h', l') \<and> dlist_rep h' l' (msort_cmp cmp xs) \<and>
    same_links (- set xs) h h'"
proof (cases "length xs \<le> 1")
  case True
  then have "dl_head l = dl_tail l" "msort_cmp cmp xs = xs"
    using assms(3) by (cases xs; simp add: dlist_rep_def msort_cmp.simps)+
  with assms(3) show ?thesis by (simp add: dlist_sort_def)
next
  case False
  then have ne: "xs \<noteq> []" by auto
  have rep: "distinct xs" "NULL \<notin> set xs" "chain h xs" "dl_tail l = hd xs" "dl_head l = last xs"
    using assms(3) ne by (auto simp: dlist_rep_def links_iff_chain)
  have "dl_head l \<noteq> dl_tail l"
    using rep False by (cases xs rule: rev_cases) (auto simp: neq_Nil_conv)
  let ?m = "msort_cmp cmp xs"
  obtain h' where h': "dlist_sort_segment h (seg_of xs) cmp = Some (h', seg_of ?m)" "chain h' ?m"
    "same_links (- set xs) h h'"
    using dlist_sort_segment_chain [OF assms(1,2) rep(3) ne rep(1)] by auto
  let ?h = "set_prev (hd ?m) NULL (set_next (last ?m) NULL h')"
  have "dlist_sort h l cmp = Some (?h, \<lparr>dl_head = last ?m, dl_tail = hd ?m\<rparr>)"
    using h'(1) \<open>dl_head l \<noteq> dl_tail l\<close> rep by (simp add: dlist_sort_def seg_of_def)
  moreover have "dlist_rep ?h \<lparr>dl_head = last ?m, dl_tail = hd ?m\<rparr> ?m"
    using h'(2) ne rep last_notin_butlast [of ?m] hd_notin_tl [of ?m]
    by (simp add: dlist_rep_def links_iff_chain)
  moreover have "same_links (- set xs) h ?h"
    using h'(3) hd_in_set [of ?m] last_in_set [of ?m] ne by (auto simp: same_links_def)
  ultimately show ?thesis by blast
qed

end
