(* ===== verification/Containers.thy ===== *)
theory Containers
  imports Double_List
begin

text \<open>
  The contract of an intrusive node list, as the clients of src/common/dlist.h use it, and what
  follows from the contract alone: the behaviour of an array of such lists (the bucket array of
  the hash table) and of any sequence of list operations.  \<open>dlist.c\<close> is shown to fulfil it.
\<close>

section \<open>The contract\<close>

locale node_list =
  fixes rep :: "'h \<Rightarrow> 'l \<Rightarrow> ptr list \<Rightarrow> bool"
    and empty_list :: "'l"
    and add :: "'h \<Rightarrow> 'l \<Rightarrow> ptr \<Rightarrow> 'h \<times> 'l"
    and remove :: "'h \<Rightarrow> 'l \<Rightarrow> ptr \<Rightarrow> 'h \<times> 'l"
    and find_node :: "'h \<Rightarrow> 'l \<Rightarrow> ptr \<Rightarrow> (ptr \<Rightarrow> ptr \<Rightarrow> int) \<Rightarrow> ptr option"
    and agree :: "ptr set \<Rightarrow> 'h \<Rightarrow> 'h \<Rightarrow> bool"
  assumes rep_empty: "rep h empty_list []"
    and rep_wf: "rep h l xs \<Longrightarrow> distinct xs \<and> NULL \<notin> set xs"
    and rep_add: "rep h l xs \<Longrightarrow> p \<notin> set xs \<Longrightarrow> p \<noteq> NULL \<Longrightarrow> add h l p = (h', l') \<Longrightarrow> rep h' l' (xs @ [p])"
    and rep_remove: "rep h l xs \<Longrightarrow> p \<in> set xs \<Longrightarrow> remove h l p = (h', l') \<Longrightarrow> rep h' l' (remove1 p xs)"
    and rep_find: "rep h l xs \<Longrightarrow>
      find_node h l d cmp = Some (case find (\<lambda>x. cmp x d = 0) xs of None \<Rightarrow> NULL | Some x \<Rightarrow> x)"
    and frame: "rep h l xs \<Longrightarrow> agree (set xs) h h' \<Longrightarrow> rep h' l xs"
    and frame_add: "rep h l xs \<Longrightarrow> add h l p = (h', l') \<Longrightarrow> A \<inter> insert p (set xs) = {} \<Longrightarrow> agree A h h'"
    and frame_remove: "rep h l xs \<Longrightarrow> p \<in> set xs \<Longrightarrow> remove h l p = (h', l') \<Longrightarrow> A \<inter> (set xs - {p}) = {} \<Longrightarrow> agree A h h'"
begin

text \<open>An array of disjoint lists on one heap.\<close>

definition array_rep :: "'h \<Rightarrow> (nat \<Rightarrow> 'l) \<Rightarrow> nat \<Rightarrow> (nat \<Rightarrow> ptr list) \<Rightarrow> bool" where
  "array_rep h ls n bs \<longleftrightarrow> (\<forall>i<n. rep h (ls i) (bs i)) \<and>
     (\<forall>i<n. \<forall>j<n. i \<noteq> j \<longrightarrow> set (bs i) \<inter> set (bs j) = {})"

lemma array_rep_empty: "array_rep h (\<lambda>i. empty_list) n (\<lambda>i. [])"
  by (simp add: array_rep_def rep_empty)

lemma array_rep_add:
  assumes "array_rep h ls n bs" "i < n" "p \<noteq> NULL" "\<forall>j<n. p \<notin> set (bs j)" "add h (ls i) p = (h', l')"
  shows "array_rep h' (ls(i := l')) n (bs(i := bs i @ [p]))"
proof -
  have "rep h' (ls j) (bs j)" if "j < n" "j \<noteq> i" for j
    using assms that frame_add [of h "ls i" "bs i" p h' l' "set (bs j)"] frame [of h "ls j" "bs j" h']
    by (auto simp: array_rep_def)
  with assms rep_add [of h "ls i" "bs i" p h' l'] show ?thesis
    by (auto simp: array_rep_def)
qed

lemma array_rep_remove:
  assumes "array_rep h ls n bs" "i < n" "p \<in> set (bs i)" "remove h (ls i) p = (h', l')"
  shows "array_rep h' (ls(i := l')) n (bs(i := remove1 p (bs i)))"
proof -
  have "rep h' (ls j) (bs j)" if "j < n" "j \<noteq> i" for j
    using assms that frame_remove [of h "ls i" "bs i" p h' l' "set (bs j)"] frame [of h "ls j" "bs j" h']
    by (fastforce simp: array_rep_def)
  moreover have "set (remove1 p (bs i)) \<subseteq> set (bs i)" by (rule set_remove1_subset)
  ultimately show ?thesis
    using assms rep_remove [of h "ls i" "bs i" p h' l'] by (fastforce simp: array_rep_def)
qed

lemma array_rep_find:
  "array_rep h ls n bs \<Longrightarrow> i < n \<Longrightarrow>
   find_node h (ls i) d cmp = Some (case find (\<lambda>x. cmp x d = 0) (bs i) of None \<Rightarrow> NULL | Some x \<Rightarrow> x)"
  by (simp add: array_rep_def rep_find)

text \<open>Any run of additions and removals on one list.\<close>

fun run_ops :: "(ptr + ptr) list \<Rightarrow> 'h \<Rightarrow> 'l \<Rightarrow> 'h \<times> 'l" where
  "run_ops [] h l = (h, l)"
| "run_ops (Inl p # ops) h l = (case add h l p of (h, l) \<Rightarrow> run_ops ops h l)"
| "run_ops (Inr p # ops) h l = (case remove h l p of (h, l) \<Rightarrow> run_ops ops h l)"

end

text \<open>The same run on sequences; an operation is legal when it adds a fresh node or removes a member.\<close>

fun seq_ops :: "(ptr + ptr) list \<Rightarrow> ptr list \<Rightarrow> ptr list option" where
  "seq_ops [] xs = Some xs"
| "seq_ops (Inl p # ops) xs = (if p \<noteq> NULL \<and> p \<notin> set xs then seq_ops ops (xs @ [p]) else None)"
| "seq_ops (Inr p # ops) xs = (if p \<in> set xs then seq_ops ops (remove1 p xs) else None)"

context node_list
begin

lemma run_ops_rep:
  "rep h l xs \<Longrightarrow> seq_ops ops xs = Some ys \<Longrightarrow> run_ops ops h l = (h', l') \<Longrightarrow> rep h' l' ys"
proof (induction ops h l arbitrary: xs rule: run_ops.induct)
  case (2 p ops h l)
  then show ?case
    by (cases "add h l p") (auto split: if_splits intro: rep_add)
next
  case (3 p ops h l)
  then show ?case
    by (cases "remove h l p") (auto split: if_splits intro: rep_remove)
qed auto

end

section \<open>The C list fulfils the contract\<close>

interpretation dl: node_list dlist_rep dlist_init dlist_add dlist_remove dlist_find same_links
  by unfold_locales
    (auto simp: dlist_init_rep dlist_rep_distinct dlist_rep_not_NULL dlist_find_rep
      intro: dlist_add_rep dlist_remove_rep_remove1 dlist_rep_frame dlist_add_frame dlist_remove_frame)

text \<open>The run of list operations on the C list.\<close>

fun dlist_ops :: "(ptr + ptr) list \<Rightarrow> dheap \<Rightarrow> dlist \<Rightarrow> dheap \<times> dlist" where
  "dlist_ops [] h l = (h, l)"
| "dlist_ops (Inl p # ops) h l = (case dlist_add h l p of (h, l) \<Rightarrow> dlist_ops ops h l)"
| "dlist_ops (Inr p # ops) h l = (case dlist_remove h l p of (h, l) \<Rightarrow> dlist_ops ops h l)"

lemma dlist_ops_run: "dlist_ops ops h l = dl.run_ops ops h l"
  by (induction ops h l rule: dlist_ops.induct) (auto split: prod.splits)

end
