(* ===== verification/Hash_Table.thy ===== *)
theory Hash_Table
  imports Containers
begin

text \<open>
  The hash table of src/common/htable.c: an array of double linked lists, with the owning bucket
  cached in every node.  The pointer model uses the list operations of \<open>Double_List\<close>; the
  abstract table keeps the node sequences of the buckets.  The refinement lemmas connect the two
  and the last section states what a lookup, a store and a removal mean for the set of nodes.
\<close>

section \<open>The data structures\<close>

text \<open>The links of all nodes and, per node, the bucket it belongs to (\<open>htable_node_t\<close>).\<close>

record hheap =
  h_links :: dheap
  h_bucket :: "ptr \<Rightarrow> nat option"

record htable =
  ht_buckets :: "nat \<Rightarrow> dlist"
  ht_size :: int
  ht_compare :: "ptr \<Rightarrow> ptr \<Rightarrow> int"
  ht_calc_hash :: "ptr \<Rightarrow> int"

section \<open>Operations\<close>

text \<open>
  The hash is a \<open>long\<close> stored in an \<open>int\<close>: it is reduced to 32 bits.  A negative value would index
  in front of the bucket array; this out of bounds access is \<open>None\<close>.
\<close>

definition hash_index :: "int \<Rightarrow> int \<Rightarrow> nat option" where
  "hash_index n hash =
     (let hash = sint (word_of_int hash :: 32 word);
          hash = (if hash \<ge> n then hash mod n else hash)
      in if hash < 0 then None else Some (nat hash))"

definition get_bucket :: "htable \<Rightarrow> hheap \<Rightarrow> ptr \<Rightarrow> (nat \<times> hheap) option" where
  "get_bucket ht h node =
     (case h_bucket h node of
        Some b \<Rightarrow> Some (b, h)
      | None \<Rightarrow>
          (case hash_index (ht_size ht) (ht_calc_hash ht node) of
             None \<Rightarrow> None
           | Some b \<Rightarrow> Some (b, h\<lparr>h_bucket := (h_bucket h)(node \<mapsto> b)\<rparr>)))"

definition htable_init :: "int \<Rightarrow> (ptr \<Rightarrow> int) \<Rightarrow> (ptr \<Rightarrow> ptr \<Rightarrow> int) \<Rightarrow> htable" where
  "htable_init n do_calc_hash do_compare =
     \<lparr>ht_buckets = dlist_init_array (\<lambda>_. dlist_init) (nat n), ht_size = n,
      ht_compare = do_compare, ht_calc_hash = do_calc_hash\<rparr>"

definition htable_create_node :: "ptr \<Rightarrow> hheap \<Rightarrow> hheap" where
  "htable_create_node node h =
     h\<lparr>h_links := dlist_create_node node (h_links h), h_bucket := (h_bucket h)(node := None)\<rparr>"

definition htable_find :: "htable \<Rightarrow> hheap \<Rightarrow> ptr \<Rightarrow> (ptr \<times> hheap) option" where
  "htable_find ht h data =
     Option.bind (get_bucket ht h data) (\<lambda>(b, h).
     map_option (\<lambda>node. (node, h)) (dlist_find (h_links h) (ht_buckets ht b) data (ht_compare ht)))"

definition htable_remove_node :: "htable \<Rightarrow> hheap \<Rightarrow> ptr \<Rightarrow> htable \<times> hheap" where
  "htable_remove_node ht h node =
     (case h_bucket h node of
        Some b \<Rightarrow>
          (let (lk, l) = dlist_remove (h_links h) (ht_buckets ht b) node
           in (ht\<lparr>ht_buckets := (ht_buckets ht)(b := l)\<rparr>, h\<lparr>h_links := lk\<rparr>))
      | None \<Rightarrow> (ht, h))"

definition htable_store :: "htable \<Rightarrow> hheap \<Rightarrow> ptr \<Rightarrow> (ptr \<times> htable \<times> hheap) option" where
  "htable_store ht h node =
     Option.bind (get_bucket ht h node) (\<lambda>(b, h).
     Option.bind (dlist_find (h_links h) (ht_buckets ht b) node (ht_compare ht)) (\<lambda>old_node.
       (let (lk, l) = (if old_node \<noteq> NULL then dlist_remove (h_links h) (ht_buckets ht b) old_node
                       else (h_links h, ht_buckets ht b));
            bk = (h_bucket h)(node \<mapsto> b);
            (lk, l) = dlist_add lk l node
        in Some (old_node, ht\<lparr>ht_buckets := (ht_buckets ht)(b := l)\<rparr>,
                 h\<lparr>h_links := lk, h_bucket := bk\<rparr>))))"

text \<open>Traversal of all buckets in index order; \<open>links\<close> are the lk of the threaded state.\<close>

fun htable_foreach_from :: "('s \<Rightarrow> dheap) \<Rightarrow> (nat \<Rightarrow> dlist) \<Rightarrow> nat list \<Rightarrow> (ptr \<Rightarrow> 's \<Rightarrow> 's) \<Rightarrow> 's \<Rightarrow> 's option" where
  "htable_foreach_from lk bk [] do_what s = Some s"
| "htable_foreach_from lk bk (i # is) do_what s =
     Option.bind (dlist_foreach lk (bk i) do_what s) (htable_foreach_from lk bk is do_what)"

definition htable_foreach :: "('s \<Rightarrow> dheap) \<Rightarrow> htable \<Rightarrow> (ptr \<Rightarrow> 's \<Rightarrow> 's) \<Rightarrow> 's \<Rightarrow> 's option" where
  "htable_foreach lk ht do_what s =
     htable_foreach_from lk (ht_buckets ht) [0..<nat (ht_size ht)] do_what s"

definition htable_foreach2 :: "('s \<Rightarrow> dheap) \<Rightarrow> htable \<Rightarrow> (ptr \<Rightarrow> 'd \<Rightarrow> 's \<Rightarrow> 's) \<Rightarrow> 'd \<Rightarrow> 's \<Rightarrow> 's option" where
  "htable_foreach2 lk ht do_what data s =
     htable_foreach_from lk (ht_buckets ht) [0..<nat (ht_size ht)] (\<lambda>node. do_what node data) s"

text \<open>Every bucket is freed in turn, then the bucket array is released.\<close>

fun htable_free_from :: "('s \<Rightarrow> dheap) \<Rightarrow> (nat \<Rightarrow> dlist) \<Rightarrow> nat list \<Rightarrow> (ptr \<Rightarrow> 's \<Rightarrow> 's) option \<Rightarrow> 's \<Rightarrow>
    (nat \<Rightarrow> dlist) \<Rightarrow> ('s \<times> (nat \<Rightarrow> dlist)) option" where
  "htable_free_from lk bk [] free_node s out = Some (s, out)"
| "htable_free_from lk bk (i # is) free_node s out =
     Option.bind (dlist_free lk (bk i) free_node s)
       (\<lambda>(s, l). htable_free_from lk bk is free_node s (out(i := l)))"

definition htable_free :: "('s \<Rightarrow> dheap) \<Rightarrow> htable \<Rightarrow> (ptr \<Rightarrow> 's \<Rightarrow> 's) option \<Rightarrow> 's \<Rightarrow> 's option" where
  "htable_free lk ht free_node s =
     map_option fst (htable_free_from lk (ht_buckets ht) [0..<nat (ht_size ht)] free_node s (ht_buckets ht))"

text \<open>The debug dump: the nodes it prints.  The walk of a bucket starts at the head of its list.\<close>

fun htable_dump_from :: "dheap \<Rightarrow> (nat \<Rightarrow> dlist) \<Rightarrow> nat list \<Rightarrow> ptr list \<Rightarrow> ptr list option" where
  "htable_dump_from h bk [] out = Some out"
| "htable_dump_from h bk (i # is) out =
     Option.bind (foreach_loop (\<lambda>_. h) (\<lambda>node out. out @ [node]) (dl_head (bk i)) out)
       (htable_dump_from h bk is)"

definition htable_dump :: "hheap \<Rightarrow> htable \<Rightarrow> ptr list option" where
  "htable_dump h ht = htable_dump_from (h_links h) (ht_buckets ht) [0..<nat (ht_size ht)] []"

section \<open>The abstract table\<close>

record 'k atable =
  a_size :: nat
  a_bucket :: "nat \<Rightarrow> 'k list"

definition a_init :: "nat \<Rightarrow> 'k atable" where
  "a_init n = \<lparr>a_size = n, a_bucket = (\<lambda>_. [])\<rparr>"

definition a_find :: "('k \<Rightarrow> 'k \<Rightarrow> int) \<Rightarrow> 'k atable \<Rightarrow> nat \<Rightarrow> 'k \<Rightarrow> 'k option" where
  "a_find cmp t b data = find (\<lambda>x. cmp x data = 0) (a_bucket t b)"

definition a_remove :: "'k atable \<Rightarrow> nat \<Rightarrow> 'k \<Rightarrow> 'k atable" where
  "a_remove t b x = t\<lparr>a_bucket := (a_bucket t)(b := remove1 x (a_bucket t b))\<rparr>"

definition a_store :: "('k \<Rightarrow> 'k \<Rightarrow> int) \<Rightarrow> 'k atable \<Rightarrow> nat \<Rightarrow> 'k \<Rightarrow> 'k atable" where
  "a_store cmp t b x =
     (let xs = (case a_find cmp t b x of None \<Rightarrow> a_bucket t b | Some y \<Rightarrow> remove1 y (a_bucket t b))
      in t\<lparr>a_bucket := (a_bucket t)(b := xs @ [x])\<rparr>)"

definition a_nodes :: "'k atable \<Rightarrow> 'k list" where
  "a_nodes t = concat (map (a_bucket t) [0..<a_size t])"

section \<open>Refinement\<close>

text \<open>
  \<open>ht_rep\<close>: every bucket is a well-formed list, the buckets are disjoint, and every stored node
  records its bucket, which is the one its hash selects.
\<close>

definition ht_rep :: "hheap \<Rightarrow> htable \<Rightarrow> ptr atable \<Rightarrow> bool" where
  "ht_rep h ht t \<longleftrightarrow> 0 < ht_size ht \<and> a_size t = nat (ht_size ht) \<and>
     dl.array_rep (h_links h) (ht_buckets ht) (a_size t) (a_bucket t) \<and>
     (\<forall>i<a_size t. \<forall>p\<in>set (a_bucket t i). h_bucket h p = Some i \<and>
        hash_index (ht_size ht) (ht_calc_hash ht p) = Some i)"

lemma hash_index_bound: "0 < n \<Longrightarrow> hash_index n hash = Some b \<Longrightarrow> b < nat n"
  by (auto simp: hash_index_def Let_def split: if_splits)

lemma hash_index_16bit:
  assumes "0 \<le> hash" "hash < 65536"
  shows "hash_index 65536 hash = Some (nat hash)"
proof -
  have "sint (word_of_int hash :: 32 word) = hash"
    using assms by (simp add: signed_take_bit_int_eq_self sint_sbintrunc')
  with assms show ?thesis by (simp add: hash_index_def Let_def)
qed

lemma htable_init_rep: "0 < n \<Longrightarrow> ht_rep h (htable_init n hf cmp) (a_init (nat n))"
  using dl.array_rep_empty [of "h_links h" "nat n"]
  by (simp add: ht_rep_def htable_init_def a_init_def dl.array_rep_def dlist_init_array_def dlist_init_def)

lemma get_bucket_rep:
  assumes "ht_rep h ht t" "hash_index (ht_size ht) (ht_calc_hash ht p) = Some b"
    "h_bucket h p = None \<or> h_bucket h p = Some b"
  shows "\<exists>h'. get_bucket ht h p = Some (b, h') \<and> h_links h' = h_links h \<and> h_bucket h' = (h_bucket h)(p \<mapsto> b) \<and>
    ht_rep h' ht t"
  using assms
  by (cases "h_bucket h p") (auto simp: get_bucket_def ht_rep_def)

lemma htable_find_rep:
  assumes "ht_rep h ht t" "hash_index (ht_size ht) (ht_calc_hash ht p) = Some b"
    "h_bucket h p = None \<or> h_bucket h p = Some b"
  shows "\<exists>h'. htable_find ht h p =
      Some (case a_find (ht_compare ht) t b p of None \<Rightarrow> NULL | Some x \<Rightarrow> x, h') \<and> ht_rep h' ht t"
proof -
  obtain h' where h': "get_bucket ht h p = Some (b, h')" "h_links h' = h_links h" "ht_rep h' ht t"
    using get_bucket_rep [OF assms] by auto
  have "b < a_size t" using assms hash_index_bound by (auto simp: ht_rep_def)
  then show ?thesis
    using h' dl.array_rep_find [of "h_links h'" "ht_buckets ht" "a_size t" "a_bucket t" b]
    by (auto simp: htable_find_def ht_rep_def a_find_def)
qed

text \<open>Storing a node that is not in the table replaces the equal node, if there is one.\<close>

lemma htable_store_rep:
  assumes "ht_rep h ht t" "hash_index (ht_size ht) (ht_calc_hash ht p) = Some b"
    "h_bucket h p = None \<or> h_bucket h p = Some b" "p \<noteq> NULL" "\<forall>i<a_size t. p \<notin> set (a_bucket t i)"
  shows "\<exists>ht' h'. htable_store ht h p =
      Some (case a_find (ht_compare ht) t b p of None \<Rightarrow> NULL | Some x \<Rightarrow> x, ht', h') \<and>
      ht_rep h' ht' (a_store (ht_compare ht) t b p) \<and>
      ht_size ht' = ht_size ht \<and> ht_calc_hash ht' = ht_calc_hash ht \<and> ht_compare ht' = ht_compare ht \<and>
      h_bucket h' = (h_bucket h)(p \<mapsto> b)"
proof -
  let ?f = "find (\<lambda>x. ht_compare ht x p = 0) (a_bucket t b)"
  obtain h1 where h1: "get_bucket ht h p = Some (b, h1)" "h_links h1 = h_links h"
      "h_bucket h1 = (h_bucket h)(p \<mapsto> b)" "ht_rep h1 ht t"
    using get_bucket_rep [OF assms(1,2,3)] by auto
  have b: "b < a_size t" using assms hash_index_bound by (auto simp: ht_rep_def)
  have arr: "dl.array_rep (h_links h1) (ht_buckets ht) (a_size t) (a_bucket t)"
    using h1(4) unfolding ht_rep_def by blast
  have find: "dlist_find (h_links h1) (ht_buckets ht b) p (ht_compare ht) =
      Some (case ?f of None \<Rightarrow> NULL | Some x \<Rightarrow> x)"
    by (rule dl.array_rep_find [OF arr b])
  define old where "old = (case ?f of None \<Rightarrow> NULL | Some x \<Rightarrow> x)"
  define xs where "xs = (case ?f of None \<Rightarrow> a_bucket t b | Some y \<Rightarrow> remove1 y (a_bucket t b))"
  obtain lk l where rem: "(if old \<noteq> NULL then dlist_remove (h_links h1) (ht_buckets ht b) old
      else (h_links h1, ht_buckets ht b)) = (lk, l)" by fastforce
  have nn: "NULL \<notin> set (a_bucket t b)"
    using arr b dl.rep_wf by (auto simp: dl.array_rep_def)
  have arr2: "dl.array_rep lk ((ht_buckets ht)(b := l)) (a_size t) ((a_bucket t)(b := xs))"
  proof (cases ?f)
    case None
    then show ?thesis using rem arr by (auto simp: old_def xs_def)
  next
    case (Some x)
    then have "x \<in> set (a_bucket t b)" by (metis find_Some_iff nth_mem)
    then show ?thesis
      using dl.array_rep_remove [OF arr b, of x lk l] rem nn Some by (auto simp: old_def xs_def split: if_splits)
  qed
  have sub: "set xs \<subseteq> set (a_bucket t b)"
    by (auto simp: xs_def split: option.split dest: subsetD [OF set_remove1_subset])
  obtain lk' l' where add: "dlist_add lk l p = (lk', l')" by fastforce
  have arr3: "dl.array_rep lk' ((ht_buckets ht)(b := l')) (a_size t) ((a_bucket t)(b := xs @ [p]))"
  proof -
    have "\<forall>j<a_size t. p \<notin> set (((a_bucket t)(b := xs)) j)" using sub assms(5) b by auto
    with dl.array_rep_add [OF arr2 b assms(4), of lk' l'] add show ?thesis by simp
  qed
  have cached: "h_bucket h1 q = Some i \<and> hash_index (ht_size ht) (ht_calc_hash ht q) = Some i"
    if "i < a_size t" "q \<in> set (((a_bucket t)(b := xs @ [p])) i)" for i q
    using that h1(3,4) sub assms(2) unfolding ht_rep_def by (auto split: if_splits)
  let ?ht = "ht\<lparr>ht_buckets := (ht_buckets ht)(b := l')\<rparr>"
  let ?h = "h1\<lparr>h_links := lk', h_bucket := (h_bucket h1)(p \<mapsto> b)\<rparr>"
  have "htable_store ht h p = Some (old, ?ht, ?h)"
    using h1(1) find rem add by (simp add: htable_store_def old_def [symmetric])
  moreover have "ht_rep ?h ?ht (a_store (ht_compare ht) t b p)"
    using arr3 cached h1(3,4) by (simp add: ht_rep_def a_store_def a_find_def xs_def [symmetric] Let_def)
  ultimately show ?thesis using h1(3) by (auto simp: a_find_def old_def)
qed

lemma htable_remove_node_rep:
  assumes "ht_rep h ht t" "b < a_size t" "p \<in> set (a_bucket t b)" "htable_remove_node ht h p = (ht', h')"
  shows "ht_rep h' ht' (a_remove t b p)"
proof -
  obtain lk l where rem: "dlist_remove (h_links h) (ht_buckets ht b) p = (lk, l)" by fastforce
  have arr: "dl.array_rep (h_links h) (ht_buckets ht) (a_size t) (a_bucket t)"
    using assms(1) unfolding ht_rep_def by blast
  have "h_bucket h p = Some b" using assms by (auto simp: ht_rep_def)
  then show ?thesis
    using assms rem dl.array_rep_remove [OF arr assms(2,3) rem]
    by (auto simp: htable_remove_node_def ht_rep_def a_remove_def dest: subsetD [OF set_remove1_subset])
qed

section \<open>Traversal\<close>

lemma htable_foreach_from_fold:
  assumes "\<And>i s. i \<in> set is \<Longrightarrow> dlist_foreach lk (bk i) f s = Some (fold f (bs i) s)"
  shows "htable_foreach_from lk bk is f s = Some (fold f (concat (map bs is)) s)"
  using assms by (induction "is" arbitrary: s) auto

text \<open>A callback that leaves the links alone sees every node of the table exactly once.\<close>

lemma htable_foreach_rep:
  assumes "ht_rep h ht t" "\<And>s. lk s = h_links h"
  shows "htable_foreach lk ht f s = Some (fold f (a_nodes t) s)"
proof -
  have "dlist_foreach lk (ht_buckets ht i) f s = Some (fold f (a_bucket t i) s)" if "i < a_size t" for i s
  proof -
    have r: "dlist_rep (h_links h) (ht_buckets ht i) (a_bucket t i)"
      using assms that by (auto simp: ht_rep_def dl.array_rep_def)
    then have "foreach_loop lk f (hd (a_bucket t i @ [NULL])) s = Some (fold f (a_bucket t i) s)"
      by (intro foreach_loop_fold [where p = NULL]) (auto simp: dlist_rep_def assms(2))
    with r show ?thesis by (simp add: dlist_foreach_def dlist_rep_first)
  qed
  then show ?thesis
    using assms(1) htable_foreach_from_fold [of "[0..<a_size t]" lk "ht_buckets ht" f "a_bucket t" s]
    by (simp add: htable_foreach_def a_nodes_def ht_rep_def)
qed

text \<open>
  The debug dump reaches only the last node of every bucket: it starts at the head of the list,
  which is the newest node, and follows the \<open>next\<close> links.
\<close>

lemma htable_dump_from_rep:
  assumes "\<And>i. i \<in> set is \<Longrightarrow> dlist_rep h (bk i) (bs i)"
  shows "htable_dump_from h bk is out =
    Some (out @ concat (map (\<lambda>i. if bs i = [] then [] else [last (bs i)]) is))"
  using assms
proof (induction "is" arbitrary: out)
  case (Cons i "is")
  have r: "dlist_rep h (bk i) (bs i)" using Cons.prems by simp
  have "foreach_loop (\<lambda>_. h) (\<lambda>node out. out @ [node]) (dl_head (bk i)) out =
      Some (out @ (if bs i = [] then [] else [last (bs i)]))"
  proof (cases "bs i" rule: rev_cases)
    case Nil
    then show ?thesis using r by (simp add: dlist_rep_def foreach_loop.simps)
  next
    case (snoc ys y)
    then have "dl_head (bk i) = y" "d_next h y = NULL" "y \<noteq> NULL"
      using r dlist_rep_links [of h "bk i" ys y "[]"] by (auto simp: dlist_rep_def)
    then show ?thesis using snoc by (simp add: foreach_loop.simps)
  qed
  then show ?case using Cons by simp
qed simp

lemma htable_dump_rep:
  assumes "ht_rep h ht t"
  shows "htable_dump h ht =
    Some (concat (map (\<lambda>i. if a_bucket t i = [] then [] else [last (a_bucket t i)]) [0..<a_size t]))"
  using assms htable_dump_from_rep [of "[0..<a_size t]" "h_links h" "ht_buckets ht" "a_bucket t" "[]"]
  by (auto simp: htable_dump_def ht_rep_def dl.array_rep_def)

section \<open>The table as a set of keys\<close>

text \<open>
  Comparison and hash agree when equality of keys is an equivalence and equal keys share a bucket.
  A table without two equal nodes then behaves as a finite map from keys to nodes.
\<close>

definition hash_ok :: "('k \<Rightarrow> 'k \<Rightarrow> int) \<Rightarrow> ('k \<Rightarrow> nat) \<Rightarrow> bool" where
  "hash_ok cmp hf \<longleftrightarrow> (\<forall>x. cmp x x = 0) \<and> (\<forall>x y. cmp x y = 0 \<longrightarrow> cmp y x = 0) \<and>
     (\<forall>x y z. cmp x y = 0 \<longrightarrow> cmp y z = 0 \<longrightarrow> cmp x z = 0) \<and> (\<forall>x y. cmp x y = 0 \<longrightarrow> hf x = hf y)"

definition a_unique :: "('k \<Rightarrow> 'k \<Rightarrow> int) \<Rightarrow> 'k atable \<Rightarrow> bool" where
  "a_unique cmp t \<longleftrightarrow> (\<forall>i. sorted_wrt (\<lambda>x y. cmp x y \<noteq> 0) (a_bucket t i))"

lemma find_unique_remove1:
  assumes "sorted_wrt (\<lambda>x y. cmp x y \<noteq> 0) xs" "find (\<lambda>x. cmp x p = 0) xs = r"
    and "\<And>x y. cmp x y = 0 \<Longrightarrow> cmp y x = 0" "\<And>x y z. cmp x y = 0 \<Longrightarrow> cmp y z = 0 \<Longrightarrow> cmp x z = (0::int)"
  shows "(case r of None \<Rightarrow> xs | Some y \<Rightarrow> remove1 y xs) = filter (\<lambda>x. cmp x p \<noteq> 0) xs"
  using assms(1,2)
proof (induction xs)
  case (Cons x xs)
  show ?case
  proof (cases "cmp x p = 0")
    case True
    have "cmp y p \<noteq> 0" if "y \<in> set xs" for y
      using that Cons.prems(1) assms(3) [of y p] assms(4) [OF True, of y] by auto
    with True Cons.prems show ?thesis by (auto simp: filter_id_conv)
  next
    case False
    have "y \<noteq> x" if "r = Some y" for y
      using that False Cons.prems(2) by (auto simp: find_Some_iff)
    with False Cons show ?thesis by (cases r) auto
  qed
qed auto

lemma a_store_unique:
  assumes "hash_ok cmp hf" "a_unique cmp t"
  shows "a_unique cmp (a_store cmp t b x)"
    and "a_bucket (a_store cmp t b x) b = filter (\<lambda>y. cmp y x \<noteq> 0) (a_bucket t b) @ [x]"
proof -
  show *: "a_bucket (a_store cmp t b x) b = filter (\<lambda>y. cmp y x \<noteq> 0) (a_bucket t b) @ [x]"
  proof -
    have sym: "\<And>x y. cmp x y = 0 \<Longrightarrow> cmp y x = 0"
      and trans: "\<And>x y z. cmp x y = 0 \<Longrightarrow> cmp y z = 0 \<Longrightarrow> cmp x z = 0"
      using assms(1) unfolding hash_ok_def by blast+
    have "sorted_wrt (\<lambda>x y. cmp x y \<noteq> 0) (a_bucket t b)" using assms(2) by (simp add: a_unique_def)
    from find_unique_remove1 [where p = x, OF this refl sym trans]
    show ?thesis by (simp add: a_store_def a_find_def Let_def)
  qed
  have "a_bucket (a_store cmp t b x) i = a_bucket t i" if "i \<noteq> b" for i
    using that by (simp add: a_store_def Let_def)
  moreover have "sorted_wrt (\<lambda>x y. cmp x y \<noteq> 0) (filter (\<lambda>y. cmp y x \<noteq> 0) (a_bucket t b) @ [x])"
    using assms(2) by (simp add: a_unique_def sorted_wrt_append sorted_wrt_filter)
  ultimately show "a_unique cmp (a_store cmp t b x)"
    using * assms(2) unfolding a_unique_def by metis
qed

text \<open>A stored node is found by every equal key, and no other lookup changes.\<close>

lemma a_find_store:
  assumes "hash_ok cmp hf" "a_unique cmp t"
  shows "a_find cmp (a_store cmp t (hf x) x) (hf y) y =
    (if cmp x y = 0 then Some x else a_find cmp t (hf y) y)"
proof -
  have ok: "cmp x y = 0 \<Longrightarrow> hf x = hf y" "\<And>z. cmp z x \<noteq> 0 \<Longrightarrow> cmp x y = 0 \<Longrightarrow> cmp z y \<noteq> 0"
      "\<And>z. cmp z y = 0 \<Longrightarrow> cmp z x = 0 \<Longrightarrow> cmp x y = 0"
    using assms(1) unfolding hash_ok_def by metis+
  have e: "find P (filter Q zs @ [x]) = (if P x then (case find P (filter Q zs) of None \<Rightarrow> Some x | r \<Rightarrow> r)
      else find P (filter Q zs))" for P Q and zs :: "'a list"
    by (induction zs) auto
  have n: "find P (filter Q zs) = None" if "\<And>z. Q z \<Longrightarrow> \<not> P z" for P Q and zs :: "'a list"
    using that by (auto simp: find_None_iff)
  have s: "find P (filter Q zs) = find P zs" if "\<And>z. P z \<Longrightarrow> Q z" for P Q and zs :: "'a list"
    using that by (induction zs) auto
  show ?thesis
  proof (cases "hf x = hf y")
    case True
    then have f: "a_find cmp (a_store cmp t (hf x) x) (hf y) y =
        find (\<lambda>z. cmp z y = 0) (filter (\<lambda>z. cmp z x \<noteq> 0) (a_bucket t (hf y)) @ [x])"
      using a_store_unique(2) [OF assms, of "hf x" x] by (simp add: a_find_def)
    show ?thesis
    proof (cases "cmp x y = 0")
      case True
      then have "find (\<lambda>z. cmp z y = 0) (filter (\<lambda>z. cmp z x \<noteq> 0) (a_bucket t (hf y))) = None"
        by (intro n ok(2))
      with True f show ?thesis by (simp add: e)
    next
      case False
      then have "find (\<lambda>z. cmp z y = 0) (filter (\<lambda>z. cmp z x \<noteq> 0) (a_bucket t (hf y))) =
          find (\<lambda>z. cmp z y = 0) (a_bucket t (hf y))"
        by (intro s) (use ok(3) in blast)
      with False f show ?thesis by (simp add: e a_find_def)
    qed
  next
    case False
    then show ?thesis using ok(1) by (auto simp: a_find_def a_store_def Let_def)
  qed
qed

text \<open>
  The same law on the operations: a stored node is found by every equal key, and the other lookups
  give what they gave before.
\<close>

theorem htable_find_store:
  assumes rep: "ht_rep h ht t" "a_unique (ht_compare ht) t" "hash_ok (ht_compare ht) bk"
    and ix: "\<And>x. hash_index (ht_size ht) (ht_calc_hash ht x) = Some (bk x)"
    and p: "p \<noteq> NULL" "\<forall>i<a_size t. p \<notin> set (a_bucket t i)" "h_bucket h p = None"
    and q: "h_bucket h q = None" "htable_find ht h q = Some (v, h0)"
  shows "\<exists>r ht' h' h''. htable_store ht h p = Some (r, ht', h') \<and> a_unique (ht_compare ht') (a_store (ht_compare ht) t (bk p) p) \<and>
    ht_rep h' ht' (a_store (ht_compare ht) t (bk p) p) \<and> htable_find ht' h' q = Some (if ht_compare ht p q = 0 then p else v, h'')"
proof -
  let ?cmp = "ht_compare ht" and ?t = "a_store (ht_compare ht) t (bk p) p"
  obtain r ht' h' where s: "htable_store ht h p = Some (r, ht', h')" "ht_rep h' ht' ?t" "ht_size ht' = ht_size ht"
    "ht_calc_hash ht' = ht_calc_hash ht" "ht_compare ht' = ?cmp" "h_bucket h' = (h_bucket h)(p \<mapsto> bk p)"
    using htable_store_rep [OF rep(1) ix _ p(1,2)] p(3) by blast
  have v: "v = (case a_find ?cmp t (bk q) q of None \<Rightarrow> NULL | Some x \<Rightarrow> x)"
    using htable_find_rep [OF rep(1) ix, of q] q by auto
  have "h_bucket h' q = None \<or> h_bucket h' q = Some (bk q)" using s(6) q(1) by simp
  moreover have "hash_index (ht_size ht') (ht_calc_hash ht' q) = Some (bk q)" using s(3,4) ix by simp
  ultimately obtain h'' where "htable_find ht' h' q = Some (case a_find ?cmp ?t (bk q) q of None \<Rightarrow> NULL | Some x \<Rightarrow> x, h'')"
    using htable_find_rep [OF s(2)] s(5) by metis
  then show ?thesis using s(1,2,5) a_find_store [OF rep(3,2), of p q] v a_store_unique(1) [OF rep(3,2)] by (auto split: if_splits)
qed

end
