(* ===== verification/Rtrace_Data.thy ===== *)
theory Rtrace_Data
  imports Hash_Table Proto
begin

text \<open>
  The trace data of the post-processor, src/common/rtrace\_data.c and rtrace\_data.h, with the
  record types of src/library/sp\_rtrace\_defs.h.  The intrusive lists of the C structures are
  their node sequences and the backtrace table is the abstract table of \<open>Hash_Table\<close>; the
  refinement lemmas of \<open>Double_List\<close> and \<open>Hash_Table\<close> justify both.  Records that are shared by
  reference live in stores, so that an access to a released record is visible as \<open>None\<close>.
\<close>

section \<open>Records\<close>

definition FTYPE_UNDEF :: u32 where "FTYPE_UNDEF = 0"
definition FTYPE_FREE :: u32 where "FTYPE_FREE = 1"
definition FTYPE_ALLOC :: u32 where "FTYPE_ALLOC = 2"

definition RESOURCE_REFCOUNT :: u32 where "RESOURCE_REFCOUNT = 1"

text \<open>The \<open>res_type\<close> field with its \<open>res_type_flag\<close> tag (\<open>sp_rtrace_fcall_rfield_t\<close>).\<close>

datatype res_field = RFIELD_UNDEF | RFIELD_REF ptr | RFIELD_ID u64 | RFIELD_NAME cstring

record sp_rtrace_fcall =
  fc_index :: int
  fc_type :: u32
  fc_context :: u32
  fc_timestamp :: u32
  fc_name :: "cstring option"
  fc_res_type :: res_field
  fc_res_id :: pointer_t
  fc_res_size :: u32

record sp_rtrace_mmap =
  mm_from :: pointer_t
  mm_to :: pointer_t
  mm_module :: cstring

record sp_rtrace_context =
  cx_id :: u64
  cx_name :: cstring

record sp_rtrace_resource =
  rs_id :: u64
  rs_type :: cstring
  rs_desc :: cstring
  rs_flags :: u32

record sp_rtrace_farg =
  fa_name :: cstring
  fa_value :: cstring

record sp_rtrace_attachment =
  at_name :: cstring
  at_path :: cstring

record rd_hshake =
  hs_vmajor :: byte
  hs_vminor :: byte
  hs_arch :: cstring
  hs_endianness :: byte
  hs_pointer_size :: byte

record rd_pinfo =
  pi_pid :: u32
  pi_backtrace_depth :: u32
  pi_name :: cstring
  pi_sec :: u32
  pi_usec :: u32
  pi_trace_origin :: cstring

record rd_minfo =
  mi_id :: u32
  mi_vmajor :: byte
  mi_vminor :: byte
  mi_name :: cstring

record rd_resource =
  rr_data :: sp_rtrace_resource
  rr_hide :: bool

record rd_fcall =
  call_data :: sp_rtrace_fcall
  call_trace :: ptr
  call_ref :: ptr
  call_args :: "sp_rtrace_farg list option"

record rd_ftrace =
  ft_bucket :: "nat option"
  ft_ref_count :: int
  ft_nframes :: u64
  ft_frames :: "pointer_t list"
  ft_names :: "cstring option list option"
  ft_calls :: "ptr list"

record rd_comment =
  cm_index :: int
  cm_text :: cstring

record rd_hinfo =
  hi_heap_bottom :: pointer_t
  hi_heap_top :: pointer_t
  hi_lowest_block :: pointer_t
  hi_highest_block :: pointer_t
  hi_stats :: "u32 list"

record rd =
  rd_calls :: "ptr list"
  rd_contexts :: "sp_rtrace_context list"
  rd_ftraces :: "ptr atable"
  rd_mmaps :: "sp_rtrace_mmap list"
  rd_hshake :: "rd_hshake option"
  rd_pinfo :: "rd_pinfo option"
  rd_minfo :: "rd_minfo list"
  rd_comments :: "rd_comment list"
  rd_hinfo :: "rd_hinfo option"
  rd_resources :: "ptr list"
  rd_filter :: u32
  rd_files :: "sp_rtrace_attachment list"

text \<open>The stores of the records that are reached through pointers; \<open>rh_next\<close> is the next free address.\<close>

record rheap =
  rh_next :: ptr
  rh_fcalls :: "ptr \<rightharpoonup> rd_fcall"
  rh_ftraces :: "ptr \<rightharpoonup> rd_ftrace"
  rh_refs :: "ptr \<rightharpoonup> ptr"
  rh_resources :: "ptr \<rightharpoonup> rd_resource"

text \<open>
  Removing a node from a list it is not a member of would change links of foreign nodes; with the
  node sequence this is \<open>None\<close>.
\<close>

definition seq_remove :: "'a \<Rightarrow> 'a list \<Rightarrow> 'a list option" where
  "seq_remove x xs = (if x \<in> set xs then Some (remove1 x xs) else None)"

text \<open>The search of a list with a callback that reads the records of the nodes.\<close>

fun seq_find :: "('a \<Rightarrow> int option) \<Rightarrow> 'a list \<Rightarrow> 'a option option" where
  "seq_find cmp [] = Some None"
| "seq_find cmp (x # xs) = do { v \<leftarrow> cmp x; if v = 0 then Some (Some x) else seq_find cmp xs }"

lemma seq_find_total:
  "\<forall>x\<in>set xs. cmp x = Some (f x) \<Longrightarrow> seq_find cmp xs = Some (find (\<lambda>x. f x = 0) xs)"
  by (induction xs) auto

section \<open>Releasing records\<close>

definition rd_fcall_free :: "rheap \<Rightarrow> ptr \<Rightarrow> rheap option" where
  "rd_fcall_free h c = do {
     guard (rh_fcalls h c \<noteq> None);
     Some (h\<lparr>rh_fcalls := (rh_fcalls h)(c := None)\<rparr>) }"

definition free_ref :: "rheap \<Rightarrow> ptr \<Rightarrow> rheap option" where
  "free_ref h r = do {
     guard (rh_refs h r \<noteq> None);
     Some (h\<lparr>rh_refs := (rh_refs h)(r := None)\<rparr>) }"

fun free_refs :: "rheap \<Rightarrow> ptr list \<Rightarrow> rheap option" where
  "free_refs h [] = Some h"
| "free_refs h (r # rs) = do { h \<leftarrow> free_ref h r; free_refs h rs }"

text \<open>The call references of a backtrace are released with it, the calls themselves are kept.\<close>

definition rd_ftrace_free :: "rheap \<Rightarrow> ptr \<Rightarrow> rheap option" where
  "rd_ftrace_free h t = do {
     trace \<leftarrow> rh_ftraces h t;
     h \<leftarrow> free_refs h (ft_calls trace);
     Some (h\<lparr>rh_ftraces := (rh_ftraces h)(t := None)\<rparr>) }"

definition rd_resource_free :: "rheap \<Rightarrow> ptr \<Rightarrow> rheap option" where
  "rd_resource_free h r = do {
     guard (rh_resources h r \<noteq> None);
     Some (h\<lparr>rh_resources := (rh_resources h)(r := None)\<rparr>) }"

fun free_all :: "(rheap \<Rightarrow> ptr \<Rightarrow> rheap option) \<Rightarrow> rheap \<Rightarrow> ptr list \<Rightarrow> rheap option" where
  "free_all f h [] = Some h"
| "free_all f h (p # ps) = do { h \<leftarrow> f h p; free_all f h ps }"

section \<open>Indexing of backtraces\<close>

text \<open>\<open>memcmp\<close>: the difference of the first two bytes that differ.\<close>

fun memcmp :: "byte list \<Rightarrow> byte list \<Rightarrow> int" where
  "memcmp (a # as) (b # bs) = (if a = b then memcmp as bs else int (unat a) - int (unat b))"
| "memcmp _ _ = 0"

definition ft_used :: "rd_ftrace \<Rightarrow> pointer_t list" where
  "ft_used t = take (unat (ft_nframes t)) (ft_frames t)"

definition bt_compare :: "rd_ftrace \<Rightarrow> rd_ftrace \<Rightarrow> int" where
  "bt_compare bt1 bt2 =
     (if ft_nframes bt1 = ft_nframes bt2
      then memcmp (concat (map write_pointer (ft_used bt1))) (concat (map write_pointer (ft_used bt2)))
      else sint (ft_nframes bt1 - ft_nframes bt2))"

text \<open>One round of the hash: 16 bits of the value, shifted by 3 until it is zero.\<close>

lemma drop_bit_3_less: "value \<noteq> 0 \<Longrightarrow> unat (drop_bit 3 (value :: u64)) < unat value"
  by (simp add: unat_drop_bit_eq drop_bit_nat_def unat_gt_0)

function hash_fold :: "u64 \<Rightarrow> u64 \<Rightarrow> u64" where
  "hash_fold hash value =
     (if value \<noteq> 0 then hash_fold (hash XOR (value AND 0xFFFF)) (drop_bit 3 value) else hash)"
  by pat_completeness auto
termination
  by (relation "measure (\<lambda>(_, value). unat value)") (auto simp: drop_bit_3_less)

declare hash_fold.simps [simp del]

definition bt_hash :: "rd_ftrace \<Rightarrow> int" where
  "bt_hash bt = sint (fold (\<lambda>frame hash. hash_fold hash frame) (ft_used bt) 0)"

definition HASH_SIZE :: int where
  "HASH_SIZE = 65536"

section \<open>Operations\<close>

definition rd_create :: rd where
  "rd_create = \<lparr>rd_calls = [], rd_contexts = [], rd_ftraces = a_init (nat HASH_SIZE), rd_mmaps = [],
     rd_hshake = None, rd_pinfo = None, rd_minfo = [], rd_comments = [], rd_hinfo = None,
     rd_resources = [], rd_filter = 0, rd_files = []\<rparr>"

definition rheap_init :: rheap where
  "rheap_init = \<lparr>rh_next = 1, rh_fcalls = Map.empty, rh_ftraces = Map.empty, rh_refs = Map.empty,
     rh_resources = Map.empty\<rparr>"

definition rd_free :: "rd \<Rightarrow> rheap \<Rightarrow> rheap option" where
  "rd_free rd h = do {
     h \<leftarrow> free_all rd_ftrace_free h (a_nodes (rd_ftraces rd));
     h \<leftarrow> free_all rd_fcall_free h (rd_calls rd);
     free_all rd_resource_free h (rd_resources rd) }"

text \<open>Lookup in the backtrace table; the bucket of the key is cached in the key (\<open>get_bucket\<close>).\<close>

definition ftrace_bucket :: "rheap \<Rightarrow> ptr \<Rightarrow> (nat \<times> rheap) option" where
  "ftrace_bucket h t = do {
     trace \<leftarrow> rh_ftraces h t;
     case ft_bucket trace of
       Some b \<Rightarrow> Some (b, h)
     | None \<Rightarrow> do {
         b \<leftarrow> hash_index HASH_SIZE (bt_hash trace);
         Some (b, h\<lparr>rh_ftraces := (rh_ftraces h)(t \<mapsto> trace\<lparr>ft_bucket := Some b\<rparr>)\<rparr>) } }"

definition compare_ftraces :: "rheap \<Rightarrow> ptr \<Rightarrow> ptr \<Rightarrow> int option" where
  "compare_ftraces h t u = do { a \<leftarrow> rh_ftraces h t; b \<leftarrow> rh_ftraces h u; Some (bt_compare a b) }"

definition ftraces_find :: "rd \<Rightarrow> rheap \<Rightarrow> ptr \<Rightarrow> (ptr option \<times> rheap) option" where
  "ftraces_find rd h t = do {
     (b, h) \<leftarrow> ftrace_bucket h t;
     x \<leftarrow> seq_find (\<lambda>u. compare_ftraces h u t) (a_bucket (rd_ftraces rd) b);
     Some (x, h) }"

definition ftraces_store :: "rd \<Rightarrow> rheap \<Rightarrow> ptr \<Rightarrow> (rd \<times> rheap) option" where
  "ftraces_store rd h t = do {
     (b, h) \<leftarrow> ftrace_bucket h t;
     old \<leftarrow> seq_find (\<lambda>u. compare_ftraces h u t) (a_bucket (rd_ftraces rd) b);
     let nodes = (case old of None \<Rightarrow> a_bucket (rd_ftraces rd) b
                  | Some y \<Rightarrow> remove1 y (a_bucket (rd_ftraces rd) b));
     Some (rd\<lparr>rd_ftraces := (rd_ftraces rd)\<lparr>a_bucket := (a_bucket (rd_ftraces rd))(b := nodes @ [t])\<rparr>\<rparr>, h) }"

text \<open>Associates a call reference with a backtrace.\<close>

definition store_fcall_trace :: "rheap \<Rightarrow> ptr \<Rightarrow> ptr \<Rightarrow> rheap option" where
  "store_fcall_trace h r t = do {
     c \<leftarrow> rh_refs h r;
     call \<leftarrow> rh_fcalls h c;
     trace \<leftarrow> rh_ftraces h t;
     Some (h\<lparr>rh_fcalls := (rh_fcalls h)(c \<mapsto> call\<lparr>call_trace := t, call_ref := r\<rparr>),
             rh_ftraces := (rh_ftraces h)(t \<mapsto> trace\<lparr>ft_ref_count := ft_ref_count trace + 1,
                                               ft_calls := ft_calls trace @ [r]\<rparr>)\<rparr>) }"

fun store_fcall_traces :: "rheap \<Rightarrow> ptr list \<Rightarrow> ptr \<Rightarrow> rheap option" where
  "store_fcall_traces h [] t = Some h"
| "store_fcall_traces h (r # rs) t = do { h \<leftarrow> store_fcall_trace h r t; store_fcall_traces h rs t }"

definition rd_fcall_remove :: "rd \<Rightarrow> rheap \<Rightarrow> ptr \<Rightarrow> (rd \<times> rheap) option" where
  "rd_fcall_remove rd h c = do {
     call \<leftarrow> rh_fcalls h c;
     calls \<leftarrow> seq_remove c (rd_calls rd);
     (rd, h) \<leftarrow>
       (if call_trace call \<noteq> NULL then do {
          trace \<leftarrow> rh_ftraces h (call_trace call);
          (trace, h) \<leftarrow>
            (if call_ref call \<noteq> NULL then do {
               refs \<leftarrow> seq_remove (call_ref call) (ft_calls trace);
               h \<leftarrow> free_ref h (call_ref call);
               Some (trace\<lparr>ft_calls := refs\<rparr>, h) }
             else Some (trace, h));
          let trace = trace\<lparr>ft_ref_count := ft_ref_count trace - 1\<rparr>;
          let h = h\<lparr>rh_ftraces := (rh_ftraces h)(call_trace call \<mapsto> trace)\<rparr>;
          if ft_ref_count trace = 0 then do {
            b \<leftarrow> ft_bucket trace;
            nodes \<leftarrow> seq_remove (call_trace call) (a_bucket (rd_ftraces rd) b);
            h \<leftarrow> rd_ftrace_free h (call_trace call);
            Some (rd\<lparr>rd_calls := calls, rd_ftraces := (rd_ftraces rd)\<lparr>a_bucket :=
                    (a_bucket (rd_ftraces rd))(b := nodes)\<rparr>\<rparr>, h) }
          else Some (rd\<lparr>rd_calls := calls\<rparr>, h) }
        else Some (rd\<lparr>rd_calls := calls\<rparr>, h));
     h \<leftarrow> rd_fcall_free h c;
     Some (rd, h) }"

text \<open>The backtrace that is used: the stored equal one, or the given one after storing it.\<close>

definition intern_ftrace :: "rd \<Rightarrow> rheap \<Rightarrow> ptr \<Rightarrow> (ptr \<times> rd \<times> rheap) option" where
  "intern_ftrace rd h t = do {
     (xtrace, h) \<leftarrow> ftraces_find rd h t;
     case xtrace of
       None \<Rightarrow> do { (rd, h) \<leftarrow> ftraces_store rd h t; Some (t, rd, h) }
     | Some x \<Rightarrow> do { h \<leftarrow> rd_ftrace_free h t; Some (x, rd, h) } }"

definition rd_fcall_set_ftrace :: "rd \<Rightarrow> rheap \<Rightarrow> ptr \<Rightarrow> ptr \<Rightarrow> (rd \<times> rheap) option" where
  "rd_fcall_set_ftrace rd h c t = do {
     (t, rd, h) \<leftarrow> intern_ftrace rd h t;
     trace \<leftarrow> rh_ftraces h t;
     call \<leftarrow> rh_fcalls h c;
     let r = rh_next h;
     Some (rd, h\<lparr>rh_next := r + 1,
       rh_refs := (rh_refs h)(r \<mapsto> c),
       rh_fcalls := (rh_fcalls h)(c \<mapsto> call\<lparr>call_trace := t, call_ref := r\<rparr>),
       rh_ftraces := (rh_ftraces h)(t \<mapsto> trace\<lparr>ft_ref_count := ft_ref_count trace + 1,
                                         ft_calls := ft_calls trace @ [r]\<rparr>)\<rparr>) }"

definition rd_fcalls_set_ftrace :: "rd \<Rightarrow> rheap \<Rightarrow> ptr list \<Rightarrow> ptr \<Rightarrow> (rd \<times> rheap) option" where
  "rd_fcalls_set_ftrace rd h calls t = do {
     (t, rd, h) \<leftarrow> intern_ftrace rd h t;
     h \<leftarrow> store_fcall_traces h calls t;
     Some (rd, h) }"

end
