(* ===== verification/Tracer.thy ===== *)
theory Tracer
  imports Module_Text Rtrace_Data
begin

text \<open>
  The main tracing module that is loaded into the traced process, src/modules/sp\_rtrace\_main.c:
  the buffer in front of the pipe to the pre-processor, the packet writers, the registries of
  modules and resource types, and switching of the tracing.  What the operating system provides
  (process id, clock, backtraces, environment variables) are arguments.  \<open>None\<close> stands for a call
  that does not return normally: it waits for a lock that is never released, ends the process, or
  accesses memory it must not.
\<close>

section \<open>State\<close>

record sp_rtrace_options =
  op_backtrace_depth :: int
  op_enable_timestamps :: bool
  op_enable :: bool
  op_manage_preproc :: bool
  op_enable_packet_buffering :: bool
  op_output_dir :: cstring
  op_postproc :: cstring
  op_start_dir :: cstring
  op_filter :: sp_rtrace_filter

text \<open>A submodule; \<open>md_enabled\<close> is the argument of the last call of its enable function.\<close>

record rtrace_module =
  md_name :: cstring
  md_id :: u32
  md_vmajor :: byte
  md_vminor :: byte
  md_enabled :: bool

record module_resource =
  mr_id :: u64
  mr_type :: cstring
  mr_desc :: cstring
  mr_flags :: u32

record module_fcall =
  mf_type :: u32
  mf_name :: "cstring option"
  mf_res_type_id :: u32
  mf_res_id :: pointer_t
  mf_res_size :: u32

type_synonym module_farg = "cstring option \<times> cstring option"

text \<open>
  The static variables.  \<open>tr_out\<close> are the bytes written to the pipe so far and \<open>tr_broken\<close> tells that
  writing to it fails.
\<close>

record tracer =
  tr_options :: sp_rtrace_options
  tr_fd_proc :: int
  tr_buffer :: "byte list"
  tr_head :: nat
  tr_locked :: bool
  tr_modules :: "rtrace_module list"
  tr_resources :: "module_resource list"
  tr_heap_info :: "u32 list"
  tr_heap_bottom :: pointer_t
  tr_proc_name :: cstring
  tr_initialized :: bool
  tr_out :: "byte list"
  tr_broken :: bool

abbreviation (input) set_enable :: "bool \<Rightarrow> tracer \<Rightarrow> tracer" where
  "set_enable v s \<equiv> s\<lparr>tr_options := (tr_options s)\<lparr>op_enable := v\<rparr>\<rparr>"

definition PIPE_BUFFER_SIZE :: nat where "PIPE_BUFFER_SIZE = 4096"

definition enable_tracing :: "bool \<Rightarrow> tracer \<Rightarrow> tracer" where
  "enable_tracing v s = s\<lparr>tr_modules := map (\<lambda>m. m\<lparr>md_enabled := v\<rparr>) (tr_modules s)\<rparr>"

section \<open>The pipe buffer\<close>

definition pipe_buffer_flush :: "tracer \<Rightarrow> tracer" where
  "pipe_buffer_flush s =
     (let s = (if tr_broken s \<or> tr_fd_proc s < 0 then (set_enable False (enable_tracing False s))\<lparr>tr_fd_proc := 0\<rparr>
               else s\<lparr>tr_out := tr_out s @ take (tr_head s) (tr_buffer s)\<rparr>)
      in s\<lparr>tr_head := 0\<rparr>)"

definition pipe_buffer_lock :: "tracer \<Rightarrow> (nat \<times> tracer) option" where
  "pipe_buffer_lock s = (if tr_locked s then None else Some (tr_head s, s\<lparr>tr_locked := True\<rparr>))"

text \<open>The last packet is moved byte by byte to the start of the buffer.\<close>

fun move_down :: "nat \<Rightarrow> byte list \<Rightarrow> nat \<Rightarrow> nat \<Rightarrow> byte list" where
  "move_down 0 buf head ptr = buf"
| "move_down (Suc n) buf head ptr = move_down n (buf[head := buf ! ptr]) (head + 1) (ptr + 1)"

definition pipe_buffer_unlock :: "nat \<Rightarrow> nat \<Rightarrow> tracer \<Rightarrow> tracer" where
  "pipe_buffer_unlock ptr n s =
     (if ptr \<noteq> tr_head s then s
      else
        (let s = (if ptr + n > PIPE_BUFFER_SIZE then
                    (let s = pipe_buffer_flush s
                     in s\<lparr>tr_buffer := move_down n (tr_buffer s) 0 ptr, tr_head := n\<rparr>)
                  else
                    (let s = s\<lparr>tr_head := tr_head s + n\<rparr>
                     in if op_enable_packet_buffering (tr_options s) then s else pipe_buffer_flush s))
         in s\<lparr>tr_locked := False\<rparr>))"

definition pipe_buffer_reset :: "tracer \<Rightarrow> tracer" where
  "pipe_buffer_reset s = s\<lparr>tr_head := 0\<rparr>"

text \<open>Storing bytes into the locked buffer; the buffer has twice the sending size.\<close>

definition put_bytes :: "nat \<Rightarrow> byte list \<Rightarrow> tracer \<Rightarrow> tracer option" where
  "put_bytes ptr bs s =
     (if ptr + length bs \<le> length (tr_buffer s)
      then Some (s\<lparr>tr_buffer := take ptr (tr_buffer s) @ bs @ drop (ptr + length bs) (tr_buffer s)\<rparr>)
      else None)"

text \<open>A packet from \<open>PACKET_INIT\<close> to \<open>PACKET_FINISH\<close>: lock, store, unlock; returns the size.\<close>

definition emit :: "byte list \<Rightarrow> tracer \<Rightarrow> (nat \<times> tracer) option" where
  "emit bs s = do {
     (ptr, s) \<leftarrow> pipe_buffer_lock s;
     s \<leftarrow> put_bytes ptr bs s;
     Some (length bs, pipe_buffer_unlock ptr (length bs) s) }"

text \<open>The type, the length of the payload, the payload.\<close>

definition packet :: "u32 \<Rightarrow> byte list \<Rightarrow> byte list" where
  "packet type payload = write_dword type @ write_dword (of_nat (length payload)) @ payload"

section \<open>Packet writers\<close>

definition module_info_payload :: "rtrace_module \<Rightarrow> byte list" where
  "module_info_payload m = write_dword (md_id m) @
     write_dword (push_bit 16 (ucast (md_vmajor m)) OR ucast (md_vminor m)) @ write_string (Some (md_name m))"

definition write_module_info :: "rtrace_module \<Rightarrow> tracer \<Rightarrow> (nat \<times> tracer) option" where
  "write_module_info m s =
     (if \<not> op_enable (tr_options s) then Some (0, s) else emit (packet MODULE_INFO (module_info_payload m)) s)"

definition resource_payload :: "module_resource \<Rightarrow> byte list" where
  "resource_payload r = write_dword (ucast (mr_id r)) @ write_dword (mr_flags r) @
     write_string (Some (mr_type r)) @ write_string (Some (mr_desc r))"

definition write_resource_registry :: "module_resource \<Rightarrow> tracer \<Rightarrow> (nat \<times> tracer) option" where
  "write_resource_registry r s =
     (if \<not> op_enable (tr_options s) then Some (0, s) else emit (packet RESOURCE_REGISTRY (resource_payload r)) s)"

text \<open>The padding of the handshake is not written: it is what the buffer contains.\<close>

definition handshake_bytes :: "byte \<Rightarrow> byte \<Rightarrow> cstring \<Rightarrow> byte list" where
  "handshake_bytes major minor arch =
     (let n = 7 + length arch
      in [HS_ID, of_nat (ALIGN_SIZE n - 2), major, minor, of_nat (length arch)] @ arch @ [HS_LITTLE_ENDIAN, 8])"

definition write_handshake :: "byte \<Rightarrow> byte \<Rightarrow> cstring \<Rightarrow> tracer \<Rightarrow> (nat \<times> tracer) option" where
  "write_handshake major minor arch s =
     (let bs = handshake_bytes major minor arch
      in do {
        (ptr, s) \<leftarrow> pipe_buffer_lock s;
        s \<leftarrow> put_bytes ptr bs s;
        guard (ptr + ALIGN_SIZE (length bs) \<le> length (tr_buffer s));
        Some (ALIGN_SIZE (length bs), pipe_buffer_unlock ptr (ALIGN_SIZE (length bs)) s) })"

definition write_output_settings :: "cstring \<Rightarrow> cstring \<Rightarrow> tracer \<Rightarrow> (nat \<times> tracer) option" where
  "write_output_settings output_dir postproc s =
     emit (packet OUTPUT_SETTINGS (write_string (Some output_dir) @ write_string (Some postproc))) s"

definition process_info_payload :: "u32 \<Rightarrow> int \<Rightarrow> cstring \<Rightarrow> byte list" where
  "process_info_payload pid depth name = write_dword pid @ write_dword 0 @ write_dword 0 @
     write_dword (word_of_int depth) @ write_string (Some name)"

definition write_process_info :: "u32 \<Rightarrow> tracer \<Rightarrow> (nat \<times> tracer) option" where
  "write_process_info pid s =
     emit (packet PROCESS_INFO (process_info_payload pid (op_backtrace_depth (tr_options s)) (tr_proc_name s))) s"

text \<open>\<open>tr_heap_info\<close> holds the ten counters of \<open>struct mallinfo\<close>, \<open>arena\<close> first.\<close>

definition heap_info_payload :: "pointer_t \<Rightarrow> pointer_t \<Rightarrow> u32 list \<Rightarrow> byte list" where
  "heap_info_payload bottom heap_end stats =
     write_dword (ucast bottom) @ write_dword (ucast heap_end) @ concat (map write_dword stats)"

definition write_heap_info :: "pointer_t \<Rightarrow> tracer \<Rightarrow> (nat \<times> tracer) option" where
  "write_heap_info heap_end s =
     (if hd (tr_heap_info s) \<noteq> 0
      then emit (packet HEAP_INFO (heap_info_payload (tr_heap_bottom s) heap_end (tr_heap_info s))) s
      else Some (0, s))"

definition sp_rtrace_write_new_library :: "cstring \<Rightarrow> tracer \<Rightarrow> (nat \<times> tracer) option" where
  "sp_rtrace_write_new_library library s = emit (packet NEW_LIBRARY (write_string (Some library))) s"

text \<open>The path of an attachment is related to the output directory; \<open>realpath\<close> is the C function.\<close>

definition sp_rtrace_write_attachment ::
    "(cstring \<Rightarrow> cstring option) \<Rightarrow> cstring \<Rightarrow> cstring \<Rightarrow> tracer \<Rightarrow> (nat \<times> tracer) option" where
  "sp_rtrace_write_attachment realpath name path s = do {
     relative_path \<leftarrow> calc_relative_path (realpath (op_output_dir (tr_options s))) (realpath path);
     emit (packet ATTACHMENT (write_string (Some name) @ write_string (Some relative_path))) s }"

definition sp_rtrace_write_context_registry :: "u64 \<Rightarrow> cstring \<Rightarrow> tracer \<Rightarrow> (nat \<times> tracer) option" where
  "sp_rtrace_write_context_registry cid name s =
     (if \<not> op_enable (tr_options s) then Some (0, s)
      else emit (packet CONTEXT_REGISTRY (write_dword (ucast cid) @ write_string (Some name))) s)"

text \<open>Running a writer for every element of a list.\<close>

fun write_all :: "('a \<Rightarrow> tracer \<Rightarrow> (nat \<times> tracer) option) \<Rightarrow> 'a list \<Rightarrow> tracer \<Rightarrow> tracer option" where
  "write_all f [] s = Some s"
| "write_all f (x # xs) s = do { (_, s) \<leftarrow> f x s; write_all f xs s }"

definition main_module :: rtrace_module where
  "main_module = \<lparr>md_name = str ''main'', md_id = 0, md_vmajor = 1, md_vminor = 0, md_enabled = False\<rparr>"

definition write_initial_data :: "u32 \<Rightarrow> cstring \<Rightarrow> tracer \<Rightarrow> tracer option" where
  "write_initial_data pid arch s = do {
     let s = pipe_buffer_reset s;
     (_, s) \<leftarrow> write_handshake VERSION_MAJOR VERSION_MINOR arch s;
     (_, s) \<leftarrow> write_output_settings (op_output_dir (tr_options s)) (op_postproc (tr_options s)) s;
     (_, s) \<leftarrow> write_process_info pid s;
     (_, s) \<leftarrow> write_module_info main_module s;
     s \<leftarrow> write_all write_module_info (tr_modules s) s;
     s \<leftarrow> write_all write_resource_registry (tr_resources s) s;
     (_, s) \<leftarrow> sp_rtrace_write_new_library (str ''*'') s;
     Some (pipe_buffer_flush s) }"

section \<open>Function calls\<close>

definition BT_SKIP_TOP :: nat where "BT_SKIP_TOP = 3"
definition BT_FRAMES_SIZE :: nat where "BT_FRAMES_SIZE = 256"

definition filter_validate :: "sp_rtrace_filter \<Rightarrow> module_fcall \<Rightarrow> bool option" where
  "filter_validate flt call = sp_rtrace_filter_validate flt (mf_type call) (sint (mf_res_size call))"

text \<open>
  The backtrace that is written: a given one, or the frames above the tracing functions.
  \<open>backtrace_impl n\<close> are the at most \<open>n\<close> frames the unwinder returns.
\<close>

definition select_trace ::
    "sp_rtrace_options \<Rightarrow> (nat \<Rightarrow> pointer_t list) \<Rightarrow> module_fcall \<Rightarrow> pointer_t list option \<Rightarrow> pointer_t list option option" where
  "select_trace opt backtrace_impl call trace =
     (if trace = None \<and> op_backtrace_depth opt \<noteq> 0 then do {
        valid \<leftarrow> filter_validate (op_filter opt) call;
        if valid then
          (let bt_depth = unat (word_of_int (op_backtrace_depth opt + int BT_SKIP_TOP) :: u32);
               frames = backtrace_impl (min bt_depth BT_FRAMES_SIZE);
               nframes = min (int (length frames) - int BT_SKIP_TOP) (op_backtrace_depth opt)
           in Some (if nframes > 0 then Some (take (nat nframes) (drop BT_SKIP_TOP frames)) else None))
        else Some trace }
      else Some trace)"

text \<open>Milliseconds of the day, or zero.\<close>

definition call_timestamp :: "sp_rtrace_options \<Rightarrow> (int \<times> int) option \<Rightarrow> u32" where
  "call_timestamp opt clock =
     (if op_enable_timestamps opt
      then (case clock of Some (sec, nsec) \<Rightarrow> word_of_int (nsec div 1000000 + sec mod 86400 * 1000) | None \<Rightarrow> 0)
      else 0)"

definition call_payload :: "module_fcall \<Rightarrow> u32 \<Rightarrow> u32 \<Rightarrow> byte list" where
  "call_payload call ctx timestamp = write_dword (mf_res_type_id call) @ write_dword ctx @ write_dword timestamp @
     write_dword (mf_type call) @ write_string (mf_name call) @ write_dword (mf_res_size call) @ write_pointer (mf_res_id call)"

text \<open>The arguments end with a null name.\<close>

fun args_used :: "module_farg list \<Rightarrow> module_farg list" where
  "args_used [] = []"
| "args_used ((name, value) # args) = (if name = None then [] else (name, value) # args_used args)"

definition args_payload :: "module_farg list \<Rightarrow> byte list" where
  "args_payload args = write_dword (of_nat (length (args_used args))) @
     concat (map (\<lambda>(name, value). write_string name @ write_string value) (args_used args))"

definition trace_payload :: "pointer_t list option \<Rightarrow> byte list" where
  "trace_payload trace =
     (case trace of
        Some frames \<Rightarrow> write_dword (of_nat (length frames)) @ concat (map write_pointer frames)
      | None \<Rightarrow> write_dword 0)"

definition call_packets :: "module_fcall \<Rightarrow> u32 \<Rightarrow> u32 \<Rightarrow> module_farg list option \<Rightarrow> pointer_t list option \<Rightarrow> byte list" where
  "call_packets call ctx timestamp args trace =
     packet FUNCTION_CALL (call_payload call ctx timestamp) @
     (case args of Some args \<Rightarrow> packet FUNCTION_ARGS (args_payload args) | None \<Rightarrow> []) @
     packet BACKTRACE (trace_payload trace)"

definition sp_rtrace_write_function_call ::
    "(nat \<Rightarrow> pointer_t list) \<Rightarrow> u32 \<Rightarrow> (int \<times> int) option \<Rightarrow> module_fcall \<Rightarrow> pointer_t list option \<Rightarrow>
     module_farg list option \<Rightarrow> tracer \<Rightarrow> (nat \<times> tracer) option" where
  "sp_rtrace_write_function_call backtrace_impl ctx clock call trace args s =
     (if \<not> op_enable (tr_options s) then Some (0, s)
      else do {
        trace \<leftarrow> select_trace (tr_options s) backtrace_impl call trace;
        emit (call_packets call ctx (call_timestamp (tr_options s) clock) args trace) s })"

section \<open>Registries\<close>

definition sp_rtrace_register_module ::
    "cstring \<Rightarrow> byte \<Rightarrow> byte \<Rightarrow> pointer_t list \<Rightarrow> tracer \<Rightarrow> (u32 \<times> tracer) option" where
  "sp_rtrace_register_module name vmajor vminor symtable s =
     (if 0 \<in> set symtable then None
      else if length (tr_modules s) \<ge> 16 then Some (0, s)
      else
        (let m = \<lparr>md_name = name, md_id = push_bit (length (tr_modules s)) 1, md_vmajor = vmajor, md_vminor = vminor,
                  md_enabled = op_enable (tr_options s)\<rparr>;
             s = s\<lparr>tr_modules := tr_modules s @ [m]\<rparr>
         in if op_enable (tr_options s) then do { (_, s) \<leftarrow> write_module_info m s; Some (md_id m, s) }
            else Some (md_id m, s)))"

definition sp_rtrace_register_resource :: "module_resource \<Rightarrow> tracer \<Rightarrow> (u32 \<times> tracer) option" where
  "sp_rtrace_register_resource r s =
     (case find (\<lambda>x. mr_type x = mr_type r) (tr_resources s) of
        Some x \<Rightarrow> Some (ucast (mr_id x), s)
      | None \<Rightarrow>
          if length (tr_resources s) \<ge> 32 then Some (- 1, s)
          else
            (let r = r\<lparr>mr_id := of_nat (length (tr_resources s) + 1)\<rparr>;
                 s = s\<lparr>tr_resources := tr_resources s @ [r]\<rparr>
             in if op_enable (tr_options s) then do { (_, s) \<leftarrow> write_resource_registry r s; Some (ucast (mr_id r), s) }
                else Some (ucast (mr_id r), s)))"

definition sp_rtrace_store_heap_info :: "u32 list \<Rightarrow> tracer \<Rightarrow> tracer" where
  "sp_rtrace_store_heap_info mallinfo s = s\<lparr>tr_heap_info := mallinfo\<rparr>"

section \<open>Switching the tracing\<close>

text \<open>
  \<open>open_pipe\<close> without a managed pre-processor: the named pipe must exist; \<open>fd\<close> is what \<open>open\<close>
  returns.  In managed mode \<open>fd\<close> is the end of the new pipe, or -1.
\<close>

definition open_pipe :: "bool \<Rightarrow> int \<Rightarrow> tracer \<Rightarrow> int \<times> tracer" where
  "open_pipe accessible fd s =
     (if op_manage_preproc (tr_options s) then (fd, s)
      else if \<not> accessible then (-1, enable_tracing False (set_enable False s))
      else (fd, s))"

definition close_pipe :: "tracer \<Rightarrow> tracer" where
  "close_pipe s = s\<lparr>tr_fd_proc := 0\<rparr>"

definition signal_toggle_tracing :: "u32 \<Rightarrow> cstring \<Rightarrow> pointer_t \<Rightarrow> bool \<Rightarrow> int \<Rightarrow> tracer \<Rightarrow> tracer option" where
  "signal_toggle_tracing pid arch heap_end accessible fd s =
     (let s = set_enable (\<not> op_enable (tr_options s)) s
      in if op_enable (tr_options s) then
           (let (fd, s) = open_pipe accessible fd s; s = s\<lparr>tr_fd_proc := fd\<rparr>
            in if fd > 0 then do { s \<leftarrow> write_initial_data pid arch s; Some (enable_tracing True s) } else Some s)
         else if tr_fd_proc s > 0 then do {
           (_, s) \<leftarrow> sp_rtrace_write_new_library (str ''*'') s;
           (_, s) \<leftarrow> write_heap_info heap_end s;
           Some (close_pipe (pipe_buffer_flush (enable_tracing False s))) }
         else Some s)"

definition trace_main_fini :: "pointer_t \<Rightarrow> tracer \<Rightarrow> tracer option" where
  "trace_main_fini heap_end s =
     (if tr_fd_proc s > 0 then do {
        s \<leftarrow> (if op_enable (tr_options s) then do {
               (_, s) \<leftarrow> sp_rtrace_write_new_library (str ''*'') s;
               (_, s) \<leftarrow> write_heap_info heap_end s;
               Some s }
             else Some s);
        Some (pipe_buffer_flush (enable_tracing False s)) }
      else Some s)"

text \<open>\<open>dlopen\<close> reports the library after it has been loaded.\<close>

definition dlopen :: "bool \<Rightarrow> cstring \<Rightarrow> tracer \<Rightarrow> tracer option" where
  "dlopen loaded library s =
     (if loaded \<and> op_enable (tr_options s) then map_option snd (sp_rtrace_write_new_library library s) else Some s)"

section \<open>Initialisation\<close>

definition PATH_MAX :: int where "PATH_MAX = 4096"

definition env_is_set :: "cstring option \<Rightarrow> bool" where
  "env_is_set v \<longleftrightarrow> (case v of Some (c # cs) \<Rightarrow> c = 49 | _ \<Rightarrow> False)"

text \<open>The process name: the start of /proc/self/cmdline, with the terminating byte behind what was read.\<close>

definition get_proc_name :: "byte list option \<Rightarrow> cstring \<Rightarrow> cstring option" where
  "get_proc_name cmdline old =
     (case cmdline of None \<Rightarrow> Some old
      | Some bs \<Rightarrow> do { guard (int (length bs) < PATH_MAX); Some (cstr bs) })"

definition output_dir_option :: "cstring \<Rightarrow> cstring option \<Rightarrow> cstring \<Rightarrow> cstring option" where
  "output_dir_option start_dir env old =
     (case env of
        None \<Rightarrow> Some old
      | Some dir \<Rightarrow>
          if dir = str ''stdout'' then Some old
          else
            (let out = (case dir of c # cs \<Rightarrow> if c = SLASH then [] else stpncpy start_dir PATH_MAX @ [SLASH]
                        | [] \<Rightarrow> stpncpy start_dir PATH_MAX @ [SLASH])
             in do {
               guard (int (length out) < PATH_MAX);
               Some (out @ stpncpy dir (PATH_MAX - (int (length out) + 1))) }))"

definition read_options :: "(cstring \<Rightarrow> cstring option) \<Rightarrow> sp_rtrace_options \<Rightarrow> sp_rtrace_options option" where
  "read_options getenv opt = do {
     let opt = (case getenv (str ''SP_RTRACE_BACKTRACE_DEPTH'') of
                  Some (c # cs) \<Rightarrow> opt\<lparr>op_backtrace_depth := main_atoi (c # cs)\<rparr> | _ \<Rightarrow> opt);
     let opt = (if env_is_set (getenv (str ''SP_RTRACE_DISABLE_TIMESTAMPS''))
                then opt\<lparr>op_enable_timestamps := False\<rparr> else opt);
     let opt = (if env_is_set (getenv (str ''SP_RTRACE_DISABLE_PACKET_BUFFERING''))
                then opt\<lparr>op_enable_packet_buffering := False\<rparr> else opt);
     let opt = (if env_is_set (getenv (str ''SP_RTRACE_MANAGE_PREPROC''))
                then opt\<lparr>op_manage_preproc := True\<rparr> else opt);
     let opt = (case getenv (str ''SP_RTRACE_POSTPROC'') of
                  Some v \<Rightarrow> opt\<lparr>op_postproc := stpncpy v PATH_MAX\<rparr> | None \<Rightarrow> opt);
     let opt = (case getenv (str ''SP_RTRACE_START_DIR'') of
                  Some v \<Rightarrow> opt\<lparr>op_start_dir := stpncpy v PATH_MAX\<rparr> | None \<Rightarrow> opt);
     dir \<leftarrow> output_dir_option (op_start_dir opt) (getenv (str ''SP_RTRACE_OUTPUT_DIR'')) (op_output_dir opt);
     let opt = opt\<lparr>op_output_dir := dir\<rparr>;
     let opt = (if env_is_set (getenv (str ''SP_RTRACE_START'')) then opt\<lparr>op_enable := True\<rparr> else opt);
     let flt = sp_rtrace_filter_create
                 (if env_is_set (getenv (str ''SP_RTRACE_BACKTRACE_ALL'')) then FILTER_TYPE_ALL else FILTER_TYPE_ALLOC);
     flt \<leftarrow> sp_rtrace_filter_parse_size_opt flt (getenv (str ''SP_RTRACE_MONITOR_SIZE''));
     Some (opt\<lparr>op_filter := flt\<rparr>) }"

text \<open>
  The work is done once, when the environment is ready.  Setting up of the call contexts, of
  libunwind and of scratchbox is left out.  The result tells if the environment was ready.
\<close>

definition sp_rtrace_initialize ::
    "(cstring \<Rightarrow> cstring option) \<Rightarrow> byte list option \<Rightarrow> u32 \<Rightarrow> cstring \<Rightarrow> pointer_t \<Rightarrow> bool \<Rightarrow> int \<Rightarrow> tracer \<Rightarrow>
     (bool \<times> tracer) option" where
  "sp_rtrace_initialize getenv cmdline pid arch heap_end accessible fd s =
     (if tr_initialized s then Some (True, s)
      else
        (let s = s\<lparr>tr_heap_bottom := heap_end\<rparr>
         in if getenv (str ''SP_RTRACE_READY'') = None then Some (False, s)
            else do {
              name \<leftarrow> get_proc_name cmdline (tr_proc_name s);
              opt \<leftarrow> read_options getenv (tr_options s);
              let s = s\<lparr>tr_proc_name := name, tr_options := opt\<rparr>;
              s \<leftarrow> (if op_enable (tr_options s) then
                     (let (fd, s) = open_pipe accessible fd s; s = s\<lparr>tr_fd_proc := fd\<rparr>
                      in do { s \<leftarrow> write_initial_data pid arch s; Some (enable_tracing True s) })
                   else Some s);
              Some (True, s\<lparr>tr_initialized := True\<rparr>) }))"

definition SIGUSR1 :: int where "SIGUSR1 = 10"

text \<open>The constructor: initialisation, and the number of the signal whose handler is installed.\<close>

definition trace_main_init ::
    "(cstring \<Rightarrow> cstring option) \<Rightarrow> byte list option \<Rightarrow> u32 \<Rightarrow> cstring \<Rightarrow> pointer_t \<Rightarrow> bool \<Rightarrow> int \<Rightarrow> tracer \<Rightarrow>
     (int \<times> tracer) option" where
  "trace_main_init getenv cmdline pid arch heap_end accessible fd s = do {
     (_, s) \<leftarrow> sp_rtrace_initialize getenv cmdline pid arch heap_end accessible fd s;
     Some (case getenv (str ''SP_RTRACE_TOGGLE_SIGNAL'') of
             Some v \<Rightarrow> if atoi v \<noteq> 0 then atoi v else SIGUSR1
           | None \<Rightarrow> SIGUSR1, s) }"

text \<open>The first free number makes the file name; the texts are stored into a buffer of \<open>n\<close> bytes.\<close>

partial_function (option) free_filename :: "(cstring \<Rightarrow> bool) \<Rightarrow> nat \<Rightarrow> cstring \<Rightarrow> int \<Rightarrow> cstring option" where
  "free_filename exists n base idx = do {
     guard (length (base @ itoa idx) < n);
     if exists (base @ itoa idx) then free_filename exists n base (idx + 1) else Some (base @ itoa idx) }"

definition sp_rtrace_get_out_filename :: "(cstring \<Rightarrow> bool) \<Rightarrow> int \<Rightarrow> cstring \<Rightarrow> nat \<Rightarrow> tracer \<Rightarrow> cstring option" where
  "sp_rtrace_get_out_filename exists pid pattern n s =
     (let dir = (if op_output_dir (tr_options s) \<noteq> [] then op_output_dir (tr_options s) else op_start_dir (tr_options s));
          base = stpncpy dir (int n) @ [SLASH] @ itoa pid @ [45];
          base = base @ stpncpy pattern (int n - int (length base)) @ [45]
      in free_filename exists n base 0)"

end
