(* ===== verification/Tracer_Pipe.thy ===== *)
theory Tracer_Pipe
  imports Tracer
begin

text \<open>
  What the buffer in front of the pipe guarantees: the bytes written to the pipe followed by the
  bytes still in the buffer are exactly the packets in the order they were emitted, the buffer is
  never overrun and always unlocked again.
\<close>

section \<open>The stream of a tracer\<close>

definition pipe_pending :: "tracer \<Rightarrow> byte list" where
  "pipe_pending s = take (tr_head s) (tr_buffer s)"

definition pipe_stream :: "tracer \<Rightarrow> byte list" where
  "pipe_stream s = tr_out s @ pipe_pending s"

definition pipe_inv :: "tracer \<Rightarrow> bool" where
  "pipe_inv s \<longleftrightarrow> length (tr_buffer s) = 2 * PIPE_BUFFER_SIZE \<and> tr_head s \<le> PIPE_BUFFER_SIZE \<and> \<not> tr_locked s"

definition pipe_up :: "tracer \<Rightarrow> bool" where
  "pipe_up s \<longleftrightarrow> pipe_inv s \<and> \<not> tr_broken s \<and> 0 \<le> tr_fd_proc s"

text \<open>The part of the state that is not the buffer and the pipe.\<close>

definition same_tracer :: "tracer \<Rightarrow> tracer \<Rightarrow> bool" where
  "same_tracer s s' \<longleftrightarrow> s' = s\<lparr>tr_buffer := tr_buffer s', tr_head := tr_head s', tr_out := tr_out s'\<rparr>"

lemma same_tracer_refl [simp]: "same_tracer s s"
  by (simp add: same_tracer_def)

lemma same_tracer_trans: "same_tracer s t \<Longrightarrow> same_tracer t u \<Longrightarrow> same_tracer s u"
  by (cases s; cases t; cases u) (simp add: same_tracer_def)

lemma move_down_spec:
  assumes "head \<le> ptr" "ptr + n \<le> length buf"
  shows "move_down n buf head ptr = take head buf @ take n (drop ptr buf) @ drop (head + n) buf"
  using assms
proof (induction n arbitrary: buf head ptr)
  case (Suc n)
  let ?buf = "buf[head := buf ! ptr]"
  have lt: "head < length buf" "ptr < length buf" using Suc.prems by auto
  have "take n (drop (ptr + 1) ?buf) = take n (drop (ptr + 1) buf)"
    using Suc.prems by (simp add: drop_update_cancel)
  moreover have "drop (head + 1 + n) ?buf = drop (head + 1 + n) buf" by simp
  moreover have "take (head + 1) ?buf = take head buf @ [buf ! ptr]"
    using lt by (simp add: take_Suc_conv_app_nth)
  moreover have "take (Suc n) (drop ptr buf) = buf ! ptr # take n (drop (ptr + 1) buf)"
    using lt by (simp add: Cons_nth_drop_Suc [symmetric])
  ultimately show ?case using Suc by simp
qed simp

section \<open>Emitting packets\<close>

lemma flush_up:
  "pipe_up s \<Longrightarrow> pipe_buffer_flush s = s\<lparr>tr_out := pipe_stream s, tr_head := 0\<rparr>"
  by (simp add: pipe_buffer_flush_def pipe_up_def pipe_stream_def pipe_pending_def)

text \<open>After unlocking: the packet at the head is part of the stream.\<close>

lemma unlock_ok:
  assumes "length (tr_buffer s) = 2 * PIPE_BUFFER_SIZE" "tr_head s \<le> PIPE_BUFFER_SIZE" "\<not> tr_broken s" "0 \<le> tr_fd_proc s"
    "n \<le> PIPE_BUFFER_SIZE"
  shows "\<exists>s'. pipe_buffer_unlock (tr_head s) n s = s' \<and> pipe_up s' \<and> same_tracer (s\<lparr>tr_locked := False\<rparr>) s' \<and>
    pipe_stream s' = pipe_stream s @ take n (drop (tr_head s) (tr_buffer s))"
proof -
  let ?b = "tr_buffer s" and ?h = "tr_head s"
  have join: "take ?h ?b @ take n (drop ?h ?b) = take (?h + n) ?b" by (simp add: take_add)
  have len: "?h + n \<le> length ?b" using assms by simp
  consider (full) "PIPE_BUFFER_SIZE < ?h + n" | (room) "\<not> PIPE_BUFFER_SIZE < ?h + n" by blast
  then show ?thesis
  proof cases
    case full
    have "move_down n ?b 0 ?h = take n (drop ?h ?b) @ drop n ?b" using len by (simp add: move_down_spec)
    moreover have "length (take n (drop ?h ?b)) = n" using len by simp
    ultimately show ?thesis using full assms len
      by (simp add: pipe_buffer_unlock_def pipe_buffer_flush_def Let_def pipe_up_def pipe_inv_def same_tracer_def
          pipe_stream_def pipe_pending_def)
  next
    case room
    then show ?thesis using assms join
      by (simp add: pipe_buffer_unlock_def pipe_buffer_flush_def Let_def pipe_up_def pipe_inv_def same_tracer_def
          pipe_stream_def pipe_pending_def)
  qed
qed

lemma emit_ok:
  assumes "pipe_up s" "length bs \<le> PIPE_BUFFER_SIZE"
  shows "\<exists>s'. emit bs s = Some (length bs, s') \<and> pipe_up s' \<and> same_tracer s s' \<and> pipe_stream s' = pipe_stream s @ bs"
proof -
  let ?h = "tr_head s" and ?b = "tr_buffer s"
  let ?s = "s\<lparr>tr_locked := True, tr_buffer := take ?h ?b @ bs @ drop (?h + length bs) ?b\<rparr>"
  have s: "length ?b = 2 * PIPE_BUFFER_SIZE" "?h \<le> PIPE_BUFFER_SIZE" "\<not> tr_locked s" "\<not> tr_broken s" "0 \<le> tr_fd_proc s"
    using assms(1) by (auto simp: pipe_up_def pipe_inv_def)
  then have len: "?h + length bs \<le> length ?b" "?h \<le> length ?b" using assms(2) by auto
  have "emit bs s = Some (length bs, pipe_buffer_unlock ?h (length bs) ?s)"
    using s len by (simp add: emit_def pipe_buffer_lock_def put_bytes_def)
  moreover obtain s' where "pipe_buffer_unlock ?h (length bs) ?s = s'" "pipe_up s'" "same_tracer (?s\<lparr>tr_locked := False\<rparr>) s'"
      "pipe_stream s' = pipe_stream ?s @ take (length bs) (drop ?h (tr_buffer ?s))"
    using unlock_ok [of ?s "length bs"] s assms(2) len by auto
  moreover have "take (length bs) (drop ?h (tr_buffer ?s)) = bs" "pipe_stream ?s = pipe_stream s"
    using len by (simp_all add: pipe_stream_def pipe_pending_def)
  moreover have "?s\<lparr>tr_locked := False\<rparr> = s\<lparr>tr_buffer := tr_buffer ?s\<rparr>" using s(3) by simp
  ultimately show ?thesis by (auto simp: same_tracer_def)
qed

text \<open>Writers that emit one packet, or nothing, and writers for lists.\<close>

definition writes :: "(tracer \<Rightarrow> (nat \<times> tracer) option) \<Rightarrow> tracer \<Rightarrow> byte list \<Rightarrow> bool" where
  "writes f s bs \<longleftrightarrow> (\<exists>s'. f s = Some (length bs, s') \<and> pipe_up s' \<and> same_tracer s s' \<and> pipe_stream s' = pipe_stream s @ bs)"

lemma writes_emit: "pipe_up s \<Longrightarrow> length bs \<le> PIPE_BUFFER_SIZE \<Longrightarrow> writes (emit bs) s bs"
  unfolding writes_def by (rule emit_ok)

lemma write_all_ok:
  assumes "pipe_up s" "\<And>x t. x \<in> set xs \<Longrightarrow> pipe_up t \<Longrightarrow> same_tracer s t \<Longrightarrow> writes (f x) t (g x)"
  shows "\<exists>s'. write_all f xs s = Some s' \<and> pipe_up s' \<and> same_tracer s s' \<and> pipe_stream s' = pipe_stream s @ concat (map g xs)"
  using assms
proof (induction xs arbitrary: s)
  case (Cons x xs)
  then obtain t where t: "f x s = Some (length (g x), t)" "pipe_up t" "same_tracer s t" "pipe_stream t = pipe_stream s @ g x"
    by (force simp: writes_def)
  have "\<And>y u. y \<in> set xs \<Longrightarrow> pipe_up u \<Longrightarrow> same_tracer t u \<Longrightarrow> writes (f y) u (g y)"
    using Cons.prems(2) t(3) same_tracer_trans by (metis list.set_intros(2))
  from Cons.IH [OF t(2) this] obtain s' where "write_all f xs t = Some s'" "pipe_up s'" "same_tracer t s'"
    "pipe_stream s' = pipe_stream t @ concat (map g xs)" by blast
  with t same_tracer_trans show ?case by (auto intro: same_tracer_trans)
qed simp

end
