(* ===== verification/Trace_Packets.thy ===== *)
theory Trace_Packets
  imports Tracer_Pipe
begin

text \<open>
  The packets of a trace as data, with their encoding.  The tracing module, the listener and the
  post-processor are related to each other through sequences of these packets.
\<close>

datatype trace_packet =
    P_Settings cstring cstring
  | P_Process u32 u32 u32 int cstring
  | P_Module rtrace_module
  | P_Resource module_resource
  | P_Context u64 cstring
  | P_Library cstring
  | P_Map pointer_t pointer_t cstring
  | P_Attachment cstring cstring
  | P_Heap pointer_t pointer_t "u32 list"
  | P_Call module_fcall u32 u32
  | P_Args "module_farg list"
  | P_Trace "pointer_t list option"

fun packet_type :: "trace_packet \<Rightarrow> u32" where
  "packet_type (P_Settings d p) = OUTPUT_SETTINGS"
| "packet_type (P_Process pid sec usec depth name) = PROCESS_INFO"
| "packet_type (P_Module m) = MODULE_INFO"
| "packet_type (P_Resource r) = RESOURCE_REGISTRY"
| "packet_type (P_Context i n) = CONTEXT_REGISTRY"
| "packet_type (P_Library l) = NEW_LIBRARY"
| "packet_type (P_Map a b m) = MEMORY_MAP"
| "packet_type (P_Attachment n p) = ATTACHMENT"
| "packet_type (P_Heap a b s) = HEAP_INFO"
| "packet_type (P_Call c x t) = FUNCTION_CALL"
| "packet_type (P_Args a) = FUNCTION_ARGS"
| "packet_type (P_Trace t) = BACKTRACE"

fun payload :: "trace_packet \<Rightarrow> byte list" where
  "payload (P_Settings d p) = write_string (Some d) @ write_string (Some p)"
| "payload (P_Process pid sec usec depth name) = write_dword pid @ write_dword sec @ write_dword usec @
     write_dword (word_of_int depth) @ write_string (Some name)"
| "payload (P_Module m) = module_info_payload m"
| "payload (P_Resource r) = resource_payload r"
| "payload (P_Context i n) = write_dword (ucast i) @ write_string (Some n)"
| "payload (P_Library l) = write_string (Some l)"
| "payload (P_Map a b m) = write_pointer a @ write_pointer b @ write_string (Some m)"
| "payload (P_Attachment n p) = write_string (Some n) @ write_string (Some p)"
| "payload (P_Heap a b s) = heap_info_payload a b s"
| "payload (P_Call c x t) = call_payload c x t"
| "payload (P_Args a) = args_payload a"
| "payload (P_Trace t) = trace_payload t"

definition encode :: "trace_packet \<Rightarrow> byte list" where
  "encode p = packet (packet_type p) (payload p)"

definition encode_all :: "trace_packet list \<Rightarrow> byte list" where
  "encode_all ps = concat (map encode ps)"

lemma encode_all_simps [simp]:
  "encode_all [] = []" "encode_all (p # ps) = encode p @ encode_all ps" "encode_all (ps @ qs) = encode_all ps @ encode_all qs"
  by (simp_all add: encode_all_def)

text \<open>The largest packet that is sure to fit into the buffers of all programs.\<close>

definition small_packet :: "trace_packet \<Rightarrow> bool" where
  "small_packet p \<longleftrightarrow> length (encode p) \<le> PIPE_BUFFER_SIZE"

lemma length_packet [simp]: "length (packet ty pl) = 8 + length pl"
  by (simp add: packet_def)

lemma encode_ne [simp]: "encode p \<noteq> []"
  by (simp add: encode_def packet_def write_dword_def le_bytes_numeral)

lemma small_payload: "small_packet p \<Longrightarrow> length (payload p) \<le> 4088"
  by (simp add: small_packet_def encode_def PIPE_BUFFER_SIZE_def)

text \<open>Reading the header of a packet, complete or not.\<close>

lemma packet_header:
  assumes "data = packet ty pl @ rest \<or> strict_prefix data (packet ty pl) \<and> 8 \<le> length data"
  shows "read_dword data = Some (ty, 4)" "read_dword (drop 4 data) = Some (of_nat (length pl), 4)"
    "hd data = ucast ty" "data \<noteq> []"
proof -
  obtain tail where data: "data = write_dword ty @ write_dword (of_nat (length pl)) @ tail"
  proof (cases "data = packet ty pl @ rest")
    case True
    then show ?thesis using that [of "pl @ rest"] by (simp add: packet_def)
  next
    case False
    with assms obtain zs where zs: "packet ty pl = data @ zs" "8 \<le> length data" by (auto simp: strict_prefix_def prefix_def)
    then have "data = take (length data) (packet ty pl)" by simp
    also have "\<dots> = write_dword ty @ write_dword (of_nat (length pl)) @ take (length data - 8) pl"
      using zs(2) by (simp add: packet_def take_append)
    finally show ?thesis by (rule that)
  qed
  then show "read_dword data = Some (ty, 4)" "read_dword (drop 4 data) = Some (of_nat (length pl), 4)"
    by (simp_all add: read_dword_write)
  show "data \<noteq> []" using data by (simp add: write_dword_def le_bytes_numeral)
  have "(word_of_nat (unat ty) :: byte) = ucast ty" by (simp add: unsigned_ucast_eq)
  then show "hd data = ucast ty" using data by (simp add: write_dword_def le_bytes_numeral)
qed

end
