(* ===== verification/Packet_Stream.thy ===== *)
theory Packet_Stream
  imports Prelude
begin

text \<open>
  The contract of a consumer of a packet stream.  Both readers of the pipe, the listener of
  sp-rtrace and the post-processor, work on a buffer that holds the received bytes: they consume
  complete packets, move an incomplete one to the front and read again.  The locale states what the
  consumer of one packet promises and what the loop around it does; its main result is that the way
  the stream is cut into chunks makes no difference.
\<close>

fun all_ok :: "('s \<Rightarrow> 'p \<Rightarrow> bool) \<Rightarrow> ('s \<Rightarrow> 'p \<Rightarrow> 's) \<Rightarrow> 's \<Rightarrow> 'p list \<Rightarrow> bool" where
  "all_ok ok app s [] = True"
| "all_ok ok app s (p # ps) \<longleftrightarrow> ok s p \<and> all_ok ok app (app s p) ps"

lemma all_ok_append: "all_ok ok app s (ps @ qs) \<longleftrightarrow> all_ok ok app s ps \<and> all_ok ok app (foldl app s ps) qs"
  by (induction ps arbitrary: s) auto

text \<open>Every prefix of a packet sequence is a number of packets and a proper part of the next one.\<close>

lemma packets_prefix:
  assumes "data @ rest = concat (map enc ps)" "\<forall>p\<in>set ps. enc p \<noteq> []"
  shows "\<exists>ps1 ps2 part. ps = ps1 @ ps2 \<and> data = concat (map enc ps1) @ part \<and>
    (part = [] \<or> (\<exists>p ps3. ps2 = p # ps3 \<and> strict_prefix part (enc p)))"
  using assms
proof (induction ps arbitrary: data)
  case (Cons p ps)
  show ?case
  proof (cases "length data < length (enc p)")
    case True
    then have "data = take (length data) (enc p)"
      using Cons.prems(1) by (metis append_eq_append_conv_if concat.simps(2) list.simps(9) nat_less_le)
    then have "strict_prefix data (enc p)"
      using True by (metis less_irrefl prefix_order.dual_order.not_eq_order_implies_strict take_is_prefix)
    then have "p # ps = [] @ (p # ps) \<and> data = concat (map enc []) @ data \<and>
        (data = [] \<or> (\<exists>q ps3. p # ps = q # ps3 \<and> strict_prefix data (enc q)))" by simp
    then show ?thesis by blast
  next
    case False
    moreover have "data @ rest = enc p @ concat (map enc ps)" using Cons.prems(1) by simp
    ultimately obtain us where "data = enc p @ us" "us @ rest = concat (map enc ps)"
      by (metis append_eq_append_conv_if append_eq_conv_conj append_take_drop_id le_neq_implies_less not_less append_assoc same_append_eq)
    then have *: "data = enc p @ drop (length (enc p)) data" "drop (length (enc p)) data @ rest = concat (map enc ps)"
      by auto
    from Cons.IH [OF *(2)] Cons.prems(2) obtain ps1 ps2 part where
      "ps = ps1 @ ps2" "drop (length (enc p)) data = concat (map enc ps1) @ part"
      "part = [] \<or> (\<exists>p ps3. ps2 = p # ps3 \<and> strict_prefix part (enc p))" by auto
    then have "p # ps = (p # ps1) @ ps2 \<and> data = concat (map enc (p # ps1)) @ part \<and>
        (part = [] \<or> (\<exists>p ps3. ps2 = p # ps3 \<and> strict_prefix part (enc p)))" using *(1) by simp
    then show ?thesis by blast
  qed
qed simp

text \<open>The consumer of one packet: \<open>-1\<close> tells that the packet is not complete yet.\<close>

locale packet_consumer =
  fixes step :: "'s \<Rightarrow> byte list \<Rightarrow> (int \<times> 's) option"
    and enc :: "'p \<Rightarrow> byte list"
    and ok :: "'s \<Rightarrow> 'p \<Rightarrow> bool"
    and app :: "'s \<Rightarrow> 'p \<Rightarrow> 's"
    and run :: "'s \<Rightarrow> byte list \<Rightarrow> (int \<times> 's \<times> byte list) option"
  assumes step_packet: "ok s p \<Longrightarrow> step s (enc p @ rest) = Some (int (length (enc p)), app s p)"
    and step_part: "ok s p \<Longrightarrow> strict_prefix part (enc p) \<Longrightarrow> step s part = Some (-1, s)"
    and step_none: "step s [] = Some (-1, s)"
    and enc_ne: "enc p \<noteq> []"
    and run_eq: "run s data = (case step s data of None \<Rightarrow> None | Some (n, s') \<Rightarrow>
      if n \<le> 0 then Some (n, s', data) else run s' (drop (nat n) data))"
begin

lemma run_part: "step s part = Some (-1, s) \<Longrightarrow> run s part = Some (-1, s, part)"
  by (subst run_eq) simp

lemma run_packets:
  "all_ok ok app s ps \<Longrightarrow> run s (concat (map enc ps) @ part) = run (foldl app s ps) part"
proof (induction ps arbitrary: s)
  case (Cons p ps)
  have "0 < length (enc p)" using enc_ne by simp
  with Cons show ?case
    by (subst run_eq) (simp add: step_packet not_le)
qed simp

lemma run_stream:
  assumes "all_ok ok app s (ps @ qs)" "part = [] \<or> (\<exists>p ps'. qs = p # ps' \<and> strict_prefix part (enc p))"
  shows "run s (concat (map enc ps) @ part) = Some (-1, foldl app s ps, part)"
proof -
  have "step (foldl app s ps) part = Some (-1, foldl app s ps)"
    using assms by (auto simp: all_ok_append step_none intro: step_part)
  then show ?thesis using assms(1) by (simp add: run_packets run_part all_ok_append)
qed

end

text \<open>
  The loop around it: \<open>fin\<close> is what it makes of the state at the end of the file; \<open>limit\<close> is the
  size of the buffer.
\<close>

locale packet_reader = packet_consumer step enc ok app run
  for step :: "'s \<Rightarrow> byte list \<Rightarrow> (int \<times> 's) option" and enc :: "'p \<Rightarrow> byte list" and ok app run +
  fixes loop :: "'s \<Rightarrow> byte list \<Rightarrow> byte list list \<Rightarrow> 'r option"
    and fin :: "'s \<Rightarrow> 'r option"
    and limit :: nat
  assumes loop_end: "run s data = Some (-1, s', rest) \<Longrightarrow> loop s data [] = fin s'"
    and loop_read: "run s data = Some (-1, s', rest) \<Longrightarrow> chunk \<noteq> [] \<Longrightarrow> length rest + length chunk \<le> limit \<Longrightarrow>
      loop s data (chunk # chunks) = loop s' (rest @ chunk) chunks"
begin

lemma loop_stream:
  assumes "all_ok ok app s ps" "data @ concat chunks = concat (map enc ps)"
    "\<forall>c\<in>set chunks. c \<noteq> [] \<and> length c \<le> limit - k" "\<forall>p\<in>set ps. length (enc p) \<le> k" "k \<le> limit"
  shows "loop s data chunks = fin (foldl app s ps)"
  using assms
proof (induction chunks arbitrary: s data ps)
  case Nil
  then have "run s data = Some (-1, foldl app s ps, [])"
    using run_stream [of s ps "[]" "[]"] by simp
  then show ?case by (rule loop_end)
next
  case (Cons c chunks)
  from packets_prefix [of data "concat (c # chunks)" enc ps] Cons.prems(2) enc_ne
  obtain ps1 ps2 part where ps: "ps = ps1 @ ps2" "data = concat (map enc ps1) @ part"
    "part = [] \<or> (\<exists>p ps3. ps2 = p # ps3 \<and> strict_prefix part (enc p))" by auto
  from Cons.prems(1) ps have run: "run s data = Some (-1, foldl app s ps1, part)"
    by (simp add: run_stream)
  have "length part \<le> k" using ps(1,3) Cons.prems(4)
    by (auto dest!: strict_prefixE' simp: strict_prefix_def dest: prefix_length_le)
  then have "length part + length c \<le> limit" using Cons.prems(3,5) by force
  with run Cons.prems(3) have "loop s data (c # chunks) = loop (foldl app s ps1) (part @ c) chunks"
    by (intro loop_read) auto
  also have "\<dots> = fin (foldl app (foldl app s ps1) ps2)"
    using Cons.prems ps by (intro Cons.IH) (auto simp: all_ok_append)
  finally show ?case using ps(1) by simp
qed

text \<open>Two ways of cutting the same stream lead to the same result.\<close>

lemma loop_chunking:
  assumes "all_ok ok app s ps" "concat chunks = concat (map enc ps)" "concat chunks' = concat (map enc ps)"
    "\<forall>c\<in>set chunks \<union> set chunks'. c \<noteq> [] \<and> length c \<le> limit - k" "\<forall>p\<in>set ps. length (enc p) \<le> k" "k \<le> limit"
  shows "loop s [] chunks = loop s [] chunks'"
  using loop_stream [of s ps "[]" chunks k] loop_stream [of s ps "[]" chunks' k] assms by simp

end

end
