(* ===== verification/Listener.thy ===== *)
theory Listener
  imports Trace_Packets Packet_Stream
begin

text \<open>
  The pre-processor between the traced process and the post-processor, src/rtrace/listener.c: it
  forwards the packets of the pipe, adds the memory mappings of the traced process and the time of
  the trace.  What the operating system answers is given by an environment for every packet.
\<close>

section \<open>State\<close>

text \<open>
  \<open>ls_buffer\<close> are the bytes up to the head of the output buffer, \<open>ls_out\<close> the bytes written to the
  output; \<open>ls_broken\<close> tells that writing fails.  Descriptor 0 stands for an output that is not
  connected yet.  \<open>ls_count\<close> is the number of packets processed.
\<close>

record listener =
  ls_fd_out :: int
  ls_buffer :: "byte list"
  ls_hs :: "byte list"
  ls_mmaps :: "sp_rtrace_mmap list"
  ls_pid :: u32
  ls_output_dir :: "cstring option"
  ls_postproc :: "cstring option"
  ls_unbuffered :: bool
  ls_out :: "byte list"
  ls_broken :: bool
  ls_count :: nat

text \<open>The lines of the maps file of a process, the time of day, and the result of opening the output.\<close>

record listener_env =
  le_maps :: "u32 \<Rightarrow> cstring list option"
  le_time :: "u32 \<times> u32"
  le_connect :: "cstring option \<Rightarrow> cstring option \<Rightarrow> int"

definition LISTENER_BUFFER_SIZE :: nat where "LISTENER_BUFFER_SIZE = 4096"

definition flush_data :: "listener \<Rightarrow> int \<times> listener" where
  "flush_data s =
     (if ls_fd_out s > 0 \<and> ls_buffer s \<noteq> [] then
        (if ls_broken s then (-1, s)
         else (int (length (ls_buffer s)), s\<lparr>ls_out := ls_out s @ ls_buffer s, ls_buffer := []\<rparr>))
      else (int (length (ls_buffer s)), s\<lparr>ls_buffer := []\<rparr>))"

text \<open>The output buffer has twice the flush size; more is a write behind its end.\<close>

definition write_data :: "byte list \<Rightarrow> listener \<Rightarrow> (int \<times> listener) option" where
  "write_data data s =
     (if ls_unbuffered s then
        Some (if ls_broken s \<or> ls_fd_out s \<le> 0 then (-1, s) else (int (length data), s\<lparr>ls_out := ls_out s @ data\<rparr>))
      else do {
        guard (length (ls_buffer s) + length data \<le> 2 * LISTENER_BUFFER_SIZE);
        let s = s\<lparr>ls_buffer := ls_buffer s @ data\<rparr>;
        if length (ls_buffer s) \<ge> LISTENER_BUFFER_SIZE then
          (let (rc, s) = flush_data s in Some (if rc < 0 then (-1, s) else (int (length data), s)))
        else Some (int (length data), s) })"

section \<open>Memory mappings\<close>

definition range_compare :: "sp_rtrace_mmap \<Rightarrow> sp_rtrace_mmap \<Rightarrow> int" where
  "range_compare m1 m2 = (if mm_to m1 < mm_from m2 then -1 else if mm_from m1 > mm_to m2 then 1 else 0)"

definition hex_value :: "byte \<Rightarrow> nat option" where
  "hex_value c = (if 48 \<le> c \<and> c \<le> 57 then Some (unat c - 48)
     else if 97 \<le> c \<and> c \<le> 102 then Some (unat c - 87)
     else if 65 \<le> c \<and> c \<le> 70 then Some (unat c - 55) else None)"

fun hex_digits :: "nat \<Rightarrow> cstring \<Rightarrow> nat \<times> cstring" where
  "hex_digits n [] = (n, [])"
| "hex_digits n (c # s) = (case hex_value c of Some d \<Rightarrow> hex_digits (16 * n + d) s | None \<Rightarrow> (n, c # s))"

definition skip_spaces :: "cstring \<Rightarrow> cstring" where
  "skip_spaces s = dropWhile is_space s"

text \<open>The conversions of \<open>sscanf\<close> that are used: \<open>%lx\<close> (without sign and prefix), \<open>%s\<close>, and \<open>%[^ ]\<close> with the blank in front.\<close>

definition scan_hex :: "cstring \<Rightarrow> (pointer_t \<times> cstring) option" where
  "scan_hex s = (let s = skip_spaces s; (n, r) = hex_digits 0 s in if r = s then None else Some (of_nat n, r))"

definition scan_char :: "byte \<Rightarrow> cstring \<Rightarrow> cstring option" where
  "scan_char c s = (case s of [] \<Rightarrow> None | d # r \<Rightarrow> if d = c then Some r else None)"

definition scan_word :: "(byte \<Rightarrow> bool) \<Rightarrow> cstring \<Rightarrow> (cstring \<times> cstring) option" where
  "scan_word sep s = (let s = skip_spaces s; w = takeWhile (\<lambda>c. \<not> sep c) s
     in if w = [] then None else Some (w, drop (length w) s))"

text \<open>A line of the maps file: the range, the rights and the path up to the first blank.\<close>

definition scan_maps_line :: "cstring \<Rightarrow> (pointer_t \<times> pointer_t \<times> cstring \<times> cstring) option" where
  "scan_maps_line line = do {
     (from, s) \<leftarrow> scan_hex line;
     s \<leftarrow> scan_char 45 s;
     (to, s) \<leftarrow> scan_hex s;
     (rights, s) \<leftarrow> scan_word is_space s;
     (_, s) \<leftarrow> scan_word (\<lambda>c. c = 32) s;
     (_, s) \<leftarrow> scan_word (\<lambda>c. c = 32) s;
     (_, s) \<leftarrow> scan_word (\<lambda>c. c = 32) s;
     (path, s) \<leftarrow> scan_word (\<lambda>c. c = 32) s;
     Some (from, to, rights, path) }"

text \<open>The executable mapping of a line; the last character of the path is cut off.\<close>

definition line_mmap :: "cstring \<Rightarrow> sp_rtrace_mmap option" where
  "line_mmap line = (case scan_maps_line line of
     Some (from, to, rights, path) \<Rightarrow>
       if length rights > 2 \<and> rights ! 2 = 120 then Some \<lparr>mm_from = from, mm_to = to, mm_module = butlast path\<rparr> else None
   | None \<Rightarrow> None)"

definition mmap_packet :: "sp_rtrace_mmap \<Rightarrow> byte list" where
  "mmap_packet m = packet MEMORY_MAP (write_pointer (mm_from m) @ write_pointer (mm_to m) @ write_string (Some (mm_module m)))"

text \<open>One line of the scan: a new or changed mapping is registered and written.\<close>

definition register_mmap :: "sp_rtrace_mmap \<Rightarrow> listener \<Rightarrow> (int \<times> listener) option" where
  "register_mmap m s =
     (let old = find (\<lambda>x. range_compare x m = 0) (ls_mmaps s)
      in if old = Some m then Some (0, s)
         else (let s = s\<lparr>ls_mmaps := (case old of None \<Rightarrow> ls_mmaps s | Some x \<Rightarrow> remove1 x (ls_mmaps s)) @ [m]\<rparr>
               in write_data (mmap_packet m) s))"

fun scan_lines :: "cstring list \<Rightarrow> listener \<Rightarrow> (int \<times> listener) option" where
  "scan_lines [] s = Some (0, s)"
| "scan_lines (line # rest) s = (case line_mmap line of
     None \<Rightarrow> scan_lines rest s
   | Some m \<Rightarrow> do { (rc, s) \<leftarrow> register_mmap m s; if rc < 0 then Some (-1, s) else scan_lines rest s })"

definition scan_mmap_data :: "listener_env \<Rightarrow> listener \<Rightarrow> (int \<times> listener) option" where
  "scan_mmap_data env s = (case le_maps env (ls_pid s) of None \<Rightarrow> Some (0, s) | Some maps \<Rightarrow> scan_lines maps s)"

section \<open>Packets\<close>

text \<open>The handshake is kept until the output is connected, in a buffer of 256 bytes.\<close>

definition process_handshake :: "byte list \<Rightarrow> listener \<Rightarrow> (int \<times> listener) option" where
  "process_handshake data s = do {
     guard (1 < length data);
     let len = unat (data ! 1) + 2;
     if len > length data then Some (-1, s)
     else do { guard (len \<le> 256); Some (int len, s\<lparr>ls_hs := take len data\<rparr>) } }"

definition read_path :: "byte list \<Rightarrow> (cstring \<times> nat) option" where
  "read_path data = do { r \<leftarrow> read_string data (nat PATH_MAX); case r of Inl _ \<Rightarrow> None | Inr v \<Rightarrow> Some v }"

definition connect_output :: "listener_env \<Rightarrow> byte list \<Rightarrow> listener \<Rightarrow> (int \<times> listener) option" where
  "connect_output env data s = do {
     (value, n) \<leftarrow> read_path data;
     let s = (if value \<noteq> [] then s\<lparr>ls_output_dir := Some value\<rparr> else s);
     (value, _) \<leftarrow> read_path (drop n data);
     let s = (if value \<noteq> [] then s\<lparr>ls_postproc := Some value\<rparr> else s);
     let s = s\<lparr>ls_fd_out := le_connect env (ls_output_dir s) (ls_postproc s)\<rparr>;
     write_data (ls_hs s) s }"

text \<open>The time is set in a process packet that has none; \<open>data\<close> is the packet with its header.\<close>

definition stamp_process :: "listener_env \<Rightarrow> byte list \<Rightarrow> (byte list \<times> u32) option" where
  "stamp_process env data = do {
     (secs, _) \<leftarrow> read_dword (drop 12 data);
     let data = (if secs = 0
                 then take 12 data @ write_dword (fst (le_time env)) @ write_dword (snd (le_time env)) @ drop 20 data
                 else data);
     (pid, _) \<leftarrow> read_dword (drop 8 data);
     Some (data, pid) }"

text \<open>
  An attachment packet only causes warnings about its file, so it is like every other packet here.
  \<open>-1\<close> asks for more data.
\<close>

definition process_packet :: "(nat \<Rightarrow> listener_env) \<Rightarrow> listener \<Rightarrow> byte list \<Rightarrow> (int \<times> listener) option" where
  "process_packet envs s data =
     (if length data < 8 then Some (-1, s)
      else do {
        (type, n) \<leftarrow> read_dword data;
        (len, m) \<leftarrow> read_dword (drop n data);
        let len = unat (len + of_nat (n + m));
        if len > length data then Some (-1, s)
        else do {
          let env = envs (ls_count s);
          let s = s\<lparr>ls_count := ls_count s + 1\<rparr>;
          if type = OUTPUT_SETTINGS then do {
            (rc, s) \<leftarrow> connect_output env (drop 8 data) s;
            if rc < 0 then Some (-1, s)
            else do { (_, s) \<leftarrow> write_data (take len data) s; Some (int len, s) } }
          else if type = PROCESS_INFO then do {
            (data, pid) \<leftarrow> stamp_process env data;
            (_, s) \<leftarrow> write_data (take len data) (s\<lparr>ls_pid := pid\<rparr>);
            Some (int len, s) }
          else if type = NEW_LIBRARY then do {
            _ \<leftarrow> read_path (drop 8 data);
            (_, s) \<leftarrow> scan_mmap_data env s;
            Some (int len, s) }
          else do { (_, s) \<leftarrow> write_data (take len data) s; Some (int len, s) } } })"

section \<open>The read loop\<close>

lemma uint_le_length: "\<not> k < unat w \<Longrightarrow> uint w \<le> int k"
  using uint_nat [of w] by linarith

lemma process_packet_progress:
  "process_packet envs s data = Some (n, s') \<Longrightarrow> 0 < n \<Longrightarrow> 8 \<le> length data \<and> n \<le> int (length data)"
  by (auto simp: process_packet_def Option.bind_eq_Some_conv Let_def intro: uint_le_length split: if_splits)

function listen_packets :: "(nat \<Rightarrow> listener_env) \<Rightarrow> listener \<Rightarrow> byte list \<Rightarrow> (int \<times> listener \<times> byte list) option" where
  "listen_packets envs s data =
     (case process_packet envs s data of
        None \<Rightarrow> None
      | Some (n, s') \<Rightarrow> if n \<le> 0 then Some (n, s', data) else listen_packets envs s' (drop (nat n) data))"
  by pat_completeness auto
termination
proof (relation "measure (\<lambda>(envs, s, data). length data)", goal_cases)
  case (2 envs s data r n s')
  then have "8 \<le> length data \<and> n \<le> int (length data)"
    using process_packet_progress [of envs s data n s'] by auto
  with 2 show ?case by auto
qed simp

declare listen_packets.simps [simp del]

text \<open>The results of \<open>read\<close>: data, an interrupt, an error, or a request to stop; the end of the list is the end of file.\<close>

datatype read_event = R_Data "byte list" | R_Intr | R_Fail | R_Stop

text \<open>
  The bytes left over are moved to the start of the buffer.  After an interrupt the loop goes on at
  the old position \<open>off\<close>, where the move may have changed them.
\<close>

definition moved_bytes :: "nat \<Rightarrow> byte list \<Rightarrow> byte list" where
  "moved_bytes off rest = map (\<lambda>j. if off + j < length rest then rest ! (off + j) else rest ! j) [0..<length rest]"

fun listen_loop :: "(nat \<Rightarrow> listener_env) \<Rightarrow> listener \<Rightarrow> nat \<Rightarrow> byte list \<Rightarrow> read_event list \<Rightarrow> listener option" where
  "listen_loop envs s off data reads = do {
     (n, s, rest) \<leftarrow> listen_packets envs s data;
     let off = off + (length data - length rest);
     case reads of
       [] \<Rightarrow> Some (snd (flush_data s))
     | R_Data chunk # reads \<Rightarrow> do {
         guard (length rest + length chunk \<le> 2 * LISTENER_BUFFER_SIZE);
         if chunk = [] then Some (snd (flush_data s)) else listen_loop envs s 0 (rest @ chunk) reads }
     | R_Intr # reads \<Rightarrow> listen_loop envs s off (moved_bytes off rest) reads
     | R_Fail # reads \<Rightarrow> Some (snd (flush_data s))
     | R_Stop # reads \<Rightarrow> Some (snd (flush_data s)) }"

definition process_data :: "(nat \<Rightarrow> listener_env) \<Rightarrow> listener \<Rightarrow> read_event list \<Rightarrow> (int \<times> listener) option" where
  "process_data envs s reads =
     (case reads of
        R_Data data # reads \<Rightarrow>
          if data = [] then Some (0, s)
          else do {
            (offset, s) \<leftarrow> process_handshake data s;
            if offset \<le> 0 then Some (-1, s)
            else do { s \<leftarrow> listen_loop envs s (nat offset) (drop (nat offset) data) reads; Some (0, s) } }
      | [] \<Rightarrow> Some (0, s)
      | _ \<Rightarrow> Some (-1, s))"

end
