(* ===== verification/Rtrace_Invariant.thy ===== *)
theory Rtrace_Invariant
  imports Rtrace_Data
begin

text \<open>
  Correctness of the trace data operations: the backtrace hash and comparison identify exactly the
  equal backtraces, and the reference structure between calls, reference nodes and backtraces is an
  invariant.  Under the invariant no operation touches a released record.
\<close>

section \<open>Hash and comparison\<close>

lemma and_16bit_less: "(v :: u64) AND 0xFFFF < 0x10000"
proof -
  have "v AND 0xFFFF \<le> 0xFFFF" by (rule word_and_le1)
  also have "(0xFFFF :: u64) < 0x10000" by simp
  finally show ?thesis .
qed

lemma xor_16bit_less:
  assumes "(a :: u64) < 0x10000" "b < 0x10000"
  shows "a XOR b < 0x10000"
proof -
  have "uint a < 2 ^ 16" "uint b < 2 ^ 16" using assms by (simp_all add: word_less_def)
  then have "uint a XOR uint b < 2 ^ 16" by (intro XOR_upper uint_ge_0)
  then show ?thesis by (simp add: word_less_def unsigned_xor_eq)
qed

lemma hash_fold_less: "hash < 0x10000 \<Longrightarrow> hash_fold hash v < 0x10000"
proof (induction hash v rule: hash_fold.induct)
  case (1 hash v)
  then show ?case by (subst hash_fold.simps) (auto simp: xor_16bit_less and_16bit_less)
qed

lemma bt_hash_range: "0 \<le> bt_hash t" "bt_hash t < 65536"
proof -
  have "fold (\<lambda>frame hash. hash_fold hash frame) xs hash < 0x10000" if "hash < 0x10000" for xs hash
    using that by (induction xs arbitrary: hash) (auto intro: hash_fold_less)
  from this [of 0 "ft_used t"] have less: "fold (\<lambda>frame hash. hash_fold hash frame) (ft_used t) 0 < 0x10000" by simp
  then have "uint (fold (\<lambda>frame hash. hash_fold hash frame) (ft_used t) 0) < 65536"
    by (simp add: word_less_def)
  moreover have "sint (w :: u64) = uint w" if "uint w < 65536" for w
  proof -
    have "- (2 ^ 63) \<le> uint w" by (rule order_trans [OF _ uint_ge_0]) simp
    with that show ?thesis by (simp add: sint_uint signed_take_bit_int_eq_self)
  qed
  ultimately show "0 \<le> bt_hash t" "bt_hash t < 65536" by (simp_all add: bt_hash_def)
qed

lemma hash_index_bt: "hash_index HASH_SIZE (bt_hash t) = Some (nat (bt_hash t))"
  using hash_index_16bit [OF bt_hash_range, of t] by (simp add: HASH_SIZE_def)

lemma memcmp_0_iff: "length as = length bs \<Longrightarrow> memcmp as bs = 0 \<longleftrightarrow> as = bs"
  by (induction as bs rule: memcmp.induct) (auto simp: word_uint_eq_iff)

lemma write_pointer_inj: "write_pointer p = write_pointer q \<Longrightarrow> p = q"
  using read_pointer_write [of p "[]"] read_pointer_write [of q "[]"] by simp

lemma write_pointers_inj:
  "length ps = length qs \<Longrightarrow> concat (map write_pointer ps) = concat (map write_pointer qs) \<longleftrightarrow> ps = qs"
  by (induction ps qs rule: list_induct2) (auto dest: write_pointer_inj)

text \<open>A backtrace record has storage for its frames.\<close>

definition ft_wf :: "rd_ftrace \<Rightarrow> bool" where
  "ft_wf t \<longleftrightarrow> unat (ft_nframes t) \<le> length (ft_frames t)"

lemma bt_compare_0_iff:
  assumes "ft_wf a" "ft_wf b"
  shows "bt_compare a b = 0 \<longleftrightarrow> ft_used a = ft_used b"
proof (cases "ft_nframes a = ft_nframes b")
  case True
  then have "length (ft_used a) = length (ft_used b)"
    using assms by (simp add: ft_used_def ft_wf_def)
  moreover then have "length (concat (map write_pointer (ft_used a))) = length (concat (map write_pointer (ft_used b)))"
    by (simp add: length_concat comp_def sum_list_triv)
  ultimately show ?thesis
    using True by (simp add: bt_compare_def memcmp_0_iff write_pointers_inj)
next
  case False
  then have "length (ft_used a) \<noteq> length (ft_used b)"
    using assms by (simp add: ft_used_def ft_wf_def word_unat_eq_iff)
  then have "ft_used a \<noteq> ft_used b" by metis
  moreover have "sint (ft_nframes a - ft_nframes b) \<noteq> 0" using False by (simp add: signed_eq_0_iff)
  ultimately show ?thesis using False by (simp add: bt_compare_def)
qed

lemma bt_compare_0_hash: "ft_wf a \<Longrightarrow> ft_wf b \<Longrightarrow> bt_compare a b = 0 \<Longrightarrow> bt_hash a = bt_hash b"
  by (simp add: bt_compare_0_iff bt_hash_def)

section \<open>The reference structure\<close>

text \<open>
  A call with a backtrace refers to a stored backtrace that lists the call's reference node; a
  stored backtrace counts its reference nodes, has at least one, and each belongs to a listed call
  that refers back.
\<close>

definition call_ok :: "rd \<Rightarrow> rheap \<Rightarrow> ptr \<Rightarrow> rd_fcall \<Rightarrow> bool" where
  "call_ok rd h c call \<longleftrightarrow> call_trace call = NULL \<or>
     (call_ref call \<noteq> NULL \<and> rh_refs h (call_ref call) = Some c \<and>
      (\<exists>r b. rh_ftraces h (call_trace call) = Some r \<and> ft_bucket r = Some b \<and>
         call_trace call \<in> set (a_bucket (rd_ftraces rd) b) \<and> call_ref call \<in> set (ft_calls r)))"

definition inv_calls :: "rd \<Rightarrow> rheap \<Rightarrow> bool" where
  "inv_calls rd h \<longleftrightarrow> distinct (rd_calls rd) \<and>
     (\<forall>c\<in>set (rd_calls rd). c \<noteq> NULL \<and> (\<exists>call. rh_fcalls h c = Some call \<and> call_ok rd h c call))"

definition ref_ok :: "rd \<Rightarrow> rheap \<Rightarrow> ptr \<Rightarrow> ptr \<Rightarrow> bool" where
  "ref_ok rd h t x \<longleftrightarrow> (\<exists>c call. rh_refs h x = Some c \<and> c \<in> set (rd_calls rd) \<and>
     rh_fcalls h c = Some call \<and> call_trace call = t \<and> call_ref call = x)"

definition trace_ok :: "rd \<Rightarrow> rheap \<Rightarrow> ptr \<Rightarrow> rd_ftrace \<Rightarrow> bool" where
  "trace_ok rd h t r \<longleftrightarrow> ft_ref_count r = int (length (ft_calls r)) \<and>
     distinct (ft_calls r) \<and> (\<forall>x\<in>set (ft_calls r). ref_ok rd h t x)"

text \<open>The backtraces in \<open>E\<close> may be without a call: they have just been stored.\<close>

definition inv_traces :: "ptr set \<Rightarrow> rd \<Rightarrow> rheap \<Rightarrow> bool" where
  "inv_traces E rd h \<longleftrightarrow> a_size (rd_ftraces rd) = 65536 \<and>
     (\<forall>b. distinct (a_bucket (rd_ftraces rd) b) \<and>
       (\<forall>t\<in>set (a_bucket (rd_ftraces rd) b). b < 65536 \<and> t \<noteq> NULL \<and>
          (\<exists>r. rh_ftraces h t = Some r \<and> ft_bucket r = Some b \<and> trace_ok rd h t r \<and>
             (t \<in> E \<or> ft_calls r \<noteq> []))))"

definition inv_fresh :: "rheap \<Rightarrow> bool" where
  "inv_fresh h \<longleftrightarrow> 0 < rh_next h \<and> (\<forall>p. p = NULL \<or> rh_next h \<le> p \<longrightarrow> rh_fcalls h p = None \<and> rh_ftraces h p = None \<and>
     rh_refs h p = None \<and> rh_resources h p = None)"

definition rd_inv :: "rd \<Rightarrow> rheap \<Rightarrow> bool" where
  "rd_inv rd h \<longleftrightarrow> inv_calls rd h \<and> inv_traces {} rd h \<and> inv_fresh h"

lemma ok_cong [simp]:
  "ref_ok (rd\<lparr>rd_ftraces := tb\<rparr>) h t x = ref_ok rd h t x"
  "trace_ok (rd\<lparr>rd_ftraces := tb\<rparr>) h t r = trace_ok rd h t r"
  "call_ok rd (h\<lparr>rh_next := n\<rparr>) c call = call_ok rd h c call"
  "inv_calls rd (h\<lparr>rh_next := n\<rparr>) = inv_calls rd h"
  "inv_traces E rd (h\<lparr>rh_next := n\<rparr>) = inv_traces E rd h"
  by (simp_all add: ref_ok_def trace_ok_def call_ok_def inv_calls_def inv_traces_def)

lemma rd_create_inv: "rd_inv rd_create rheap_init"
  by (simp add: rd_inv_def inv_calls_def inv_traces_def inv_fresh_def rd_create_def rheap_init_def
      a_init_def HASH_SIZE_def)

lemma inv_callsD:
  assumes "inv_calls rd h" "c \<in> set (rd_calls rd)"
  obtains call where "rh_fcalls h c = Some call" "call_ok rd h c call" "c \<noteq> NULL"
  using assms by (auto simp: inv_calls_def)

lemma inv_tracesD:
  assumes "inv_traces E rd h" "t \<in> set (a_bucket (rd_ftraces rd) b)"
  obtains r where "rh_ftraces h t = Some r" "ft_bucket r = Some b" "trace_ok rd h t r" "t \<noteq> NULL" "b < 65536"
    "t \<in> E \<or> ft_calls r \<noteq> []"
  using assms unfolding inv_traces_def by metis

lemma inv_traces_mono: "inv_traces E rd h \<Longrightarrow> E \<subseteq> E' \<Longrightarrow> inv_traces E' rd h"
  unfolding inv_traces_def by (meson subsetD)

text \<open>No two listed calls share a reference node.\<close>

lemma call_ref_inj:
  assumes "call_ok rd h c call" "call_ok rd h d call'" "call_trace call \<noteq> NULL" "call_trace call' \<noteq> NULL"
    "call_ref call = call_ref call'"
  shows "c = d"
  using assms by (auto simp: call_ok_def)

section \<open>Removing a call\<close>

text \<open>What stays as it was when a call record is removed.\<close>

definition removed_call :: "rd \<Rightarrow> rheap \<Rightarrow> ptr \<Rightarrow> rd \<Rightarrow> rheap \<Rightarrow> bool" where
  "removed_call rd h c rd' h' \<longleftrightarrow>
     rd' = rd\<lparr>rd_calls := remove1 c (rd_calls rd), rd_ftraces := rd_ftraces rd'\<rparr> \<and>
     rh_fcalls h' = (rh_fcalls h)(c := None) \<and> rh_resources h' = rh_resources h \<and> rh_next h' = rh_next h \<and>
     (\<forall>t r'. rh_ftraces h' t = Some r' \<longrightarrow> (\<exists>r. rh_ftraces h t = Some r \<and> ft_used r' = ft_used r))"

lemma removed_call_calls: "removed_call rd h c rd' h' \<Longrightarrow> rd_calls rd' = remove1 c (rd_calls rd)"
  unfolding removed_call_def by (metis rd.select_convs(1) rd.surjective rd.update_convs(1,3))

lemma remove_plain:
  assumes "rd_inv rd h" "rh_fcalls h c = Some call" "c \<in> set (rd_calls rd)" "call_trace call = NULL"
  shows "rd_inv (rd\<lparr>rd_calls := remove1 c (rd_calls rd)\<rparr>) (h\<lparr>rh_fcalls := (rh_fcalls h)(c := None)\<rparr>)"
proof -
  let ?rd = "rd\<lparr>rd_calls := remove1 c (rd_calls rd)\<rparr>" and ?h = "h\<lparr>rh_fcalls := (rh_fcalls h)(c := None)\<rparr>"
  have d: "distinct (rd_calls rd)" using assms by (simp add: rd_inv_def inv_calls_def)
  have "inv_calls ?rd ?h"
    using assms(1) d by (auto simp: rd_inv_def inv_calls_def call_ok_def)
  moreover have "ref_ok ?rd ?h t x" if "ref_ok rd h t x" "t \<noteq> NULL" for t x
  proof -
    from that obtain e ecall where e: "rh_refs h x = Some e" "e \<in> set (rd_calls rd)"
        "rh_fcalls h e = Some ecall" "call_trace ecall = t" "call_ref ecall = x" by (auto simp: ref_ok_def)
    then have "e \<noteq> c" using assms(2,4) that(2) by auto
    with e d show ?thesis by (simp add: ref_ok_def)
  qed
  then have "inv_traces {} ?rd ?h"
    using assms(1) unfolding rd_inv_def inv_traces_def trace_ok_def by fastforce
  moreover have "inv_fresh ?h" using assms(1) by (auto simp: rd_inv_def inv_fresh_def)
  ultimately show ?thesis by (simp add: rd_inv_def)
qed

lemma remove_traced:
  assumes inv: "rd_inv rd h" and c: "rh_fcalls h c = Some call" "c \<in> set (rd_calls rd)"
    and t: "call_trace call = t" "t \<noteq> NULL" "rh_ftraces h t = Some r" "ft_bucket r = Some b"
      "t \<in> set (a_bucket (rd_ftraces rd) b)"
    and tb: "if length (ft_calls r) = 1
      then tb = (rd_ftraces rd)\<lparr>a_bucket := (a_bucket (rd_ftraces rd))(b := remove1 t (a_bucket (rd_ftraces rd) b))\<rparr> \<and>
        ts = (rh_ftraces h)(t := None)
      else tb = rd_ftraces rd \<and> ts = (rh_ftraces h)(t \<mapsto> r\<lparr>ft_calls := remove1 (call_ref call) (ft_calls r),
        ft_ref_count := ft_ref_count r - 1\<rparr>)"
  shows "rd_inv (rd\<lparr>rd_calls := remove1 c (rd_calls rd), rd_ftraces := tb\<rparr>)
    (h\<lparr>rh_refs := (rh_refs h)(call_ref call := None), rh_ftraces := ts, rh_fcalls := (rh_fcalls h)(c := None)\<rparr>)"
    (is "rd_inv ?rd ?h")
proof -
  let ?x = "call_ref call"
  have ic: "inv_calls rd h" and it: "inv_traces {} rd h" and fr: "inv_fresh h" using inv by (auto simp: rd_inv_def)
  have ok: "call_ok rd h c call" using ic c by (auto elim: inv_callsD)
  have d: "distinct (rd_calls rd)" using ic by (simp add: inv_calls_def)
  have x: "?x \<noteq> NULL" "rh_refs h ?x = Some c" "?x \<in> set (ft_calls r)"
    using ok t by (auto simp: call_ok_def)
  have tok: "trace_ok rd h t r" using it t by (auto elim: inv_tracesD)
  have single: "ft_calls r = [?x]" if "length (ft_calls r) = 1"
    using that x(3) by (cases "ft_calls r") auto
  have dist: "distinct (a_bucket (rd_ftraces rd) i)" for i using it by (simp add: inv_traces_def)
  have tb_mem: "u \<in> set (a_bucket tb i) \<longleftrightarrow> u \<in> set (a_bucket (rd_ftraces rd) i) \<and> \<not> (u = t \<and> length (ft_calls r) = 1)" for u i
  proof -
    have "i = b" if "t \<in> set (a_bucket (rd_ftraces rd) i)" using inv_tracesD [OF it that] t(3,4) by auto
    then show ?thesis using tb dist [of b] by (auto split: if_splits)
  qed
  have other: "call_ok ?rd ?h e ecall" if e: "rh_fcalls h e = Some ecall" "call_ok rd h e ecall" "e \<noteq> c" for e ecall
  proof (cases "call_trace ecall = NULL")
    case False
    with e(2) obtain r' b' where o: "call_ref ecall \<noteq> NULL" "rh_refs h (call_ref ecall) = Some e"
        "rh_ftraces h (call_trace ecall) = Some r'" "ft_bucket r' = Some b'"
        "call_trace ecall \<in> set (a_bucket (rd_ftraces rd) b')" "call_ref ecall \<in> set (ft_calls r')"
      by (auto simp: call_ok_def)
    have ne: "call_ref ecall \<noteq> ?x" using o(2) x(2) e(3) by auto
    show ?thesis
    proof (cases "call_trace ecall = t")
      case True
      then have "length (ft_calls r) \<noteq> 1" using single o ne t(3) by auto
      then show ?thesis using o True ne t tb by (auto simp: call_ok_def)
    next
      case False
      then show ?thesis using o ne tb_mem tb by (auto simp: call_ok_def split: if_splits)
    qed
  qed (simp add: call_ok_def)
  have "inv_calls ?rd ?h"
    using ic d other by (auto simp: inv_calls_def elim!: inv_callsD)
  moreover have "inv_traces {} ?rd ?h"
  proof -
    have ref: "ref_ok ?rd ?h u y" if "ref_ok rd h u y" "y \<noteq> ?x" for u y
    proof -
      from that obtain e ecall where e: "rh_refs h y = Some e" "e \<in> set (rd_calls rd)"
          "rh_fcalls h e = Some ecall" "call_trace ecall = u" "call_ref ecall = y" by (auto simp: ref_ok_def)
      then have "e \<noteq> c" using c that(2) by auto
      with e d that(2) show ?thesis by (simp add: ref_ok_def)
    qed
    have "\<exists>r'. ts u = Some r' \<and> ft_bucket r' = Some i \<and> trace_ok ?rd ?h u r' \<and> ft_calls r' \<noteq> []"
      if u: "u \<in> set (a_bucket tb i)" for u i
    proof -
      obtain ru where ru: "rh_ftraces h u = Some ru" "ft_bucket ru = Some i" "trace_ok rd h u ru" "ft_calls ru \<noteq> []"
        using u tb_mem inv_tracesD [OF it] by (metis empty_iff)
      show ?thesis
      proof (cases "u = t")
        case True
        then have len: "length (ft_calls r) \<noteq> 1" using u tb_mem by auto
        have "distinct (ft_calls r)" using tok by (auto simp: trace_ok_def)
        then have "?x \<notin> set (remove1 ?x (ft_calls r))" by simp
        moreover have "length (remove1 ?x (ft_calls r)) \<noteq> 0"
          using len x(3) by (cases "ft_calls r") (auto simp: length_remove1)
        then have "remove1 ?x (ft_calls r) \<noteq> []" by (metis list.size(3))
        ultimately show ?thesis using True tb len t tok ru ref x(3)
          by (auto simp: trace_ok_def length_remove1 Suc_le_eq of_nat_diff dest: set_mp [OF set_remove1_subset])
      next
        case False
        have "?x \<notin> set (ft_calls ru)"
        proof
          assume "?x \<in> set (ft_calls ru)"
          then have "ref_ok rd h u ?x" using ru(3) by (simp add: trace_ok_def)
          then show False using x(2) c t(1) False by (auto simp: ref_ok_def)
        qed
        then show ?thesis using False tb ru ref by (auto simp: trace_ok_def split: if_splits)
      qed
    qed
    moreover have "distinct (a_bucket tb i)" for i using tb dist [of i] dist [of b] by (auto split: if_splits)
    moreover have "a_size tb = 65536" using tb it by (auto simp: inv_traces_def split: if_splits)
    ultimately show ?thesis using tb_mem it by (auto simp: inv_traces_def)
  qed
  moreover have "inv_fresh ?h" using fr t(3) tb unfolding inv_fresh_def by (auto split: if_splits)
  ultimately show ?thesis by (simp add: rd_inv_def)
qed

theorem rd_fcall_remove_ok:
  assumes "rd_inv rd h" "c \<in> set (rd_calls rd)"
  shows "\<exists>rd' h'. rd_fcall_remove rd h c = Some (rd', h') \<and> rd_inv rd' h' \<and> removed_call rd h c rd' h'"
proof -
  obtain call where c: "rh_fcalls h c = Some call" "call_ok rd h c call"
    using assms by (auto simp: rd_inv_def elim: inv_callsD)
  show ?thesis
  proof (cases "call_trace call = NULL")
    case True
    then show ?thesis
      using remove_plain [OF assms(1) c(1) assms(2) True] c assms(2)
      by (simp add: rd_fcall_remove_def seq_remove_def rd_fcall_free_def removed_call_def)
  next
    case False
    then obtain r b where t: "rh_ftraces h (call_trace call) = Some r" "ft_bucket r = Some b"
        "call_trace call \<in> set (a_bucket (rd_ftraces rd) b)" "call_ref call \<in> set (ft_calls r)"
        "call_ref call \<noteq> NULL" "rh_refs h (call_ref call) = Some c"
      using c by (auto simp: call_ok_def)
    have cnt: "ft_ref_count r = int (length (ft_calls r))"
      using assms t by (auto simp: rd_inv_def trace_ok_def elim: inv_tracesD)
    note inv = remove_traced [OF assms(1) c(1) assms(2) refl False t(1,2,3)]
    show ?thesis
    proof (cases "length (ft_calls r) = 1")
      case True
      then have "ft_calls r = [call_ref call]" using t(4) by (cases "ft_calls r") auto
      then show ?thesis using inv True c assms(2) t False cnt
        by (simp add: rd_fcall_remove_def seq_remove_def rd_fcall_free_def free_ref_def rd_ftrace_free_def
            removed_call_def Let_def ft_used_def)
    next
      case len: False
      then show ?thesis using inv c assms(2) t False cnt
        by (simp add: rd_fcall_remove_def seq_remove_def rd_fcall_free_def free_ref_def removed_call_def Let_def ft_used_def)
    qed
  qed
qed

section \<open>Attaching a backtrace\<close>

definition link_ref :: "ptr \<Rightarrow> ptr \<Rightarrow> rd_fcall \<Rightarrow> ptr \<Rightarrow> rd_ftrace \<Rightarrow> rheap \<Rightarrow> rheap" where
  "link_ref x c call t tr h = h\<lparr>rh_refs := (rh_refs h)(x \<mapsto> c),
     rh_fcalls := (rh_fcalls h)(c \<mapsto> call\<lparr>call_trace := t, call_ref := x\<rparr>),
     rh_ftraces := (rh_ftraces h)(t \<mapsto> tr\<lparr>ft_ref_count := ft_ref_count tr + 1, ft_calls := ft_calls tr @ [x]\<rparr>)\<rparr>"

text \<open>Linking a call without backtrace to a stored backtrace through an unused reference node.\<close>

lemma link_ref_inv:
  assumes ic: "inv_calls rd h" and it: "inv_traces E rd h"
    and c: "c \<in> set (rd_calls rd)" "rh_fcalls h c = Some call" "call_trace call = NULL"
    and t: "t \<in> set (a_bucket (rd_ftraces rd) b)" "rh_ftraces h t = Some tr"
    and x: "x \<noteq> NULL" "rh_refs h x = None \<or> rh_refs h x = Some c"
  shows "inv_calls rd (link_ref x c call t tr h)" "inv_traces (E - {t}) rd (link_ref x c call t tr h)"
proof -
  let ?h = "link_ref x c call t tr h"
  have t': "ft_bucket tr = Some b" "trace_ok rd h t tr" "t \<noteq> NULL"
    using inv_tracesD [OF it t(1)] t(2) by auto
  have unused: "x \<notin> set (ft_calls ru)" if "u \<in> set (a_bucket (rd_ftraces rd) i)" "rh_ftraces h u = Some ru" for u i ru
  proof
    assume "x \<in> set (ft_calls ru)"
    then have "ref_ok rd h u x" "u \<noteq> NULL"
      using inv_tracesD [OF it that(1)] that(2) by (auto simp: trace_ok_def)
    then show False using x c by (auto simp: ref_ok_def)
  qed
  have "call_ok rd ?h d dcall" if d: "rh_fcalls h d = Some dcall" "call_ok rd h d dcall" "d \<noteq> c" for d dcall
    using d t(2) t' x c by (auto simp: call_ok_def link_ref_def)
  moreover have "call_ok rd ?h c (call\<lparr>call_trace := t, call_ref := x\<rparr>)"
    using t t' x by (auto simp: call_ok_def link_ref_def)
  ultimately show "inv_calls rd ?h"
    using ic c by (auto simp: inv_calls_def link_ref_def)
  have ref: "ref_ok rd ?h u y" if "ref_ok rd h u y" "u \<noteq> NULL" "y \<noteq> x" for u y
  proof -
    from that obtain e ecall where e: "rh_refs h y = Some e" "e \<in> set (rd_calls rd)"
        "rh_fcalls h e = Some ecall" "call_trace ecall = u" "call_ref ecall = y" by (auto simp: ref_ok_def)
    then have "e \<noteq> c" using c that(2) by auto
    with e that(3) show ?thesis by (simp add: ref_ok_def link_ref_def)
  qed
  have refx: "ref_ok rd ?h t x" using c by (auto simp: ref_ok_def link_ref_def)
  have "\<exists>r'. rh_ftraces ?h u = Some r' \<and> ft_bucket r' = Some i \<and> trace_ok rd ?h u r' \<and> (u \<in> E - {t} \<or> ft_calls r' \<noteq> [])"
    if u: "u \<in> set (a_bucket (rd_ftraces rd) i)" for u i
  proof -
    obtain ru where ru: "rh_ftraces h u = Some ru" "ft_bucket ru = Some i" "trace_ok rd h u ru" "u \<noteq> NULL"
        "u \<in> E \<or> ft_calls ru \<noteq> []"
      using inv_tracesD [OF it u] by metis
    note un = unused [OF u ru(1)]
    show ?thesis
    proof (cases "u = t")
      case True
      then show ?thesis using ru t(2) un ref refx by (auto simp: trace_ok_def link_ref_def)
    next
      case False
      have "trace_ok rd ?h u ru" using ru un ref unfolding trace_ok_def by blast
      then show ?thesis using False ru by (simp add: link_ref_def)
    qed
  qed
  then show "inv_traces (E - {t}) rd ?h"
    using it unfolding inv_traces_def by (metis inv_tracesD it)
qed

section \<open>Sharing of backtraces\<close>

text \<open>Before trimming, every bucket holds well-formed backtraces of its hash, no two with the same frames.\<close>

definition rd_unique :: "rd \<Rightarrow> rheap \<Rightarrow> bool" where
  "rd_unique rd h \<longleftrightarrow> (\<forall>b. (\<forall>t\<in>set (a_bucket (rd_ftraces rd) b). \<exists>r. rh_ftraces h t = Some r \<and> ft_wf r \<and> b = nat (bt_hash r)) \<and>
     inj_on (\<lambda>t. map_option ft_used (rh_ftraces h t)) (set (a_bucket (rd_ftraces rd) b)))"

definition new_ftrace :: "rd_ftrace \<Rightarrow> bool" where
  "new_ftrace r \<longleftrightarrow> ft_bucket r = None \<and> ft_ref_count r = 0 \<and> ft_calls r = [] \<and> ft_wf r"

definition call_frames :: "rheap \<Rightarrow> ptr \<Rightarrow> pointer_t list option" where
  "call_frames h c = do { call \<leftarrow> rh_fcalls h c; tr \<leftarrow> rh_ftraces h (call_trace call); Some (ft_used tr) }"

text \<open>Removing a call leaves the backtraces of the others alone.\<close>

lemma removed_call_frames:
  assumes "rd_inv rd h" "rd_inv rd' h'" "removed_call rd h c rd' h'" "d \<in> set (rd_calls rd)" "d \<noteq> c"
  shows "call_frames h' d = call_frames h d"
proof -
  have fc: "rh_fcalls h' d = rh_fcalls h d" using assms(3,5) by (simp add: removed_call_def)
  have rc: "rd_calls rd' = remove1 c (rd_calls rd)" by (rule removed_call_calls [OF assms(3)])
  have mem: "d \<in> set (rd_calls rd')" using rc assms(4,5) by simp
  obtain call where call: "rh_fcalls h' d = Some call" "call_ok rd' h' d call"
    using assms(2) mem by (auto simp: rd_inv_def elim: inv_callsD)
  show ?thesis
  proof (cases "call_trace call = NULL")
    case True
    then show ?thesis using assms(1,2) call fc by (simp add: call_frames_def rd_inv_def inv_fresh_def)
  next
    case False
    then obtain r' where "rh_ftraces h' (call_trace call) = Some r'" using call(2) by (auto simp: call_ok_def)
    moreover then obtain r where "rh_ftraces h (call_trace call) = Some r" "ft_used r' = ft_used r"
      using assms(3) unfolding removed_call_def by blast
    ultimately show ?thesis using call fc by (simp add: call_frames_def)
  qed
qed

lemma rd_create_unique: "rd_unique rd_create rheap_init"
  by (simp add: rd_unique_def rd_create_def a_init_def)

text \<open>The state after looking up or storing a new backtrace \<open>t\<close>; \<open>x\<close> is the one to use.\<close>

definition interned :: "rd \<Rightarrow> rheap \<Rightarrow> ptr \<Rightarrow> rd_ftrace \<Rightarrow> ptr \<Rightarrow> rd \<Rightarrow> rheap \<Rightarrow> bool" where
  "interned rd h t tr x rd' h' \<longleftrightarrow>
     inv_calls rd' h' \<and> inv_traces {x} rd' h' \<and> inv_fresh h' \<and> rd_unique rd' h' \<and>
     (\<exists>b. x \<in> set (a_bucket (rd_ftraces rd') b)) \<and> (\<exists>r. rh_ftraces h' x = Some r \<and> ft_used r = ft_used tr) \<and>
     rd' = rd\<lparr>rd_ftraces := rd_ftraces rd'\<rparr> \<and> rh_fcalls h' = rh_fcalls h \<and> rh_refs h' = rh_refs h \<and>
     rh_resources h' = rh_resources h \<and> rh_next h' = rh_next h \<and>
     (\<forall>b. \<forall>u\<in>set (a_bucket (rd_ftraces rd) b). rh_ftraces h' u = rh_ftraces h u)"

lemma ft_used_bucket [simp]: "ft_used (r\<lparr>ft_bucket := b\<rparr>) = ft_used r" "ft_wf (r\<lparr>ft_bucket := b\<rparr>) = ft_wf r"
  "bt_hash (r\<lparr>ft_bucket := b\<rparr>) = bt_hash r"
  by (simp_all add: ft_used_def ft_wf_def bt_hash_def)

lemma ft_used_calls [simp]: "ft_used (r\<lparr>ft_ref_count := n, ft_calls := cs\<rparr>) = ft_used r"
  "ft_wf (r\<lparr>ft_ref_count := n, ft_calls := cs\<rparr>) = ft_wf r"
  "bt_hash (r\<lparr>ft_ref_count := n, ft_calls := cs\<rparr>) = bt_hash r"
  by (simp_all add: ft_used_def ft_wf_def bt_hash_def)

text \<open>The invariants only look at stored backtraces.\<close>

lemma inv_other_trace:
  assumes "\<forall>b. t \<notin> set (a_bucket (rd_ftraces rd) b)" "h' = h\<lparr>rh_ftraces := (rh_ftraces h)(t := v)\<rparr>"
  shows "inv_calls rd h \<Longrightarrow> inv_calls rd h'" "inv_traces E rd h \<Longrightarrow> inv_traces E rd h'" "rd_unique rd h \<Longrightarrow> rd_unique rd h'"
proof -
  have ne: "u \<noteq> t" if "u \<in> set (a_bucket (rd_ftraces rd) b)" for u b using that assms by auto
  show "inv_calls rd h'" if "inv_calls rd h"
    using that assms ne unfolding inv_calls_def call_ok_def by fastforce
  show "inv_traces E rd h'" if "inv_traces E rd h"
    using that assms ne unfolding inv_traces_def trace_ok_def ref_ok_def by simp
  show "rd_unique rd h'" if "rd_unique rd h"
    using that assms ne unfolding rd_unique_def by (simp add: inj_on_def)
qed

lemma intern_ftrace_ok:
  assumes inv: "rd_inv rd h" "rd_unique rd h" and t: "rh_ftraces h t = Some tr" "new_ftrace tr" "t \<noteq> NULL"
    "\<forall>b. t \<notin> set (a_bucket (rd_ftraces rd) b)"
  shows "\<exists>x rd' h'. intern_ftrace rd h t = Some (x, rd', h') \<and> interned rd h t tr x rd' h'"
proof -
  let ?b = "nat (bt_hash tr)" and ?tr = "tr\<lparr>ft_bucket := Some (nat (bt_hash tr))\<rparr>"
  define h1 where "h1 = h\<lparr>rh_ftraces := (rh_ftraces h)(t \<mapsto> ?tr)\<rparr>"
  let ?B = "a_bucket (rd_ftraces rd) ?b"
  have ic: "inv_calls rd h" and it: "inv_traces {} rd h" and fr: "inv_fresh h"
    using inv(1) by (auto simp: rd_inv_def)
  note i1 = inv_other_trace [OF t(4) h1_def]
  have bk: "ftrace_bucket h t = Some (?b, h1)"
    using t by (simp add: ftrace_bucket_def new_ftrace_def hash_index_bt h1_def)
  have bk1: "ftrace_bucket h1 t = Some (?b, h1)" by (simp add: ftrace_bucket_def h1_def)
  have dom: "\<forall>u\<in>set ?B. rh_ftraces h1 u \<noteq> None"
    using i1(2) [OF it] unfolding inv_traces_def by blast
  have wf: "\<exists>r. rh_ftraces h1 u = Some r \<and> ft_wf r" if "u \<in> set ?B" for u
    using i1(3) [OF inv(2)] that unfolding rd_unique_def by blast
  have wft: "ft_wf ?tr" "rh_ftraces h1 t = Some ?tr" using t by (simp_all add: new_ftrace_def h1_def)
  let ?f = "find (\<lambda>u. bt_compare (the (rh_ftraces h1 u)) ?tr = 0) ?B"
  have sf: "seq_find (\<lambda>u. compare_ftraces h1 u t) ?B = Some ?f"
    using dom wft by (intro seq_find_total) (auto simp: compare_ftraces_def)
  have find: "ftraces_find rd h t = Some (?f, h1)"
    using bk sf by (simp add: ftraces_find_def)
  show ?thesis
  proof (cases ?f)
    case None
    let ?rd = "rd\<lparr>rd_ftraces := (rd_ftraces rd)\<lparr>a_bucket := (a_bucket (rd_ftraces rd))(?b := ?B @ [t])\<rparr>\<rparr>"
    have st: "intern_ftrace rd h t = Some (t, ?rd, h1)"
      using find None bk1 sf by (simp add: intern_ftrace_def ftraces_store_def)
    have new: "map_option ft_used (rh_ftraces h1 u) \<noteq> Some (ft_used tr)" if "u \<in> set ?B" for u
      using None that wf [OF that] wft by (auto simp: find_None_iff bt_compare_0_iff)
    have "inv_calls ?rd h1" using i1(1) [OF ic] by (fastforce simp: inv_calls_def call_ok_def)
    moreover have "inv_traces {t} ?rd h1"
    proof -
      have "trace_ok rd h1 t ?tr" using t(2) by (simp add: trace_ok_def new_ftrace_def)
      then show ?thesis
        using i1(2) [OF it] t wft bt_hash_range [of tr] unfolding inv_traces_def
        by (auto simp: nat_less_iff) blast+
    qed
    moreover have "inv_fresh h1" using fr t by (auto simp: inv_fresh_def h1_def)
    moreover have "rd_unique ?rd h1"
    proof -
      let ?g = "\<lambda>t. map_option ft_used (rh_ftraces h1 t)"
      have "inj_on ?g (set ?B)" using i1(3) [OF inv(2)] unfolding rd_unique_def by blast
      moreover have "?g t = Some (ft_used tr)" using wft by simp
      then have "?g t \<notin> ?g ` (set ?B - {t})"
      proof (intro notI, elim imageE)
        fix u assume "?g t = ?g u" "u \<in> set ?B - {t}"
        then show False using new [of u] \<open>?g t = Some (ft_used tr)\<close> by simp
      qed
      ultimately have "inj_on ?g (insert t (set ?B))" by (simp add: inj_on_insert)
      then show ?thesis using i1(3) [OF inv(2)] wft unfolding rd_unique_def by auto
    qed
    moreover have "\<exists>b. t \<in> set (a_bucket (rd_ftraces ?rd) b)" by (rule exI [of _ ?b]) simp
    ultimately have "interned rd h t tr t ?rd h1"
      using wft t by (auto simp: interned_def h1_def)
    with st show ?thesis by blast
  next
    case (Some x)
    let ?h = "h1\<lparr>rh_ftraces := (rh_ftraces h1)(t := None)\<rparr>"
    have x: "x \<in> set ?B" "bt_compare (the (rh_ftraces h1 x)) ?tr = 0" using Some by (auto simp: find_Some_iff)
    obtain r where r: "rh_ftraces h1 x = Some r" "ft_wf r" using wf [OF x(1)] by auto
    then have "ft_used r = ft_used tr" using wft x(2) by (simp add: bt_compare_0_iff)
    moreover have st: "intern_ftrace rd h t = Some (x, rd, ?h)"
      using find Some wft t by (simp add: intern_ftrace_def rd_ftrace_free_def new_ftrace_def)
    moreover note i2 = inv_other_trace [OF t(4), of ?h h1 None]
    moreover have "inv_traces {x} rd ?h" using i2(2) [OF _ i1(2) [OF it]] by (auto intro: inv_traces_mono)
    moreover have "inv_fresh ?h" using fr by (auto simp: inv_fresh_def h1_def)
    ultimately have "interned rd h t tr x rd ?h"
      using i1(1) [OF ic] i1(3) [OF inv(2)] x(1) r t(4) by (auto simp: interned_def h1_def)
    with st show ?thesis by blast
  qed
qed

text \<open>
  Attaching a backtrace to a call that has none: the call then has these frames, the other calls
  keep theirs, and equal backtraces are stored once.
\<close>

theorem rd_fcall_set_ftrace_ok:
  assumes inv: "rd_inv rd h" "rd_unique rd h" and t: "rh_ftraces h t = Some tr" "new_ftrace tr" "t \<noteq> NULL"
      "\<forall>b. t \<notin> set (a_bucket (rd_ftraces rd) b)"
    and c: "c \<in> set (rd_calls rd)" "rh_fcalls h c = Some call" "call_trace call = NULL"
  shows "\<exists>rd' h'. rd_fcall_set_ftrace rd h c t = Some (rd', h') \<and> rd_inv rd' h' \<and> rd_unique rd' h' \<and>
    rd' = rd\<lparr>rd_ftraces := rd_ftraces rd'\<rparr> \<and> rh_resources h' = rh_resources h \<and> rh_next h \<le> rh_next h' \<and>
    (\<exists>call'. rh_fcalls h' c = Some call' \<and> call_data call' = call_data call \<and> call_args call' = call_args call) \<and>
    call_frames h' c = Some (ft_used tr) \<and>
    (\<forall>d\<in>set (rd_calls rd). d \<noteq> c \<longrightarrow> rh_fcalls h' d = rh_fcalls h d \<and> call_frames h' d = call_frames h d)"
proof -
  obtain x rd1 h1 where i: "intern_ftrace rd h t = Some (x, rd1, h1)" "interned rd h t tr x rd1 h1"
    using intern_ftrace_ok [OF inv t] by blast
  then obtain b r where x: "x \<in> set (a_bucket (rd_ftraces rd1) b)" "rh_ftraces h1 x = Some r" "ft_used r = ft_used tr"
      and inv1: "inv_calls rd1 h1" "inv_traces {x} rd1 h1" "inv_fresh h1" "rd_unique rd1 h1"
      and calls: "rd_calls rd1 = rd_calls rd" "rh_fcalls h1 = rh_fcalls h"
      and same: "rd1 = rd\<lparr>rd_ftraces := rd_ftraces rd1\<rparr>" "rh_resources h1 = rh_resources h" "rh_next h1 = rh_next h"
    unfolding interned_def by (metis rd.select_convs(1) rd.surjective rd.update_convs(3))
  let ?n = "rh_next h1"
  let ?h = "(link_ref ?n c call x r h1)\<lparr>rh_next := ?n + 1\<rparr>"
  have "rd_fcall_set_ftrace rd h c t = Some (rd1, ?h)"
    using i x c calls by (simp add: rd_fcall_set_ftrace_def link_ref_def Let_def)
  moreover have l: "inv_calls rd1 (link_ref ?n c call x r h1)" "inv_traces {} rd1 (link_ref ?n c call x r h1)"
    using link_ref_inv [OF inv1(1,2), of c call x b r ?n] c calls x inv1(3) by (auto simp: inv_fresh_def)
  moreover have "c \<noteq> NULL" "x \<noteq> NULL" "c < ?n" "x < ?n"
    using inv1(3) c calls x unfolding inv_fresh_def by (metis leI option.distinct(1))+
  then have "rd_inv rd1 ?h"
    using inv1(3) l by (auto simp: rd_inv_def inv_fresh_def link_ref_def)
  moreover have "rd_unique rd1 ?h"
  proof -
    have "map_option ft_used (rh_ftraces ?h u) = map_option ft_used (rh_ftraces h1 u)" for u
      using x(2) by (simp add: link_ref_def)
    moreover have "ft_wf r \<and> i = nat (bt_hash r)" if "x \<in> set (a_bucket (rd_ftraces rd1) i)" for i
      using inv1(4) x(2) that unfolding rd_unique_def by fastforce
    ultimately show ?thesis using inv1(4) unfolding rd_unique_def by (simp add: link_ref_def)
  qed
  moreover have "call_frames ?h c = Some (ft_used tr)" using x by (simp add: call_frames_def link_ref_def)
  moreover have "call_frames ?h d = call_frames h d" if mem: "d \<in> set (rd_calls rd)" "d \<noteq> c" for d
  proof -
    have "call_frames ?h d = call_frames h1 d"
      using mem x by (auto simp: call_frames_def link_ref_def Option.bind_eq_Some_conv split: option.splits bind_split)
    also have "\<dots> = call_frames h d"
    proof -
      obtain dcall where d: "rh_fcalls h d = Some dcall" "call_ok rd h d dcall"
        using inv(1) mem(1) by (auto simp: rd_inv_def elim: inv_callsD)
      have "rh_ftraces h1 (call_trace dcall) = rh_ftraces h (call_trace dcall)"
      proof (cases "call_trace dcall = NULL")
        case True
        then show ?thesis using inv(1) inv1(3) by (simp add: rd_inv_def inv_fresh_def)
      next
        case False
        then show ?thesis using d(2) i(2) by (auto simp: call_ok_def interned_def)
      qed
      then show ?thesis using d calls by (simp add: call_frames_def)
    qed
    finally show ?thesis .
  qed
  ultimately have "rd_fcall_set_ftrace rd h c t = Some (rd1, ?h) \<and> rd_inv rd1 ?h \<and> rd_unique rd1 ?h \<and>
      rd1 = rd\<lparr>rd_ftraces := rd_ftraces rd1\<rparr> \<and> rh_resources ?h = rh_resources h \<and> rh_next h \<le> rh_next ?h \<and>
      (\<exists>call'. rh_fcalls ?h c = Some call' \<and> call_data call' = call_data call \<and> call_args call' = call_args call) \<and>
      call_frames ?h c = Some (ft_used tr) \<and>
      (\<forall>d\<in>set (rd_calls rd). d \<noteq> c \<longrightarrow> rh_fcalls ?h d = rh_fcalls h d \<and> call_frames ?h d = call_frames h d)"
    using calls same by (simp add: link_ref_def)
  then show ?thesis by blast
qed

text \<open>The reference nodes of a call list that waits for its backtrace (text input).\<close>

definition pending_refs :: "rd \<Rightarrow> rheap \<Rightarrow> ptr list \<Rightarrow> bool" where
  "pending_refs rd h xs \<longleftrightarrow> distinct (map (\<lambda>x. the (rh_refs h x)) xs) \<and>
     (\<forall>x\<in>set xs. x \<noteq> NULL \<and> (\<exists>c call. rh_refs h x = Some c \<and> c \<in> set (rd_calls rd) \<and>
        rh_fcalls h c = Some call \<and> call_trace call = NULL))"

lemma store_fcall_traces_ok:
  assumes "inv_calls rd h" "inv_traces E rd h" "inv_fresh h" "pending_refs rd h xs"
    "t \<in> set (a_bucket (rd_ftraces rd) b)" "rh_ftraces h t = Some tr"
  shows "\<exists>h' tr'. store_fcall_traces h xs t = Some h' \<and> inv_calls rd h' \<and>
    inv_traces (if xs = [] then E else E - {t}) rd h' \<and> inv_fresh h' \<and>
    rh_ftraces h' t = Some tr' \<and> ft_used tr' = ft_used tr \<and>
    (\<forall>x\<in>set xs. \<exists>c call. rh_refs h x = Some c \<and> rh_fcalls h' c = Some call \<and> call_trace call = t) \<and>
    (\<forall>d. d \<notin> (\<lambda>x. the (rh_refs h x)) ` set xs \<longrightarrow> rh_fcalls h' d = rh_fcalls h d)"
  using assms
proof (induction xs arbitrary: h E tr)
  case (Cons x xs)
  from Cons.prems(4) obtain c call where c: "rh_refs h x = Some c" "c \<in> set (rd_calls rd)" "rh_fcalls h c = Some call"
      "call_trace call = NULL" "x \<noteq> NULL" by (auto simp: pending_refs_def)
  let ?h = "link_ref x c call t tr h"
  have same: "rh_refs ?h = rh_refs h" using c by (auto simp: link_ref_def)
  have st: "store_fcall_trace h x t = Some ?h"
    using c Cons.prems(6) by (auto simp: store_fcall_trace_def link_ref_def fun_upd_idem)
  have inv: "inv_calls rd ?h" "inv_traces (E - {t}) rd ?h"
    using link_ref_inv [OF Cons.prems(1,2) c(2,3,4) Cons.prems(5,6) c(5)] c(1) by auto
  have nn: "c \<noteq> NULL" "t \<noteq> NULL" "x \<noteq> NULL" "c < rh_next h" "t < rh_next h" "x < rh_next h"
    using Cons.prems(3,6) c unfolding inv_fresh_def by (metis leI option.distinct(1))+
  then have fr: "inv_fresh ?h" using Cons.prems(3) by (auto simp: inv_fresh_def link_ref_def)
  have notin: "c \<notin> (\<lambda>x. the (rh_refs h x)) ` set xs" and dist: "distinct (map (\<lambda>x. the (rh_refs h x)) xs)"
    using Cons.prems(4) c by (auto simp: pending_refs_def)
  have pend: "pending_refs rd ?h xs"
    unfolding pending_refs_def same
  proof (intro conjI dist ballI)
    fix y assume y: "y \<in> set xs"
    then obtain d dcall where d: "y \<noteq> NULL" "rh_refs h y = Some d" "d \<in> set (rd_calls rd)"
        "rh_fcalls h d = Some dcall" "call_trace dcall = NULL"
      using Cons.prems(4) by (auto simp: pending_refs_def)
    then show "y \<noteq> NULL" by simp
    have "d \<noteq> c" using notin y d(2) by force
    then show "\<exists>c' call'. rh_refs h y = Some c' \<and> c' \<in> set (rd_calls rd) \<and> rh_fcalls ?h c' = Some call' \<and> call_trace call' = NULL"
      using d by (simp add: link_ref_def)
  qed
  have tr: "rh_ftraces ?h t = Some (tr\<lparr>ft_ref_count := ft_ref_count tr + 1, ft_calls := ft_calls tr @ [x]\<rparr>)"
    by (simp add: link_ref_def)
  from Cons.IH [OF inv fr pend Cons.prems(5) tr] obtain h' tr' where ih:
      "store_fcall_traces ?h xs t = Some h'" "inv_calls rd h'" "inv_traces (if xs = [] then E - {t} else E - {t} - {t}) rd h'"
      "inv_fresh h'" "rh_ftraces h' t = Some tr'" "ft_used tr' = ft_used tr"
      "\<forall>x\<in>set xs. \<exists>c call. rh_refs ?h x = Some c \<and> rh_fcalls h' c = Some call \<and> call_trace call = t"
      "\<forall>d. d \<notin> (\<lambda>x. the (rh_refs ?h x)) ` set xs \<longrightarrow> rh_fcalls h' d = rh_fcalls ?h d"
    by auto
  have fc: "rh_fcalls ?h = (rh_fcalls h)(c \<mapsto> call\<lparr>call_trace := t, call_ref := x\<rparr>)" by (simp add: link_ref_def)
  have "rh_fcalls h' c = Some (call\<lparr>call_trace := t, call_ref := x\<rparr>)"
    using ih(8) notin unfolding same fc by simp
  then show ?case
    using ih st c(1) unfolding same fc by (auto split: if_splits)
qed simp

theorem rd_fcalls_set_ftrace_ok:
  assumes inv: "rd_inv rd h" "rd_unique rd h" and t: "rh_ftraces h t = Some tr" "new_ftrace tr" "t \<noteq> NULL"
      "\<forall>b. t \<notin> set (a_bucket (rd_ftraces rd) b)"
    and xs: "pending_refs rd h xs" "xs \<noteq> []"
  shows "\<exists>rd' h'. rd_fcalls_set_ftrace rd h xs t = Some (rd', h') \<and> rd_inv rd' h' \<and> rd_calls rd' = rd_calls rd \<and>
    (\<forall>x\<in>set xs. \<exists>c. rh_refs h x = Some c \<and> call_frames h' c = Some (ft_used tr))"
proof -
  obtain x rd1 h1 where i: "intern_ftrace rd h t = Some (x, rd1, h1)" "interned rd h t tr x rd1 h1"
    using intern_ftrace_ok [OF inv t] by blast
  then obtain b r where x: "x \<in> set (a_bucket (rd_ftraces rd1) b)" "rh_ftraces h1 x = Some r" "ft_used r = ft_used tr"
      and inv1: "inv_calls rd1 h1" "inv_traces {x} rd1 h1" "inv_fresh h1"
      and calls: "rd_calls rd1 = rd_calls rd" "rh_fcalls h1 = rh_fcalls h" "rh_refs h1 = rh_refs h"
    unfolding interned_def by (metis rd.select_convs(1) rd.surjective rd.update_convs(3))
  have "pending_refs rd1 h1 xs" using xs(1) calls by (simp add: pending_refs_def)
  from store_fcall_traces_ok [OF inv1 this x(1,2)] xs(2)
  obtain h' tr' where s: "store_fcall_traces h1 xs x = Some h'" "inv_calls rd1 h'" "inv_traces {} rd1 h'" "inv_fresh h'"
      "rh_ftraces h' x = Some tr'" "ft_used tr' = ft_used r"
      "\<forall>y\<in>set xs. \<exists>c call. rh_refs h1 y = Some c \<and> rh_fcalls h' c = Some call \<and> call_trace call = x"
    by auto
  have "call_frames h' c = Some (ft_used tr)" if "rh_fcalls h' c = Some call" "call_trace call = x" for c call
    using that s(5,6) x(3) by (simp add: call_frames_def)
  then have "\<forall>y\<in>set xs. \<exists>c. rh_refs h y = Some c \<and> call_frames h' c = Some (ft_used tr)"
    using s(7) calls(3) by metis
  then show ?thesis
    using i s calls by (auto simp: rd_fcalls_set_ftrace_def rd_inv_def)
qed

section \<open>Releasing everything\<close>

lemma free_refs_ok:
  "distinct xs \<Longrightarrow> \<forall>x\<in>set xs. rh_refs h x \<noteq> None \<Longrightarrow>
   free_refs h xs = Some (h\<lparr>rh_refs := rh_refs h |` (- set xs)\<rparr>)"
proof (induction xs arbitrary: h)
  case (Cons x xs)
  let ?h = "h\<lparr>rh_refs := (rh_refs h)(x := None)\<rparr>"
  have "free_ref h x = Some ?h" using Cons.prems by (simp add: free_ref_def)
  moreover have "free_refs ?h xs = Some (?h\<lparr>rh_refs := rh_refs ?h |` (- set xs)\<rparr>)"
    using Cons.prems by (intro Cons.IH) auto
  ultimately show ?case by (simp add: Compl_insert)
qed (simp add: restrict_map_def)

lemma free_ftraces_ok:
  assumes "distinct ts" "\<forall>t\<in>set ts. rh_ftraces h t = Some (f t) \<and> distinct (ft_calls (f t)) \<and>
      (\<forall>x\<in>set (ft_calls (f t)). rh_refs h x \<noteq> None)"
    "\<forall>t\<in>set ts. \<forall>u\<in>set ts. t \<noteq> u \<longrightarrow> set (ft_calls (f t)) \<inter> set (ft_calls (f u)) = {}"
  shows "free_all rd_ftrace_free h ts = Some (h\<lparr>rh_refs := rh_refs h |` (- (\<Union>t\<in>set ts. set (ft_calls (f t)))),
    rh_ftraces := rh_ftraces h |` (- set ts)\<rparr>)"
  using assms
proof (induction ts arbitrary: h)
  case (Cons t ts)
  let ?h = "h\<lparr>rh_refs := rh_refs h |` (- set (ft_calls (f t))), rh_ftraces := (rh_ftraces h)(t := None)\<rparr>"
  have step: "rd_ftrace_free h t = Some ?h"
    using Cons.prems by (simp add: rd_ftrace_free_def free_refs_ok)
  have "free_all rd_ftrace_free ?h ts = Some (?h\<lparr>rh_refs := rh_refs ?h |` (- (\<Union>t\<in>set ts. set (ft_calls (f t)))),
      rh_ftraces := rh_ftraces ?h |` (- set ts)\<rparr>)"
  proof (rule Cons.IH)
    show "\<forall>u\<in>set ts. rh_ftraces ?h u = Some (f u) \<and> distinct (ft_calls (f u)) \<and> (\<forall>x\<in>set (ft_calls (f u)). rh_refs ?h x \<noteq> None)"
      using Cons.prems by (auto simp: restrict_map_def)
  qed (use Cons.prems in auto)
  then show ?case using step by (simp add: Compl_insert Int_commute)
qed (simp add: restrict_map_def)

lemma free_calls_ok:
  "distinct cs \<Longrightarrow> \<forall>c\<in>set cs. rh_fcalls h c \<noteq> None \<Longrightarrow>
   free_all rd_fcall_free h cs = Some (h\<lparr>rh_fcalls := rh_fcalls h |` (- set cs)\<rparr>)"
proof (induction cs arbitrary: h)
  case (Cons x xs)
  let ?h = "h\<lparr>rh_fcalls := (rh_fcalls h)(x := None)\<rparr>"
  have "rd_fcall_free h x = Some ?h" using Cons.prems by (simp add: rd_fcall_free_def)
  moreover have "free_all rd_fcall_free ?h xs = Some (?h\<lparr>rh_fcalls := rh_fcalls ?h |` (- set xs)\<rparr>)"
    using Cons.prems by (intro Cons.IH) auto
  ultimately show ?case by (simp add: Compl_insert)
qed (simp add: restrict_map_def)

lemma free_resources_ok:
  "distinct cs \<Longrightarrow> \<forall>c\<in>set cs. rh_resources h c \<noteq> None \<Longrightarrow>
   free_all rd_resource_free h cs = Some (h\<lparr>rh_resources := rh_resources h |` (- set cs)\<rparr>)"
proof (induction cs arbitrary: h)
  case (Cons x xs)
  let ?h = "h\<lparr>rh_resources := (rh_resources h)(x := None)\<rparr>"
  have "rd_resource_free h x = Some ?h" using Cons.prems by (simp add: rd_resource_free_def)
  moreover have "free_all rd_resource_free ?h xs = Some (?h\<lparr>rh_resources := rh_resources ?h |` (- set xs)\<rparr>)"
    using Cons.prems by (intro Cons.IH) auto
  ultimately show ?case by (simp add: Compl_insert)
qed (simp add: restrict_map_def)

definition table_nodes :: "rd \<Rightarrow> ptr set" where
  "table_nodes rd = set (a_nodes (rd_ftraces rd))"

lemma mem_a_nodes: "t \<in> set (a_nodes tb) \<longleftrightarrow> (\<exists>b<a_size tb. t \<in> set (a_bucket tb b))"
  by (auto simp: a_nodes_def)

lemma distinct_concat_buckets:
  assumes "\<And>i. i \<in> set is \<Longrightarrow> distinct (bk i)" "\<And>i j t. t \<in> set (bk i) \<Longrightarrow> t \<in> set (bk j) \<Longrightarrow> i = j" "distinct is"
  shows "distinct (concat (map bk is))"
  using assms by (induction "is") auto

lemma distinct_a_nodes: "inv_traces E rd h \<Longrightarrow> distinct (a_nodes (rd_ftraces rd))"
proof -
  assume it: "inv_traces E rd h"
  have "i = j" if "t \<in> set (a_bucket (rd_ftraces rd) i)" "t \<in> set (a_bucket (rd_ftraces rd) j)" for i j t
    using inv_tracesD [OF it that(1)] inv_tracesD [OF it that(2)] by (metis option.inject)
  then show ?thesis
    unfolding a_nodes_def using it by (intro distinct_concat_buckets) (auto simp: inv_traces_def)
qed

text \<open>Everything the trace data owns is released once, and nothing is touched after its release.\<close>

theorem rd_free_ok:
  assumes "rd_inv rd h" "distinct (rd_resources rd)" "\<forall>r\<in>set (rd_resources rd). rh_resources h r \<noteq> None"
  shows "\<exists>h'. rd_free rd h = Some h' \<and> rh_fcalls h' = rh_fcalls h |` (- set (rd_calls rd)) \<and>
    rh_ftraces h' = rh_ftraces h |` (- table_nodes rd) \<and> rh_resources h' = rh_resources h |` (- set (rd_resources rd)) \<and>
    (\<forall>c\<in>set (rd_calls rd). \<forall>call. rh_fcalls h c = Some call \<longrightarrow> call_trace call \<noteq> NULL \<longrightarrow> rh_refs h' (call_ref call) = None)"
proof -
  have ic: "inv_calls rd h" and it: "inv_traces {} rd h" using assms(1) by (auto simp: rd_inv_def)
  define f where "f t = the (rh_ftraces h t)" for t
  let ?ts = "a_nodes (rd_ftraces rd)"
  have tr: "rh_ftraces h t = Some (f t) \<and> trace_ok rd h t (f t)" if "t \<in> set ?ts" for t
    using that inv_tracesD [OF it] by (auto simp: mem_a_nodes f_def) (metis option.sel)+
  have disj: "set (ft_calls (f t)) \<inter> set (ft_calls (f u)) = {}" if "t \<in> set ?ts" "u \<in> set ?ts" "t \<noteq> u" for t u
    using tr [OF that(1)] tr [OF that(2)] that(3) by (fastforce simp: trace_ok_def ref_ok_def)
  have refs: "\<forall>x\<in>set (ft_calls (f t)). rh_refs h x \<noteq> None" if "t \<in> set ?ts" for t
    using tr [OF that] by (auto simp: trace_ok_def ref_ok_def)
  have 1: "free_all rd_ftrace_free h ?ts = Some (h\<lparr>rh_refs := rh_refs h |` (- (\<Union>t\<in>set ?ts. set (ft_calls (f t)))),
      rh_ftraces := rh_ftraces h |` (- set ?ts)\<rparr>)"
    using tr disj refs by (intro free_ftraces_ok distinct_a_nodes [OF it]) (auto simp: trace_ok_def)
  have 2: "distinct (rd_calls rd)" "\<forall>c\<in>set (rd_calls rd). rh_fcalls h c \<noteq> None" using ic by (auto simp: inv_calls_def)
  have 3: "call_ref call \<in> (\<Union>t\<in>set ?ts. set (ft_calls (f t)))"
    if c: "c \<in> set (rd_calls rd)" "rh_fcalls h c = Some call" "call_trace call \<noteq> NULL" for c call
  proof -
    have "call_ok rd h c call" using ic c by (auto elim: inv_callsD)
    then obtain r b where "rh_ftraces h (call_trace call) = Some r" "call_trace call \<in> set (a_bucket (rd_ftraces rd) b)"
        "call_ref call \<in> set (ft_calls r)" using c by (auto simp: call_ok_def)
    moreover then have "call_trace call \<in> set ?ts" using inv_tracesD [OF it] it by (metis inv_traces_def mem_a_nodes)
    ultimately show ?thesis by (force simp: f_def)
  qed
  show ?thesis
    using 1 2 3 assms(2,3) by (simp add: rd_free_def free_calls_ok free_resources_ok table_nodes_def restrict_map_def) blast
qed

end
