(* ===== verification/Parse_Binary.thy ===== *)
theory Parse_Binary
  imports Rtrace_Invariant
begin

text \<open>
  The reader of binary traces, src/rtrace-postproc/parse\_binary.c.  The packet readers work on the
  received bytes from the current position on; a read behind the received bytes is \<open>None\<close>.  The
  parser state holds the trace data and the static variables of the C file.
\<close>

section \<open>State\<close>

text \<open>
  \<open>ps_junk\<close> is what uninitialised memory contains: the process information of old protocol
  versions has no backtrace depth.
\<close>

record parser =
  ps_rd :: rd
  ps_heap :: rheap
  ps_call_index :: int
  ps_res_index :: "nat \<Rightarrow> ptr"
  ps_fcall_prev :: ptr
  ps_junk :: u32

definition RES_INDEX_SIZE :: nat where
  "RES_INDEX_SIZE = 33"

definition PACKET_INCOMPLETE :: int where "PACKET_INCOMPLETE = -1"
definition PACKET_UNKNOWN :: int where "PACKET_UNKNOWN = -2"

definition HS_CHECK_VERSION :: "rd_hshake \<Rightarrow> byte \<Rightarrow> byte \<Rightarrow> bool" where
  "HS_CHECK_VERSION hs major minor \<longleftrightarrow>
     hs_vmajor hs > major \<or> (hs_vmajor hs = major \<and> hs_vminor hs \<ge> minor)"

section \<open>Packet readers\<close>

definition read_handshake_packet :: "byte list \<Rightarrow> rd_hshake option" where
  "read_handshake_packet data = do {
     (vmajor, n) \<leftarrow> read_byte data; let data = drop n data;
     (vminor, n) \<leftarrow> read_byte data; let data = drop n data;
     (len, n) \<leftarrow> read_byte data; let data = drop n data;
     arch \<leftarrow> fetch (unat len) data; let data = drop (unat len) data;
     (endianness, n) \<leftarrow> read_byte data; let data = drop n data;
     (pointer_size, n) \<leftarrow> read_byte data;
     Some \<lparr>hs_vmajor = vmajor, hs_vminor = vminor, hs_arch = cstr arch, hs_endianness = endianness,
           hs_pointer_size = pointer_size\<rparr> }"

definition read_packet_CR :: "byte list \<Rightarrow> sp_rtrace_context option" where
  "read_packet_CR data = do {
     (cid, n) \<leftarrow> read_dword2long data; let data = drop n data;
     (name, n) \<leftarrow> read_stringa data;
     Some \<lparr>cx_id = cid, cx_name = name\<rparr> }"

definition read_packet_RR :: "rd_hshake \<Rightarrow> byte list \<Rightarrow> rd_resource option" where
  "read_packet_RR hs data = do {
     (rid, n) \<leftarrow> read_dword2long data; let data = drop n data;
     (flags, n) \<leftarrow> (if HS_CHECK_VERSION hs 1 3 then read_dword data else Some (0, 0)); let data = drop n data;
     (type, n) \<leftarrow> read_stringa data; let data = drop n data;
     (desc, n) \<leftarrow> read_stringa data;
     Some \<lparr>rr_data = \<lparr>rs_id = rid, rs_type = type, rs_desc = desc, rs_flags = flags\<rparr>, rr_hide = False\<rparr> }"

definition read_packet_MM :: "byte list \<Rightarrow> sp_rtrace_mmap option" where
  "read_packet_MM data = do {
     (from, n) \<leftarrow> read_pointer data; let data = drop n data;
     (to, n) \<leftarrow> read_pointer data; let data = drop n data;
     (module, n) \<leftarrow> read_stringa data;
     Some \<lparr>mm_from = from, mm_to = to, mm_module = module\<rparr> }"

text \<open>\<open>PACKAGE_STRING\<close> is set by the build.\<close>

definition read_packet_PI :: "cstring \<Rightarrow> u32 \<Rightarrow> rd_hshake \<Rightarrow> byte list \<Rightarrow> rd_pinfo option" where
  "read_packet_PI package_string junk hs data = do {
     (pid, n) \<leftarrow> read_dword data; let data = drop n data;
     (sec, n) \<leftarrow> read_dword data; let data = drop n data;
     (usec, n) \<leftarrow> read_dword data; let data = drop n data;
     (btdepth, n) \<leftarrow> (if HS_CHECK_VERSION hs 1 2 then read_dword data else Some (junk, 0)); let data = drop n data;
     (name, n) \<leftarrow> read_stringa data;
     Some \<lparr>pi_pid = pid, pi_backtrace_depth = btdepth, pi_name = name, pi_sec = sec, pi_usec = usec,
           pi_trace_origin = package_string\<rparr> }"

definition read_packet_MI :: "byte list \<Rightarrow> rd_minfo option" where
  "read_packet_MI data = do {
     (mid, n) \<leftarrow> read_dword data; let data = drop n data;
     (version, n) \<leftarrow> read_dword data; let data = drop n data;
     (name, n) \<leftarrow> read_stringa data;
     Some \<lparr>mi_id = mid, mi_vmajor = ucast (drop_bit 16 version), mi_vminor = ucast (version AND 0xFFFF),
           mi_name = name\<rparr> }"

definition read_packet_FILE :: "byte list \<Rightarrow> sp_rtrace_attachment option" where
  "read_packet_FILE data = do {
     (name, n) \<leftarrow> read_stringa data; let data = drop n data;
     (path, n) \<leftarrow> read_stringa data;
     Some \<lparr>at_name = name, at_path = path\<rparr> }"

text \<open>The call record carries the resource type id; the caller of the reader replaces it.\<close>

definition read_packet_FC :: "int \<Rightarrow> byte list \<Rightarrow> rd_fcall option" where
  "read_packet_FC call_index data = do {
     (res_type, n) \<leftarrow> read_dword2long data; let data = drop n data;
     (ctx, n) \<leftarrow> read_dword data; let data = drop n data;
     (timestamp, n) \<leftarrow> read_dword data; let data = drop n data;
     (type, n) \<leftarrow> read_dword data; let data = drop n data;
     (name, n) \<leftarrow> read_stringa data; let data = drop n data;
     (res_size, n) \<leftarrow> read_dword data; let data = drop n data;
     (res_id, n) \<leftarrow> read_pointer data;
     Some \<lparr>call_data = \<lparr>fc_index = call_index, fc_type = type, fc_context = ctx, fc_timestamp = timestamp,
             fc_name = Some name, fc_res_type = RFIELD_ID res_type, fc_res_id = res_id, fc_res_size = res_size\<rparr>,
           call_trace = NULL, call_ref = NULL, call_args = None\<rparr> }"

fun words_of :: "nat \<Rightarrow> byte list \<Rightarrow> pointer_t list" where
  "words_of 0 bs = []"
| "words_of (Suc n) bs = word_of_nat (le_nat (take 8 bs)) # words_of n (drop 8 bs)"

definition read_packet_BT :: "byte list \<Rightarrow> rd_ftrace option" where
  "read_packet_BT data = do {
     (nframes, n) \<leftarrow> read_dword2long data; let data = drop n data;
     bs \<leftarrow> fetch (8 * unat nframes) data;
     Some \<lparr>ft_bucket = None, ft_ref_count = 0, ft_nframes = nframes, ft_frames = words_of (unat nframes) bs,
           ft_names = None, ft_calls = []\<rparr> }"

fun read_args :: "nat \<Rightarrow> byte list \<Rightarrow> sp_rtrace_farg list option" where
  "read_args 0 data = Some []"
| "read_args (Suc argc) data = do {
     (name, n) \<leftarrow> read_stringa data; let data = drop n data;
     (value, n) \<leftarrow> read_stringa data; let data = drop n data;
     args \<leftarrow> read_args argc data;
     Some (\<lparr>fa_name = name, fa_value = value\<rparr> # args) }"

definition read_packet_FA :: "byte list \<Rightarrow> sp_rtrace_farg list option" where
  "read_packet_FA data = do {
     (argc, n) \<leftarrow> read_dword data; let data = drop n data;
     read_args (unat argc) data }"

fun read_dwords :: "nat \<Rightarrow> byte list \<Rightarrow> u32 list option" where
  "read_dwords 0 data = Some []"
| "read_dwords (Suc k) data = do {
     (v, n) \<leftarrow> read_dword data; let data = drop n data;
     vs \<leftarrow> read_dwords k data;
     Some (v # vs) }"

definition read_packet_HI :: "byte list \<Rightarrow> rd_hinfo option" where
  "read_packet_HI data = do {
     (bottom, n) \<leftarrow> read_pointer data; let data = drop n data;
     (top, n) \<leftarrow> read_pointer data; let data = drop n data;
     stats \<leftarrow> read_dwords 10 data;
     Some \<lparr>hi_heap_bottom = bottom, hi_heap_top = top, hi_lowest_block = 0, hi_highest_block = 0,
           hi_stats = stats\<rparr> }"

section \<open>The packet dispatcher\<close>

text \<open>The \<open>switch\<close> of \<open>read_generic_packet\<close>; \<open>False\<close> for an unknown packet type.\<close>

definition dispatch_packet :: "cstring \<Rightarrow> parser \<Rightarrow> rd_hshake \<Rightarrow> u32 \<Rightarrow> byte list \<Rightarrow> (bool \<times> parser) option" where
  "dispatch_packet package_string p hs type data =
     (let rd = ps_rd p; h = ps_heap p; x = rh_next h in
      if type = MEMORY_MAP then do {
        m \<leftarrow> read_packet_MM data;
        Some (True, p\<lparr>ps_rd := rd\<lparr>rd_mmaps := rd_mmaps rd @ [m]\<rparr>, ps_fcall_prev := NULL\<rparr>) }
      else if type = CONTEXT_REGISTRY then do {
        c \<leftarrow> read_packet_CR data;
        Some (True, p\<lparr>ps_rd := rd\<lparr>rd_contexts := rd_contexts rd @ [c]\<rparr>, ps_fcall_prev := NULL\<rparr>) }
      else if type = RESOURCE_REGISTRY then do {
        r \<leftarrow> read_packet_RR hs data;
        guard (unat (rs_id (rr_data r)) < RES_INDEX_SIZE);
        Some (True, p\<lparr>ps_rd := rd\<lparr>rd_resources := rd_resources rd @ [x]\<rparr>,
          ps_heap := h\<lparr>rh_next := x + 1, rh_resources := (rh_resources h)(x \<mapsto> r)\<rparr>,
          ps_res_index := (ps_res_index p)(unat (rs_id (rr_data r)) := x), ps_fcall_prev := NULL\<rparr>) }
      else if type = FUNCTION_CALL then do {
        call \<leftarrow> read_packet_FC (ps_call_index p) data;
        i \<leftarrow> (case fc_res_type (call_data call) of RFIELD_ID i \<Rightarrow> Some (unat i) | _ \<Rightarrow> None);
        guard (i < RES_INDEX_SIZE);
        let call = call\<lparr>call_data := (call_data call)\<lparr>fc_res_type := RFIELD_REF (ps_res_index p i)\<rparr>\<rparr>;
        Some (True, p\<lparr>ps_rd := rd\<lparr>rd_calls := rd_calls rd @ [x]\<rparr>,
          ps_heap := h\<lparr>rh_next := x + 1, rh_fcalls := (rh_fcalls h)(x \<mapsto> call)\<rparr>,
          ps_call_index := ps_call_index p + 1, ps_fcall_prev := x\<rparr>) }
      else if type = BACKTRACE then do {
        trace \<leftarrow> read_packet_BT data;
        let h = h\<lparr>rh_next := x + 1, rh_ftraces := (rh_ftraces h)(x \<mapsto> trace)\<rparr>;
        if ps_fcall_prev p \<noteq> NULL then do {
          (rd, h) \<leftarrow> rd_fcall_set_ftrace rd h (ps_fcall_prev p) x;
          Some (True, p\<lparr>ps_rd := rd, ps_heap := h, ps_fcall_prev := NULL\<rparr>) }
        else Some (True, p\<lparr>ps_heap := h, ps_fcall_prev := NULL\<rparr>) }
      else if type = FUNCTION_ARGS then
        (if ps_fcall_prev p \<noteq> NULL then do {
           args \<leftarrow> read_packet_FA data;
           call \<leftarrow> rh_fcalls h (ps_fcall_prev p);
           Some (True, p\<lparr>ps_heap := h\<lparr>rh_fcalls := (rh_fcalls h)(ps_fcall_prev p \<mapsto> call\<lparr>call_args := Some args\<rparr>)\<rparr>\<rparr>) }
         else Some (True, p))
      else if type = PROCESS_INFO then do {
        i \<leftarrow> read_packet_PI package_string (ps_junk p) hs data;
        Some (True, p\<lparr>ps_rd := rd\<lparr>rd_pinfo := Some i\<rparr>, ps_fcall_prev := NULL\<rparr>) }
      else if type = MODULE_INFO then do {
        m \<leftarrow> read_packet_MI data;
        Some (True, p\<lparr>ps_rd := rd\<lparr>rd_minfo := rd_minfo rd @ [m]\<rparr>, ps_fcall_prev := NULL\<rparr>) }
      else if type = HEAP_INFO then do {
        i \<leftarrow> read_packet_HI data;
        Some (True, p\<lparr>ps_rd := rd\<lparr>rd_hinfo := Some i\<rparr>, ps_fcall_prev := NULL\<rparr>) }
      else if type = OUTPUT_SETTINGS then Some (True, p)
      else if type = ATTACHMENT then do {
        f \<leftarrow> read_packet_FILE data;
        Some (True, p\<lparr>ps_rd := rd\<lparr>rd_files := rd_files rd @ [f]\<rparr>\<rparr>) }
      else Some (False, p\<lparr>ps_fcall_prev := NULL\<rparr>))"

text \<open>
  The header: \<open>[size][type]\<close> before version 2, \<open>[type][size]\<close> from then on.  The length is compared
  as a signed \<open>int\<close> with the number of received bytes.
\<close>

definition read_generic_packet :: "cstring \<Rightarrow> parser \<Rightarrow> byte list \<Rightarrow> (int \<times> parser) option" where
  "read_generic_packet package_string p data =
     (if length data < LENGTH_SIZE + TYPE_SIZE then Some (PACKET_INCOMPLETE, p)
      else do {
        hs \<leftarrow> rd_hshake (ps_rd p);
        (type, len) \<leftarrow>
          (if hs_vmajor hs < 2 then do {
             (len, n) \<leftarrow> read_dword data;
             (type, m) \<leftarrow> read_dword (drop n data);
             Some (type, len + of_nat n) }
           else do {
             (type, n) \<leftarrow> read_dword data;
             (len, m) \<leftarrow> read_dword (drop n data);
             Some (type, len + of_nat (n + m)) });
        if \<not> hs_vmajor hs < 2 \<and> hd data = HS_ID then Some (PACKET_UNKNOWN, p)
        else if sint len > int (length data) then Some (PACKET_INCOMPLETE, p)
        else do {
          (known, p) \<leftarrow> dispatch_packet package_string p hs type (drop 8 data);
          Some (if known then sint len else PACKET_UNKNOWN, p) } })"

section \<open>The read loop\<close>

lemma read_generic_packet_progress:
  "read_generic_packet pk p data = Some (n, p') \<Longrightarrow> 0 < n \<Longrightarrow> 8 \<le> length data \<and> n \<le> int (length data)"
  by (auto simp: read_generic_packet_def PACKET_INCOMPLETE_def PACKET_UNKNOWN_def Option.bind_eq_Some_conv split: if_splits)

text \<open>All packets of the received bytes: the last result, the state and the bytes left over.\<close>

function parse_packets :: "cstring \<Rightarrow> parser \<Rightarrow> byte list \<Rightarrow> (int \<times> parser \<times> byte list) option" where
  "parse_packets pk p data =
     (case read_generic_packet pk p data of
        None \<Rightarrow> None
      | Some (n, p') \<Rightarrow> if n \<le> 0 then Some (n, p', data) else parse_packets pk p' (drop (nat n) data))"
  by pat_completeness auto
termination
proof (relation "measure (\<lambda>(pk, p, data). length data)", goal_cases)
  case (2 pk p data r n p')
  then have "8 \<le> length data \<and> n \<le> int (length data)"
    using read_generic_packet_progress [of pk p data n p'] by auto
  with 2 show ?case by auto
qed simp

declare parse_packets.simps [simp del]

definition BUFFER_SIZE :: nat where
  "BUFFER_SIZE = 4096"

text \<open>
  The chunks are the results of the following \<open>read\<close> calls, end of file included as the end of the
  list.  New bytes are stored behind the bytes left over, in a buffer of twice the read size.
\<close>

fun read_loop :: "cstring \<Rightarrow> parser \<Rightarrow> byte list \<Rightarrow> byte list list \<Rightarrow> parser option" where
  "read_loop pk p data chunks = do {
     (n, p, rest) \<leftarrow> parse_packets pk p data;
     if n = PACKET_UNKNOWN then Some p
     else case chunks of
       [] \<Rightarrow> Some p
     | chunk # chunks \<Rightarrow>
         if chunk = [] then Some p
         else do {
           guard (length rest + length chunk \<le> 2 * BUFFER_SIZE);
           read_loop pk p (rest @ chunk) chunks } }"

datatype binary_error = HANDSHAKE_FAILED | UNSUPPORTED_ARCH

text \<open>
  The handshake must be in the first chunk: it starts with the size of its data.  A wrong
  architecture name is only a warning; a different endianness or pointer size ends the program.
\<close>

definition read_binary_data :: "cstring \<Rightarrow> parser \<Rightarrow> byte list list \<Rightarrow> (binary_error + parser) option" where
  "read_binary_data pk p chunks =
     (case chunks of
        [] \<Rightarrow> Some (Inl HANDSHAKE_FAILED)
      | [] # chunks \<Rightarrow> Some (Inl HANDSHAKE_FAILED)
      | (data_len # first) # chunks \<Rightarrow> do {
          if unat data_len \<ge> 1 + length first then Some (Inl HANDSHAKE_FAILED)
          else do {
            hs \<leftarrow> read_handshake_packet first;
            let p = p\<lparr>ps_call_index := 1, ps_rd := (ps_rd p)\<lparr>rd_hshake := Some hs\<rparr>\<rparr>;
            if hs_endianness hs \<noteq> HS_LITTLE_ENDIAN \<or> hs_pointer_size hs \<noteq> 8 then Some (Inl UNSUPPORTED_ARCH)
            else map_option Inr (read_loop pk p (drop (unat data_len) first) chunks) } })"

definition parser_init :: "u32 \<Rightarrow> parser" where
  "parser_init junk = \<lparr>ps_rd = rd_create, ps_heap = rheap_init, ps_call_index = 1, ps_res_index = (\<lambda>_. NULL),
     ps_fcall_prev = NULL, ps_junk = junk\<rparr>"

end
