(* ===== verification/Parse_Packets.thy ===== *)
theory Parse_Packets
  imports Packet_Stream Trace_Packets Parse_Binary
begin

text \<open>
  What the post-processor makes of the packets of a trace: every packet reader returns what the
  tracing module wrote, and the dispatcher implements an abstract trace that is free of pointers.
\<close>

section \<open>The packet readers\<close>

text \<open>The fields of the packet can be represented.\<close>

definition fits_word :: "'a :: len word \<Rightarrow> bool" where
  "fits_word w \<longleftrightarrow> unat w < 2147483648"

fun packet_fits :: "trace_packet \<Rightarrow> bool" where
  "packet_fits (P_Settings d p) \<longleftrightarrow> fits_string (Some d) \<and> fits_string (Some p)"
| "packet_fits (P_Process pid sec usec depth name) \<longleftrightarrow> fits_string (Some name)"
| "packet_fits (P_Module m) \<longleftrightarrow> fits_string (Some (md_name m))"
| "packet_fits (P_Resource r) \<longleftrightarrow> fits_string (Some (mr_type r)) \<and> fits_string (Some (mr_desc r)) \<and> fits_word (mr_id r)"
| "packet_fits (P_Context i n) \<longleftrightarrow> fits_string (Some n) \<and> fits_word i"
| "packet_fits (P_Library l) \<longleftrightarrow> fits_string (Some l)"
| "packet_fits (P_Map a b m) \<longleftrightarrow> fits_string (Some m)"
| "packet_fits (P_Attachment n p) \<longleftrightarrow> fits_string (Some n) \<and> fits_string (Some p)"
| "packet_fits (P_Heap a b s) \<longleftrightarrow> True"
| "packet_fits (P_Call c x t) \<longleftrightarrow> fits_string (mf_name c) \<and> fits_word (mf_res_type_id c)"
| "packet_fits (P_Args a) \<longleftrightarrow> (\<forall>(n, v)\<in>set (args_used a). fits_string n \<and> fits_string v) \<and> length (args_used a) < 2147483648"
| "packet_fits (P_Trace t) \<longleftrightarrow> (\<forall>frames. t = Some frames \<longrightarrow> length frames < 2147483648)"

lemma scast_of_fits: "fits_word (w :: u32) \<Longrightarrow> (scast w :: u64) = ucast w"
proof -
  assume "fits_word w"
  then have "unat w < 2147483648" by (simp add: fits_word_def)
  then have "uint w < 2147483648" using uint_nat [of w] by linarith
  then have "uint w < 2 ^ 31" by simp
  moreover have "- (2 ^ 31) \<le> uint w" by (rule order_trans [OF _ uint_ge_0]) simp
  ultimately have "signed_take_bit 31 (uint w) = uint w" by (intro signed_take_bit_int_eq_self)
  then have "sint w = uint w" by (simp add: sint_uint)
  then show ?thesis unfolding scast_eq ucast_eq by (rule arg_cong)
qed

lemma version_word:
  fixes a b :: byte
  shows "(ucast (drop_bit 16 (push_bit 16 (ucast a :: u32)) OR drop_bit 16 (ucast b :: u32)) :: byte) = a"
    "(ucast ((push_bit 16 (ucast a) OR ucast b :: u32) AND 0xFFFF) :: byte) = b"
proof -
  have m: "(0xFFFF :: u32) = mask 16" by (simp add: mask_eq_exp_minus_1)
  show "(ucast (drop_bit 16 (push_bit 16 (ucast a :: u32)) OR drop_bit 16 (ucast b :: u32)) :: byte) = a"
    by (rule bit_word_eqI) (auto simp: bit_simps dest: bit_imp_le_length)
  show "(ucast ((push_bit 16 (ucast a) OR ucast b :: u32) AND 0xFFFF) :: byte) = b"
    unfolding m by (rule bit_word_eqI) (auto simp: bit_simps)
qed

lemma read_module_info:
  "fits_string (Some (md_name m)) \<Longrightarrow> read_packet_MI (module_info_payload m @ rest) =
    Some \<lparr>mi_id = md_id m, mi_vmajor = md_vmajor m, mi_vminor = md_vminor m, mi_name = md_name m\<rparr>"
  by (simp add: read_packet_MI_def module_info_payload_def codec_simps version_word stored_text_def)

lemma read_args_written:
  "\<forall>(n, v)\<in>set as. fits_string n \<and> fits_string v \<Longrightarrow>
   read_args (length as) (concat (map (\<lambda>(name, v). write_string name @ write_string v) as) @ rest) =
    Some (map (\<lambda>(n, v). \<lparr>fa_name = stored_text n, fa_value = stored_text v\<rparr>) as)"
  by (induction as) (auto simp: codec_simps)

lemma words_of_written: "words_of (length ps) (concat (map write_pointer ps)) = ps"
proof (induction ps)
  case (Cons p ps)
  have "unat p < 18446744073709551616" using unsigned_less [of p] by simp
  then have "word_of_nat (le_nat (write_pointer p)) = p" by (simp add: write_pointer_def le_nat_le_bytes)
  with Cons show ?case by simp
qed simp


lemma unat_of_small: "n < 2147483648 \<Longrightarrow> unat (of_nat n :: u32) = n" "n < 2147483648 \<Longrightarrow> fits_word (of_nat n :: u32)"
  by (simp_all add: fits_word_def unat_of_nat)

lemma unat_ucast_up: "unat (ucast (w :: u32) :: u64) = unat w"
proof -
  have "unat w < 2 ^ 32" using unsigned_less [of w] by simp
  then have "unat w < 2 ^ 64" by simp
  then show ?thesis by (simp add: unsigned_ucast_eq take_bit_nat_eq_self)
qed

lemma unat_ucast_fits: "fits_word (w :: u64) \<Longrightarrow> unat (ucast w :: u32) = unat w"
  by (simp add: fits_word_def unsigned_ucast_eq take_bit_nat_eq_self)

lemma read_trace_written:
  assumes "packet_fits (P_Trace t)"
  shows "read_packet_BT (trace_payload t @ rest) =
    Some \<lparr>ft_bucket = None, ft_ref_count = 0, ft_nframes = of_nat (length (case t of Some fs \<Rightarrow> fs | None \<Rightarrow> [])),
      ft_frames = (case t of Some fs \<Rightarrow> fs | None \<Rightarrow> []), ft_names = None, ft_calls = []\<rparr>"
proof (cases t)
  case None
  then show ?thesis by (simp add: read_packet_BT_def trace_payload_def codec_simps fetch_def)
next
  case (Some fs)
  then have small: "length fs < 2147483648" using assms by simp
  have "length (concat (map write_pointer fs)) = 8 * length fs"
    by (simp add: length_concat comp_def sum_list_triv)
  moreover have unat64: "unat (of_nat (length fs) :: u64) = length fs" using small by (simp add: unat_of_nat)
  moreover have n: "(scast (of_nat (length fs) :: u32) :: u64) = of_nat (length fs)"
    using unat_of_small [OF small] scast_of_fits [of "of_nat (length fs)"]
    by (metis unat_ucast_up word_unat_eq_iff unat64)
  ultimately show ?thesis using Some
    by (simp add: read_packet_BT_def trace_payload_def codec_simps words_of_written)
qed

lemma read_args_packet:
  "packet_fits (P_Args a) \<Longrightarrow> read_packet_FA (args_payload a @ rest) =
    Some (map (\<lambda>(n, v). \<lparr>fa_name = stored_text n, fa_value = stored_text v\<rparr>) (args_used a))"
  by (simp add: read_packet_FA_def args_payload_def codec_simps read_args_written unat_of_small)

lemma read_call_packet:
  "packet_fits (P_Call c x t) \<Longrightarrow> read_packet_FC i (call_payload c x t @ rest) =
    Some \<lparr>call_data = \<lparr>fc_index = i, fc_type = mf_type c, fc_context = x, fc_timestamp = t,
        fc_name = Some (stored_text (mf_name c)), fc_res_type = RFIELD_ID (ucast (mf_res_type_id c)), fc_res_id = mf_res_id c,
        fc_res_size = mf_res_size c\<rparr>, call_trace = NULL, call_ref = NULL, call_args = None\<rparr>"
  by (simp add: read_packet_FC_def call_payload_def codec_simps scast_of_fits)

text \<open>From version 1.3 on the registry packet has the flags, from 1.2 on the process packet has the depth.\<close>

lemma read_resource_packet:
  assumes "packet_fits (P_Resource r)" "HS_CHECK_VERSION hs 1 3"
  shows "read_packet_RR hs (resource_payload r @ rest) =
    Some \<lparr>rr_data = \<lparr>rs_id = mr_id r, rs_type = mr_type r, rs_desc = mr_desc r, rs_flags = mr_flags r\<rparr>, rr_hide = False\<rparr>"
proof -
  have "unat (ucast (mr_id r) :: u32) = unat (mr_id r)"
    using assms(1) by (simp add: unat_ucast_fits)
  then have "fits_word (ucast (mr_id r) :: u32)" "(ucast (ucast (mr_id r) :: u32) :: u64) = mr_id r"
    using assms(1) unat_ucast_up by (simp_all add: fits_word_def) (metis word_unat_eq_iff)
  then show ?thesis using assms
    by (simp add: read_packet_RR_def resource_payload_def codec_simps scast_of_fits stored_text_def)
qed

lemma read_context_packet:
  assumes "packet_fits (P_Context i n)"
  shows "read_packet_CR (write_dword (ucast i) @ write_string (Some n) @ rest) = Some \<lparr>cx_id = i, cx_name = n\<rparr>"
proof -
  have "unat (ucast i :: u32) = unat i" using assms(1) by (simp add: unat_ucast_fits)
  then have "fits_word (ucast i :: u32)" "(ucast (ucast i :: u32) :: u64) = i"
    using assms(1) unat_ucast_up by (simp_all add: fits_word_def) (metis word_unat_eq_iff)
  then show ?thesis using assms by (simp add: read_packet_CR_def codec_simps scast_of_fits stored_text_def)
qed

lemma read_process_packet:
  "fits_string (Some name) \<Longrightarrow> HS_CHECK_VERSION hs 1 2 \<Longrightarrow>
   read_packet_PI pk junk hs (payload (P_Process pid sec usec depth name) @ rest) =
    Some \<lparr>pi_pid = pid, pi_backtrace_depth = word_of_int depth, pi_name = name, pi_sec = sec, pi_usec = usec, pi_trace_origin = pk\<rparr>"
  by (simp add: read_packet_PI_def codec_simps stored_text_def)

lemma read_map_packet:
  "fits_string (Some m) \<Longrightarrow> read_packet_MM (payload (P_Map a b m) @ rest) = Some \<lparr>mm_from = a, mm_to = b, mm_module = m\<rparr>"
  by (simp add: read_packet_MM_def codec_simps stored_text_def)

lemma read_file_packet:
  "fits_string (Some n) \<Longrightarrow> fits_string (Some p) \<Longrightarrow>
   read_packet_FILE (payload (P_Attachment n p) @ rest) = Some \<lparr>at_name = n, at_path = p\<rparr>"
  by (simp add: read_packet_FILE_def codec_simps stored_text_def)

lemmas packet_readers = read_module_info read_trace_written read_args_packet read_call_packet read_resource_packet
  read_context_packet read_process_packet read_map_packet read_file_packet

text \<open>
  The heap packet is written with double words and read with pointers: the reader takes the two
  addresses for one and reads two double words behind the packet.
\<close>

lemma le_nat_append: "le_nat (xs @ ys) = le_nat xs + 256 ^ length xs * le_nat ys"
  by (induction xs) (auto simp: algebra_simps)

lemma le_nat_write_dword: "le_nat (write_dword d) = unat d"
proof -
  have "unat d < 2 ^ 32" using unsigned_less [of d] by simp
  then show ?thesis by (simp add: write_dword_def le_nat_le_bytes)
qed

lemma read_pointer_dwords:
  "read_pointer (write_dword a @ write_dword b @ rest) = Some (word_of_nat (unat a + 4294967296 * unat b), 8)"
  using fetch_append [of "write_dword a @ write_dword b" 8 rest]
  by (simp add: read_pointer_def le_nat_append le_nat_write_dword)

lemma read_dwords_written: "read_dwords (length vs) (concat (map write_dword vs) @ rest) = Some vs"
  by (induction vs) (auto simp: codec_simps)

lemma read_heap_packet:
  assumes "length stats = 10"
  shows "read_packet_HI (heap_info_payload bottom heap_end stats @ write_dword x @ write_dword y @ rest) =
    Some \<lparr>hi_heap_bottom = word_of_nat (unat (ucast bottom :: u32) + 4294967296 * unat (ucast heap_end :: u32)),
      hi_heap_top = word_of_nat (unat (stats ! 0) + 4294967296 * unat (stats ! 1)), hi_lowest_block = 0, hi_highest_block = 0,
      hi_stats = drop 2 stats @ [x, y]\<rparr>"
proof -
  obtain a b vs where stats: "stats = a # b # vs" "length vs = 8"
    using assms by (cases stats; cases "tl stats") auto
  then have "read_dwords 10 (concat (map write_dword (vs @ [x, y])) @ rest) = Some (vs @ [x, y])"
    using read_dwords_written [of "vs @ [x, y]" rest] by simp
  with stats show ?thesis
    by (simp add: read_packet_HI_def heap_info_payload_def read_pointer_dwords)
qed

end
