(* ===== verification/Parse_Refine.thy ===== *)
theory Parse_Refine
  imports Parse_Packets
begin

text \<open>
  The abstract trace: what the packets of a trace mean, without stores and pointers.  The
  post-processor implements it.
\<close>

section \<open>The abstract trace\<close>

text \<open>
  A call with its resource type, its arguments and its backtrace.  \<open>ta_open\<close> tells that arguments and
  a backtrace that follow belong to the last call.
\<close>

record acall =
  ac_data :: sp_rtrace_fcall
  ac_resource :: "sp_rtrace_resource option"
  ac_args :: "sp_rtrace_farg list option"
  ac_frames :: "pointer_t list option"

record atrace =
  ta_calls :: "acall list"
  ta_open :: bool
  ta_index :: "nat \<Rightarrow> sp_rtrace_resource option"
  ta_resources :: "sp_rtrace_resource list"
  ta_contexts :: "sp_rtrace_context list"
  ta_mmaps :: "sp_rtrace_mmap list"
  ta_process :: "rd_pinfo option"
  ta_modules :: "rd_minfo list"
  ta_files :: "sp_rtrace_attachment list"

definition empty_trace :: atrace where
  "empty_trace = \<lparr>ta_calls = [], ta_open = False, ta_index = (\<lambda>_. None), ta_resources = [], ta_contexts = [], ta_mmaps = [],
     ta_process = None, ta_modules = [], ta_files = []\<rparr>"

definition update_last :: "('a \<Rightarrow> 'a) \<Rightarrow> 'a list \<Rightarrow> 'a list" where
  "update_last f xs = (if xs = [] then [] else butlast xs @ [f (last xs)])"

definition written_resource :: "module_resource \<Rightarrow> sp_rtrace_resource" where
  "written_resource r = \<lparr>rs_id = mr_id r, rs_type = mr_type r, rs_desc = mr_desc r, rs_flags = mr_flags r\<rparr>"

definition written_call :: "nat \<Rightarrow> module_fcall \<Rightarrow> u32 \<Rightarrow> u32 \<Rightarrow> sp_rtrace_fcall" where
  "written_call n c x t = \<lparr>fc_index = int n + 1, fc_type = mf_type c, fc_context = x, fc_timestamp = t,
     fc_name = Some (stored_text (mf_name c)), fc_res_type = RFIELD_UNDEF, fc_res_id = mf_res_id c, fc_res_size = mf_res_size c\<rparr>"

definition written_args :: "module_farg list \<Rightarrow> sp_rtrace_farg list" where
  "written_args as = map (\<lambda>(n, v). \<lparr>fa_name = stored_text n, fa_value = stored_text v\<rparr>) (args_used as)"

definition written_frames :: "pointer_t list option \<Rightarrow> pointer_t list" where
  "written_frames t = (case t of Some fs \<Rightarrow> fs | None \<Rightarrow> [])"

text \<open>The meaning of a packet.  Library packets do not reach the post-processor; for the heap packet see \<open>read_heap_packet\<close>.\<close>

fun trace_add :: "cstring \<Rightarrow> atrace \<Rightarrow> trace_packet \<Rightarrow> atrace" where
  "trace_add pk a (P_Settings d p) = a"
| "trace_add pk a (P_Process pid sec usec depth name) = a\<lparr>ta_process := Some \<lparr>pi_pid = pid,
     pi_backtrace_depth = word_of_int depth, pi_name = name, pi_sec = sec, pi_usec = usec, pi_trace_origin = pk\<rparr>, ta_open := False\<rparr>"
| "trace_add pk a (P_Module m) = a\<lparr>ta_modules := ta_modules a @ [\<lparr>mi_id = md_id m, mi_vmajor = md_vmajor m,
     mi_vminor = md_vminor m, mi_name = md_name m\<rparr>], ta_open := False\<rparr>"
| "trace_add pk a (P_Resource r) = a\<lparr>ta_resources := ta_resources a @ [written_resource r],
     ta_index := (ta_index a)(unat (mr_id r) \<mapsto> written_resource r), ta_open := False\<rparr>"
| "trace_add pk a (P_Context i n) = a\<lparr>ta_contexts := ta_contexts a @ [\<lparr>cx_id = i, cx_name = n\<rparr>], ta_open := False\<rparr>"
| "trace_add pk a (P_Library l) = a"
| "trace_add pk a (P_Map x y m) = a\<lparr>ta_mmaps := ta_mmaps a @ [\<lparr>mm_from = x, mm_to = y, mm_module = m\<rparr>], ta_open := False\<rparr>"
| "trace_add pk a (P_Attachment n p) = a\<lparr>ta_files := ta_files a @ [\<lparr>at_name = n, at_path = p\<rparr>]\<rparr>"
| "trace_add pk a (P_Heap x y s) = a"
| "trace_add pk a (P_Call c x t) = a\<lparr>ta_calls := ta_calls a @ [\<lparr>ac_data = written_call (length (ta_calls a)) c x t,
     ac_resource = ta_index a (unat (mf_res_type_id c)), ac_args = None, ac_frames = None\<rparr>], ta_open := True\<rparr>"
| "trace_add pk a (P_Args as) =
     (if ta_open a then a\<lparr>ta_calls := update_last (\<lambda>c. c\<lparr>ac_args := Some (written_args as)\<rparr>) (ta_calls a)\<rparr> else a)"
| "trace_add pk a (P_Trace t) =
     (if ta_open a then a\<lparr>ta_calls := update_last (\<lambda>c. c\<lparr>ac_frames := Some (written_frames t)\<rparr>) (ta_calls a), ta_open := False\<rparr>
      else a)"

fun packet_readable :: "trace_packet \<Rightarrow> bool" where
  "packet_readable (P_Library l) = False"
| "packet_readable (P_Heap x y s) = False"
| "packet_readable (P_Resource r) = (packet_fits (P_Resource r) \<and> unat (mr_id r) < RES_INDEX_SIZE)"
| "packet_readable (P_Call c x t) = (packet_fits (P_Call c x t) \<and> unat (mf_res_type_id c) < RES_INDEX_SIZE)"
| "packet_readable p = packet_fits p"

section \<open>Abstraction\<close>

definition field_resource :: "(ptr \<rightharpoonup> rd_resource) \<Rightarrow> res_field \<Rightarrow> sp_rtrace_resource option" where
  "field_resource rs f = (case f of RFIELD_REF p \<Rightarrow> map_option rr_data (rs p) | _ \<Rightarrow> None)"

lemma field_resource_ref [simp]: "field_resource rs (RFIELD_REF p) = map_option rr_data (rs p)"
  by (simp add: field_resource_def)

definition call_abs :: "rheap \<Rightarrow> ptr \<Rightarrow> acall" where
  "call_abs h c = (let call = the (rh_fcalls h c) in
     \<lparr>ac_data = (call_data call)\<lparr>fc_res_type := RFIELD_UNDEF\<rparr>,
      ac_resource = field_resource (rh_resources h) (fc_res_type (call_data call)),
      ac_args = call_args call, ac_frames = call_frames h c\<rparr>)"

definition trace_abs :: "parser \<Rightarrow> atrace" where
  "trace_abs p = (let rd = ps_rd p; h = ps_heap p in
     \<lparr>ta_calls = map (call_abs h) (rd_calls rd), ta_open = (ps_fcall_prev p \<noteq> NULL),
      ta_index = (\<lambda>i. map_option rr_data (rh_resources h (ps_res_index p i))),
      ta_resources = map (\<lambda>r. rr_data (the (rh_resources h r))) (rd_resources rd), ta_contexts = rd_contexts rd,
      ta_mmaps = rd_mmaps rd, ta_process = rd_pinfo rd, ta_modules = rd_minfo rd, ta_files = rd_files rd\<rparr>)"

definition call_res_ok :: "rheap \<Rightarrow> ptr \<Rightarrow> bool" where
  "call_res_ok h c \<longleftrightarrow> (\<exists>call r. rh_fcalls h c = Some call \<and> fc_res_type (call_data call) = RFIELD_REF r \<and>
     (r = NULL \<or> rh_resources h r \<noteq> None))"

definition parser_inv :: "parser \<Rightarrow> bool" where
  "parser_inv p \<longleftrightarrow> (let rd = ps_rd p; h = ps_heap p in
     rd_inv rd h \<and> rd_unique rd h \<and> ps_call_index p = int (length (rd_calls rd)) + 1 \<and>
     (\<exists>hs. rd_hshake rd = Some hs \<and> 2 \<le> hs_vmajor hs) \<and>
     (\<forall>i. ps_res_index p i = NULL \<or> rh_resources h (ps_res_index p i) \<noteq> None) \<and>
     distinct (rd_resources rd) \<and> set (rd_resources rd) = dom (rh_resources h) \<and>
     (\<forall>c\<in>set (rd_calls rd). call_res_ok h c) \<and>
     (ps_fcall_prev p \<noteq> NULL \<longrightarrow> rd_calls rd \<noteq> [] \<and> ps_fcall_prev p = last (rd_calls rd) \<and>
        (\<exists>call. rh_fcalls h (ps_fcall_prev p) = Some call \<and> call_trace call = NULL)))"

section \<open>Growing the trace data\<close>

lemma inv_other_fields [simp]:
  "inv_calls (rd\<lparr>rd_mmaps := a\<rparr>) h = inv_calls rd h" "inv_traces E (rd\<lparr>rd_mmaps := a\<rparr>) h = inv_traces E rd h"
  "inv_calls (rd\<lparr>rd_contexts := b\<rparr>) h = inv_calls rd h" "inv_traces E (rd\<lparr>rd_contexts := b\<rparr>) h = inv_traces E rd h"
  "inv_calls (rd\<lparr>rd_pinfo := c\<rparr>) h = inv_calls rd h" "inv_traces E (rd\<lparr>rd_pinfo := c\<rparr>) h = inv_traces E rd h"
  "inv_calls (rd\<lparr>rd_minfo := d\<rparr>) h = inv_calls rd h" "inv_traces E (rd\<lparr>rd_minfo := d\<rparr>) h = inv_traces E rd h"
  "inv_calls (rd\<lparr>rd_files := e\<rparr>) h = inv_calls rd h" "inv_traces E (rd\<lparr>rd_files := e\<rparr>) h = inv_traces E rd h"
  "inv_calls (rd\<lparr>rd_resources := f\<rparr>) h = inv_calls rd h" "inv_traces E (rd\<lparr>rd_resources := f\<rparr>) h = inv_traces E rd h"
  "inv_calls (rd\<lparr>rd_hshake := g\<rparr>) h = inv_calls rd h" "inv_traces E (rd\<lparr>rd_hshake := g\<rparr>) h = inv_traces E rd h"
  "inv_calls rd (h\<lparr>rh_resources := r\<rparr>) = inv_calls rd h" "inv_traces E rd (h\<lparr>rh_resources := r\<rparr>) = inv_traces E rd h"
  by (simp_all add: inv_calls_def inv_traces_def trace_ok_def ref_ok_def call_ok_def)

lemma unique_other_fields [simp]:
  "rd_unique (rd\<lparr>rd_mmaps := a\<rparr>) h = rd_unique rd h" "rd_unique (rd\<lparr>rd_contexts := b\<rparr>) h = rd_unique rd h"
  "rd_unique (rd\<lparr>rd_pinfo := c\<rparr>) h = rd_unique rd h" "rd_unique (rd\<lparr>rd_minfo := d\<rparr>) h = rd_unique rd h"
  "rd_unique (rd\<lparr>rd_files := e\<rparr>) h = rd_unique rd h" "rd_unique (rd\<lparr>rd_resources := f\<rparr>) h = rd_unique rd h"
  "rd_unique (rd\<lparr>rd_hshake := g\<rparr>) h = rd_unique rd h" "rd_unique (rd\<lparr>rd_calls := i\<rparr>) h = rd_unique rd h"
  "rd_unique rd (h\<lparr>rh_resources := r\<rparr>) = rd_unique rd h" "rd_unique rd (h\<lparr>rh_fcalls := s\<rparr>) = rd_unique rd h"
  "rd_unique rd (h\<lparr>rh_next := n\<rparr>) = rd_unique rd h"
  by (simp_all add: rd_unique_def)

lemma call_frames_other [simp]:
  "call_frames (h\<lparr>rh_resources := r\<rparr>) c = call_frames h c" "call_frames (h\<lparr>rh_next := n\<rparr>) c = call_frames h c"
  by (simp_all add: call_frames_def)

lemma fresh_next:
  assumes "inv_fresh h"
  shows "rh_next h \<noteq> NULL" "rh_fcalls h (rh_next h) = None" "rh_ftraces h (rh_next h) = None"
    "rh_resources h (rh_next h) = None" "rh_refs h (rh_next h) = None" "rh_resources h NULL = None" "rh_fcalls h NULL = None"
    "rh_ftraces h NULL = None"
  using assms by (auto simp: inv_fresh_def)

lemma inv_add_resource:
  "rd_inv rd h \<Longrightarrow> rd_inv (rd\<lparr>rd_resources := rs\<rparr>) (h\<lparr>rh_next := rh_next h + 1, rh_resources := (rh_resources h)(rh_next h \<mapsto> r)\<rparr>)"
  by (auto simp: rd_inv_def inv_fresh_def)

lemma inv_add_call:
  assumes "rd_inv rd h" "call_trace call = NULL"
  shows "rd_inv (rd\<lparr>rd_calls := rd_calls rd @ [rh_next h]\<rparr>)
    (h\<lparr>rh_next := rh_next h + 1, rh_fcalls := (rh_fcalls h)(rh_next h \<mapsto> call)\<rparr>)"
proof -
  let ?x = "rh_next h"
  have f: "inv_fresh h" "inv_calls rd h" "inv_traces {} rd h" using assms(1) by (auto simp: rd_inv_def)
  have x: "?x \<noteq> NULL" "rh_fcalls h ?x = None" using fresh_next [OF f(1)] by auto
  then have nx: "?x \<notin> set (rd_calls rd)" using f(2) by (auto simp: inv_calls_def)
  have "inv_calls (rd\<lparr>rd_calls := rd_calls rd @ [?x]\<rparr>) (h\<lparr>rh_fcalls := (rh_fcalls h)(?x \<mapsto> call)\<rparr>)"
    using f(2) nx x assms(2) by (auto simp: inv_calls_def call_ok_def)
  moreover have "inv_traces {} (rd\<lparr>rd_calls := rd_calls rd @ [?x]\<rparr>) (h\<lparr>rh_fcalls := (rh_fcalls h)(?x \<mapsto> call)\<rparr>)"
  proof -
    have "ref_ok (rd\<lparr>rd_calls := rd_calls rd @ [?x]\<rparr>) (h\<lparr>rh_fcalls := (rh_fcalls h)(?x \<mapsto> call)\<rparr>) t y"
      if "ref_ok rd h t y" for t y
      using that nx unfolding ref_ok_def by auto
    then show ?thesis using f(3) unfolding inv_traces_def trace_ok_def by fastforce
  qed
  moreover have "inv_fresh (h\<lparr>rh_next := ?x + 1, rh_fcalls := (rh_fcalls h)(?x \<mapsto> call)\<rparr>)"
    using f(1) by (auto simp: inv_fresh_def)
  ultimately show ?thesis by (simp add: rd_inv_def inv_calls_def inv_traces_def trace_ok_def ref_ok_def call_ok_def)
qed

text \<open>A call keeps its place in the structure when its arguments change.\<close>

lemma inv_set_args:
  assumes "rd_inv rd h" "rh_fcalls h c = Some call"
  shows "rd_inv rd (h\<lparr>rh_fcalls := (rh_fcalls h)(c \<mapsto> call\<lparr>call_args := a\<rparr>)\<rparr>)" (is "rd_inv rd ?h")
proof -
  have f: "inv_fresh h" "inv_calls rd h" "inv_traces {} rd h" using assms(1) by (auto simp: rd_inv_def)
  have "inv_calls rd ?h" using f(2) assms(2) unfolding inv_calls_def call_ok_def by fastforce
  moreover have "ref_ok rd ?h t y" if "ref_ok rd h t y" for t y
    using that assms(2) unfolding ref_ok_def by auto
  then have "inv_traces {} rd ?h" using f(3) unfolding inv_traces_def trace_ok_def by fastforce
  moreover have "c \<noteq> NULL" "\<not> rh_next h \<le> c" using f(1) assms(2) unfolding inv_fresh_def by (metis option.distinct(1))+
  then have "inv_fresh ?h" using f(1) by (auto simp: inv_fresh_def)
  ultimately show ?thesis by (simp add: rd_inv_def)
qed

lemma inv_add_ftrace:
  assumes "rd_inv rd h" "rd_unique rd h"
  shows "rd_inv rd (h\<lparr>rh_next := rh_next h + 1, rh_ftraces := (rh_ftraces h)(rh_next h \<mapsto> tr)\<rparr>)"
    "rd_unique rd (h\<lparr>rh_next := rh_next h + 1, rh_ftraces := (rh_ftraces h)(rh_next h \<mapsto> tr)\<rparr>)"
    "\<forall>b. rh_next h \<notin> set (a_bucket (rd_ftraces rd) b)"
proof -
  have f: "inv_fresh h" "inv_calls rd h" "inv_traces {} rd h" using assms(1) by (auto simp: rd_inv_def)
  show nb: "\<forall>b. rh_next h \<notin> set (a_bucket (rd_ftraces rd) b)"
    using f(3) fresh_next [OF f(1)] unfolding inv_traces_def by fastforce
  note i = inv_other_trace [OF nb refl, where h = h and v = "Some tr"]
  show "rd_unique rd (h\<lparr>rh_next := rh_next h + 1, rh_ftraces := (rh_ftraces h)(rh_next h \<mapsto> tr)\<rparr>)"
    using i assms(2) by (simp add: rd_unique_def)
  have "inv_fresh (h\<lparr>rh_next := rh_next h + 1, rh_ftraces := (rh_ftraces h)(rh_next h \<mapsto> tr)\<rparr>)"
    using f(1) by (auto simp: inv_fresh_def)
  moreover have "inv_calls rd (h\<lparr>rh_ftraces := (rh_ftraces h)(rh_next h \<mapsto> tr), rh_next := rh_next h + 1\<rparr>)"
      "inv_traces {} rd (h\<lparr>rh_ftraces := (rh_ftraces h)(rh_next h \<mapsto> tr), rh_next := rh_next h + 1\<rparr>)"
    using i f by simp_all
  ultimately show "rd_inv rd (h\<lparr>rh_next := rh_next h + 1, rh_ftraces := (rh_ftraces h)(rh_next h \<mapsto> tr)\<rparr>)"
    by (simp add: rd_inv_def inv_calls_def inv_traces_def trace_ok_def ref_ok_def call_ok_def)
qed

lemma call_frames_add_ftrace:
  assumes "rd_inv rd h" "c \<in> set (rd_calls rd)"
  shows "call_frames (h\<lparr>rh_next := n, rh_ftraces := (rh_ftraces h)(rh_next h \<mapsto> tr)\<rparr>) c = call_frames h c"
proof -
  have f: "inv_fresh h" "inv_calls rd h" using assms(1) by (auto simp: rd_inv_def)
  obtain call where call: "rh_fcalls h c = Some call" "call_ok rd h c call" using f(2) assms(2) by (auto elim: inv_callsD)
  then have "call_trace call \<noteq> rh_next h" using fresh_next [OF f(1)] by (auto simp: call_ok_def)
  then show ?thesis using call by (simp add: call_frames_def)
qed

section \<open>The dispatcher implements the abstract trace\<close>

definition refines :: "cstring \<Rightarrow> parser \<Rightarrow> trace_packet \<Rightarrow> bool" where
  "refines pk p q \<longleftrightarrow> (\<exists>p'. (\<forall>rest. dispatch_packet pk p (the (rd_hshake (ps_rd p))) (packet_type q) (payload q @ rest) = Some (True, p')) \<and>
     parser_inv p' \<and> rd_hshake (ps_rd p') = rd_hshake (ps_rd p) \<and> trace_abs p' = trace_add pk (trace_abs p) q)"

lemma parser_invD:
  assumes "parser_inv p"
  shows "rd_inv (ps_rd p) (ps_heap p)" "rd_unique (ps_rd p) (ps_heap p)" "inv_fresh (ps_heap p)"
    "inv_calls (ps_rd p) (ps_heap p)" "inv_traces {} (ps_rd p) (ps_heap p)"
  using assms by (auto simp: parser_inv_def Let_def rd_inv_def)

lemma version_2:
  assumes "2 \<le> hs_vmajor hs"
  shows "HS_CHECK_VERSION hs 1 3" "HS_CHECK_VERSION hs 1 2" "\<not> hs_vmajor hs < 2"
proof -
  have "(1 :: byte) < 2" by simp
  then have "1 < hs_vmajor hs" using assms by (rule less_le_trans)
  then show "HS_CHECK_VERSION hs 1 3" "HS_CHECK_VERSION hs 1 2" by (simp_all add: HS_CHECK_VERSION_def)
  show "\<not> hs_vmajor hs < 2" using assms by (simp add: not_less)
qed

lemmas refine_simps = refines_def dispatch_packet_def parser_inv_def trace_abs_def Let_def rd_inv_def

lemma refines_plain:
  assumes "parser_inv p"
  shows "packet_fits (P_Settings d o') \<Longrightarrow> refines pk p (P_Settings d o')"
    "packet_fits (P_Map x y m) \<Longrightarrow> refines pk p (P_Map x y m)"
    "packet_fits (P_Context i n) \<Longrightarrow> refines pk p (P_Context i n)"
    "packet_fits (P_Module md) \<Longrightarrow> refines pk p (P_Module md)"
    "packet_fits (P_Attachment n f) \<Longrightarrow> refines pk p (P_Attachment n f)"
  using assms by (auto simp: refine_simps packet_readers read_map_packet [simplified] read_file_packet [simplified] read_context_packet [simplified])

lemma refines_process:
  assumes "parser_inv p" "packet_fits (P_Process pid sec usec depth name)"
  shows "refines pk p (P_Process pid sec usec depth name)"
proof -
  obtain hs where hs: "rd_hshake (ps_rd p) = Some hs" "2 \<le> hs_vmajor hs"
    using assms(1) by (auto simp: parser_inv_def Let_def)
  then show ?thesis using assms version_2 [OF hs(2)] read_process_packet [of name hs pk "ps_junk p" pid sec usec depth]
    by (auto simp: refine_simps)
qed

lemma call_abs_resources:
  assumes "rh_resources h' p = rh_resources h p" "rh_fcalls h' = rh_fcalls h" "call_frames h' c = call_frames h c"
    "rh_fcalls h c = Some call" "fc_res_type (call_data call) = RFIELD_REF p"
  shows "call_abs h' c = call_abs h c"
  using assms by (simp add: call_abs_def)

lemma refines_resource:
  assumes "parser_inv p" "packet_readable (P_Resource r)"
  shows "refines pk p (P_Resource r)"
proof -
  let ?h = "ps_heap p" and ?rd = "ps_rd p"
  let ?x = "rh_next ?h" and ?r = "\<lparr>rr_data = written_resource r, rr_hide = False\<rparr>"
  let ?h' = "?h\<lparr>rh_next := ?x + 1, rh_resources := (rh_resources ?h)(?x \<mapsto> ?r)\<rparr>"
  let ?p = "p\<lparr>ps_rd := ?rd\<lparr>rd_resources := rd_resources ?rd @ [?x]\<rparr>, ps_heap := ?h',
    ps_res_index := (ps_res_index p)(unat (mr_id r) := ?x), ps_fcall_prev := NULL\<rparr>"
  note inv = parser_invD [OF assms(1)] and fr = fresh_next [OF parser_invD(3) [OF assms(1)]]
  have i: "parser_inv p" by (rule assms(1))
  then have nx: "?x \<notin> set (rd_resources ?rd)" using fr by (auto simp: parser_inv_def Let_def)
  obtain hs where hs: "rd_hshake ?rd = Some hs" "2 \<le> hs_vmajor hs"
    using i by (auto simp: parser_inv_def Let_def)
  have d: "dispatch_packet pk p hs RESOURCE_REGISTRY (resource_payload r @ rest) = Some (True, ?p)" for rest
    using assms(2) version_2 [OF hs(2)]
    by (simp add: dispatch_packet_def read_resource_packet written_resource_def Let_def)
  have calls: "call_abs ?h' c = call_abs ?h c" if "c \<in> set (rd_calls ?rd)" for c
  proof -
    from i that obtain call q where c: "rh_fcalls ?h c = Some call" "fc_res_type (call_data call) = RFIELD_REF q"
      "q = NULL \<or> rh_resources ?h q \<noteq> None" by (auto simp: parser_inv_def Let_def call_res_ok_def)
    then have "q \<noteq> ?x" using fr by auto
    with c show ?thesis by (intro call_abs_resources) auto
  qed
  have "call_res_ok ?h' c" if "call_res_ok ?h c" for c
    using that unfolding call_res_ok_def by (force split: if_splits)
  moreover have "\<forall>i. ps_res_index p i = NULL \<or> rh_resources ?h' (ps_res_index p i) \<noteq> None"
    using i by (auto simp: parser_inv_def Let_def)
  moreover have "rd_inv (?rd\<lparr>rd_resources := rd_resources ?rd @ [?x]\<rparr>) ?h'" using inv(1) by (rule inv_add_resource)
  ultimately have "parser_inv ?p"
    using i inv(2) nx by (simp add: parser_inv_def Let_def)
  moreover have "trace_abs ?p = trace_add pk (trace_abs p) (P_Resource r)"
  proof -
    have "ps_res_index p j \<noteq> ?x" for j
      using i fr unfolding parser_inv_def Let_def by metis
    then have "ta_index (trace_abs ?p) = (ta_index (trace_abs p))(unat (mr_id r) \<mapsto> written_resource r)"
      by (simp add: trace_abs_def Let_def fun_eq_iff)
    moreover have "map (\<lambda>r. rr_data (the (rh_resources ?h' r))) (rd_resources ?rd @ [?x]) =
        map (\<lambda>r. rr_data (the (rh_resources ?h r))) (rd_resources ?rd) @ [written_resource r]"
      using nx by auto
    ultimately show ?thesis using calls by (simp add: trace_abs_def Let_def)
  qed
  ultimately show ?thesis using d hs by (auto simp: refines_def)
qed

lemma refines_call:
  assumes "parser_inv p" "packet_readable (P_Call c x t)"
  shows "refines pk p (P_Call c x t)"
proof -
  let ?h = "ps_heap p" and ?rd = "ps_rd p"
  let ?n = "rh_next ?h" and ?r = "ps_res_index p (unat (mf_res_type_id c))"
  let ?call = "\<lparr>call_data = (written_call (length (rd_calls ?rd)) c x t)\<lparr>fc_res_type := RFIELD_REF ?r\<rparr>,
    call_trace = NULL, call_ref = NULL, call_args = None\<rparr>"
  let ?h' = "?h\<lparr>rh_next := ?n + 1, rh_fcalls := (rh_fcalls ?h)(?n \<mapsto> ?call)\<rparr>"
  let ?rd' = "?rd\<lparr>rd_calls := rd_calls ?rd @ [?n]\<rparr>"
  let ?p = "p\<lparr>ps_rd := ?rd', ps_heap := ?h', ps_call_index := ps_call_index p + 1, ps_fcall_prev := ?n\<rparr>"
  note inv = parser_invD [OF assms(1)] and fr = fresh_next [OF parser_invD(3) [OF assms(1)]]
  have i: "parser_inv p" by (rule assms(1))
  have nx: "?n \<notin> set (rd_calls ?rd)" using inv(4) fr by (auto simp: inv_calls_def)
  have idx: "ps_call_index p = int (length (rd_calls ?rd)) + 1" using i by (simp add: parser_inv_def Let_def)
  have d: "dispatch_packet pk p hs FUNCTION_CALL (call_payload c x t @ rest) = Some (True, ?p)" for hs rest
    using assms(2)
    by (simp add: dispatch_packet_def read_call_packet unat_ucast_up idx written_call_def Let_def)
  have old: "call_abs ?h' d = call_abs ?h d" if "d \<in> set (rd_calls ?rd)" for d
    using that nx by (auto simp: call_abs_def call_frames_def)
  have new: "call_abs ?h' ?n = \<lparr>ac_data = written_call (length (rd_calls ?rd)) c x t,
      ac_resource = map_option rr_data (rh_resources ?h ?r), ac_args = None, ac_frames = None\<rparr>"
    using fr by (simp add: call_abs_def call_frames_def written_call_def)
  have "rd_inv ?rd' ?h'" using inv(1) by (rule inv_add_call) simp
  moreover have "call_res_ok ?h' d" if "call_res_ok ?h d" for d
    using that fr(2) unfolding call_res_ok_def by auto
  moreover have "call_res_ok ?h' ?n" using i by (auto simp: call_res_ok_def parser_inv_def Let_def)
  ultimately have "parser_inv ?p"
    using i fr(1) by (simp add: parser_inv_def Let_def)
  moreover have "trace_abs ?p = trace_add pk (trace_abs p) (P_Call c x t)"
    using old new fr(1) by (simp add: trace_abs_def Let_def)
  ultimately show ?thesis using d by (auto simp: refines_def)
qed

text \<open>Changing the last of a list of distinct calls.\<close>

lemma update_last_map:
  assumes "distinct cs" "cs \<noteq> []" "\<forall>c\<in>set cs. c \<noteq> last cs \<longrightarrow> f c = g c" "f (last cs) = u (g (last cs))"
  shows "map f cs = update_last u (map g cs)"
proof -
  obtain ds d where cs: "cs = ds @ [d]" using assms(2) by (metis rev_exhaust)
  have "\<forall>c\<in>set ds. f c = g c" using assms(1,3) cs by auto
  with cs assms(4) show ?thesis by (simp add: update_last_def)
qed

lemma refines_args:
  assumes "parser_inv p" "packet_readable (P_Args as)"
  shows "refines pk p (P_Args as)"
proof (cases "ps_fcall_prev p = NULL")
  case True
  then show ?thesis using assms by (auto simp: refines_def dispatch_packet_def Let_def trace_abs_def)
next
  case False
  let ?h = "ps_heap p" and ?rd = "ps_rd p" and ?c = "ps_fcall_prev p"
  obtain call where c: "rd_calls ?rd \<noteq> []" "?c = last (rd_calls ?rd)" "rh_fcalls ?h ?c = Some call" "call_trace call = NULL"
    using assms(1) False by (auto simp: parser_inv_def Let_def)
  let ?h' = "?h\<lparr>rh_fcalls := (rh_fcalls ?h)(?c \<mapsto> call\<lparr>call_args := Some (written_args as)\<rparr>)\<rparr>"
  let ?p = "p\<lparr>ps_heap := ?h'\<rparr>"
  have d: "dispatch_packet pk p hs FUNCTION_ARGS (args_payload as @ rest) = Some (True, ?p)" for hs rest
    using assms(2) False c by (simp add: dispatch_packet_def read_args_packet written_args_def Let_def)
  have frames: "call_frames ?h' d = call_frames ?h d" for d using c by (simp add: call_frames_def)
  have "map (call_abs ?h') (rd_calls ?rd) =
      update_last (\<lambda>c. c\<lparr>ac_args := Some (written_args as)\<rparr>) (map (call_abs ?h) (rd_calls ?rd))"
    using parser_invD(4) [OF assms(1)] c frames by (intro update_last_map) (auto simp: call_abs_def inv_calls_def Let_def)
  then have "trace_abs ?p = trace_add pk (trace_abs p) (P_Args as)"
    using False by (simp add: trace_abs_def Let_def)
  moreover have "rd_inv ?rd ?h'" using parser_invD(1) [OF assms(1)] c(3) by (rule inv_set_args)
  moreover have "call_res_ok ?h' d" if "call_res_ok ?h d" for d
    using that c(3) unfolding call_res_ok_def by auto
  ultimately have "trace_abs ?p = trace_add pk (trace_abs p) (P_Args as)" "parser_inv ?p"
    using assms(1) c by (simp_all add: parser_inv_def Let_def)
  then show ?thesis using d by (auto simp: refines_def)
qed

lemma refines_trace:
  assumes "parser_inv p" "packet_readable (P_Trace t)"
  shows "refines pk p (P_Trace t)"
proof -
  let ?h = "ps_heap p" and ?rd = "ps_rd p" and ?c = "ps_fcall_prev p"
  let ?x = "rh_next ?h"
  let ?t = "\<lparr>ft_bucket = None, ft_ref_count = 0, ft_nframes = of_nat (length (written_frames t)),
      ft_frames = written_frames t, ft_names = None, ft_calls = []\<rparr>"
  define h' where "h' = ?h\<lparr>rh_next := ?x + 1, rh_ftraces := (rh_ftraces ?h)(?x \<mapsto> ?t)\<rparr>"
  note inv = parser_invD [OF assms(1)] and fr = fresh_next [OF parser_invD(3) [OF assms(1)]]
  have small: "length (written_frames t) < 2147483648"
    using assms(2) by (auto simp: written_frames_def split: option.split)
  then have nf: "unat (of_nat (length (written_frames t)) :: u64) = length (written_frames t)" by (simp add: unat_of_nat)
  have new: "new_ftrace ?t" "ft_used ?t = written_frames t" using nf by (simp_all add: new_ftrace_def ft_wf_def ft_used_def)
  have read: "read_packet_BT (trace_payload t @ rest) = Some ?t" for rest
    using assms(2) by (simp add: read_trace_written written_frames_def)
  have inv': "rd_inv ?rd h'" "rd_unique ?rd h'" "\<forall>b. ?x \<notin> set (a_bucket (rd_ftraces ?rd) b)"
    using inv_add_ftrace [OF inv(1,2)] by (auto simp: h'_def)
  have frames: "call_frames h' d = call_frames ?h d" if "d \<in> set (rd_calls ?rd)" for d
    unfolding h'_def using inv(1) that by (rule call_frames_add_ftrace)
  have same: "rh_fcalls h' = rh_fcalls ?h" "rh_resources h' = rh_resources ?h" by (simp_all add: h'_def)
  show ?thesis
  proof (cases "?c = NULL")
    case True
    let ?p = "p\<lparr>ps_heap := h', ps_fcall_prev := NULL\<rparr>"
    have "dispatch_packet pk p hs BACKTRACE (trace_payload t @ rest) = Some (True, ?p)" for hs rest
      using True by (simp add: dispatch_packet_def read Let_def h'_def)
    moreover have "parser_inv ?p" using assms(1) inv' same True by (simp add: parser_inv_def Let_def call_res_ok_def)
    moreover have "trace_abs ?p = trace_add pk (trace_abs p) (P_Trace t)"
      using True frames same by (simp add: trace_abs_def Let_def call_abs_def)
    ultimately show ?thesis by (auto simp: refines_def)
  next
    case False
    obtain call where c: "rd_calls ?rd \<noteq> []" "?c = last (rd_calls ?rd)" "rh_fcalls ?h ?c = Some call" "call_trace call = NULL"
      using assms(1) False by (auto simp: parser_inv_def Let_def)
    have "rh_ftraces h' ?x = Some ?t" by (simp add: h'_def)
    from rd_fcall_set_ftrace_ok [OF inv'(1,2) this new(1) fr(1) inv'(3), of ?c call] c same
    obtain rd2 h2 call2 where s: "rd_fcall_set_ftrace ?rd h' ?c ?x = Some (rd2, h2)" "rd_inv rd2 h2" "rd_unique rd2 h2"
      "rd2 = ?rd\<lparr>rd_ftraces := rd_ftraces rd2\<rparr>" "rh_resources h2 = rh_resources h'"
      "rh_fcalls h2 ?c = Some call2" "call_data call2 = call_data call" "call_args call2 = call_args call"
      "call_frames h2 ?c = Some (written_frames t)"
      "\<forall>d\<in>set (rd_calls ?rd). d \<noteq> ?c \<longrightarrow> rh_fcalls h2 d = rh_fcalls h' d \<and> call_frames h2 d = call_frames h' d"
      unfolding new(2) by auto
    let ?p = "p\<lparr>ps_rd := rd2, ps_heap := h2, ps_fcall_prev := NULL\<rparr>"
    have d: "dispatch_packet pk p hs BACKTRACE (trace_payload t @ rest) = Some (True, ?p)" for hs rest
      using False s(1) by (simp add: dispatch_packet_def read Let_def h'_def)
    obtain tb where rd2: "rd2 = ?rd\<lparr>rd_ftraces := tb\<rparr>" using s(4) by blast
    have "map (call_abs h2) (rd_calls ?rd) =
        update_last (\<lambda>c. c\<lparr>ac_frames := Some (written_frames t)\<rparr>) (map (call_abs ?h) (rd_calls ?rd))"
      using inv(4) c frames same s(5-10) by (intro update_last_map) (auto simp: call_abs_def inv_calls_def Let_def)
    then have "trace_abs ?p = trace_add pk (trace_abs p) (P_Trace t)"
      using False same s(5) by (simp add: trace_abs_def Let_def rd2)
    moreover have "call_res_ok h2 d" if "d \<in> set (rd_calls ?rd)" "call_res_ok ?h d" for d
      using that s(5-8,10) same c(3) unfolding call_res_ok_def by (cases "d = ?c") auto
    then have "parser_inv ?p" using assms(1) s(2,3,5) same rd2 by (simp add: parser_inv_def Let_def)
    ultimately show ?thesis using d rd2 by (auto simp: refines_def)
  qed
qed

theorem dispatch_refines:
  assumes "parser_inv p" "packet_readable q"
  shows "refines pk p q"
  using assms refines_plain refines_process refines_resource refines_call refines_args refines_trace
  by (cases q) auto

section \<open>The reader as a consumer of packets\<close>

definition parse_ok :: "parser \<Rightarrow> trace_packet \<Rightarrow> bool" where
  "parse_ok p q \<longleftrightarrow> parser_inv p \<and> packet_readable q \<and> small_packet q"

definition parse_app :: "cstring \<Rightarrow> parser \<Rightarrow> trace_packet \<Rightarrow> parser" where
  "parse_app pk p q = snd (the (dispatch_packet pk p (the (rd_hshake (ps_rd p))) (packet_type q) (payload q)))"

lemma parse_app_ok:
  assumes "parser_inv p" "packet_readable q"
  shows "dispatch_packet pk p (the (rd_hshake (ps_rd p))) (packet_type q) (payload q @ rest) = Some (True, parse_app pk p q)"
    "parser_inv (parse_app pk p q)" "rd_hshake (ps_rd (parse_app pk p q)) = rd_hshake (ps_rd p)"
    "trace_abs (parse_app pk p q) = trace_add pk (trace_abs p) q"
proof -
  obtain p' where p': "\<And>rest. dispatch_packet pk p (the (rd_hshake (ps_rd p))) (packet_type q) (payload q @ rest) = Some (True, p')"
      "parser_inv p'" "rd_hshake (ps_rd p') = rd_hshake (ps_rd p)" "trace_abs p' = trace_add pk (trace_abs p) q"
    using dispatch_refines [OF assms, of pk] by (auto simp: refines_def)
  then have "parse_app pk p q = p'" using p'(1) [of "[]"] by (simp add: parse_app_def)
  then show "dispatch_packet pk p (the (rd_hshake (ps_rd p))) (packet_type q) (payload q @ rest) = Some (True, parse_app pk p q)"
    "parser_inv (parse_app pk p q)" "rd_hshake (ps_rd (parse_app pk p q)) = rd_hshake (ps_rd p)"
    "trace_abs (parse_app pk p q) = trace_add pk (trace_abs p) q"
    using p' by simp_all
qed

lemma packet_first_byte: "(ucast (packet_type q) :: byte) \<noteq> HS_ID"
  by (cases q) simp_all

lemma sint_packet_length: "n \<le> 4088 \<Longrightarrow> sint (of_nat n + of_nat (4 + 4) :: u32) = int n + 8"
proof -
  assume n: "n \<le> 4088"
  have eq: "(of_nat n + of_nat (4 + 4) :: u32) = word_of_int (int n + 8)" by simp
  have "signed_take_bit 31 (int n + 8) = int n + 8" using n by (intro signed_take_bit_int_eq_self) simp_all
  then show ?thesis unfolding eq sint_sbintrunc' by simp
qed

text \<open>Reading one packet from the buffer, complete or not.\<close>

lemma read_generic_packet_ok:
  assumes "parser_inv p" "packet_readable q" "small_packet q"
  shows "read_generic_packet pk p (encode q @ rest) = Some (int (length (encode q)), parse_app pk p q)"
proof -
  obtain hs where hs: "rd_hshake (ps_rd p) = Some hs" "2 \<le> hs_vmajor hs"
    using assms(1) by (auto simp: parser_inv_def Let_def)
  have len: "length (payload q) \<le> 4088" using assms(3) by (rule small_payload)
  note h = packet_header [of "encode q @ rest" "packet_type q" "payload q" rest]
  have "drop 8 (encode q @ rest) = payload q @ rest" by (simp add: encode_def packet_def)
  moreover have "sint (of_nat (length (payload q)) + of_nat (4 + 4) :: u32) = int (length (payload q)) + 8"
    using len by (rule sint_packet_length)
  ultimately show ?thesis
    using h hs version_2 [OF hs(2)] packet_first_byte [of q] parse_app_ok(1) [OF assms(1,2), of pk rest]
    unfolding read_generic_packet_def by (simp add: encode_def)
qed

lemma read_generic_packet_part:
  assumes "parser_inv p" "small_packet q" "strict_prefix part (encode q)"
  shows "read_generic_packet pk p part = Some (-1, p)"
proof (cases "length part < 8")
  case True
  then show ?thesis by (simp add: read_generic_packet_def PACKET_INCOMPLETE_def)
next
  case False
  obtain hs where hs: "rd_hshake (ps_rd p) = Some hs" "2 \<le> hs_vmajor hs"
    using assms(1) by (auto simp: parser_inv_def Let_def)
  have len: "length (payload q) \<le> 4088" using assms(2) by (rule small_payload)
  have "length part < length (encode q)" using assms(3) by (rule prefix_length_less)
  then have short: "length part < 8 + length (payload q)" by (simp add: encode_def)
  have "sint (of_nat (length (payload q)) + of_nat (4 + 4) :: u32) = int (length (payload q)) + 8"
    using len by (rule sint_packet_length)
  moreover note packet_header [of part "packet_type q" "payload q" "[]"]
  ultimately show ?thesis
    using False short assms(3) hs version_2 [OF hs(2)] packet_first_byte [of q]
    unfolding read_generic_packet_def by (simp add: encode_def PACKET_INCOMPLETE_def)
qed

interpretation pb: packet_reader "read_generic_packet pk" encode parse_ok "parse_app pk" "parse_packets pk" "read_loop pk" Some
  "2 * BUFFER_SIZE" for pk
proof (unfold_locales, goal_cases)
  case (1 p q rest)
  then show ?case by (simp add: parse_ok_def read_generic_packet_ok)
next
  case (2 p q part)
  then show ?case using read_generic_packet_part by (auto simp: parse_ok_def)
next
  case (3 p)
  then show ?case by (simp add: read_generic_packet_def PACKET_INCOMPLETE_def)
next
  case (5 p data)
  then show ?case by (subst parse_packets.simps) simp
qed (simp_all add: PACKET_UNKNOWN_def)

lemma parse_all:
  assumes "parser_inv p" "\<forall>q\<in>set qs. packet_readable q \<and> small_packet q"
  shows "all_ok parse_ok (parse_app pk) p qs \<and> parser_inv (foldl (parse_app pk) p qs) \<and>
    trace_abs (foldl (parse_app pk) p qs) = foldl (trace_add pk) (trace_abs p) qs"
  using assms
proof (induction qs arbitrary: p)
  case (Cons q qs)
  then show ?case using parse_app_ok [of p q pk] by (simp add: parse_ok_def)
qed simp

text \<open>
  Any stream of readable packets, cut in any way into chunks of at most the read size, is read
  completely, and the trace data represents the abstract trace of the packets.
\<close>

theorem read_loop_refines:
  assumes "parser_inv p" "\<forall>q\<in>set qs. packet_readable q \<and> small_packet q"
    "data @ concat chunks = encode_all qs" "\<forall>c\<in>set chunks. c \<noteq> [] \<and> length c \<le> BUFFER_SIZE"
  shows "\<exists>p'. read_loop pk p data chunks = Some p' \<and> parser_inv p' \<and> trace_abs p' = foldl (trace_add pk) (trace_abs p) qs"
proof -
  have "read_loop pk p data chunks = Some (foldl (parse_app pk) p qs)"
    using parse_all [OF assms(1,2), of pk] assms(2-4)
    by (intro pb.loop_stream [where k = PIPE_BUFFER_SIZE])
      (auto simp: encode_all_def small_packet_def BUFFER_SIZE_def PIPE_BUFFER_SIZE_def)
  then show ?thesis using parse_all [OF assms(1,2), of pk] by simp
qed

section \<open>Reading a file\<close>

definition handshake_size :: "cstring \<Rightarrow> nat" where
  "handshake_size arch = ALIGN_SIZE (7 + length arch)"

text \<open>The handshake with its padding, whose bytes are not specified.\<close>

definition is_handshake :: "cstring \<Rightarrow> byte list \<Rightarrow> bool" where
  "is_handshake arch bs \<longleftrightarrow> is_cstring arch \<and> length arch < 240 \<and>
     (\<exists>pad. bs = handshake_bytes VERSION_MAJOR VERSION_MINOR arch @ pad \<and> length bs = handshake_size arch)"

definition expected_hshake :: "cstring \<Rightarrow> rd_hshake" where
  "expected_hshake arch = \<lparr>hs_vmajor = VERSION_MAJOR, hs_vminor = VERSION_MINOR, hs_arch = arch,
     hs_endianness = HS_LITTLE_ENDIAN, hs_pointer_size = 8\<rparr>"

lemma unat_byte: "n < 256 \<Longrightarrow> unat (of_nat n :: byte) = n"
  by (simp add: unat_of_nat)

lemma read_handshake_ok:
  assumes "is_cstring arch" "length arch < 240"
  shows "read_handshake_packet ([VERSION_MAJOR, VERSION_MINOR, of_nat (length arch)] @ arch @ [HS_LITTLE_ENDIAN, 8] @ rest) =
    Some (expected_hshake arch)"
  using assms unat_byte [of "length arch"]
  by (simp add: read_handshake_packet_def read_byte_def fetch_def expected_hshake_def cstr_id)

lemma parser_init_inv: "parser_inv ((parser_init junk)\<lparr>ps_rd := rd_create\<lparr>rd_hshake := Some (expected_hshake arch)\<rparr>\<rparr>)"
proof -
  have "rd_inv (rd_create\<lparr>rd_hshake := Some (expected_hshake arch)\<rparr>) rheap_init"
    using rd_create_inv by (simp add: rd_inv_def)
  then show ?thesis using rd_create_unique
    by (simp add: parser_inv_def Let_def parser_init_def expected_hshake_def) (simp add: rd_create_def rheap_init_def)
qed

theorem read_binary_data_ok:
  assumes "is_handshake arch bs" "\<forall>q\<in>set qs. packet_readable q \<and> small_packet q"
    "concat (c # chunks) = tl bs @ encode_all qs" "length bs \<le> length c + 1" "\<forall>c\<in>set (c # chunks). c \<noteq> [] \<and> length c \<le> BUFFER_SIZE"
  shows "\<exists>p'. read_binary_data pk (parser_init junk) (c # chunks) = Some (Inr p') \<and> parser_inv p' \<and>
    trace_abs p' = foldl (trace_add pk) empty_trace qs"
proof -
  let ?hs = "expected_hshake arch"
  obtain pad where bs: "bs = handshake_bytes VERSION_MAJOR VERSION_MINOR arch @ pad" "length bs = handshake_size arch"
    and arch: "is_cstring arch" "length arch < 240" using assms(1) by (auto simp: is_handshake_def)
  define body where "body = [VERSION_MAJOR, VERSION_MINOR, of_nat (length arch)] @ arch @ [HS_LITTLE_ENDIAN, 8] @ pad"
  let ?n = "of_nat (handshake_size arch - 2) :: byte"
  have tl: "tl bs = ?n # body" using bs(1) by (simp add: body_def handshake_bytes_def handshake_size_def)
  have n: "unat ?n = handshake_size arch - 2"
    using arch(2) ALIGN_SIZE_aligned(3) [of "7 + length arch"] by (intro unat_byte) (simp add: handshake_size_def)
  have "7 + length arch \<le> handshake_size arch" using ALIGN_SIZE_aligned(2) by (simp add: handshake_size_def)
  then have len: "length body = handshake_size arch - 2" using tl bs(2) by (cases bs) auto
  have "length (?n # body) \<le> length c" using assms(4) tl len bs(2) \<open>7 + length arch \<le> handshake_size arch\<close> by simp
  moreover have "c @ concat chunks = (?n # body) @ encode_all qs" using assms(3) tl by simp
  ultimately obtain rest where c: "c = (?n # body) @ rest" "rest @ concat chunks = encode_all qs"
    by (metis append_eq_append_conv_if append_eq_conv_conj append_assoc same_append_eq take_all)
  have hs: "read_handshake_packet (body @ rest) = Some ?hs"
    using read_handshake_ok [OF arch, of "pad @ rest"] by (simp add: body_def)
  let ?p = "(parser_init junk)\<lparr>ps_rd := rd_create\<lparr>rd_hshake := Some ?hs\<rparr>\<rparr>"
  from read_loop_refines [OF parser_init_inv [where junk = junk and arch = arch] assms(2) c(2), of pk] assms(5)
  obtain p' where p': "read_loop pk ?p rest chunks = Some p'" "parser_inv p'"
    "trace_abs p' = foldl (trace_add pk) (trace_abs ?p) qs" by auto
  have "trace_abs ?p = empty_trace"
    by (simp add: trace_abs_def Let_def empty_trace_def parser_init_def rd_create_def rheap_init_def)
  moreover have "(parser_init junk)\<lparr>ps_call_index := 1, ps_rd := rd_create\<lparr>rd_hshake := Some ?hs\<rparr>\<rparr> = ?p"
    by (simp add: parser_init_def)
  moreover have "ps_rd (parser_init junk) = rd_create" by (simp add: parser_init_def)
  ultimately show ?thesis
    using p' hs c(1) n len by (simp add: read_binary_data_def expected_hshake_def Let_def)
qed

end
