(* ===== verification/Listener_Refine.thy ===== *)
theory Listener_Refine
  imports Listener Parse_Refine
begin

text \<open>
  What the listener forwards: every packet in its order, with the time of the trace filled in, and
  in the place of a library packet the packets of the memory mappings that are new.
\<close>

section \<open>Output\<close>

definition listener_stream :: "listener \<Rightarrow> byte list" where
  "listener_stream s = ls_out s @ ls_buffer s"

definition listener_ready :: "listener \<Rightarrow> bool" where
  "listener_ready s \<longleftrightarrow> \<not> ls_broken s \<and> length (ls_buffer s) < LISTENER_BUFFER_SIZE \<and> (ls_unbuffered s \<longrightarrow> ls_buffer s = [])"

definition listener_up :: "listener \<Rightarrow> bool" where
  "listener_up s \<longleftrightarrow> listener_ready s \<and> 0 < ls_fd_out s"

lemma write_data_ok:
  assumes "listener_up s" "length data \<le> LISTENER_BUFFER_SIZE"
  shows "\<exists>s'. write_data data s = Some (int (length data), s') \<and> listener_up s' \<and>
    listener_stream s' = listener_stream s @ data \<and> s' = s\<lparr>ls_buffer := ls_buffer s', ls_out := ls_out s'\<rparr>"
  using assms by (auto simp: write_data_def flush_data_def listener_up_def listener_ready_def listener_stream_def Let_def
      LISTENER_BUFFER_SIZE_def)

section \<open>Memory mappings\<close>

definition map_packet :: "sp_rtrace_mmap \<Rightarrow> trace_packet" where
  "map_packet m = P_Map (mm_from m) (mm_to m) (mm_module m)"

lemma encode_map_packet: "encode (map_packet m) = mmap_packet m"
  by (simp add: encode_def map_packet_def mmap_packet_def)

text \<open>The mappings that are written for the lines of a maps file, and the ones registered then.\<close>

fun new_mmaps :: "sp_rtrace_mmap list \<Rightarrow> sp_rtrace_mmap list \<Rightarrow> sp_rtrace_mmap list \<times> sp_rtrace_mmap list" where
  "new_mmaps ms [] = ([], ms)"
| "new_mmaps ms (x # xs) =
     (let old = find (\<lambda>y. range_compare y x = 0) ms
      in if old = Some x then new_mmaps ms xs
         else (let (es, ms') = new_mmaps ((case old of None \<Rightarrow> ms | Some y \<Rightarrow> remove1 y ms) @ [x]) xs in (x # es, ms')))"

definition lines_mmaps :: "cstring list \<Rightarrow> sp_rtrace_mmap list" where
  "lines_mmaps lns = List.map_filter line_mmap lns"

definition short_mmap :: "sp_rtrace_mmap \<Rightarrow> bool" where
  "short_mmap m \<longleftrightarrow> is_cstring (mm_module m) \<and> length (mm_module m) \<le> 4000"

lemma short_map_packet: "short_mmap m \<Longrightarrow> small_packet (map_packet m) \<and> packet_readable (map_packet m)"
  using pad_zeros_aligned(2) [of "2 + length (mm_module m)"]
  by (auto simp: short_mmap_def small_packet_def map_packet_def encode_def PIPE_BUFFER_SIZE_def write_string_def Let_def
      fits_string_def stored_text_def)

lemma scan_lines_ok:
  assumes "listener_up s" "\<forall>m\<in>set (lines_mmaps lns). short_mmap m"
  shows "\<exists>s'. scan_lines lns s = Some (0, s') \<and> listener_up s' \<and>
    listener_stream s' = listener_stream s @ encode_all (map map_packet (fst (new_mmaps (ls_mmaps s) (lines_mmaps lns)))) \<and>
    s' = s\<lparr>ls_buffer := ls_buffer s', ls_out := ls_out s', ls_mmaps := snd (new_mmaps (ls_mmaps s) (lines_mmaps lns))\<rparr>"
  using assms
proof (induction lns arbitrary: s)
  case (Cons l lns)
  show ?case
  proof (cases "line_mmap l")
    case None
    then show ?thesis using Cons by (simp add: lines_mmaps_def map_filter_simps)
  next
    case (Some m)
    let ?old = "find (\<lambda>y. range_compare y m = 0) (ls_mmaps s)"
    have lm: "lines_mmaps (l # lns) = m # lines_mmaps lns" using Some by (simp add: lines_mmaps_def map_filter_simps)
    show ?thesis
    proof (cases "?old = Some m")
      case True
      then show ?thesis using Cons Some lm by (simp add: register_mmap_def Let_def)
    next
      case False
      let ?ms = "(case ?old of None \<Rightarrow> ls_mmaps s | Some y \<Rightarrow> remove1 y (ls_mmaps s)) @ [m]"
      have up: "listener_up (s\<lparr>ls_mmaps := ?ms\<rparr>)" using Cons.prems(1) by (simp add: listener_up_def listener_ready_def)
      have "length (mmap_packet m) \<le> LISTENER_BUFFER_SIZE"
        using short_map_packet [of m] Cons.prems(2) lm
        by (simp add: small_packet_def encode_map_packet PIPE_BUFFER_SIZE_def LISTENER_BUFFER_SIZE_def)
      from write_data_ok [OF up this] obtain t where t: "write_data (mmap_packet m) (s\<lparr>ls_mmaps := ?ms\<rparr>) =
          Some (int (length (mmap_packet m)), t)" "listener_up t"
          "listener_stream t = listener_stream s @ mmap_packet m" "t = s\<lparr>ls_mmaps := ?ms, ls_buffer := ls_buffer t, ls_out := ls_out t\<rparr>"
        by (auto simp: listener_stream_def)
      have ms: "ls_mmaps t = ?ms" by (subst t(4)) simp
      from Cons.IH [OF t(2)] Cons.prems(2) lm obtain s' where s': "scan_lines lns t = Some (0, s')" "listener_up s'"
        "listener_stream s' = listener_stream t @ encode_all (map map_packet (fst (new_mmaps ?ms (lines_mmaps lns))))"
        "s' = t\<lparr>ls_buffer := ls_buffer s', ls_out := ls_out s', ls_mmaps := snd (new_mmaps ?ms (lines_mmaps lns))\<rparr>"
        unfolding ms by auto
      have "scan_lines (l # lns) s = Some (0, s')"
        using Some False t(1) s'(1) by (simp add: register_mmap_def Let_def)
      moreover have "s' = s\<lparr>ls_buffer := ls_buffer s', ls_out := ls_out s', ls_mmaps := snd (new_mmaps ?ms (lines_mmaps lns))\<rparr>"
        using s'(4) t(4) by (cases s; cases t; cases s') simp
      moreover have "new_mmaps (ls_mmaps s) (lines_mmaps (l # lns)) =
          (m # fst (new_mmaps ?ms (lines_mmaps lns)), snd (new_mmaps ?ms (lines_mmaps lns)))"
        using False by (simp add: lm Let_def case_prod_beta)
      ultimately show ?thesis using s'(2,3) t(3) by (simp add: encode_map_packet)
    qed
  qed
qed (simp add: lines_mmaps_def map_filter_simps)

section \<open>Forwarding\<close>

definition env_maps :: "listener_env \<Rightarrow> u32 \<Rightarrow> sp_rtrace_mmap list" where
  "env_maps env pid = (case le_maps env pid of None \<Rightarrow> [] | Some lns \<Rightarrow> lines_mmaps lns)"

definition good_envs :: "(nat \<Rightarrow> listener_env) \<Rightarrow> bool" where
  "good_envs envs \<longleftrightarrow> (\<forall>k pid. \<forall>m\<in>set (env_maps (envs k) pid). short_mmap m)"

fun stamped :: "u32 \<times> u32 \<Rightarrow> trace_packet \<Rightarrow> trace_packet" where
  "stamped time (P_Process pid sec usec depth name) =
     (if sec = 0 then P_Process pid (fst time) (snd time) depth name else P_Process pid sec usec depth name)"
| "stamped time q = q"

text \<open>The packets in the place of a packet.\<close>

fun forwarded :: "listener_env \<Rightarrow> u32 \<Rightarrow> sp_rtrace_mmap list \<Rightarrow> trace_packet \<Rightarrow> trace_packet list" where
  "forwarded env pid ms (P_Library l) = map map_packet (fst (new_mmaps ms (env_maps env pid)))"
| "forwarded env pid ms q = [stamped (le_time env) q]"

text \<open>The process and the registered mappings after a packet.\<close>

fun next_pid :: "u32 \<Rightarrow> trace_packet \<Rightarrow> u32" where
  "next_pid pid (P_Process p sec usec depth name) = p"
| "next_pid pid q = pid"

fun next_mmaps :: "listener_env \<Rightarrow> u32 \<Rightarrow> sp_rtrace_mmap list \<Rightarrow> trace_packet \<Rightarrow> sp_rtrace_mmap list" where
  "next_mmaps env pid ms (P_Library l) = snd (new_mmaps ms (env_maps env pid))"
| "next_mmaps env pid ms q = ms"

fun relay :: "(nat \<Rightarrow> listener_env) \<Rightarrow> nat \<Rightarrow> u32 \<Rightarrow> sp_rtrace_mmap list \<Rightarrow> trace_packet list \<Rightarrow> trace_packet list" where
  "relay envs k pid ms [] = []"
| "relay envs k pid ms (q # qs) =
     forwarded (envs k) pid ms q @ relay envs (k + 1) (next_pid pid q) (next_mmaps (envs k) pid ms q) qs"

fun is_settings :: "trace_packet \<Rightarrow> bool" where
  "is_settings (P_Settings d p) = True"
| "is_settings q = False"

definition listen_app :: "(nat \<Rightarrow> listener_env) \<Rightarrow> listener \<Rightarrow> trace_packet \<Rightarrow> listener" where
  "listen_app envs s q = snd (the (process_packet envs s (encode q)))"

lemma packet_len_word: "n \<le> 4088 \<Longrightarrow> unat (of_nat n + of_nat (4 + 4) :: u32) = n + 8"
proof -
  assume n: "n \<le> 4088"
  have eq: "(of_nat n + of_nat (4 + 4) :: u32) = of_nat (n + 8)" by simp
  show ?thesis unfolding eq using n by (subst unat_of_nat) simp
qed

lemma process_packet_data:
  assumes "8 \<le> length data" "read_dword data = Some (ty, 4)" "read_dword (drop 4 data) = Some (w, 4)"
    "unat (w + of_nat (4 + 4)) = len" "len \<le> length data"
  shows "process_packet envs s data =
    (let env = envs (ls_count s); s = s\<lparr>ls_count := ls_count s + 1\<rparr>
     in if ty = OUTPUT_SETTINGS then do {
          (rc, s) \<leftarrow> connect_output env (drop 8 data) s;
          if rc < 0 then Some (-1, s) else do { (_, s) \<leftarrow> write_data (take len data) s; Some (int len, s) } }
        else if ty = PROCESS_INFO then do {
          (data, pid) \<leftarrow> stamp_process env data;
          (_, s) \<leftarrow> write_data (take len data) (s\<lparr>ls_pid := pid\<rparr>);
          Some (int len, s) }
        else if ty = NEW_LIBRARY then do {
          _ \<leftarrow> read_path (drop 8 data);
          (_, s) \<leftarrow> scan_mmap_data env s;
          Some (int len, s) }
        else do { (_, s) \<leftarrow> write_data (take len data) s; Some (int len, s) })"
proof -
  have len: "unat (w + 8) = len" "uint (w + 8) = int len" using assms(4) uint_nat [of "w + 8"] by simp_all
  show ?thesis using assms(1,5) unfolding process_packet_def assms(2) by (simp add: assms(3) len Let_def cong: if_cong)
qed

lemma process_packet_head:
  assumes "small_packet q"
  shows "process_packet envs s (encode q @ rest) =
    (let env = envs (ls_count s); s = s\<lparr>ls_count := ls_count s + 1\<rparr>; len = length (encode q)
     in if is_settings q then do {
          (rc, s) \<leftarrow> connect_output env (payload q @ rest) s;
          if rc < 0 then Some (-1, s) else do { (_, s) \<leftarrow> write_data (encode q) s; Some (int len, s) } }
        else if packet_type q = PROCESS_INFO then do {
          (data, pid) \<leftarrow> stamp_process env (encode q @ rest);
          (_, s) \<leftarrow> write_data (take len data) (s\<lparr>ls_pid := pid\<rparr>);
          Some (int len, s) }
        else if packet_type q = NEW_LIBRARY then do {
          _ \<leftarrow> read_path (payload q @ rest);
          (_, s) \<leftarrow> scan_mmap_data env s;
          Some (int len, s) }
        else do { (_, s) \<leftarrow> write_data (encode q) s; Some (int len, s) })"
proof -
  note h = packet_header [of "encode q @ rest" "packet_type q" "payload q" rest]
  have len: "unat (of_nat (length (payload q)) + of_nat (4 + 4) :: u32) = length (encode q)"
    using packet_len_word [OF small_payload [OF assms]] by (simp add: encode_def)
  have p: "drop 8 (encode q) = payload q" by (simp add: encode_def packet_def)
  have st: "packet_type q = OUTPUT_SETTINGS \<longleftrightarrow> is_settings q" by (cases q) auto
  have "8 \<le> length (encode q)" by (simp add: encode_def)
  moreover have hd: "read_dword (encode q @ rest) = Some (packet_type q, 4)"
    "read_dword (drop 4 (encode q @ rest)) = Some (of_nat (length (payload q)), 4)"
    using h by (simp_all add: encode_def)
  ultimately show ?thesis
    by (subst process_packet_data [OF _ hd len]) (simp_all add: Let_def p st [symmetric] cong: if_cong)
qed

lemma process_packet_part:
  assumes "small_packet q" "strict_prefix part (encode q)"
  shows "process_packet envs s part = Some (-1, s)"
proof (cases "length part < 8")
  case True
  then show ?thesis by (simp add: process_packet_def)
next
  case False
  have "length part < length (encode q)" using assms(2) by (rule prefix_length_less)
  moreover have "unat (of_nat (length (payload q)) + of_nat (4 + 4) :: u32) = length (encode q)"
    using packet_len_word [OF small_payload [OF assms(1)]] by (simp add: encode_def)
  moreover note packet_header [of part "packet_type q" "payload q" "[]"]
  ultimately show ?thesis using False assms(2) unfolding process_packet_def by (simp add: encode_def Let_def)
qed

lemma stamp_process_ok:
  fixes env and pid sec usec and depth and name
  defines "q \<equiv> P_Process pid sec usec depth name"
  assumes "small_packet q"
  shows "stamp_process env (encode q @ rest) = Some (encode (stamped (le_time env) q) @ rest, pid)"
    "length (encode (stamped (le_time env) q)) = length (encode q)"
proof -
  let ?w = write_dword
  define L where "L = length (payload q)"
  have e: "encode (P_Process pid a b depth name) = ?w PROCESS_INFO @ ?w (of_nat L) @ ?w pid @ ?w a @ ?w b @
      ?w (word_of_int depth) @ write_string (Some name)" for a b
    by (simp add: encode_def packet_def L_def q_def)
  define D where "D a b = encode (P_Process pid a b depth name) @ rest" for a b
  have rd: "read_dword (drop 12 (D sec usec)) = Some (sec, 4)" "read_dword (drop 8 (D a b)) = Some (pid, 4)" for a b
    by (simp_all add: D_def e drop_append read_dword_write)
  have splice: "take 12 (D sec usec) @ ?w x @ ?w y @ drop 20 (D sec usec) = D x y" for x y
    by (simp add: D_def e)
  have "stamp_process env (D sec usec) =
      Some (if sec = 0 then D (fst (le_time env)) (snd (le_time env)) else D sec usec, pid)"
    unfolding stamp_process_def rd splice by (simp add: rd Let_def)
  then show "stamp_process env (encode q @ rest) = Some (encode (stamped (le_time env) q) @ rest, pid)"
    by (simp add: D_def q_def)
  show "length (encode (stamped (le_time env) q)) = length (encode q)" by (simp add: q_def e)
qed

text \<open>One packet through the connected listener.\<close>

definition listener_next :: "(nat \<Rightarrow> listener_env) \<Rightarrow> listener \<Rightarrow> trace_packet \<Rightarrow> listener \<Rightarrow> bool" where
  "listener_next envs s q s' \<longleftrightarrow> ls_count s' = ls_count s + 1 \<and> ls_pid s' = next_pid (ls_pid s) q \<and>
     ls_mmaps s' = next_mmaps (envs (ls_count s)) (ls_pid s) (ls_mmaps s) q"

definition forwards :: "(nat \<Rightarrow> listener_env) \<Rightarrow> listener \<Rightarrow> trace_packet \<Rightarrow> bool" where
  "forwards envs s q \<longleftrightarrow> (\<exists>s'. (\<forall>rest. process_packet envs s (encode q @ rest) = Some (int (length (encode q)), s')) \<and>
     listener_up s' \<and> listener_stream s' = listener_stream s @ encode_all (forwarded (envs (ls_count s)) (ls_pid s) (ls_mmaps s) q) \<and>
     listener_next envs s q s')"

lemma forwards_write:
  assumes "listener_up s" "small_packet q" "\<not> is_settings q" "packet_type q \<noteq> PROCESS_INFO" "packet_type q \<noteq> NEW_LIBRARY"
  shows "forwards envs s q"
proof -
  have "listener_up (s\<lparr>ls_count := ls_count s + 1\<rparr>)" using assms(1) by (simp add: listener_up_def listener_ready_def)
  then obtain s' where s': "write_data (encode q) (s\<lparr>ls_count := ls_count s + 1\<rparr>) = Some (int (length (encode q)), s')" "listener_up s'"
    "listener_stream s' = listener_stream (s\<lparr>ls_count := ls_count s + 1\<rparr>) @ encode q"
    "s' = s\<lparr>ls_count := ls_count s + 1, ls_buffer := ls_buffer s', ls_out := ls_out s'\<rparr>"
    using write_data_ok [of _ "encode q"] assms(2) unfolding small_packet_def PIPE_BUFFER_SIZE_def LISTENER_BUFFER_SIZE_def by metis
  have "forwarded (envs (ls_count s)) (ls_pid s) (ls_mmaps s) q = [q]" using assms(4,5) by (cases q) auto
  moreover have "listener_next envs s q s'"
    unfolding listener_next_def using assms(4,5) by (subst (1 2 3) s'(4)) (cases q; simp)
  ultimately show ?thesis using s' assms by (auto simp: forwards_def process_packet_head Let_def listener_stream_def)
qed

lemma forwards_process:
  assumes "listener_up s" "small_packet (P_Process pid sec usec depth name)"
  shows "forwards envs s (P_Process pid sec usec depth name)" (is "forwards envs s ?q")
proof -
  let ?s = "s\<lparr>ls_count := ls_count s + 1, ls_pid := pid\<rparr>" and ?e = "encode (stamped (le_time (envs (ls_count s))) ?q)"
  note st = stamp_process_ok [OF assms(2)]
  have up: "listener_up ?s" using assms(1) by (simp add: listener_up_def listener_ready_def)
  have "length ?e \<le> LISTENER_BUFFER_SIZE"
    using assms(2) st(2) by (simp add: small_packet_def PIPE_BUFFER_SIZE_def LISTENER_BUFFER_SIZE_def del: stamped.simps)
  from write_data_ok [OF up this] obtain s' where "write_data ?e ?s = Some (int (length ?e), s')" "listener_up s'"
    "listener_stream s' = listener_stream s @ ?e" "s' = ?s\<lparr>ls_buffer := ls_buffer s', ls_out := ls_out s'\<rparr>"
    by (auto simp: listener_stream_def simp del: stamped.simps)
  moreover from this(4) have "ls_count s' = ls_count ?s" "ls_pid s' = ls_pid ?s" "ls_mmaps s' = ls_mmaps ?s"
    by (cases s'; cases s; simp)+
  then have "listener_next envs s ?q s'" by (simp add: listener_next_def)
  moreover have "take (length (encode ?q)) (?e @ rest) = ?e" for rest using st(2) by (simp del: stamped.simps)
  ultimately show ?thesis using assms(2) st(1)
    by (auto simp: forwards_def process_packet_head Let_def simp del: stamped.simps)
qed

lemma forwards_library:
  assumes "listener_up s" "small_packet (P_Library l)" "packet_fits (P_Library l)" "good_envs envs"
  shows "forwards envs s (P_Library l)"
proof -
  let ?env = "envs (ls_count s)" and ?s = "s\<lparr>ls_count := ls_count s + 1\<rparr>"
  have "length l + 4 < 4096"
    using small_payload [OF assms(2)] by (simp add: write_string_def Let_def)
  then have path: "read_path (payload (P_Library l) @ rest) = Some (l, length (write_string (Some l)))" for rest
    using assms(3) by (simp add: read_path_def read_string_write PATH_MAX_def)
  have up: "listener_up ?s" using assms(1) by (simp add: listener_up_def listener_ready_def)
  have "\<exists>s'. scan_mmap_data ?env ?s = Some (0, s') \<and> listener_up s' \<and>
    listener_stream s' = listener_stream s @ encode_all (forwarded ?env (ls_pid s) (ls_mmaps s) (P_Library l)) \<and>
    listener_next envs s (P_Library l) s'"
  proof (cases "le_maps ?env (ls_pid s)")
    case None
    then show ?thesis using up by (simp add: scan_mmap_data_def env_maps_def listener_stream_def listener_next_def)
  next
    case (Some lns)
    then have "\<forall>m\<in>set (lines_mmaps lns). short_mmap m" using assms(4) unfolding good_envs_def env_maps_def
      by (metis option.case(2))
    from scan_lines_ok [OF up this] obtain s' where s': "scan_lines lns ?s = Some (0, s')" "listener_up s'"
      "listener_stream s' = listener_stream ?s @ encode_all (map map_packet (fst (new_mmaps (ls_mmaps ?s) (lines_mmaps lns))))"
      "s' = ?s\<lparr>ls_buffer := ls_buffer s', ls_out := ls_out s', ls_mmaps := snd (new_mmaps (ls_mmaps ?s) (lines_mmaps lns))\<rparr>"
      by blast
    have "listener_next envs s (P_Library l) s'"
      unfolding listener_next_def using Some by (subst (1 2 3) s'(4)) (simp add: env_maps_def)
    with s' Some show ?thesis by (simp add: scan_mmap_data_def env_maps_def listener_stream_def)
  qed
  then show ?thesis using assms(2) path by (auto simp: forwards_def process_packet_head Let_def)
qed

theorem process_packet_forwards:
  assumes "listener_up s" "small_packet q" "packet_fits q" "\<not> is_settings q" "good_envs envs"
  shows "forwards envs s q"
  using assms forwards_write [of s q] forwards_process forwards_library by (cases q) auto

text \<open>The settings packet connects the output; the handshake is written in front of it.\<close>

lemma connect_output_ok:
  assumes "listener_ready s" "length (ls_hs s) \<le> 256" "small_packet (P_Settings d p)" "packet_fits (P_Settings d p)"
    "\<forall>x y. 0 < le_connect env x y"
  shows "\<exists>s'. (\<forall>rest. connect_output env (payload (P_Settings d p) @ rest) s = Some (int (length (ls_hs s)), s')) \<and> listener_up s' \<and>
    listener_stream s' = listener_stream s @ ls_hs s \<and> ls_count s' = ls_count s \<and> ls_pid s' = ls_pid s \<and> ls_mmaps s' = ls_mmaps s \<and>
    ls_hs s' = ls_hs s"
proof -
  have "length d + 4 < 4096" "length p + 4 < 4096"
    using small_payload [OF assms(3)] by (simp_all add: write_string_def Let_def)
  then have path: "read_path (write_string (Some d) @ r) = Some (d, length (write_string (Some d)))"
    "read_path (write_string (Some p) @ r) = Some (p, length (write_string (Some p)))" for r
    using assms(4) by (simp_all add: read_path_def read_string_write PATH_MAX_def)
  define t where "t = (let s = (if d \<noteq> [] then s\<lparr>ls_output_dir := Some d\<rparr> else s);
     s = (if p \<noteq> [] then s\<lparr>ls_postproc := Some p\<rparr> else s) in s\<lparr>ls_fd_out := le_connect env (ls_output_dir s) (ls_postproc s)\<rparr>)"
  have t: "listener_up t" "listener_stream t = listener_stream s" "ls_count t = ls_count s" "ls_pid t = ls_pid s"
    "ls_mmaps t = ls_mmaps s" "ls_hs t = ls_hs s"
    using assms(1,5) by (auto simp: t_def listener_up_def listener_ready_def listener_stream_def Let_def)
  have "connect_output env (payload (P_Settings d p) @ rest) s = write_data (ls_hs t) t" for rest
    by (simp add: connect_output_def path t_def Let_def)
  moreover obtain s' where "write_data (ls_hs t) t = Some (int (length (ls_hs t)), s')" "listener_up s'"
    "listener_stream s' = listener_stream t @ ls_hs t" "s' = t\<lparr>ls_buffer := ls_buffer s', ls_out := ls_out s'\<rparr>"
    using write_data_ok [OF t(1), of "ls_hs t"] assms(2) t(6) by (auto simp: LISTENER_BUFFER_SIZE_def)
  moreover from this(4) have "ls_count s' = ls_count t" "ls_pid s' = ls_pid t" "ls_mmaps s' = ls_mmaps t" "ls_hs s' = ls_hs t"
    by (cases s'; cases t; simp)+
  ultimately show ?thesis using t by simp
qed

text \<open>The result of one packet; the settings packet carries the handshake along.\<close>

definition listen_ok :: "(nat \<Rightarrow> listener_env) \<Rightarrow> listener \<Rightarrow> trace_packet \<Rightarrow> bool" where
  "listen_ok envs s q \<longleftrightarrow> small_packet q \<and> packet_fits q \<and> good_envs envs \<and>
     (if is_settings q then listener_ready s \<and> length (ls_hs s) \<le> 256 \<and> (\<forall>k x y. 0 < le_connect (envs k) x y)
      else listener_up s)"

lemma listen_app_ok:
  assumes "listen_ok envs s q"
  shows "process_packet envs s (encode q @ rest) = Some (int (length (encode q)), listen_app envs s q)"
    "listener_up (listen_app envs s q)" "listener_next envs s q (listen_app envs s q)"
    "listener_stream (listen_app envs s q) = listener_stream s @ (if is_settings q then ls_hs s else []) @
       encode_all (forwarded (envs (ls_count s)) (ls_pid s) (ls_mmaps s) q)"
proof -
  have "\<exists>s'. (\<forall>rest. process_packet envs s (encode q @ rest) = Some (int (length (encode q)), s')) \<and> listener_up s' \<and>
     listener_stream s' = listener_stream s @ (if is_settings q then ls_hs s else []) @
       encode_all (forwarded (envs (ls_count s)) (ls_pid s) (ls_mmaps s) q) \<and> listener_next envs s q s'"
  proof (cases "is_settings q")
    case True
    then obtain d p where q: "q = P_Settings d p" by (cases q) auto
    let ?s = "s\<lparr>ls_count := ls_count s + 1\<rparr>"
    have c: "listener_ready ?s" "length (ls_hs ?s) \<le> 256" "small_packet (P_Settings d p)" "packet_fits (P_Settings d p)"
      "\<forall>x y. 0 < le_connect (envs (ls_count s)) x y"
      using assms True q by (auto simp: listen_ok_def listener_ready_def)
    obtain t where t: "\<And>rest. connect_output (envs (ls_count s)) (payload (P_Settings d p) @ rest) ?s = Some (int (length (ls_hs s)), t)"
      "listener_up t" "listener_stream t = listener_stream s @ ls_hs s" "ls_count t = ls_count s + 1" "ls_pid t = ls_pid s"
      "ls_mmaps t = ls_mmaps s"
      using connect_output_ok [OF c] by (auto simp: listener_stream_def)
    obtain s' where s': "write_data (encode q) t = Some (int (length (encode q)), s')" "listener_up s'"
      "listener_stream s' = listener_stream t @ encode q" "s' = t\<lparr>ls_buffer := ls_buffer s', ls_out := ls_out s'\<rparr>"
      using write_data_ok [OF t(2), of "encode q"] c(3) q by (auto simp: small_packet_def PIPE_BUFFER_SIZE_def LISTENER_BUFFER_SIZE_def)
    from s'(4) have "ls_count s' = ls_count t" "ls_pid s' = ls_pid t" "ls_mmaps s' = ls_mmaps t"
      by (cases s'; cases t; simp)+
    then have "listener_next envs s q s'" using t q by (simp add: listener_next_def)
    moreover have "process_packet envs s (encode q @ rest) = Some (int (length (encode q)), s')" for rest
      using c(3) q t(1) s'(1) by (simp add: process_packet_head Let_def del: payload.simps)
    ultimately show ?thesis using s' t q by auto
  next
    case False
    then have "forwards envs s q" using assms by (intro process_packet_forwards) (auto simp: listen_ok_def)
    with False show ?thesis by (auto simp: forwards_def)
  qed
  then obtain s' where s': "\<And>rest. process_packet envs s (encode q @ rest) = Some (int (length (encode q)), s')" "listener_up s'"
     "listener_stream s' = listener_stream s @ (if is_settings q then ls_hs s else []) @
       encode_all (forwarded (envs (ls_count s)) (ls_pid s) (ls_mmaps s) q)" "listener_next envs s q s'" by blast
  then have "listen_app envs s q = s'" using s'(1) [of "[]"] by (simp add: listen_app_def)
  with s' show "process_packet envs s (encode q @ rest) = Some (int (length (encode q)), listen_app envs s q)"
    "listener_up (listen_app envs s q)" "listener_next envs s q (listen_app envs s q)"
    "listener_stream (listen_app envs s q) = listener_stream s @ (if is_settings q then ls_hs s else []) @
       encode_all (forwarded (envs (ls_count s)) (ls_pid s) (ls_mmaps s) q)" by simp_all
qed

section \<open>The loop\<close>

lemma listen_loop_offset:
  "listen_loop envs s off data (map R_Data chunks) = listen_loop envs s off' data (map R_Data chunks)"
  by (cases chunks) (simp_all add: Let_def)

interpretation ls: packet_reader "process_packet envs" encode "listen_ok envs" "listen_app envs" "listen_packets envs"
  "\<lambda>s data chunks. listen_loop envs s 0 data (map R_Data chunks)" "\<lambda>s. Some (snd (flush_data s))" "2 * LISTENER_BUFFER_SIZE" for envs
proof (unfold_locales, goal_cases)
  case (1 s q rest)
  then show ?case by (rule listen_app_ok)
next
  case (2 s q part)
  then show ?case using process_packet_part by (auto simp: listen_ok_def)
next
  case (3 s)
  then show ?case by (simp add: process_packet_def)
next
  case (5 s data)
  then show ?case by (subst listen_packets.simps) simp
qed (simp_all add: Let_def)

lemma relay_all:
  assumes "listener_up s" "good_envs envs" "\<forall>q\<in>set qs. small_packet q \<and> packet_fits q \<and> \<not> is_settings q"
  shows "all_ok (listen_ok envs) (listen_app envs) s qs \<and> listener_up (foldl (listen_app envs) s qs) \<and>
    listener_stream (foldl (listen_app envs) s qs) =
      listener_stream s @ encode_all (relay envs (ls_count s) (ls_pid s) (ls_mmaps s) qs)"
  using assms
proof (induction qs arbitrary: s)
  case (Cons q qs)
  then have ok: "listen_ok envs s q" by (simp add: listen_ok_def)
  then show ?case using Cons.IH [of "listen_app envs s q"] Cons.prems listen_app_ok(2-4) [OF ok]
    by (simp add: listener_next_def)
qed simp

lemma flush_stream: "listener_up s \<Longrightarrow> ls_out (snd (flush_data s)) = listener_stream s"
  by (simp add: flush_data_def listener_stream_def listener_up_def listener_ready_def)

lemma append_split:
  assumes "xs @ ys = us @ vs" "length us \<le> length xs"
  shows "\<exists>zs. xs = us @ zs \<and> zs @ ys = vs"
proof -
  have "take (length us) (xs @ ys) = us" "drop (length us) (xs @ ys) = vs" using assms(1) by simp_all
  then have "take (length us) xs = us" "drop (length us) xs @ ys = vs" using assms(2) by simp_all
  then show ?thesis by (metis append_take_drop_id)
qed

definition listener_init :: "bool \<Rightarrow> listener" where
  "listener_init unbuffered = \<lparr>ls_fd_out = 0, ls_buffer = [], ls_hs = [], ls_mmaps = [], ls_pid = 0, ls_output_dir = None,
     ls_postproc = None, ls_unbuffered = unbuffered, ls_out = [], ls_broken = False, ls_count = 0\<rparr>"

text \<open>
  A complete session: the handshake is in the first chunk, the settings packet is the first packet.
  The output is the handshake, the settings and what is forwarded for the other packets.
\<close>

theorem process_data_ok:
  assumes hs: "is_handshake arch bs" and env: "good_envs envs" "\<forall>k x y. 0 < le_connect (envs k) x y"
    and st: "small_packet (P_Settings d p)" "packet_fits (P_Settings d p)"
    and qs: "\<forall>q\<in>set qs. small_packet q \<and> packet_fits q \<and> \<not> is_settings q"
    and ch: "concat (c # chunks) = bs @ encode_all (P_Settings d p # qs)" "length bs \<le> length c"
      "\<forall>c\<in>set (c # chunks). c \<noteq> [] \<and> length c \<le> LISTENER_BUFFER_SIZE"
  shows "\<exists>s'. process_data envs (listener_init u) (map R_Data (c # chunks)) = Some (0, s') \<and>
    ls_out s' = bs @ encode_all (P_Settings d p # relay envs 1 0 [] qs)"
proof -
  let ?s = "(listener_init u)\<lparr>ls_hs := bs\<rparr>" and ?q = "P_Settings d p"
  from hs obtain pad where bs: "bs = handshake_bytes VERSION_MAJOR VERSION_MINOR arch @ pad" "length bs = handshake_size arch"
    and arch: "length arch < 240" by (auto simp: is_handshake_def)
  have le: "7 + length arch \<le> handshake_size arch" "handshake_size arch \<le> 256"
    using ALIGN_SIZE_aligned(2,3) [of "7 + length arch"] arch by (auto simp: handshake_size_def)
  obtain rest where c: "c = bs @ rest" "rest @ concat chunks = encode_all (?q # qs)"
    using append_split [of c "concat chunks" bs] ch(1,2) by auto
  have "bs ! 1 = of_nat (handshake_size arch - 2)" by (simp add: bs(1) handshake_bytes_def handshake_size_def)
  then have "unat (bs ! 1) + 2 = length bs" using unat_byte [of "handshake_size arch - 2"] le bs(2) by simp
  moreover have "1 < length bs" using le bs(2) by simp
  ultimately have h: "process_handshake c (listener_init u) = Some (int (length bs), ?s)"
    using le bs(2) c(1) by (simp add: process_handshake_def nth_append Let_def)
  have ok: "listen_ok envs ?s ?q" using st env le bs(2) by (simp add: listen_ok_def listener_init_def listener_ready_def LISTENER_BUFFER_SIZE_def)
  let ?t = "listen_app envs ?s ?q"
  note a = listen_app_ok [OF ok]
  have t: "ls_count ?t = 1" "ls_pid ?t = 0" "ls_mmaps ?t = []" "listener_stream ?t = bs @ encode ?q"
    using a(3,4) by (simp_all add: listener_next_def listener_init_def listener_stream_def)
  note r = relay_all [OF a(2) env(1) qs, unfolded t]
  have "listen_loop envs ?s 0 rest (map R_Data chunks) = Some (snd (flush_data (foldl (listen_app envs) ?s (?q # qs))))"
    using ch(3) c r ok st(1) qs
    by (intro ls.loop_stream [where k = PIPE_BUFFER_SIZE])
      (auto simp: encode_all_def small_packet_def LISTENER_BUFFER_SIZE_def PIPE_BUFFER_SIZE_def)
  moreover have "ls_out (snd (flush_data (foldl (listen_app envs) ?s (?q # qs)))) = bs @ encode_all (?q # relay envs 1 0 [] qs)"
    using r by (simp add: flush_stream)
  moreover have "c \<noteq> []" using ch(3) by simp
  ultimately show ?thesis
    using h c(1) \<open>1 < length bs\<close> by (auto simp: process_data_def listen_loop_offset [of _ _ "length bs" _ _ 0] simp del: listen_loop.simps)
qed

end
