(* ===== verification/Tracer_Session.thy ===== *)
theory Tracer_Session
  imports Parse_Refine
begin

text \<open>
  A tracing session of the main module: switching the tracing on, a sequence of traced events, and
  switching it off.  The bytes written to the pipe are the handshake and the packets of the events.
\<close>

section \<open>Writers as packets\<close>

lemma same_tracerD:
  assumes "same_tracer s t"
  shows "tr_options t = tr_options s" "tr_modules t = tr_modules s" "tr_resources t = tr_resources s" "tr_proc_name t = tr_proc_name s"
    "tr_fd_proc t = tr_fd_proc s" "tr_heap_info t = tr_heap_info s" "tr_heap_bottom t = tr_heap_bottom s" "tr_broken t = tr_broken s"
  using assms by (cases s; cases t; simp add: same_tracer_def)+

lemma same_tracer_flush: "same_tracer s t \<Longrightarrow> same_tracer s (t\<lparr>tr_out := a, tr_head := b\<rparr>)"
  by (cases s; cases t) (simp add: same_tracer_def)

lemma writes_packet: "pipe_up s \<Longrightarrow> small_packet q \<Longrightarrow> writes (emit (encode q)) s (encode q)"
  by (rule writes_emit) (simp_all add: small_packet_def)

lemma writer_packets:
  assumes "op_enable (tr_options s)"
  shows "write_module_info m s = emit (encode (P_Module m)) s"
    "write_resource_registry r s = emit (encode (P_Resource r)) s"
    "sp_rtrace_write_context_registry i n s = emit (encode (P_Context i n)) s"
  using assms by (simp_all add: write_module_info_def write_resource_registry_def sp_rtrace_write_context_registry_def encode_def)

lemma writer_packets_always:
  "write_output_settings d p s = emit (encode (P_Settings d p)) s"
  "write_process_info pid s = emit (encode (P_Process pid 0 0 (op_backtrace_depth (tr_options s)) (tr_proc_name s))) s"
  "sp_rtrace_write_new_library l s = emit (encode (P_Library l)) s"
  "hd (tr_heap_info s) \<noteq> 0 \<Longrightarrow>
   write_heap_info e s = emit (encode (P_Heap (tr_heap_bottom s) e (tr_heap_info s))) s"
  by (simp_all add: write_output_settings_def write_process_info_def sp_rtrace_write_new_library_def write_heap_info_def
      encode_def process_info_payload_def)

text \<open>One packet after the other.\<close>

definition emits :: "tracer \<Rightarrow> byte list \<Rightarrow> tracer \<Rightarrow> bool" where
  "emits s bs s' \<longleftrightarrow> pipe_up s' \<and> same_tracer s s' \<and> pipe_stream s' = pipe_stream s @ bs"

lemma emits_refl: "pipe_up s \<Longrightarrow> emits s [] s"
  by (simp add: emits_def)

lemma emits_trans: "emits s bs t \<Longrightarrow> emits t cs u \<Longrightarrow> emits s (bs @ cs) u"
  by (auto simp: emits_def intro: same_tracer_trans)

lemma emit_emits:
  assumes "pipe_up s" "small_packet q"
  shows "\<exists>s'. emit (encode q) s = Some (length (encode q), s') \<and> emits s (encode q) s'"
  using writes_packet [OF assms] by (auto simp: writes_def emits_def)

lemma write_all_emits:
  assumes "pipe_up s" "op_enable (tr_options s)" "\<forall>x\<in>set xs. small_packet (mk x)"
    "\<And>x t. op_enable (tr_options t) \<Longrightarrow> f x t = emit (encode (mk x)) t"
  shows "\<exists>s'. write_all f xs s = Some s' \<and> emits s (encode_all (map mk xs)) s'"
proof -
  have "\<exists>s'. write_all f xs s = Some s' \<and> pipe_up s' \<and> same_tracer s s' \<and>
      pipe_stream s' = pipe_stream s @ concat (map (\<lambda>x. encode (mk x)) xs)"
  proof (rule write_all_ok [OF assms(1)])
    fix x t assume x: "x \<in> set xs" "pipe_up t" "same_tracer s t"
    then have "f x t = emit (encode (mk x)) t" using assms(2,4) same_tracerD(1) [of s t] by simp
    then show "writes (f x) t (encode (mk x))" using writes_packet [of t "mk x"] assms(3) x by (simp add: writes_def)
  qed
  then show ?thesis by (auto simp: emits_def encode_all_def comp_def)
qed

lemma handshake_emits:
  assumes "pipe_up s" "is_cstring arch" "length arch < 240"
  obtains s' bs where "write_handshake VERSION_MAJOR VERSION_MINOR arch s = Some (length bs, s')" "emits s bs s'" "is_handshake arch bs"
proof -
  let ?h = "tr_head s" and ?b = "tr_buffer s" and ?hs = "handshake_bytes VERSION_MAJOR VERSION_MINOR arch"
  let ?s = "s\<lparr>tr_locked := True, tr_buffer := take ?h ?b @ ?hs @ drop (?h + length ?hs) ?b\<rparr>"
  let ?n = "ALIGN_SIZE (length ?hs)"
  have hs: "length ?hs = 7 + length arch" by (simp add: handshake_bytes_def)
  have n: "length ?hs \<le> ?n" "?n < 254" using ALIGN_SIZE_aligned(2,3) [of "length ?hs"] hs assms(3) by auto
  have s: "length ?b = 8192" "?h \<le> 4096" "\<not> tr_locked s" "\<not> tr_broken s" "0 \<le> tr_fd_proc s"
    using assms(1) by (auto simp: pipe_up_def pipe_inv_def PIPE_BUFFER_SIZE_def)
  define bs where "bs = take ?n (drop ?h (tr_buffer ?s))"
  have len: "length bs = ?n" using s n by (simp add: bs_def)
  have "write_handshake VERSION_MAJOR VERSION_MINOR arch s = Some (?n, pipe_buffer_unlock ?h ?n ?s)"
    using s n by (simp add: write_handshake_def pipe_buffer_lock_def put_bytes_def Let_def)
  moreover obtain s' where s': "pipe_buffer_unlock ?h ?n ?s = s'" "pipe_up s'" "same_tracer (?s\<lparr>tr_locked := False\<rparr>) s'"
    "pipe_stream s' = pipe_stream ?s @ bs"
    using unlock_ok [of ?s ?n] s n by (auto simp: PIPE_BUFFER_SIZE_def bs_def)
  moreover have "same_tracer s (?s\<lparr>tr_locked := False\<rparr>)" using s(3) by (cases s) (simp add: same_tracer_def)
  then have "same_tracer s s'" using s'(3) by (rule same_tracer_trans)
  moreover have "pipe_stream ?s = pipe_stream s" using s by (simp add: pipe_stream_def pipe_pending_def)
  ultimately have "emits s bs s'" using s' by (simp add: emits_def)
  moreover note \<open>write_handshake VERSION_MAJOR VERSION_MINOR arch s = Some (?n, pipe_buffer_unlock ?h ?n ?s)\<close> s'(1)
  moreover have "is_handshake arch bs"
  proof -
    have "bs = ?hs @ take (?n - length ?hs) (drop (?h + length ?hs) ?b)" using s n by (simp add: bs_def)
    then show ?thesis unfolding is_handshake_def using assms(2,3) len hs by (auto simp: handshake_size_def)
  qed
  ultimately show ?thesis using that [of bs s'] len by simp
qed

section \<open>Switching on\<close>

definition initial_packets :: "u32 \<Rightarrow> tracer \<Rightarrow> trace_packet list" where
  "initial_packets pid s = [P_Settings (op_output_dir (tr_options s)) (op_postproc (tr_options s)),
     P_Process pid 0 0 (op_backtrace_depth (tr_options s)) (tr_proc_name s), P_Module main_module] @
     map P_Module (tr_modules s) @ map P_Resource (tr_resources s) @ [P_Library (str ''*'')]"

lemma write_initial_data_ok:
  assumes "pipe_up s" "op_enable (tr_options s)" "is_cstring arch" "length arch < 240" "\<forall>q\<in>set (initial_packets pid s). small_packet q"
  shows "\<exists>s' bs. write_initial_data pid arch s = Some s' \<and> is_handshake arch bs \<and> pipe_up s' \<and> same_tracer s s' \<and>
    tr_head s' = 0 \<and> tr_out s' = tr_out s @ bs @ encode_all (initial_packets pid s)"
proof -
  let ?s = "pipe_buffer_reset s"
  have r: "pipe_up ?s" "same_tracer s ?s" "pipe_stream ?s = tr_out s"
    using assms(1) by (auto simp: pipe_buffer_reset_def pipe_up_def pipe_inv_def same_tracer_def pipe_stream_def pipe_pending_def)
  note o = same_tracerD [OF r(2)]
  have sm: "small_packet (P_Settings (op_output_dir (tr_options s)) (op_postproc (tr_options s)))"
    "small_packet (P_Process pid 0 0 (op_backtrace_depth (tr_options s)) (tr_proc_name s))" "small_packet (P_Module main_module)"
    "\<forall>m\<in>set (tr_modules s). small_packet (P_Module m)" "\<forall>r\<in>set (tr_resources s). small_packet (P_Resource r)"
    "small_packet (P_Library (str ''*''))"
    using assms(5) by (auto simp: initial_packets_def)
  obtain s1 bs where s1: "write_handshake VERSION_MAJOR VERSION_MINOR arch ?s = Some (length bs, s1)" "emits ?s bs s1" "is_handshake arch bs"
    using handshake_emits [OF r(1) assms(3,4)] by blast
  have u: "pipe_up t" "same_tracer s t" if "emits ?s cs t" for t cs
    using that r(2) by (auto simp: emits_def intro: same_tracer_trans)
  obtain s2 where s2: "write_output_settings (op_output_dir (tr_options s1)) (op_postproc (tr_options s1)) s1 =
      Some (length (encode (hd (initial_packets pid s))), s2)" "emits s1 (encode (hd (initial_packets pid s))) s2"
    using emit_emits [OF u(1) [OF s1(2)] sm(1)] same_tracerD [OF u(2) [OF s1(2)]]
    by (auto simp: writer_packets_always initial_packets_def)
  note e2 = emits_trans [OF s1(2) s2(2)]
  obtain s3 where s3: "\<exists>n. write_process_info pid s2 = Some (n, s3)"
      "emits s2 (encode (P_Process pid 0 0 (op_backtrace_depth (tr_options s)) (tr_proc_name s))) s3"
    using emit_emits [OF u(1) [OF e2] sm(2)] same_tracerD [OF u(2) [OF e2]] by (auto simp: writer_packets_always)
  note e3 = emits_trans [OF e2 s3(2)]
  have en: "op_enable (tr_options t)" if "emits ?s cs t" for t cs
    using same_tracerD [OF u(2) [OF that]] assms(2) by simp
  obtain s4 where s4: "\<exists>n. write_module_info main_module s3 = Some (n, s4)" "emits s3 (encode (P_Module main_module)) s4"
    using emit_emits [OF u(1) [OF e3] sm(3)] en [OF e3] by (auto simp: writer_packets)
  note e4 = emits_trans [OF e3 s4(2)]
  obtain s5 where s5: "write_all write_module_info (tr_modules s4) s4 = Some s5" "emits s4 (encode_all (map P_Module (tr_modules s))) s5"
    using write_all_emits [OF u(1) [OF e4] en [OF e4], of "tr_modules s" P_Module write_module_info] sm(4)
      same_tracerD [OF u(2) [OF e4]] by (auto simp: writer_packets)
  note e5 = emits_trans [OF e4 s5(2)]
  obtain s6 where s6: "write_all write_resource_registry (tr_resources s5) s5 = Some s6"
      "emits s5 (encode_all (map P_Resource (tr_resources s))) s6"
    using write_all_emits [OF u(1) [OF e5] en [OF e5], of "tr_resources s" P_Resource write_resource_registry] sm(5)
      same_tracerD [OF u(2) [OF e5]] by (auto simp: writer_packets)
  note e6 = emits_trans [OF e5 s6(2)]
  obtain s7 where s7: "\<exists>n. sp_rtrace_write_new_library (str ''*'') s6 = Some (n, s7)" "emits s6 (encode (P_Library (str ''*''))) s7"
    using emit_emits [OF u(1) [OF e6] sm(6)] by (auto simp: writer_packets_always)
  note e7 = emits_trans [OF e6 s7(2)]
  have "write_initial_data pid arch s = Some (pipe_buffer_flush s7)"
    using s1(1) s2(1) s3(1) s4(1) s5(1) s6(1) s7(1) unfolding write_initial_data_def by auto
  moreover have "pipe_buffer_flush s7 = s7\<lparr>tr_out := pipe_stream s7, tr_head := 0\<rparr>" using u(1) [OF e7] by (rule flush_up)
  moreover have "pipe_stream s7 = tr_out s @ bs @ encode_all (initial_packets pid s)"
    using e7 r(3) by (simp add: emits_def initial_packets_def)
  moreover have "pipe_up (s7\<lparr>tr_out := pipe_stream s7, tr_head := 0\<rparr>)" "same_tracer s (s7\<lparr>tr_out := pipe_stream s7, tr_head := 0\<rparr>)"
    using u [OF e7] by (auto simp: pipe_up_def pipe_inv_def intro: same_tracer_flush)
  ultimately show ?thesis using s1(3) by auto
qed

section \<open>Events\<close>

text \<open>What the traced process does while the tracing is on.\<close>

datatype tracer_op =
    T_Call "nat \<Rightarrow> pointer_t list" u32 "(int \<times> int) option" module_fcall "pointer_t list option" "module_farg list option"
  | T_Context u64 cstring
  | T_Library cstring
  | T_Resource module_resource

fun run_op :: "tracer_op \<Rightarrow> tracer \<Rightarrow> tracer option" where
  "run_op (T_Call bt ctx clock call trace args) s = map_option snd (sp_rtrace_write_function_call bt ctx clock call trace args s)"
| "run_op (T_Context i n) s = map_option snd (sp_rtrace_write_context_registry i n s)"
| "run_op (T_Library l) s = dlopen True l s"
| "run_op (T_Resource r) s = map_option snd (sp_rtrace_register_resource r s)"

fun run_ops :: "tracer_op list \<Rightarrow> tracer \<Rightarrow> tracer option" where
  "run_ops [] s = Some s"
| "run_ops (p # ps) s = do { s \<leftarrow> run_op p s; run_ops ps s }"

text \<open>A resource type is new when no registered one has its name and the registry is not full.\<close>

definition new_resource :: "module_resource list \<Rightarrow> module_resource \<Rightarrow> module_resource option" where
  "new_resource rs r =
     (if find (\<lambda>x. mr_type x = mr_type r) rs = None \<and> length rs < 32 then Some (r\<lparr>mr_id := of_nat (length rs + 1)\<rparr>) else None)"

fun op_packets :: "sp_rtrace_options \<Rightarrow> module_resource list \<Rightarrow> tracer_op \<Rightarrow> trace_packet list" where
  "op_packets opt rs (T_Call bt ctx clock call trace args) =
     P_Call call ctx (call_timestamp opt clock) # (case args of Some as \<Rightarrow> [P_Args as] | None \<Rightarrow> []) @
     [P_Trace (the (select_trace opt bt call trace))]"
| "op_packets opt rs (T_Context i n) = [P_Context i n]"
| "op_packets opt rs (T_Library l) = [P_Library l]"
| "op_packets opt rs (T_Resource r) = (case new_resource rs r of Some r \<Rightarrow> [P_Resource r] | None \<Rightarrow> [])"

fun op_resources :: "module_resource list \<Rightarrow> tracer_op \<Rightarrow> module_resource list" where
  "op_resources rs (T_Resource r) = (case new_resource rs r of Some r \<Rightarrow> rs @ [r] | None \<Rightarrow> rs)"
| "op_resources rs p = rs"

text \<open>The packets of an event fit into the buffer together, and the filter of the backtraces is well formed.\<close>

fun op_ok :: "sp_rtrace_options \<Rightarrow> module_resource list \<Rightarrow> tracer_op \<Rightarrow> bool" where
  "op_ok opt rs p \<longleftrightarrow> length (encode_all (op_packets opt rs p)) \<le> PIPE_BUFFER_SIZE \<and>
     (case p of T_Call bt ctx clock call trace args \<Rightarrow> select_trace opt bt call trace \<noteq> None | _ \<Rightarrow> True)"

lemma emit_block:
  assumes "pipe_up s" "length (encode_all qs) \<le> PIPE_BUFFER_SIZE"
  shows "\<exists>s'. emit (encode_all qs) s = Some (length (encode_all qs), s') \<and> emits s (encode_all qs) s'"
  using writes_emit [OF assms] by (auto simp: writes_def emits_def)

lemma call_packets_encode:
  "call_packets call ctx ts args trace =
    encode_all (P_Call call ctx ts # (case args of Some as \<Rightarrow> [P_Args as] | None \<Rightarrow> []) @ [P_Trace trace])"
  by (simp add: call_packets_def encode_def split: option.split)

lemma pipe_up_resources [simp]:
  "pipe_up (s\<lparr>tr_resources := rs\<rparr>) = pipe_up s" "pipe_stream (s\<lparr>tr_resources := rs\<rparr>) = pipe_stream s"
  by (simp_all add: pipe_up_def pipe_inv_def pipe_stream_def pipe_pending_def)

text \<open>One event adds its packets to the stream and its resource type to the registry.\<close>

lemma run_op_ok:
  assumes "pipe_up s" "op_enable (tr_options s)" "op_ok (tr_options s) (tr_resources s) p"
  shows "\<exists>s'. run_op p s = Some s' \<and>
    emits (s\<lparr>tr_resources := op_resources (tr_resources s) p\<rparr>) (encode_all (op_packets (tr_options s) (tr_resources s) p)) s'"
proof (cases p)
  case (T_Call bt ctx clock call trace args)
  then obtain tr where tr: "select_trace (tr_options s) bt call trace = Some tr" using assms(3) by auto
  then show ?thesis using emit_block [OF assms(1)] assms(2,3) T_Call
    by (simp add: sp_rtrace_write_function_call_def call_packets_encode del: encode_all_simps) metis
next
  case (T_Context i n)
  then show ?thesis using emit_block [OF assms(1), of "[P_Context i n]"] assms(2,3)
    by (auto simp: writer_packets)
next
  case (T_Library l)
  then show ?thesis using emit_block [OF assms(1), of "[P_Library l]"] assms(2,3)
    by (auto simp: dlopen_def writer_packets_always)
next
  case (T_Resource r)
  show ?thesis
  proof (cases "new_resource (tr_resources s) r")
    case None
    then have "\<exists>w. sp_rtrace_register_resource r s = Some (w, s)"
      by (auto simp: sp_rtrace_register_resource_def new_resource_def split: if_splits option.split)
    with None T_Resource assms(1) show ?thesis by (auto simp: emits_refl)
  next
    case (Some r')
    let ?s = "s\<lparr>tr_resources := tr_resources s @ [r']\<rparr>"
    have r': "find (\<lambda>x. mr_type x = mr_type r) (tr_resources s) = None" "length (tr_resources s) < 32"
      "r' = r\<lparr>mr_id := of_nat (length (tr_resources s) + 1)\<rparr>"
      using Some by (auto simp: new_resource_def split: if_splits)
    have up: "pipe_up ?s" using assms(1) by simp
    have "length (encode_all [P_Resource r']) \<le> PIPE_BUFFER_SIZE" using assms(3) T_Resource Some by simp
    from emit_block [OF up this] obtain s' where
      "emit (encode (P_Resource r')) ?s = Some (length (encode (P_Resource r')), s')" "emits ?s (encode (P_Resource r')) s'" by auto
    then show ?thesis using T_Resource Some r' assms(2)
      by (simp add: sp_rtrace_register_resource_def Let_def writer_packets)
  qed
qed

fun ops_packets :: "sp_rtrace_options \<Rightarrow> module_resource list \<Rightarrow> tracer_op list \<Rightarrow> trace_packet list" where
  "ops_packets opt rs [] = []"
| "ops_packets opt rs (p # ps) = op_packets opt rs p @ ops_packets opt (op_resources rs p) ps"

fun ops_ok :: "sp_rtrace_options \<Rightarrow> module_resource list \<Rightarrow> tracer_op list \<Rightarrow> bool" where
  "ops_ok opt rs [] = True"
| "ops_ok opt rs (p # ps) \<longleftrightarrow> op_ok opt rs p \<and> ops_ok opt (op_resources rs p) ps"

declare op_ok.simps [simp del]

lemma same_tracer_frame: "same_tracer s s' \<Longrightarrow> same_tracer (s\<lparr>tr_resources := rs\<rparr>) (s'\<lparr>tr_resources := rs\<rparr>)"
  by (cases s; cases s') (simp add: same_tracer_def)

lemma emits_frame: "emits s bs s' \<Longrightarrow> emits (s\<lparr>tr_resources := rs\<rparr>) bs (s'\<lparr>tr_resources := rs\<rparr>)"
  by (simp add: emits_def same_tracer_frame)

lemma run_ops_ok:
  assumes "pipe_up s" "op_enable (tr_options s)" "ops_ok (tr_options s) (tr_resources s) ps"
  shows "\<exists>s' rs. run_ops ps s = Some s' \<and>
    emits (s\<lparr>tr_resources := rs\<rparr>) (encode_all (ops_packets (tr_options s) (tr_resources s) ps)) s'"
  using assms
proof (induction ps arbitrary: s)
  case Nil
  then show ?case using emits_refl [of s] by (auto intro: exI [of _ "tr_resources s"])
next
  case (Cons p ps)
  let ?t = "s\<lparr>tr_resources := op_resources (tr_resources s) p\<rparr>"
  obtain t where t: "run_op p s = Some t" "emits ?t (encode_all (op_packets (tr_options s) (tr_resources s) p)) t"
    using run_op_ok [OF Cons.prems(1,2)] Cons.prems(3) by auto
  then have tt: "pipe_up t" "tr_options t = tr_options s" "tr_resources t = op_resources (tr_resources s) p"
    using same_tracerD [of ?t t] by (auto simp: emits_def)
  then obtain s' rs where s': "run_ops ps t = Some s'"
    "emits (t\<lparr>tr_resources := rs\<rparr>) (encode_all (ops_packets (tr_options s) (op_resources (tr_resources s) p) ps)) s'"
    using Cons.IH [of t] Cons.prems by auto
  have "emits (s\<lparr>tr_resources := rs\<rparr>) (encode_all (op_packets (tr_options s) (tr_resources s) p)) (t\<lparr>tr_resources := rs\<rparr>)"
    using emits_frame [OF t(2), of rs] by simp
  from emits_trans [OF this s'(2)] t(1) s'(1) show ?case by auto
qed

section \<open>A session\<close>

definition final_packets :: "pointer_t \<Rightarrow> tracer \<Rightarrow> trace_packet list" where
  "final_packets heap_end s = P_Library (str ''*'') #
     (if hd (tr_heap_info s) \<noteq> 0 then [P_Heap (tr_heap_bottom s) heap_end (tr_heap_info s)] else [])"

definition trace_session :: "u32 \<Rightarrow> cstring \<Rightarrow> pointer_t \<Rightarrow> int \<Rightarrow> tracer_op list \<Rightarrow> tracer \<Rightarrow> tracer option" where
  "trace_session pid arch heap_end fd ops s = do {
     s \<leftarrow> signal_toggle_tracing pid arch heap_end True fd s;
     s \<leftarrow> run_ops ops s;
     signal_toggle_tracing pid arch heap_end True fd s }"

definition session_packets :: "u32 \<Rightarrow> pointer_t \<Rightarrow> tracer_op list \<Rightarrow> tracer \<Rightarrow> trace_packet list" where
  "session_packets pid heap_end ops s =
     initial_packets pid s @ ops_packets ((tr_options s)\<lparr>op_enable := True\<rparr>) (tr_resources s) ops @ final_packets heap_end s"

definition session_ok :: "u32 \<Rightarrow> pointer_t \<Rightarrow> tracer_op list \<Rightarrow> tracer \<Rightarrow> bool" where
  "session_ok pid heap_end ops s \<longleftrightarrow> pipe_inv s \<and> \<not> tr_broken s \<and> \<not> op_enable (tr_options s) \<and>
     (\<forall>q\<in>set (initial_packets pid s @ final_packets heap_end s). small_packet q) \<and>
     ops_ok ((tr_options s)\<lparr>op_enable := True\<rparr>) (tr_resources s) ops"

lemma toggle_on_ok:
  assumes "session_ok pid heap_end ops s" "0 < fd" "is_cstring arch" "length arch < 240"
  shows "\<exists>s' bs. signal_toggle_tracing pid arch heap_end True fd s = Some s' \<and> is_handshake arch bs \<and> pipe_up s' \<and>
    tr_options s' = (tr_options s)\<lparr>op_enable := True\<rparr> \<and> tr_resources s' = tr_resources s \<and> tr_fd_proc s' = fd \<and>
    tr_heap_info s' = tr_heap_info s \<and> tr_heap_bottom s' = tr_heap_bottom s \<and>
    pipe_stream s' = tr_out s @ bs @ encode_all (initial_packets pid s)"
proof -
  let ?s = "(set_enable True s)\<lparr>tr_fd_proc := fd\<rparr>"
  have up: "pipe_up ?s" using assms(1,2) by (simp add: session_ok_def pipe_up_def pipe_inv_def)
  have "initial_packets pid ?s = initial_packets pid s" by (simp add: initial_packets_def)
  then obtain t bs where t: "write_initial_data pid arch ?s = Some t" "is_handshake arch bs" "pipe_up t" "same_tracer ?s t"
    "tr_head t = 0" "tr_out t = tr_out s @ bs @ encode_all (initial_packets pid s)"
    using write_initial_data_ok [OF up _ assms(3,4), of pid] assms(1) by (auto simp: session_ok_def)
  have "signal_toggle_tracing pid arch heap_end True fd s = Some (enable_tracing True t)"
    using assms(1,2) t(1) by (simp add: signal_toggle_tracing_def open_pipe_def session_ok_def Let_def)
  moreover have "pipe_up (enable_tracing True t)" "pipe_stream (enable_tracing True t) = pipe_stream t"
    using t(3) by (simp_all add: enable_tracing_def pipe_up_def pipe_inv_def pipe_stream_def pipe_pending_def)
  moreover have "pipe_stream t = tr_out t" using t(5) by (simp add: pipe_stream_def pipe_pending_def)
  ultimately show ?thesis using t(2,6) same_tracerD [OF t(4)] by (auto simp: enable_tracing_def)
qed

lemma toggle_off_ok:
  assumes "pipe_up s" "0 < tr_fd_proc s" "op_enable (tr_options s)" "\<forall>q\<in>set (final_packets heap_end s). small_packet q"
  shows "\<exists>s'. signal_toggle_tracing pid arch heap_end True fd s = Some s' \<and> pipe_inv s' \<and> \<not> op_enable (tr_options s') \<and>
    tr_fd_proc s' = 0 \<and> tr_head s' = 0 \<and> tr_out s' = pipe_stream s @ encode_all (final_packets heap_end s)"
proof -
  let ?s = "set_enable False s"
  have up: "pipe_up ?s" using assms(1) by (simp add: pipe_up_def pipe_inv_def)
  obtain t where t: "emit (encode (P_Library (str ''*''))) ?s = Some (length (encode (P_Library (str ''*''))), t)"
    "emits ?s (encode (P_Library (str ''*''))) t"
    using emit_emits [OF up] assms(4) by (auto simp: final_packets_def)
  note tt = same_tracerD [of ?s t]
  obtain n u where u: "write_heap_info heap_end t = Some (n, u)" "emits ?s (encode_all (final_packets heap_end s)) u"
  proof (cases "hd (tr_heap_info s) = 0")
    case True
    then have "write_heap_info heap_end t = Some (0, t)" using tt t(2) by (simp add: write_heap_info_def emits_def)
    then show ?thesis using that t(2) True by (simp add: final_packets_def)
  next
    case False
    let ?q = "P_Heap (tr_heap_bottom s) heap_end (tr_heap_info s)"
    have "small_packet ?q" using assms(4) False by (simp add: final_packets_def)
    then obtain u where "emit (encode ?q) t = Some (length (encode ?q), u)" "emits t (encode ?q) u"
      using emit_emits [of t ?q] t(2) by (auto simp: emits_def)
    moreover have "write_heap_info heap_end t = emit (encode ?q) t"
      using False tt t(2) by (simp add: writer_packets_always(4) emits_def)
    ultimately show ?thesis using that emits_trans [OF t(2)] False by (simp add: final_packets_def)
  qed
  let ?u = "enable_tracing False u"
  have "pipe_up ?u" "pipe_stream ?u = pipe_stream u"
    using u(2) by (simp_all add: emits_def enable_tracing_def pipe_up_def pipe_inv_def pipe_stream_def pipe_pending_def)
  moreover have "pipe_stream ?s = pipe_stream s" by (simp add: pipe_stream_def pipe_pending_def)
  moreover have "signal_toggle_tracing pid arch heap_end True fd s = Some (close_pipe (pipe_buffer_flush ?u))"
    using assms(2,3) t(1) u(1) by (simp add: signal_toggle_tracing_def writer_packets_always Let_def)
  ultimately show ?thesis
    using u(2) same_tracerD(1) [of ?s u]
    by (auto simp: flush_up close_pipe_def emits_def pipe_up_def pipe_inv_def enable_tracing_def)
qed

theorem trace_session_ok:
  assumes "session_ok pid heap_end ops s" "0 < fd" "is_cstring arch" "length arch < 240"
  shows "\<exists>s' bs. trace_session pid arch heap_end fd ops s = Some s' \<and> is_handshake arch bs \<and> pipe_inv s' \<and>
    tr_out s' = tr_out s @ bs @ encode_all (session_packets pid heap_end ops s)"
proof -
  obtain t bs where t: "signal_toggle_tracing pid arch heap_end True fd s = Some t" "is_handshake arch bs" "pipe_up t"
    "tr_options t = (tr_options s)\<lparr>op_enable := True\<rparr>" "tr_resources t = tr_resources s" "tr_fd_proc t = fd"
    "tr_heap_info t = tr_heap_info s" "tr_heap_bottom t = tr_heap_bottom s"
    "pipe_stream t = tr_out s @ bs @ encode_all (initial_packets pid s)"
    using toggle_on_ok [OF assms] by blast
  obtain u rs where u: "run_ops ops t = Some u"
    "emits (t\<lparr>tr_resources := rs\<rparr>) (encode_all (ops_packets (tr_options t) (tr_resources t) ops)) u"
    using run_ops_ok [OF t(3), of ops] assms(1) t(4,5) by (auto simp: session_ok_def)
  have uu: "pipe_up u" "tr_options u = tr_options t" "tr_fd_proc u = fd" "tr_heap_info u = tr_heap_info s"
      "tr_heap_bottom u = tr_heap_bottom s"
    using u(2) t(6-8) same_tracerD [of "t\<lparr>tr_resources := rs\<rparr>" u] by (auto simp: emits_def)
  then have fp: "final_packets heap_end u = final_packets heap_end s" by (simp add: final_packets_def)
  have "0 < tr_fd_proc u" "op_enable (tr_options u)" "\<forall>q\<in>set (final_packets heap_end u). small_packet q"
    using uu t(4) assms(1,2) fp by (auto simp: session_ok_def)
  from toggle_off_ok [OF uu(1) this, of pid arch fd] obtain s' where
    "signal_toggle_tracing pid arch heap_end True fd u = Some s'" "pipe_inv s'"
    "tr_out s' = pipe_stream u @ encode_all (final_packets heap_end s)" unfolding fp by blast
  then show ?thesis using t(1,2,4,5,9) u by (auto simp: trace_session_def session_packets_def emits_def)
qed

end
