(* ===== verification/Call_Filter.thy ===== *)
theory Call_Filter
  imports Rtrace_Invariant
begin

text \<open>
  The record filters of the post-processor, src/rtrace-postproc/filter.c, and the ELF test of
  src/common/resolve\_utils.c that the address range filter uses.  A filter walks the call list
  with \<open>dlist_foreach2\<close>; its callback removes only the visited node or earlier ones, so the walk is
  a fold over the initial sequence (\<open>foreach_loop_fold\<close>).
\<close>

section \<open>Options\<close>

record postproc_options =
  opt_filter_leaks :: bool
  opt_compress :: bool
  opt_filter_context :: u32
  opt_filter_resource :: u32
  opt_backtrace_depth :: u32
  opt_include :: "int list option"
  opt_exclude :: "int list option"
  opt_range_start :: u64
  opt_range_size :: u64
  opt_range_target :: "cstring option"

text \<open>The pointer in the \<open>res_type\<close> field; the other contents of the field are not pointers.\<close>

fun res_type_ptr :: "res_field \<Rightarrow> ptr option" where
  "res_type_ptr RFIELD_UNDEF = Some NULL"
| "res_type_ptr (RFIELD_REF p) = Some p"
| "res_type_ptr (RFIELD_ID _) = None"
| "res_type_ptr (RFIELD_NAME _) = None"

text \<open>A traversal whose callback may fail.\<close>

fun fold_opt :: "('a \<Rightarrow> 's \<Rightarrow> 's option) \<Rightarrow> 'a list \<Rightarrow> 's \<Rightarrow> 's option" where
  "fold_opt f [] s = Some s"
| "fold_opt f (x # xs) s = do { s \<leftarrow> f x s; fold_opt f xs s }"

section \<open>The resource index\<close>

record fres =
  fr_bucket :: "nat option"
  fr_call :: ptr
  fr_ref_count :: int

record fres_index =
  fi_table :: "ptr atable"
  fi_store :: "ptr \<rightharpoonup> fres"
  fi_next :: ptr

text \<open>The data of a call that the comparison and the hash read.\<close>

definition res_key :: "rheap \<Rightarrow> ptr \<Rightarrow> (ptr \<times> pointer_t) option" where
  "res_key h c = do {
     call \<leftarrow> rh_fcalls h c;
     p \<leftarrow> res_type_ptr (fc_res_type (call_data call));
     Some (p, fc_res_id (call_data call)) }"

definition res_compare :: "rheap \<Rightarrow> ptr \<Rightarrow> ptr \<Rightarrow> int option" where
  "res_compare h c1 c2 = do {
     (p1, id1) \<leftarrow> res_key h c1;
     (p2, id2) \<leftarrow> res_key h c2;
     if p1 = p2 then Some (sint (id1 - id2))
     else if p1 = NULL then Some (-1)
     else if p2 = NULL then Some 1
     else do {
       r1 \<leftarrow> rh_resources h p1;
       r2 \<leftarrow> rh_resources h p2;
       Some (sint (rs_id (rr_data r1) - rs_id (rr_data r2))) } }"

definition res_hash :: "rheap \<Rightarrow> ptr \<Rightarrow> int option" where
  "res_hash h c = do {
     (p, id) \<leftarrow> res_key h c;
     let hash = hash_fold 0 id;
     if p \<noteq> NULL then do {
       r \<leftarrow> rh_resources h p;
       Some (sint (hash_fold hash (rs_id (rr_data r)))) }
     else Some (sint hash) }"

definition free_fres_rec :: "fres_index \<Rightarrow> ptr \<Rightarrow> fres_index option" where
  "free_fres_rec idx n = do {
     guard (fi_store idx n \<noteq> None);
     Some (idx\<lparr>fi_store := (fi_store idx)(n := None)\<rparr>) }"

text \<open>Comparison of an index record with the call looked for.\<close>

definition compare_fres :: "rheap \<Rightarrow> fres_index \<Rightarrow> ptr \<Rightarrow> ptr \<Rightarrow> int option" where
  "compare_fres h idx c n = do { f \<leftarrow> fi_store idx n; res_compare h (fr_call f) c }"

text \<open>\<open>htable_find\<close> with a temporary record for the call.\<close>

definition fres_find :: "rheap \<Rightarrow> fres_index \<Rightarrow> ptr \<Rightarrow> ptr option option" where
  "fres_find h idx c = do {
     hash \<leftarrow> res_hash h c;
     b \<leftarrow> hash_index HASH_SIZE hash;
     seq_find (compare_fres h idx c) (a_bucket (fi_table idx) b) }"

text \<open>\<open>htable_store\<close> of a new record for the call, and release of the record it replaces.\<close>

definition fres_store :: "rheap \<Rightarrow> fres_index \<Rightarrow> ptr \<Rightarrow> fres_index option" where
  "fres_store h idx c = do {
     hash \<leftarrow> res_hash h c;
     b \<leftarrow> hash_index HASH_SIZE hash;
     old \<leftarrow> seq_find (compare_fres h idx c) (a_bucket (fi_table idx) b);
     let n = fi_next idx;
     let nodes = (case old of None \<Rightarrow> a_bucket (fi_table idx) b
                  | Some y \<Rightarrow> remove1 y (a_bucket (fi_table idx) b));
     let idx = idx\<lparr>fi_next := n + 1,
       fi_store := (fi_store idx)(n \<mapsto> \<lparr>fr_bucket = Some b, fr_call = c, fr_ref_count = 1\<rparr>),
       fi_table := (fi_table idx)\<lparr>a_bucket := (a_bucket (fi_table idx))(b := nodes @ [n])\<rparr>\<rparr>;
     case old of None \<Rightarrow> Some idx | Some y \<Rightarrow> free_fres_rec idx y }"

definition fres_remove_node :: "fres_index \<Rightarrow> ptr \<Rightarrow> fres_index option" where
  "fres_remove_node idx n = do {
     f \<leftarrow> fi_store idx n;
     case fr_bucket f of
       None \<Rightarrow> Some idx
     | Some b \<Rightarrow> do {
         nodes \<leftarrow> seq_remove n (a_bucket (fi_table idx) b);
         Some (idx\<lparr>fi_table := (fi_table idx)\<lparr>a_bucket := (a_bucket (fi_table idx))(b := nodes)\<rparr>\<rparr>) } }"

definition fres_set_count :: "fres_index \<Rightarrow> ptr \<Rightarrow> int \<Rightarrow> fres_index option" where
  "fres_set_count idx n v = do {
     f \<leftarrow> fi_store idx n;
     Some (idx\<lparr>fi_store := (fi_store idx)(n \<mapsto> f\<lparr>fr_ref_count := v\<rparr>)\<rparr>) }"

text \<open>The reference counting flag of the call's resource type; a null resource type is dereferenced.\<close>

definition is_refcounted :: "rheap \<Rightarrow> ptr \<Rightarrow> bool option" where
  "is_refcounted h c = do {
     (p, _) \<leftarrow> res_key h c;
     r \<leftarrow> rh_resources h p;
     Some (rs_flags (rr_data r) AND RESOURCE_REFCOUNT \<noteq> 0) }"

type_synonym leak_state = "rd \<times> rheap \<times> fres_index"

definition remove_call :: "ptr \<Rightarrow> leak_state \<Rightarrow> leak_state option" where
  "remove_call c s = (case s of (rd, h, idx) \<Rightarrow>
     map_option (\<lambda>(rd, h). (rd, h, idx)) (rd_fcall_remove rd h c))"

definition fcall_remove_freed :: "ptr \<Rightarrow> leak_state \<Rightarrow> leak_state option" where
  "fcall_remove_freed c s = (case s of (rd, h, idx) \<Rightarrow> do {
     res \<leftarrow> fres_find h idx c;
     call \<leftarrow> rh_fcalls h c;
     if fc_type (call_data call) = FTYPE_ALLOC then do {
       counted \<leftarrow> (case res of None \<Rightarrow> Some False | Some n \<Rightarrow> is_refcounted h c);
       if counted then do {
         f \<leftarrow> fi_store idx (the res);
         idx \<leftarrow> fres_set_count idx (the res) (fr_ref_count f + 1);
         remove_call c (rd, h, idx) }
       else do {
         idx \<leftarrow> fres_store h idx c;
         Some (rd, h, idx) } }
     else if fc_type (call_data call) = FTYPE_FREE then do {
       s \<leftarrow> (case res of
           None \<Rightarrow> Some (rd, h, idx)
         | Some n \<Rightarrow> do {
             f \<leftarrow> fi_store idx n;
             idx \<leftarrow> fres_set_count idx n (fr_ref_count f - 1);
             counted \<leftarrow> (if fr_ref_count f - 1 = 0 then Some False else is_refcounted h c);
             if fr_ref_count f - 1 = 0 \<or> \<not> counted then do {
               idx \<leftarrow> fres_remove_node idx n;
               (rd, h, idx) \<leftarrow> remove_call (fr_call f) (rd, h, idx);
               idx \<leftarrow> free_fres_rec idx n;
               Some (rd, h, idx) }
             else Some (rd, h, idx) });
       remove_call c s }
     else Some (rd, h, idx) })"

definition fres_index_init :: fres_index where
  "fres_index_init = \<lparr>fi_table = a_init (nat HASH_SIZE), fi_store = Map.empty, fi_next = 1\<rparr>"

definition filter_leaks :: "rd \<Rightarrow> rheap \<Rightarrow> (rd \<times> rheap) option" where
  "filter_leaks rd h = do {
     (rd, h, idx) \<leftarrow> fold_opt fcall_remove_freed (rd_calls rd) (rd, h, fres_index_init);
     idx \<leftarrow> fold_opt (\<lambda>n idx. free_fres_rec idx n) (a_nodes (fi_table idx)) idx;
     Some (rd, h) }"

section \<open>Filters that drop single calls\<close>

definition remove_if :: "bool \<Rightarrow> ptr \<Rightarrow> rd \<times> rheap \<Rightarrow> (rd \<times> rheap) option" where
  "remove_if b c s = (if b then rd_fcall_remove (fst s) (snd s) c else Some s)"

definition fcall_filter_context :: "postproc_options \<Rightarrow> ptr \<Rightarrow> rd \<times> rheap \<Rightarrow> (rd \<times> rheap) option" where
  "fcall_filter_context opt c s = do {
     call \<leftarrow> rh_fcalls (snd s) c;
     let ctx = fc_context (call_data call);
     remove_if ((opt_filter_context opt \<noteq> 0 \<and> ctx AND opt_filter_context opt = 0) \<or>
                (opt_filter_context opt = 0 \<and> ctx \<noteq> 0)) c s }"

text \<open>\<open>1 << (id - 1)\<close> on \<open>int\<close>: a shift by 32 or more is undefined.\<close>

definition resource_bit :: "u64 \<Rightarrow> u32 option" where
  "resource_bit i = (if unat (i - 1) < 32 then Some (push_bit (unat (i - 1)) 1) else None)"

definition fcall_filter_resource :: "postproc_options \<Rightarrow> ptr \<Rightarrow> rd \<times> rheap \<Rightarrow> (rd \<times> rheap) option" where
  "fcall_filter_resource opt c s = do {
     (p, _) \<leftarrow> res_key (snd s) c;
     if p = NULL then Some s
     else do {
       r \<leftarrow> rh_resources (snd s) p;
       flag \<leftarrow> resource_bit (rs_id (rr_data r));
       remove_if (flag AND opt_filter_resource opt = 0) c s } }"

definition context_filter_mask :: "postproc_options \<Rightarrow> sp_rtrace_context \<Rightarrow> sp_rtrace_context list \<Rightarrow> sp_rtrace_context list" where
  "context_filter_mask opt context xs =
     (if cx_id context AND scast (opt_filter_context opt) = 0 then remove1 context xs else xs)"

definition resource_filter_mask :: "postproc_options \<Rightarrow> rheap \<Rightarrow> ptr \<Rightarrow> ptr list \<Rightarrow> ptr list option" where
  "resource_filter_mask opt h p xs = do {
     r \<leftarrow> rh_resources h p;
     flag \<leftarrow> resource_bit (rs_id (rr_data r));
     if flag AND opt_filter_resource opt = 0 then seq_remove p xs else Some xs }"

definition filter_context :: "postproc_options \<Rightarrow> rd \<Rightarrow> rheap \<Rightarrow> (rd \<times> rheap) option" where
  "filter_context opt rd h =
     (let rd = rd\<lparr>rd_contexts := fold (context_filter_mask opt) (rd_contexts rd) (rd_contexts rd)\<rparr>
      in fold_opt (fcall_filter_context opt) (rd_calls rd) (rd, h))"

definition filter_resource :: "postproc_options \<Rightarrow> rd \<Rightarrow> rheap \<Rightarrow> (rd \<times> rheap) option" where
  "filter_resource opt rd h = do {
     res \<leftarrow> fold_opt (resource_filter_mask opt h) (rd_resources rd) (rd_resources rd);
     fold_opt (fcall_filter_resource opt) (rd_calls rd) (rd\<lparr>rd_resources := res\<rparr>, h) }"

text \<open>
  The event index filters.  The index file is parsed into the list of its numbers; the search tree
  built with \<open>tsearch\<close> finds an index when the comparison, truncated to \<open>int\<close>, is zero.
\<close>

definition filter_compare_event_index :: "int \<Rightarrow> int \<Rightarrow> int" where
  "filter_compare_event_index index1 index2 = sint (word_of_int (index1 - index2) :: 32 word)"

definition tfind :: "int \<Rightarrow> int list \<Rightarrow> bool" where
  "tfind idx index_map = list_ex (\<lambda>i. filter_compare_event_index idx i = 0) index_map"

definition fcall_filter_index :: "bool \<Rightarrow> int list \<Rightarrow> ptr \<Rightarrow> rd \<times> rheap \<Rightarrow> (rd \<times> rheap) option" where
  "fcall_filter_index incl index_map c s = do {
     call \<leftarrow> rh_fcalls (snd s) c;
     let found = tfind (fc_index (call_data call)) index_map;
     remove_if ((found \<and> \<not> incl) \<or> (\<not> found \<and> incl)) c s }"

definition filter_include :: "int list \<Rightarrow> rd \<Rightarrow> rheap \<Rightarrow> (rd \<times> rheap) option" where
  "filter_include index_map rd h = fold_opt (fcall_filter_index True index_map) (rd_calls rd) (rd, h)"

definition filter_exclude :: "int list \<Rightarrow> rd \<Rightarrow> rheap \<Rightarrow> (rd \<times> rheap) option" where
  "filter_exclude index_map rd h = fold_opt (fcall_filter_index False index_map) (rd_calls rd) (rd, h)"

section \<open>The address range filter\<close>

text \<open>
  \<open>rs_mmap_is_absolute\<close> on the contents of the file (\<open>None\<close>: it cannot be opened).  The ELF64
  header has 64 bytes with \<open>e_phoff\<close> at 32 and \<open>e_phnum\<close> at 56; a program header has 56 bytes with
  \<open>p_type\<close> at 0, \<open>p_offset\<close> at 8 and \<open>p_vaddr\<close> at 16.
\<close>

definition field :: "byte list \<Rightarrow> nat \<Rightarrow> nat \<Rightarrow> nat" where
  "field bs off n = le_nat (take n (drop off bs))"

fun first_load :: "byte list \<Rightarrow> nat \<Rightarrow> int" where
  "first_load ph 0 = 1"
| "first_load ph (Suc n) =
     (if field ph 0 4 = 1 \<and> field ph 8 8 = 0 then (if field ph 16 8 = 0 then 0 else 1)
      else first_load (drop 56 ph) n)"

definition rs_mmap_is_absolute :: "byte list option \<Rightarrow> int" where
  "rs_mmap_is_absolute file =
     (case file of
        None \<Rightarrow> -2
      | Some bs \<Rightarrow>
          if length bs < 64 then -22
          else (let phoff = field bs 32 8; phnum = field bs 56 2
                in if length bs < phoff + 56 * phnum then -22 else first_load (drop phoff bs) phnum))"

record call_address_filter =
  af_start :: u64
  af_size :: u64

definition strstr :: "cstring \<Rightarrow> cstring \<Rightarrow> bool" where
  "strstr s pat = list_ex (\<lambda>n. take (length pat) (drop n s) = pat) [0..<Suc (length s)]"

definition mmap_lookup_filter_range_target ::
    "postproc_options \<Rightarrow> cstring \<Rightarrow> (cstring \<Rightarrow> byte list option) \<Rightarrow> sp_rtrace_mmap \<Rightarrow> call_address_filter \<Rightarrow> call_address_filter" where
  "mmap_lookup_filter_range_target opt target file mmap f =
     (if strstr (mm_module mmap) target then
        (let f = f\<lparr>af_start := opt_range_start opt, af_size := opt_range_size opt\<rparr>
         in if rs_mmap_is_absolute (file (mm_module mmap)) = 0
            then f\<lparr>af_start := af_start f + mm_from mmap\<rparr> else f)
      else f)"

text \<open>The walk over the mappings stops as soon as the start address is set (\<open>dlist_foreach2_in\<close>).\<close>

fun mmap_lookup_loop ::
    "postproc_options \<Rightarrow> cstring \<Rightarrow> (cstring \<Rightarrow> byte list option) \<Rightarrow> sp_rtrace_mmap list \<Rightarrow> call_address_filter \<Rightarrow> call_address_filter" where
  "mmap_lookup_loop opt target file [] f = f"
| "mmap_lookup_loop opt target file (m # ms) f =
     (if af_start f = 0
      then mmap_lookup_loop opt target file ms (mmap_lookup_filter_range_target opt target file m f)
      else f)"

definition in_range :: "call_address_filter \<Rightarrow> pointer_t \<Rightarrow> bool" where
  "in_range f a \<longleftrightarrow> a \<ge> af_start f \<and> a < af_start f + af_size f"

definition fcall_filter_range :: "call_address_filter \<Rightarrow> ptr \<Rightarrow> rd \<times> rheap \<Rightarrow> (rd \<times> rheap) option" where
  "fcall_filter_range f c s = do {
     call \<leftarrow> rh_fcalls (snd s) c;
     trace \<leftarrow> rh_ftraces (snd s) (call_trace call);
     remove_if (\<not> list_ex (in_range f) (ft_used trace)) c s }"

text \<open>Without a matching mapping nothing is filtered and the target option is reset.\<close>

definition filter_call_address_range ::
    "postproc_options \<Rightarrow> cstring \<Rightarrow> (cstring \<Rightarrow> byte list option) \<Rightarrow> rd \<Rightarrow> rheap \<Rightarrow>
     ((rd \<times> rheap) \<times> postproc_options) option" where
  "filter_call_address_range opt target file rd h =
     (let f = mmap_lookup_loop opt target file (rd_mmaps rd) \<lparr>af_start = 0, af_size = 0\<rparr>
      in if af_start f = 0 then Some ((rd, h), opt\<lparr>opt_range_target := None\<rparr>)
         else do { s \<leftarrow> fold_opt (fcall_filter_range f) (rd_calls rd) (rd, h); Some (s, opt) })"

section \<open>Other passes over the records\<close>

definition filter_update_resource_visibility :: "rd \<Rightarrow> rheap \<Rightarrow> rheap option" where
  "filter_update_resource_visibility rd h =
     (case rd_resources rd of
        [p] \<Rightarrow> do {
          r \<leftarrow> rh_resources h p;
          Some (h\<lparr>rh_resources := (rh_resources h)(p \<mapsto>
            r\<lparr>rr_hide := True, rr_data := (rr_data r)\<lparr>rs_id := 1\<rparr>\<rparr>)\<rparr>) }
      | _ \<Rightarrow> Some h)"

definition fcall_find_lowhigh_blocks :: "rheap \<Rightarrow> ptr \<Rightarrow> rd_hinfo \<Rightarrow> rd_hinfo option" where
  "fcall_find_lowhigh_blocks h c hi = do {
     call \<leftarrow> rh_fcalls h c;
     let id = fc_res_id (call_data call);
     Some (if fc_type (call_data call) = FTYPE_ALLOC then
        (let hi = (if id < hi_lowest_block hi then hi\<lparr>hi_lowest_block := id\<rparr> else hi)
         in if id > hi_highest_block hi then hi\<lparr>hi_highest_block := id\<rparr> else hi)
      else hi) }"

definition filter_find_lowhigh_blocks :: "rd \<Rightarrow> rheap \<Rightarrow> rd option" where
  "filter_find_lowhigh_blocks rd h = do {
     hi \<leftarrow> rd_hinfo rd;
     hi \<leftarrow> fold_opt (fcall_find_lowhigh_blocks h) (rd_calls rd) (hi\<lparr>hi_lowest_block := - 1\<rparr>);
     Some (rd\<lparr>rd_hinfo := Some hi\<rparr>) }"

record leak_data =
  lk_count :: int
  lk_total_size :: u64

text \<open>One slot per resource id, starting at 1; a missing resource type counts in the first slot.\<close>

definition filter_sum_leaks :: "rheap \<Rightarrow> ptr \<Rightarrow> leak_data list \<Rightarrow> leak_data list option" where
  "filter_sum_leaks h c leaks = do {
     call \<leftarrow> rh_fcalls h c;
     if fc_type (call_data call) = FTYPE_ALLOC then do {
       (p, _) \<leftarrow> res_key h c;
       i \<leftarrow> (if p = NULL then Some 0
            else map_option (\<lambda>r. unat (rs_id (rr_data r) - 1)) (rh_resources h p));
       guard (i < length leaks);
       Some (leaks[i := (leaks ! i)\<lparr>lk_count := lk_count (leaks ! i) + 1,
         lk_total_size := lk_total_size (leaks ! i) + scast (fc_res_size (call_data call))\<rparr>]) }
     else Some leaks }"

definition trim_backtrace :: "u32 \<Rightarrow> rd_ftrace \<Rightarrow> rd_ftrace" where
  "trim_backtrace backtrace_depth trace =
     (if ft_nframes trace > ucast backtrace_depth then trace\<lparr>ft_nframes := ucast backtrace_depth\<rparr> else trace)"

definition filter_trim_backtraces :: "postproc_options \<Rightarrow> rd \<Rightarrow> rheap \<Rightarrow> (rd \<times> rheap) option" where
  "filter_trim_backtraces opt rd h = do {
     info \<leftarrow> rd_pinfo rd;
     let rd = rd\<lparr>rd_pinfo := Some (info\<lparr>pi_backtrace_depth := opt_backtrace_depth opt\<rparr>)\<rparr>;
     h \<leftarrow> fold_opt (\<lambda>t h. do {
         trace \<leftarrow> rh_ftraces h t;
         Some (h\<lparr>rh_ftraces := (rh_ftraces h)(t \<mapsto> trim_backtrace (opt_backtrace_depth opt) trace)\<rparr>) })
       (a_nodes (rd_ftraces rd)) h;
     Some (rd, h) }"

end
