(* ===== verification/Leaks.thy ===== *)
theory Leaks
  imports Call_Filter
begin

text \<open>
  Correctness of the leak filter.  The calls are abstracted to events (allocation or release of a
  key, the resource type with the resource id); the specification keeps a finite map from keys to
  the live allocation record.  The hash table implementation simulates it, and the surviving
  calls are characterised directly on the event sequence.
\<close>

section \<open>Events\<close>

type_synonym key = "ptr \<times> pointer_t"

record 'k event =
  ev_call :: ptr
  ev_type :: u32
  ev_key :: 'k
  ev_counted :: bool

definition call_event :: "rheap \<Rightarrow> ptr \<Rightarrow> key event" where
  "call_event h c = \<lparr>ev_call = c, ev_type = fc_type (call_data (the (rh_fcalls h c))),
     ev_key = the (res_key h c), ev_counted = the (is_refcounted h c)\<rparr>"

text \<open>The calls the filter can process: a resource type is set and its record exists.\<close>

definition call_typed :: "rheap \<Rightarrow> ptr \<Rightarrow> bool" where
  "call_typed h c \<longleftrightarrow> (\<exists>call p r. rh_fcalls h c = Some call \<and> fc_res_type (call_data call) = RFIELD_REF p \<and>
     p \<noteq> NULL \<and> rh_resources h p = Some r)"

definition resource_ids_unique :: "rheap \<Rightarrow> bool" where
  "resource_ids_unique h \<longleftrightarrow> (\<forall>p q r s. rh_resources h p = Some r \<longrightarrow> rh_resources h q = Some s \<longrightarrow>
     rs_id (rr_data r) = rs_id (rr_data s) \<longrightarrow> p = q)"

section \<open>Specification\<close>

type_synonym 'k live = "'k \<rightharpoonup> ptr \<times> int"

definition leak_step :: "'k event \<Rightarrow> 'k live \<times> ptr list \<Rightarrow> 'k live \<times> ptr list" where
  "leak_step e s = (case s of (m, kept) \<Rightarrow>
     if ev_type e = FTYPE_ALLOC then
       (case m (ev_key e) of
          Some (a, n) \<Rightarrow> if ev_counted e then (m(ev_key e \<mapsto> (a, n + 1)), remove1 (ev_call e) kept)
                        else (m(ev_key e \<mapsto> (ev_call e, 1)), kept)
        | None \<Rightarrow> (m(ev_key e \<mapsto> (ev_call e, 1)), kept))
     else if ev_type e = FTYPE_FREE then
       (case m (ev_key e) of
          None \<Rightarrow> (m, remove1 (ev_call e) kept)
        | Some (a, n) \<Rightarrow> if n - 1 = 0 \<or> \<not> ev_counted e
             then (m(ev_key e := None), remove1 (ev_call e) (remove1 a kept))
             else (m(ev_key e \<mapsto> (a, n - 1)), remove1 (ev_call e) kept))
     else (m, kept))"

text \<open>Whether the record of key \<open>k\<close> with count \<open>n\<close> is removed by the rest of the trace.\<close>

fun released :: "'k \<Rightarrow> int \<Rightarrow> 'k event list \<Rightarrow> bool" where
  "released k n [] = False"
| "released k n (e # es) =
     (if ev_key e \<noteq> k then released k n es
      else if ev_type e = FTYPE_ALLOC then ev_counted e \<and> released k (n + 1) es
      else if ev_type e = FTYPE_FREE then n - 1 = 0 \<or> \<not> ev_counted e \<or> released k (n - 1) es
      else released k n es)"

text \<open>The calls that survive; \<open>cnt\<close> are the counts of the live keys.\<close>

fun survivors :: "('k \<rightharpoonup> int) \<Rightarrow> 'k event list \<Rightarrow> ptr list" where
  "survivors cnt [] = []"
| "survivors cnt (e # es) =
     (if ev_type e = FTYPE_ALLOC then
        (if cnt (ev_key e) \<noteq> None \<and> ev_counted e
         then survivors (cnt(ev_key e \<mapsto> the (cnt (ev_key e)) + 1)) es
         else (if released (ev_key e) 1 es then [] else [ev_call e]) @ survivors (cnt(ev_key e \<mapsto> 1)) es)
      else if ev_type e = FTYPE_FREE then
        (case cnt (ev_key e) of
           None \<Rightarrow> survivors cnt es
         | Some n \<Rightarrow> if n - 1 = 0 \<or> \<not> ev_counted e then survivors (cnt(ev_key e := None)) es
                    else survivors (cnt(ev_key e \<mapsto> n - 1)) es)
      else ev_call e # survivors cnt es)"

definition live_ok :: "'k live \<Rightarrow> ptr list \<Rightarrow> bool" where
  "live_ok m pre \<longleftrightarrow> (\<forall>k a n. m k = Some (a, n) \<longrightarrow> a \<in> set pre) \<and>
     (\<forall>k k' a n n'. m k = Some (a, n) \<longrightarrow> m k' = Some (a, n') \<longrightarrow> k = k')"

definition dropped :: "'k live \<Rightarrow> 'k event list \<Rightarrow> ptr \<Rightarrow> bool" where
  "dropped m es a \<longleftrightarrow> (\<exists>k n. m k = Some (a, n) \<and> released k n es)"

definition dropped_other :: "'k \<Rightarrow> 'k live \<Rightarrow> 'k event list \<Rightarrow> ptr \<Rightarrow> bool" where
  "dropped_other k m es a \<longleftrightarrow> (\<exists>k' n. k' \<noteq> k \<and> m k' = Some (a, n) \<and> released k' n es)"

lemma dropped_split:
  "dropped m es a \<longleftrightarrow> (\<exists>n. m k = Some (a, n) \<and> released k n es) \<or> dropped_other k m es a"
  by (auto simp: dropped_def dropped_other_def)

lemma dropped_other_simps [simp]:
  "dropped_other k (m(k := v)) es a = dropped_other k m es a"
  "dropped_other (ev_key e) m (e # es) a = dropped_other (ev_key e) m es a"
  by (auto simp: dropped_other_def)

definition counts :: "'k live \<Rightarrow> ('k \<rightharpoonup> int)" where
  "counts m = (\<lambda>k. map_option snd (m k))"

lemma counts_simps [simp]:
  "counts (m(k \<mapsto> (a, n))) = (counts m)(k \<mapsto> n)" "counts (m(k := None)) = (counts m)(k := None)"
  "counts Map.empty = Map.empty" "counts m k = None \<longleftrightarrow> m k = None"
  "m k = Some (a, n) \<Longrightarrow> counts m k = Some n" "m k = None \<Longrightarrow> counts m k = None"
  by (auto simp: counts_def)

lemma ftype_neq [simp]: "FTYPE_ALLOC \<noteq> FTYPE_FREE" "FTYPE_FREE \<noteq> FTYPE_ALLOC"
  by (simp_all add: FTYPE_ALLOC_def FTYPE_FREE_def)

lemma remove1_filter_fresh: "c \<notin> set pre \<Longrightarrow> remove1 c (pre @ c # xs) = pre @ xs"
  by (simp add: remove1_append)

lemma live_ok_upd:
  "live_ok m pre \<Longrightarrow> c \<notin> set pre \<Longrightarrow> live_ok (m(k \<mapsto> (c, n))) (pre @ [c])"
  by (fastforce simp: live_ok_def split: if_splits)

lemma live_ok_count: "live_ok m pre \<Longrightarrow> m k = Some (a, n) \<Longrightarrow> live_ok (m(k \<mapsto> (a, n'))) pre"
  unfolding live_ok_def by (auto split: if_splits)

lemma live_ok_clear: "live_ok m pre \<Longrightarrow> m k = Some (a, n) \<Longrightarrow> live_ok (m(k := None)) (remove1 a pre)"
proof -
  assume ok: "live_ok m pre" and k: "m k = Some (a, n)"
  have "a' \<noteq> a" "a' \<in> set pre" if "m k' = Some (a', n')" "k' \<noteq> k" for k' a' n'
    using ok k that unfolding live_ok_def by metis+
  then have "\<forall>k' a' n'. (m(k := None)) k' = Some (a', n') \<longrightarrow> a' \<in> set (remove1 a pre)"
    by (metis fun_upd_apply in_set_remove1 option.distinct(1))
  moreover have "\<forall>k1 k2 a n n'. (m(k := None)) k1 = Some (a, n) \<longrightarrow> (m(k := None)) k2 = Some (a, n') \<longrightarrow> k1 = k2"
    using ok unfolding live_ok_def by (metis fun_upd_apply option.distinct(1))
  ultimately show ?thesis unfolding live_ok_def by blast
qed

lemma live_ok_append: "live_ok m pre \<Longrightarrow> live_ok m (pre @ xs)"
  by (auto simp: live_ok_def)

theorem leak_fold_survivors:
  assumes "live_ok m pre" "distinct (pre @ map ev_call es)"
  shows "snd (fold leak_step es (m, pre @ map ev_call es)) =
    filter (\<lambda>a. \<not> dropped m es a) pre @ survivors (counts m) es"
  using assms
proof (induction es arbitrary: m pre)
  case Nil
  then show ?case by (simp add: dropped_def)
next
  case (Cons e es)
  let ?k = "ev_key e" and ?c = "ev_call e"
  have fresh: "?c \<notin> set pre" "distinct pre" "?c \<notin> ev_call ` set es" "distinct (map ev_call es)"
      "set pre \<inter> ev_call ` set es = {}" using Cons.prems by auto
  consider (alloc_new) "ev_type e = FTYPE_ALLOC" "m ?k = None \<or> \<not> ev_counted e"
    | (alloc_count) a n where "ev_type e = FTYPE_ALLOC" "m ?k = Some (a, n)" "ev_counted e"
    | (free_none) "ev_type e = FTYPE_FREE" "m ?k = None"
    | (free_drop) a n where "ev_type e = FTYPE_FREE" "m ?k = Some (a, n)" "n - 1 = 0 \<or> \<not> ev_counted e"
    | (free_count) a n where "ev_type e = FTYPE_FREE" "m ?k = Some (a, n)" "n - 1 \<noteq> 0" "ev_counted e"
    | (other) "ev_type e \<noteq> FTYPE_ALLOC" "ev_type e \<noteq> FTYPE_FREE"
    by (metis option.exhaust surj_pair)
  then show ?case
  proof cases
    case alloc_new
    let ?m = "m(?k \<mapsto> (?c, 1))"
    have ih: "snd (fold leak_step es (?m, (pre @ [?c]) @ map ev_call es)) =
        filter (\<lambda>a. \<not> dropped ?m es a) (pre @ [?c]) @ survivors (counts ?m) es"
      using Cons.prems fresh by (intro Cons.IH live_ok_upd) auto
    have "dropped ?m es a \<longleftrightarrow> dropped m (e # es) a" if "a \<in> set pre" for a
      using that alloc_new fresh(1) by (auto simp: dropped_split [where k = ?k])
    moreover have "dropped ?m es ?c \<longleftrightarrow> released ?k 1 es"
      using Cons.prems(1) fresh(1) by (auto simp: dropped_split [where k = ?k] dropped_other_def live_ok_def)
    moreover have "leak_step e (m, pre @ map ev_call (e # es)) = (?m, (pre @ [?c]) @ map ev_call es)"
      using alloc_new by (auto simp: leak_step_def split: option.splits)
    ultimately show ?thesis using ih alloc_new by (auto cong: filter_cong)
  next
    case (alloc_count a n)
    let ?m = "m(?k \<mapsto> (a, n + 1))"
    have ih: "snd (fold leak_step es (?m, pre @ map ev_call es)) =
        filter (\<lambda>a. \<not> dropped ?m es a) pre @ survivors (counts ?m) es"
      using Cons.prems fresh alloc_count by (intro Cons.IH live_ok_count) auto
    have "dropped ?m es b \<longleftrightarrow> dropped m (e # es) b" for b
      using alloc_count by (auto simp: dropped_split [where k = ?k])
    moreover have "leak_step e (m, pre @ map ev_call (e # es)) = (?m, pre @ map ev_call es)"
      using alloc_count fresh(1) by (simp add: leak_step_def remove1_filter_fresh)
    ultimately show ?thesis using ih alloc_count by simp
  next
    case free_none
    have ih: "snd (fold leak_step es (m, pre @ map ev_call es)) =
        filter (\<lambda>a. \<not> dropped m es a) pre @ survivors (counts m) es"
      using Cons.prems fresh by (intro Cons.IH) auto
    have "dropped m es b \<longleftrightarrow> dropped m (e # es) b" for b
      using free_none by (auto simp: dropped_split [where k = ?k])
    moreover have "leak_step e (m, pre @ map ev_call (e # es)) = (m, pre @ map ev_call es)"
      using free_none fresh(1) by (simp add: leak_step_def remove1_filter_fresh)
    ultimately show ?thesis using ih free_none by simp
  next
    case (free_drop a n)
    let ?m = "m(?k := None)"
    have a: "a \<in> set pre" using free_drop Cons.prems(1) by (auto simp: live_ok_def)
    have ih: "snd (fold leak_step es (?m, remove1 a pre @ map ev_call es)) =
        filter (\<lambda>a. \<not> dropped ?m es a) (remove1 a pre) @ survivors (counts ?m) es"
      using Cons.prems fresh free_drop
      by (intro Cons.IH live_ok_clear) (auto dest: set_mp [OF set_remove1_subset])
    have "dropped ?m es b \<longleftrightarrow> dropped m (e # es) b" if "b \<noteq> a" for b
      using that free_drop by (auto simp: dropped_split [where k = ?k])
    moreover have "dropped m (e # es) a" using free_drop by (auto simp: dropped_split [where k = ?k])
    ultimately have eq: "(a \<noteq> b \<and> \<not> dropped ?m es b) = (\<not> dropped m (e # es) b)" for b by (cases "b = a") auto
    have "filter (\<lambda>a. \<not> dropped ?m es a) (remove1 a pre) = filter (\<lambda>b. a \<noteq> b \<and> \<not> dropped ?m es b) pre"
      using fresh(2) by (simp add: distinct_remove1_removeAll removeAll_filter_not_eq conj_commute)
    then have "filter (\<lambda>a. \<not> dropped ?m es a) (remove1 a pre) = filter (\<lambda>a. \<not> dropped m (e # es) a) pre"
      unfolding eq .
    moreover have "leak_step e (m, pre @ map ev_call (e # es)) = (?m, remove1 a pre @ map ev_call es)"
      using free_drop a fresh(1) by (auto simp: leak_step_def remove1_append dest: set_mp [OF set_remove1_subset])
    ultimately show ?thesis using ih free_drop by simp
  next
    case (free_count a n)
    let ?m = "m(?k \<mapsto> (a, n - 1))"
    have ih: "snd (fold leak_step es (?m, pre @ map ev_call es)) =
        filter (\<lambda>a. \<not> dropped ?m es a) pre @ survivors (counts ?m) es"
      using Cons.prems fresh free_count by (intro Cons.IH live_ok_count) auto
    have "dropped ?m es b \<longleftrightarrow> dropped m (e # es) b" for b
      using free_count by (auto simp: dropped_split [where k = ?k])
    moreover have "leak_step e (m, pre @ map ev_call (e # es)) = (?m, pre @ map ev_call es)"
      using free_count fresh(1) by (simp add: leak_step_def remove1_filter_fresh)
    ultimately show ?thesis using ih free_count by simp
  next
    case other
    have ih: "snd (fold leak_step es (m, (pre @ [?c]) @ map ev_call es)) =
        filter (\<lambda>a. \<not> dropped m es a) (pre @ [?c]) @ survivors (counts m) es"
      using Cons.prems fresh by (intro Cons.IH live_ok_append) auto
    have "dropped m es b \<longleftrightarrow> dropped m (e # es) b" for b
      using other by (auto simp: dropped_split [where k = ?k])
    moreover have "\<not> dropped m es ?c" using Cons.prems(1) fresh(1) by (auto simp: dropped_def live_ok_def)
    moreover have "leak_step e (m, pre @ map ev_call (e # es)) = (m, (pre @ [?c]) @ map ev_call es)"
      using other by (simp add: leak_step_def)
    ultimately show ?thesis using ih other by simp
  qed
qed

section \<open>Keys and hashes\<close>

text \<open>
  \<open>same_calls\<close>: the data and the backtraces of the listed calls and all resources are those of
  the initial heap.
\<close>

definition same_calls :: "rheap \<Rightarrow> ptr set \<Rightarrow> rheap \<Rightarrow> bool" where
  "same_calls h0 A h \<longleftrightarrow> (\<forall>c\<in>A. rh_fcalls h c = rh_fcalls h0 c \<and> call_frames h c = call_frames h0 c) \<and>
     rh_resources h = rh_resources h0"

lemma same_calls_eq:
  assumes "same_calls h0 A h" "c \<in> A"
  shows "rh_fcalls h c = rh_fcalls h0 c" "res_key h c = res_key h0 c" "res_hash h c = res_hash h0 c"
    "is_refcounted h c = is_refcounted h0 c"
proof -
  have r: "rh_resources h = rh_resources h0" using assms by (simp add: same_calls_def)
  show f: "rh_fcalls h c = rh_fcalls h0 c" using assms by (simp add: same_calls_def)
  show k: "res_key h c = res_key h0 c" unfolding res_key_def f by (rule refl)
  show "res_hash h c = res_hash h0 c" unfolding res_hash_def k r by (rule refl)
  show "is_refcounted h c = is_refcounted h0 c" unfolding is_refcounted_def k r by (rule refl)
qed

lemma res_compare_same:
  assumes "same_calls h0 A h" "c \<in> A" "d \<in> A"
  shows "res_compare h c d = res_compare h0 c d"
proof -
  have r: "rh_resources h = rh_resources h0" using assms by (simp add: same_calls_def)
  show ?thesis
    unfolding res_compare_def r same_calls_eq(2) [OF assms(1,2)] same_calls_eq(2) [OF assms(1,3)] by (rule refl)
qed

lemma call_typed_key:
  assumes "call_typed h c"
  obtains p i r where "res_key h c = Some (p, i)" "p \<noteq> NULL" "rh_resources h p = Some r"
    "res_hash h c = Some (sint (hash_fold (hash_fold 0 i) (rs_id (rr_data r))))"
    "is_refcounted h c = Some (rs_flags (rr_data r) AND RESOURCE_REFCOUNT \<noteq> 0)"
  using assms by (auto simp: call_typed_def res_key_def res_hash_def is_refcounted_def)

text \<open>Two calls compare equal exactly if they are about the same resource.\<close>

lemma res_compare_0_iff:
  assumes "call_typed h c" "call_typed h d" "resource_ids_unique h"
  shows "\<exists>v. res_compare h c d = Some v \<and> (v = 0 \<longleftrightarrow> res_key h c = res_key h d)"
proof -
  obtain p i r where c: "res_key h c = Some (p, i)" "p \<noteq> NULL" "rh_resources h p = Some r"
    using assms(1) by (rule call_typed_key)
  obtain q j s where d: "res_key h d = Some (q, j)" "q \<noteq> NULL" "rh_resources h q = Some s"
    using assms(2) by (rule call_typed_key)
  show ?thesis
  proof (cases "p = q")
    case True
    then show ?thesis using c d by (simp add: res_compare_def signed_eq_0_iff)
  next
    case False
    then have "rs_id (rr_data r) \<noteq> rs_id (rr_data s)"
      using c d assms(3) unfolding resource_ids_unique_def by metis
    then show ?thesis using False c d by (simp add: res_compare_def signed_eq_0_iff)
  qed
qed

lemma sint_16bit: "(w :: u64) < 0x10000 \<Longrightarrow> 0 \<le> sint w \<and> sint w < 65536"
proof -
  assume "w < 0x10000"
  then have less: "uint w < 65536" by (simp add: word_less_def)
  moreover have "- (2 ^ 63) \<le> uint w" by (rule order_trans [OF _ uint_ge_0]) simp
  ultimately have "sint w = uint w" by (simp add: sint_uint signed_take_bit_int_eq_self)
  with less show ?thesis by simp
qed

definition key_bucket :: "rheap \<Rightarrow> ptr \<Rightarrow> nat" where
  "key_bucket h c = nat (the (res_hash h c))"

lemma key_bucket_ok:
  assumes "call_typed h c"
  shows "\<exists>hash. res_hash h c = Some hash \<and> hash_index HASH_SIZE hash = Some (key_bucket h c)" "key_bucket h c < 65536"
proof -
  obtain p i r where "res_key h c = Some (p, i)" "p \<noteq> NULL" "rh_resources h p = Some r" and *: "res_hash h c = Some (sint (hash_fold (hash_fold 0 i) (rs_id (rr_data r))))"
    using assms by (rule call_typed_key)
  have range: "0 \<le> sint (hash_fold (hash_fold 0 i) (rs_id (rr_data r)))"
      "sint (hash_fold (hash_fold 0 i) (rs_id (rr_data r))) < 65536"
    using sint_16bit hash_fold_less [of "hash_fold 0 i"] hash_fold_less [of 0 i] by auto
  show "\<exists>hash. res_hash h c = Some hash \<and> hash_index HASH_SIZE hash = Some (key_bucket h c)"
    using * hash_index_16bit [OF range] by (simp add: HASH_SIZE_def key_bucket_def)
  show "key_bucket h c < 65536" using * range by (simp add: key_bucket_def)
qed

lemma key_bucket_cong: "res_key h c = res_key h d \<Longrightarrow> key_bucket h c = key_bucket h d"
  by (simp add: key_bucket_def res_hash_def)

section \<open>Simulation\<close>

text \<open>
  The index table represents the live map: its nodes are in the buckets of their keys, one per
  key, and carry the live call and its count.
\<close>

definition node_ok :: "rheap \<Rightarrow> fres_index \<Rightarrow> key live \<Rightarrow> ptr set \<Rightarrow> nat \<Rightarrow> ptr \<Rightarrow> bool" where
  "node_ok h idx m A b n \<longleftrightarrow> (\<exists>f. fi_store idx n = Some f \<and> fr_bucket f = Some b \<and> fr_call f \<in> A \<and>
     key_bucket h (fr_call f) = b \<and> m (the (res_key h (fr_call f))) = Some (fr_call f, fr_ref_count f))"

definition index_rep :: "rheap \<Rightarrow> fres_index \<Rightarrow> key live \<Rightarrow> ptr set \<Rightarrow> bool" where
  "index_rep h idx m A \<longleftrightarrow> a_size (fi_table idx) = 65536 \<and>
     (\<forall>b. distinct (a_bucket (fi_table idx) b) \<and>
       (\<forall>n\<in>set (a_bucket (fi_table idx) b). b < 65536 \<and> node_ok h idx m A b n)) \<and>
     (\<forall>k a v. m k = Some (a, v) \<longrightarrow> the (res_key h a) = k \<and> a \<in> A \<and>
       (\<exists>n f. n \<in> set (a_bucket (fi_table idx) (key_bucket h a)) \<and> fi_store idx n = Some f \<and> fr_call f = a)) \<and>
     (\<forall>b n n' f f'. n \<in> set (a_bucket (fi_table idx) b) \<longrightarrow> n' \<in> set (a_bucket (fi_table idx) b) \<longrightarrow>
       fi_store idx n = Some f \<longrightarrow> fi_store idx n' = Some f' \<longrightarrow> fr_call f = fr_call f' \<longrightarrow> n = n') \<and>
     (\<forall>n\<ge>fi_next idx. fi_store idx n = None)"

lemma index_rep_node:
  assumes "index_rep h idx m A" "n \<in> set (a_bucket (fi_table idx) b)"
  obtains f where "fi_store idx n = Some f" "fr_bucket f = Some b" "fr_call f \<in> A" "key_bucket h (fr_call f) = b"
    "m (the (res_key h (fr_call f))) = Some (fr_call f, fr_ref_count f)"
  using assms unfolding index_rep_def node_ok_def by blast

lemma index_rep_live:
  assumes "index_rep h idx m A" "m k = Some (a, v)"
  obtains n f where "n \<in> set (a_bucket (fi_table idx) (key_bucket h a))" "fi_store idx n = Some f" "fr_call f = a"
    "the (res_key h a) = k" "a \<in> A"
  using assms unfolding index_rep_def by blast

lemma index_rep_unique:
  assumes "index_rep h idx m A" "n \<in> set (a_bucket (fi_table idx) b)" "n' \<in> set (a_bucket (fi_table idx) b')"
    "fi_store idx n = Some f" "fi_store idx n' = Some f'" "fr_call f = fr_call f'"
  shows "n = n'"
proof -
  have "b = b'" using index_rep_node [OF assms(1,2)] index_rep_node [OF assms(1,3)] assms(4-6) by (metis option.inject)
  then show ?thesis using assms unfolding index_rep_def by blast
qed

lemma index_rep_init: "index_rep h fres_index_init Map.empty A"
  by (simp add: index_rep_def fres_index_init_def a_init_def HASH_SIZE_def)

lemma index_rep_shrink:
  assumes "index_rep h idx m A" "\<forall>k a v. m k = Some (a, v) \<longrightarrow> a \<in> B" "B \<subseteq> A"
  shows "index_rep h idx m B"
  using assms unfolding index_rep_def node_ok_def by blast

text \<open>The lookup returns the node of the live call.\<close>

lemma fres_find_ok:
  assumes rep: "index_rep h0 idx m A" and same: "same_calls h0 A h" and typed: "\<forall>c\<in>A. call_typed h0 c"
    and uniq: "resource_ids_unique h0" and c: "c \<in> A" and k: "k = the (res_key h0 c)"
  shows "case m k of
      None \<Rightarrow> seq_find (compare_fres h idx c) (a_bucket (fi_table idx) (key_bucket h0 c)) = Some None
    | Some (a, v) \<Rightarrow> \<exists>n f. seq_find (compare_fres h idx c) (a_bucket (fi_table idx) (key_bucket h0 c)) = Some (Some n) \<and>
        n \<in> set (a_bucket (fi_table idx) (key_bucket h0 c)) \<and> fi_store idx n = Some f \<and> fr_call f = a \<and>
        fr_ref_count f = v \<and> fr_bucket f = Some (key_bucket h0 c)"
proof -
  let ?xs = "a_bucket (fi_table idx) (key_bucket h0 c)"
  let ?call = "\<lambda>n. fr_call (the (fi_store idx n))"
  let ?g = "\<lambda>n. the (res_compare h0 (?call n) c)"
  have cmp: "compare_fres h idx c n = Some (?g n)" "?g n = 0 \<longleftrightarrow> res_key h0 (?call n) = res_key h0 c" if n: "n \<in> set ?xs" for n
  proof -
    obtain f where f: "fi_store idx n = Some f" "fr_call f \<in> A" using index_rep_node [OF rep n] by metis
    obtain v where "res_compare h0 (fr_call f) c = Some v" "v = 0 \<longleftrightarrow> res_key h0 (fr_call f) = res_key h0 c"
      using res_compare_0_iff [OF _ _ uniq, of "fr_call f" c] typed f(2) c by blast
    then show "compare_fres h idx c n = Some (?g n)" "?g n = 0 \<longleftrightarrow> res_key h0 (?call n) = res_key h0 c"
      using f res_compare_same [OF same f(2) c] by (auto simp: compare_fres_def)
  qed
  have find: "seq_find (compare_fres h idx c) ?xs = Some (find (\<lambda>n. ?g n = 0) ?xs)"
    using cmp(1) by (intro seq_find_total) auto
  have keyD: "res_key h0 a = res_key h0 c" if "the (res_key h0 a) = k" "a \<in> A" for a
    using that k typed c by (metis call_typed_key option.sel)
  show ?thesis
  proof (cases "m k")
    case None
    have "?g n \<noteq> 0" if n: "n \<in> set ?xs" for n
      using index_rep_node [OF rep n] cmp(2) [OF n] None k by (metis option.distinct(1) option.sel)
    then have "find (\<lambda>n. ?g n = 0) ?xs = None" by (auto simp: find_None_iff)
    then show ?thesis using None find by simp
  next
    case (Some av)
    obtain a v where av: "av = (a, v)" by fastforce
    obtain n f where n: "n \<in> set (a_bucket (fi_table idx) (key_bucket h0 a))" "fi_store idx n = Some f" "fr_call f = a"
        "the (res_key h0 a) = k" "a \<in> A" using index_rep_live [OF rep] Some av by metis
    have key: "res_key h0 a = res_key h0 c" by (rule keyD [OF n(4,5)])
    then have nx: "n \<in> set ?xs" using n key_bucket_cong [OF key] by simp
    have "?g n = 0" using cmp(2) [OF nx] n(2,3) key by simp
    with nx obtain n' where n': "find (\<lambda>n. ?g n = 0) ?xs = Some n'" "n' \<in> set ?xs" "?g n' = 0"
      by (cases "find (\<lambda>n. ?g n = 0) ?xs") (auto simp: find_None_iff find_Some_iff)
    obtain f' where f': "fi_store idx n' = Some f'" "fr_bucket f' = Some (key_bucket h0 c)"
        "m (the (res_key h0 (fr_call f'))) = Some (fr_call f', fr_ref_count f')"
      using index_rep_node [OF rep n'(2)] by metis
    have "res_key h0 (fr_call f') = res_key h0 c" using cmp(2) [OF n'(2)] n'(3) f'(1) by simp
    then have "(fr_call f', fr_ref_count f') = (a, v)" using f'(3) Some av k by simp
    then show ?thesis using Some av find n' f' by auto
  qed
qed

text \<open>The three updates of the index: a new count, removal of a node, a new node.\<close>

lemma index_rep_count:
  assumes rep: "index_rep h idx m A" and n: "n \<in> set (a_bucket (fi_table idx) b)" "fi_store idx n = Some f"
    and k: "k = the (res_key h (fr_call f))"
  shows "index_rep h (idx\<lparr>fi_store := (fi_store idx)(n \<mapsto> f\<lparr>fr_ref_count := v\<rparr>)\<rparr>) (m(k \<mapsto> (fr_call f, v))) A"
    (is "index_rep h ?idx ?m A")
proof -
  obtain nf: "fr_bucket f = Some b" "fr_call f \<in> A" "key_bucket h (fr_call f) = b"
      "m (the (res_key h (fr_call f))) = Some (fr_call f, fr_ref_count f)"
    using index_rep_node [OF rep n(1)] n(2) by auto
  have node: "node_ok h ?idx ?m A b' n'" if n': "n' \<in> set (a_bucket (fi_table idx) b')" for b' n'
  proof (cases "n' = n")
    case True
    then have "b' = b" using index_rep_node [OF rep n'] n(2) nf(3) by (metis option.inject)
    then show ?thesis using True nf k by (simp add: node_ok_def)
  next
    case False
    obtain f' where f': "fi_store idx n' = Some f'" "fr_bucket f' = Some b'" "fr_call f' \<in> A" "key_bucket h (fr_call f') = b'"
        "m (the (res_key h (fr_call f'))) = Some (fr_call f', fr_ref_count f')"
      using index_rep_node [OF rep n'] by metis
    have "fr_call f' \<noteq> fr_call f" using index_rep_unique [OF rep n' n(1) f'(1) n(2)] False by blast
    then have "the (res_key h (fr_call f')) \<noteq> k" using f'(5) nf(4) k by auto
    then show ?thesis using False f' by (simp add: node_ok_def)
  qed
  show ?thesis
    unfolding index_rep_def
  proof (intro conjI allI ballI impI)
    show "a_size (fi_table ?idx) = 65536" using rep by (simp add: index_rep_def)
    show "distinct (a_bucket (fi_table ?idx) b')" for b' using rep by (simp add: index_rep_def)
    show "b' < 65536" if "n' \<in> set (a_bucket (fi_table ?idx) b')" for b' n'
      using that rep by (auto simp: index_rep_def)
    show "node_ok h ?idx ?m A b' n'" if "n' \<in> set (a_bucket (fi_table ?idx) b')" for b' n' using that node by simp
    show "the (res_key h a) = k'" "a \<in> A" if "?m k' = Some (a, v')" for k' a v'
      using that k nf index_rep_live [OF rep] by (metis fun_upd_apply option.inject prod.inject)+
    show "\<exists>n' f'. n' \<in> set (a_bucket (fi_table ?idx) (key_bucket h a)) \<and> fi_store ?idx n' = Some f' \<and> fr_call f' = a"
      if m: "?m k' = Some (a, v')" for k' a v'
    proof (cases "k' = k")
      case True
      then show ?thesis using m n nf by auto
    next
      case False
      then obtain n' f' where "n' \<in> set (a_bucket (fi_table idx) (key_bucket h a))" "fi_store idx n' = Some f'" "fr_call f' = a"
        using index_rep_live [OF rep] m by (metis fun_upd_other)
      then show ?thesis using n by (cases "n' = n") auto
    qed
    show "n1 = n2" if "n1 \<in> set (a_bucket (fi_table ?idx) b')" "n2 \<in> set (a_bucket (fi_table ?idx) b')"
      "fi_store ?idx n1 = Some f1" "fi_store ?idx n2 = Some f2" "fr_call f1 = fr_call f2" for b' n1 n2 f1 f2
      using that index_rep_unique [OF rep, of n1 b' n2 b'] n(2) by (auto split: if_splits) blast+
    show "fi_store ?idx n' = None" if "fi_next ?idx \<le> n'" for n'
      using that rep n(2) by (auto simp: index_rep_def)
  qed
qed

lemma index_rep_drop:
  assumes rep: "index_rep h idx m A" and n: "n \<in> set (a_bucket (fi_table idx) b)" "fi_store idx n = Some f"
    and k: "k = the (res_key h (fr_call f))"
  shows "index_rep h (idx\<lparr>fi_table := (fi_table idx)\<lparr>a_bucket := (a_bucket (fi_table idx))(b := remove1 n (a_bucket (fi_table idx) b))\<rparr>,
      fi_store := (fi_store idx)(n := None)\<rparr>) (m(k := None)) A"
    (is "index_rep h ?idx ?m A")
proof -
  have nf: "key_bucket h (fr_call f) = b" "m k = Some (fr_call f, fr_ref_count f)"
    using index_rep_node [OF rep n(1)] n(2) k by (metis option.inject)+
  have dist: "distinct (a_bucket (fi_table idx) b')" for b' using rep by (simp add: index_rep_def)
  have once: "b' = b" if "n \<in> set (a_bucket (fi_table idx) b')" for b'
    using index_rep_node [OF rep that] n(2) nf(1) by (metis option.inject)
  have mem: "n' \<in> set (a_bucket (fi_table ?idx) b') \<longleftrightarrow> n' \<in> set (a_bucket (fi_table idx) b') \<and> n' \<noteq> n" for n' b'
    using once dist [of b] by auto
  have other: "k' \<noteq> k" if "n' \<in> set (a_bucket (fi_table idx) b')" "n' \<noteq> n" "fi_store idx n' = Some f'"
      "m k' = Some (fr_call f', v)" for n' b' f' k' v
  proof
    assume "k' = k"
    then have "fr_call f' = fr_call f" using that(4) nf(2) by simp
    then show False using index_rep_unique [OF rep that(1) n(1) that(3) n(2)] that(2) by simp
  qed
  show ?thesis
    unfolding index_rep_def
  proof (intro conjI allI ballI impI)
    show "a_size (fi_table ?idx) = 65536" using rep by (simp add: index_rep_def)
    show "distinct (a_bucket (fi_table ?idx) b')" for b' using dist [of b'] dist [of b] by simp
    show "b' < 65536" if "n' \<in> set (a_bucket (fi_table ?idx) b')" for b' n'
      using that rep unfolding mem by (auto simp: index_rep_def)
    show "node_ok h ?idx ?m A b' n'" if "n' \<in> set (a_bucket (fi_table ?idx) b')" for b' n'
    proof -
      have n': "n' \<in> set (a_bucket (fi_table idx) b')" "n' \<noteq> n" using that mem by auto
      obtain f' where f': "fi_store idx n' = Some f'" "fr_bucket f' = Some b'" "fr_call f' \<in> A" "key_bucket h (fr_call f') = b'"
          "m (the (res_key h (fr_call f'))) = Some (fr_call f', fr_ref_count f')"
        using index_rep_node [OF rep n'(1)] by metis
      then show ?thesis using other [OF n' f'(1,5)] n'(2) by (simp add: node_ok_def)
    qed
    show "the (res_key h a) = k'" "a \<in> A" if "?m k' = Some (a, v')" for k' a v'
      using that index_rep_live [OF rep] by (metis fun_upd_apply option.distinct(1))+
    show "\<exists>n' f'. n' \<in> set (a_bucket (fi_table ?idx) (key_bucket h a)) \<and> fi_store ?idx n' = Some f' \<and> fr_call f' = a"
      if m: "?m k' = Some (a, v')" for k' a v'
    proof -
      have k': "k' \<noteq> k" "m k' = Some (a, v')" using m by (auto split: if_splits)
      then obtain n' f' where *: "n' \<in> set (a_bucket (fi_table idx) (key_bucket h a))" "fi_store idx n' = Some f'" "fr_call f' = a"
          "the (res_key h a) = k'"
        using index_rep_live [OF rep] by metis
      then have "n' \<noteq> n" using n(2) k k'(1) by auto
      then show ?thesis using * mem by auto
    qed
    show "n1 = n2" if "n1 \<in> set (a_bucket (fi_table ?idx) b')" "n2 \<in> set (a_bucket (fi_table ?idx) b')"
      "fi_store ?idx n1 = Some f1" "fi_store ?idx n2 = Some f2" "fr_call f1 = fr_call f2" for b' n1 n2 f1 f2
      using that index_rep_unique [OF rep, of n1 b' n2 b'] unfolding mem by auto
    show "fi_store ?idx n' = None" if "fi_next ?idx \<le> n'" for n'
      using that rep by (auto simp: index_rep_def)
  qed
qed

lemma index_rep_add:
  assumes rep: "index_rep h idx m A" and c: "c \<in> A" "k = the (res_key h c)" "m k = None" "key_bucket h c < 65536"
  shows "index_rep h (idx\<lparr>fi_next := fi_next idx + 1,
      fi_store := (fi_store idx)(fi_next idx \<mapsto> \<lparr>fr_bucket = Some (key_bucket h c), fr_call = c, fr_ref_count = 1\<rparr>),
      fi_table := (fi_table idx)\<lparr>a_bucket := (a_bucket (fi_table idx))(key_bucket h c :=
        a_bucket (fi_table idx) (key_bucket h c) @ [fi_next idx])\<rparr>\<rparr>) (m(k \<mapsto> (c, 1))) A"
    (is "index_rep h ?idx ?m A")
proof -
  let ?n = "fi_next idx"
  have dist: "distinct (a_bucket (fi_table idx) b')" for b' using rep by (simp add: index_rep_def)
  have fresh: "fi_store idx ?n = None" using rep by (simp add: index_rep_def)
  have notin: "?n \<notin> set (a_bucket (fi_table idx) b')" for b'
    using index_rep_node [OF rep, of ?n b'] fresh by auto
  have mem: "n' \<in> set (a_bucket (fi_table ?idx) b') \<longleftrightarrow> n' \<in> set (a_bucket (fi_table idx) b') \<or> (n' = ?n \<and> b' = key_bucket h c)" for n' b'
    by auto
  have callc: "fr_call f' \<noteq> c" if "n' \<in> set (a_bucket (fi_table idx) b')" "fi_store idx n' = Some f'" for n' b' f'
    using index_rep_node [OF rep that(1)] that(2) c(2,3) by (metis option.distinct(1) option.inject)
  show ?thesis
    unfolding index_rep_def
  proof (intro conjI allI ballI impI)
    show "a_size (fi_table ?idx) = 65536" using rep by (simp add: index_rep_def)
    show "distinct (a_bucket (fi_table ?idx) b')" for b' using dist [of b'] dist [of "key_bucket h c"] notin by simp
    show "b' < 65536" if "n' \<in> set (a_bucket (fi_table ?idx) b')" for b' n'
      using that rep c(4) unfolding mem by (auto simp: index_rep_def)
    show "node_ok h ?idx ?m A b' n'" if "n' \<in> set (a_bucket (fi_table ?idx) b')" for b' n'
    proof (cases "n' = ?n")
      case True
      then show ?thesis using that notin c by (auto simp: node_ok_def split: if_splits)
    next
      case False
      then have n': "n' \<in> set (a_bucket (fi_table idx) b')" using that mem by auto
      obtain f' where f': "fi_store idx n' = Some f'" "fr_bucket f' = Some b'" "fr_call f' \<in> A" "key_bucket h (fr_call f') = b'"
          "m (the (res_key h (fr_call f'))) = Some (fr_call f', fr_ref_count f')"
        using index_rep_node [OF rep n'] by metis
      then have "the (res_key h (fr_call f')) \<noteq> k" using c(3) by auto
      then show ?thesis using f' False by (simp add: node_ok_def)
    qed
    show "the (res_key h a) = k'" "a \<in> A" if "?m k' = Some (a, v')" for k' a v'
      using that c index_rep_live [OF rep] by (metis fun_upd_apply option.inject prod.inject)+
    show "\<exists>n' f'. n' \<in> set (a_bucket (fi_table ?idx) (key_bucket h a)) \<and> fi_store ?idx n' = Some f' \<and> fr_call f' = a"
      if m: "?m k' = Some (a, v')" for k' a v'
    proof (cases "k' = k")
      case True
      then show ?thesis using m by (intro exI [of _ ?n]) auto
    next
      case False
      then obtain n' f' where *: "n' \<in> set (a_bucket (fi_table idx) (key_bucket h a))" "fi_store idx n' = Some f'" "fr_call f' = a"
        using index_rep_live [OF rep] m by (metis fun_upd_other)
      then have "n' \<noteq> ?n" using fresh by auto
      then show ?thesis using * mem by auto
    qed
    show "n1 = n2" if "n1 \<in> set (a_bucket (fi_table ?idx) b')" "n2 \<in> set (a_bucket (fi_table ?idx) b')"
      "fi_store ?idx n1 = Some f1" "fi_store ?idx n2 = Some f2" "fr_call f1 = fr_call f2" for b' n1 n2 f1 f2
      using that index_rep_unique [OF rep, of n1 b' n2 b'] callc notin unfolding mem by (auto split: if_splits) blast+
    show "fi_store ?idx n' = None" if "fi_next ?idx \<le> n'" for n'
      using that rep by (auto simp: index_rep_def)
  qed
qed

text \<open>Between the states of the implementation and of the specification, after the calls in \<open>D\<close>.\<close>

definition leak_sim :: "rheap \<Rightarrow> ptr set \<Rightarrow> leak_state \<Rightarrow> key live \<times> ptr list \<Rightarrow> bool" where
  "leak_sim h0 D s t \<longleftrightarrow> (case (s, t) of ((rd, h, idx), (m, kept)) \<Rightarrow>
     rd_inv rd h \<and> rd_calls rd = kept \<and> same_calls h0 (set kept) h \<and> index_rep h0 idx m (set kept) \<and>
     (\<forall>k a v. m k = Some (a, v) \<longrightarrow> a \<in> D))"

lemma remove_same_calls:
  assumes "rd_inv rd h" "c \<in> set (rd_calls rd)" "same_calls h0 (set (rd_calls rd)) h"
  shows "\<exists>rd' h'. rd_fcall_remove rd h c = Some (rd', h') \<and> rd_inv rd' h' \<and> rd_calls rd' = remove1 c (rd_calls rd) \<and>
    same_calls h0 (set (remove1 c (rd_calls rd))) h'"
proof -
  obtain rd' h' where r: "rd_fcall_remove rd h c = Some (rd', h')" "rd_inv rd' h'" "removed_call rd h c rd' h'"
    using rd_fcall_remove_ok [OF assms(1,2)] by blast
  have d: "distinct (rd_calls rd)" using assms(1) by (simp add: rd_inv_def inv_calls_def)
  have "rd_calls rd' = remove1 c (rd_calls rd)" by (rule removed_call_calls [OF r(3)])
  moreover have "same_calls h0 (set (remove1 c (rd_calls rd))) h'"
    using r(3) assms(3) d removed_call_frames [OF assms(1) r(2,3)] by (auto simp: removed_call_def same_calls_def)
  ultimately show ?thesis using r by blast
qed

lemma fres_find_eq:
  assumes "call_typed h0 c" "same_calls h0 A h" "c \<in> A"
  shows "fres_find h idx c = seq_find (compare_fres h idx c) (a_bucket (fi_table idx) (key_bucket h0 c))"
proof -
  obtain hash where "res_hash h0 c = Some hash" "hash_index HASH_SIZE hash = Some (key_bucket h0 c)"
    using key_bucket_ok [OF assms(1)] by blast
  then show ?thesis using same_calls_eq(3) [OF assms(2,3)] by (simp add: fres_find_def)
qed

lemma fres_store_ok:
  assumes rep: "index_rep h0 idx m A" and same: "same_calls h0 A h" and typed: "\<forall>c\<in>A. call_typed h0 c"
    and uniq: "resource_ids_unique h0" and c: "c \<in> A" and k: "k = the (res_key h0 c)"
  shows "\<exists>idx'. fres_store h idx c = Some idx' \<and> index_rep h0 idx' (m(k \<mapsto> (c, 1))) A"
proof -
  let ?b = "key_bucket h0 c" and ?n = "fi_next idx"
  have tc: "call_typed h0 c" using typed c by blast
  obtain hash where hash: "res_hash h c = Some hash" "hash_index HASH_SIZE hash = Some ?b"
    using key_bucket_ok(1) [OF tc] same_calls_eq(3) [OF same c] by auto
  note find = fres_find_ok [OF rep same typed uniq c k]
  show ?thesis
  proof (cases "m k")
    case None
    then have "seq_find (compare_fres h idx c) (a_bucket (fi_table idx) ?b) = Some None" using find by simp
    then show ?thesis
      using hash index_rep_add [OF rep c k None key_bucket_ok(2) [OF tc]] by (simp add: fres_store_def Let_def)
  next
    case (Some av)
    then obtain y f where y: "seq_find (compare_fres h idx c) (a_bucket (fi_table idx) ?b) = Some (Some y)"
        "y \<in> set (a_bucket (fi_table idx) ?b)" "fi_store idx y = Some f" "fr_call f = fst av"
      using find by (cases av) auto
    have kf: "k = the (res_key h0 (fr_call f))"
      using index_rep_live [OF rep, of k "fst av" "snd av"] Some y(4) by auto
    let ?idx = "idx\<lparr>fi_table := (fi_table idx)\<lparr>a_bucket := (a_bucket (fi_table idx))(?b := remove1 y (a_bucket (fi_table idx) ?b))\<rparr>,
      fi_store := (fi_store idx)(y := None)\<rparr>"
    have rep1: "index_rep h0 ?idx (m(k := None)) A" by (rule index_rep_drop [OF rep y(2,3) kf])
    have ny: "y \<noteq> ?n" using rep y(3) by (auto simp: index_rep_def)
    have "index_rep h0 (?idx\<lparr>fi_next := ?n + 1,
        fi_store := (fi_store ?idx)(?n \<mapsto> \<lparr>fr_bucket = Some ?b, fr_call = c, fr_ref_count = 1\<rparr>),
        fi_table := (fi_table ?idx)\<lparr>a_bucket := (a_bucket (fi_table ?idx))(?b := a_bucket (fi_table ?idx) ?b @ [?n])\<rparr>\<rparr>)
        ((m(k := None))(k \<mapsto> (c, 1))) A"
      using index_rep_add [OF rep1 c k _ key_bucket_ok(2) [OF tc]] by simp
    moreover have "fres_store h idx c = Some (?idx\<lparr>fi_next := ?n + 1,
        fi_store := (fi_store ?idx)(?n \<mapsto> \<lparr>fr_bucket = Some ?b, fr_call = c, fr_ref_count = 1\<rparr>),
        fi_table := (fi_table ?idx)\<lparr>a_bucket := (a_bucket (fi_table ?idx))(?b := a_bucket (fi_table ?idx) ?b @ [?n])\<rparr>\<rparr>)"
      using hash y ny by (simp add: fres_store_def free_fres_rec_def Let_def fun_upd_twist)
    ultimately show ?thesis by simp
  qed
qed

text \<open>One call of the callback is one step of the specification.\<close>

theorem fcall_remove_freed_sim:
  assumes sim: "leak_sim h0 D s (m, kept)" and c: "c \<in> set kept" "c \<notin> D"
    and typed: "\<forall>c\<in>set kept. call_typed h0 c" and uniq: "resource_ids_unique h0"
  shows "\<exists>s'. fcall_remove_freed c s = Some s' \<and> leak_sim h0 (insert c D) s' (leak_step (call_event h0 c) (m, kept))"
proof -
  obtain rd h idx where s: "s = (rd, h, idx)" by (cases s)
  have inv: "rd_inv rd h" and kept: "rd_calls rd = kept" and same: "same_calls h0 (set kept) h"
      and rep: "index_rep h0 idx m (set kept)" and D: "\<forall>k a v. m k = Some (a, v) \<longrightarrow> a \<in> D"
    using sim s by (auto simp: leak_sim_def)
  have dist: "distinct kept" using inv kept by (simp add: rd_inv_def inv_calls_def)
  let ?e = "call_event h0 c" and ?k = "the (res_key h0 c)" and ?b = "key_bucket h0 c"
  have tc: "call_typed h0 c" using typed c by blast
  obtain call where call: "rh_fcalls h c = Some call" "rh_fcalls h0 c = Some call"
    using tc same_calls_eq(1) [OF same c(1)] by (auto simp: call_typed_def)
  obtain cnt where cnt: "is_refcounted h c = Some cnt" "is_refcounted h0 c = Some cnt"
    using call_typed_key [OF tc] same_calls_eq(4) [OF same c(1)] by metis
  have e: "ev_call ?e = c" "ev_type ?e = fc_type (call_data call)" "ev_key ?e = ?k" "ev_counted ?e = cnt"
    using call cnt by (simp_all add: call_event_def)
  note find = fres_find_ok [OF rep same typed uniq c(1) refl]
  note eq = fres_find_eq [OF tc same c(1)]
  have rm: "\<exists>rd' h'. rd_fcall_remove rd h c = Some (rd', h') \<and> rd_inv rd' h' \<and> rd_calls rd' = remove1 c kept \<and>
      same_calls h0 (set (remove1 c kept)) h'"
    using remove_same_calls [OF inv, of c h0] c same kept by simp
  have live_ne: "a \<noteq> c" if "m k = Some (a, v)" for k a v using D c(2) that by blast
  have shrink: "index_rep h0 idx' m' (set (remove1 c kept))"
    if "index_rep h0 idx' m' (set kept)" "\<forall>k a v. m' k = Some (a, v) \<longrightarrow> a \<noteq> c" for idx' m'
  proof (rule index_rep_shrink [OF that(1)])
    show "\<forall>k a v. m' k = Some (a, v) \<longrightarrow> a \<in> set (remove1 c kept)"
      using that index_rep_live [OF that(1)] by (metis in_set_remove1)
  qed (rule set_remove1_subset)
  consider (alloc) "ev_type ?e = FTYPE_ALLOC" | (free) "ev_type ?e = FTYPE_FREE"
    | (other) "ev_type ?e \<noteq> FTYPE_ALLOC" "ev_type ?e \<noteq> FTYPE_FREE" by blast
  then show ?thesis
  proof cases
    case alloc
    then have ty: "fc_type (call_data call) = FTYPE_ALLOC" using e by simp
    show ?thesis
    proof (cases "m ?k \<noteq> None \<and> cnt")
      case False
      obtain idx' where st: "fres_store h idx c = Some idx'" "index_rep h0 idx' (m(?k \<mapsto> (c, 1))) (set kept)"
        using fres_store_ok [OF rep same typed uniq c(1) refl] by blast
      have "fcall_remove_freed c s = Some (rd, h, idx')"
        using False find eq s call ty st cnt by (auto simp: fcall_remove_freed_def split: option.splits)
      moreover have "leak_step ?e (m, kept) = (m(?k \<mapsto> (c, 1)), kept)"
        using False alloc e by (auto simp: leak_step_def split: option.splits)
      ultimately show ?thesis using inv kept same st D by (auto simp: leak_sim_def split: if_splits)
    next
      case True
      then obtain a v where av: "m ?k = Some (a, v)" by auto
      then obtain n f where n: "fres_find h idx c = Some (Some n)" "n \<in> set (a_bucket (fi_table idx) ?b)" "fi_store idx n = Some f"
          "fr_call f = a" "fr_ref_count f = v" using find eq by auto
      have kf: "?k = the (res_key h0 (fr_call f))" using index_rep_live [OF rep av] n(4) by metis
      obtain rd' h' where r: "rd_fcall_remove rd h c = Some (rd', h')" "rd_inv rd' h'" "rd_calls rd' = remove1 c kept"
          "same_calls h0 (set (remove1 c kept)) h'" using rm by blast
      let ?idx = "idx\<lparr>fi_store := (fi_store idx)(n \<mapsto> f\<lparr>fr_ref_count := v + 1\<rparr>)\<rparr>"
      have "index_rep h0 ?idx (m(?k \<mapsto> (a, v + 1))) (set kept)"
        using index_rep_count [OF rep n(2,3) kf, of "v + 1"] n(4) by simp
      then have "index_rep h0 ?idx (m(?k \<mapsto> (a, v + 1))) (set (remove1 c kept))"
        using live_ne av by (intro shrink) (auto split: if_splits)
      moreover have "fcall_remove_freed c s = Some (rd', h', ?idx)"
        using True n s call ty r cnt by (simp add: fcall_remove_freed_def fres_set_count_def remove_call_def)
      moreover have "leak_step ?e (m, kept) = (m(?k \<mapsto> (a, v + 1)), remove1 c kept)"
        using True alloc e av by (simp add: leak_step_def)
      moreover have "a \<in> D" using D av by blast
      ultimately show ?thesis using r D by (auto simp: leak_sim_def split: if_splits)
    qed
  next
    case free
    then have ty: "fc_type (call_data call) = FTYPE_FREE" using e by simp
    show ?thesis
    proof (cases "m ?k")
      case None
      obtain rd' h' where r: "rd_fcall_remove rd h c = Some (rd', h')" "rd_inv rd' h'" "rd_calls rd' = remove1 c kept"
          "same_calls h0 (set (remove1 c kept)) h'" using rm by blast
      have "fcall_remove_freed c s = Some (rd', h', idx)"
        using None find eq s call ty r by (simp add: fcall_remove_freed_def remove_call_def)
      moreover have "leak_step ?e (m, kept) = (m, remove1 c kept)" using None free e by (simp add: leak_step_def)
      moreover have "index_rep h0 idx m (set (remove1 c kept))" using live_ne rep by (intro shrink) auto
      ultimately show ?thesis using r D by (auto simp: leak_sim_def)
    next
      case (Some av)
      then obtain a v where av: "m ?k = Some (a, v)" by (cases av) auto
      then obtain n f where n: "fres_find h idx c = Some (Some n)" "n \<in> set (a_bucket (fi_table idx) ?b)" "fi_store idx n = Some f"
          "fr_call f = a" "fr_ref_count f = v" "fr_bucket f = Some ?b" using find eq by auto
      have kf: "?k = the (res_key h0 (fr_call f))" and a: "a \<in> set kept" using index_rep_live [OF rep av] n(4) by metis+
      show ?thesis
      proof (cases "v - 1 = 0 \<or> \<not> cnt")
        case True
        obtain rd1 h1 where r1: "rd_fcall_remove rd h a = Some (rd1, h1)" "rd_inv rd1 h1" "rd_calls rd1 = remove1 a kept"
            "same_calls h0 (set (remove1 a kept)) h1" using remove_same_calls [OF inv, of a h0] a same kept by auto
        have c1: "c \<in> set (remove1 a kept)" using c live_ne [OF av] by simp
        obtain rd2 h2 where r2: "rd_fcall_remove rd1 h1 c = Some (rd2, h2)" "rd_inv rd2 h2"
            "rd_calls rd2 = remove1 c (remove1 a kept)" "same_calls h0 (set (remove1 c (remove1 a kept))) h2"
          using remove_same_calls [OF r1(2), of c h0] r1 c1 by auto
        let ?idx = "idx\<lparr>fi_table := (fi_table idx)\<lparr>a_bucket := (a_bucket (fi_table idx))(?b := remove1 n (a_bucket (fi_table idx) ?b))\<rparr>,
          fi_store := (fi_store idx)(n := None)\<rparr>"
        have drop: "index_rep h0 ?idx (m(?k := None)) (set kept)" by (rule index_rep_drop [OF rep n(2,3) kf])
        have "a' \<noteq> a" if "(m(?k := None)) k' = Some (a', v')" for k' a' v'
        proof
          assume "a' = a"
          then have "k' = ?k" using that index_rep_live [OF rep] av by (metis fun_upd_apply option.distinct(1))
          then show False using that by simp
        qed
        moreover have "a' \<noteq> c" "a' \<in> set kept" if "(m(?k := None)) k' = Some (a', v')" for k' a' v'
          using that live_ne index_rep_live [OF drop] by (metis fun_upd_apply option.distinct(1))+
        ultimately have "index_rep h0 ?idx (m(?k := None)) (set (remove1 c (remove1 a kept)))"
          using dist by (intro index_rep_shrink [OF drop]) auto
        moreover have "fcall_remove_freed c s = Some (rd2, h2, ?idx)"
          using True n s call ty r1(1) r2(1) cnt
          by (auto simp: fcall_remove_freed_def fres_set_count_def fres_remove_node_def seq_remove_def remove_call_def free_fres_rec_def)
        moreover have "leak_step ?e (m, kept) = (m(?k := None), remove1 c (remove1 a kept))"
          using True free e av by (simp add: leak_step_def)
        ultimately show ?thesis using r2 D by (auto simp: leak_sim_def split: if_splits)
      next
        case False
        obtain rd' h' where r: "rd_fcall_remove rd h c = Some (rd', h')" "rd_inv rd' h'" "rd_calls rd' = remove1 c kept"
            "same_calls h0 (set (remove1 c kept)) h'" using rm by blast
        let ?idx = "idx\<lparr>fi_store := (fi_store idx)(n \<mapsto> f\<lparr>fr_ref_count := v - 1\<rparr>)\<rparr>"
        have "index_rep h0 ?idx (m(?k \<mapsto> (a, v - 1))) (set kept)"
          using index_rep_count [OF rep n(2,3) kf, of "v - 1"] n(4) by simp
        then have "index_rep h0 ?idx (m(?k \<mapsto> (a, v - 1))) (set (remove1 c kept))"
          using live_ne av by (intro shrink) (auto split: if_splits)
        moreover have "fcall_remove_freed c s = Some (rd', h', ?idx)"
          using False n s call ty r cnt by (simp add: fcall_remove_freed_def fres_set_count_def remove_call_def)
        moreover have "leak_step ?e (m, kept) = (m(?k \<mapsto> (a, v - 1)), remove1 c kept)"
          using False free e av by (simp add: leak_step_def)
        moreover have "a \<in> D" using D av by blast
      ultimately show ?thesis using r D by (auto simp: leak_sim_def split: if_splits)
      qed
    qed
  next
    case other
    obtain x where "fres_find h idx c = Some x" using find eq by (auto split: option.splits)
    then have "fcall_remove_freed c s = Some s"
      using other s call e by (simp add: fcall_remove_freed_def)
    moreover have "leak_step ?e (m, kept) = (m, kept)" using other by (simp add: leak_step_def)
    ultimately show ?thesis using sim by (auto simp: leak_sim_def)
  qed
qed

lemma fold_remove_freed_sim:
  assumes "leak_sim h0 D s (m, kept)" "\<forall>c\<in>set cs. c \<in> set kept" "distinct cs" "D \<inter> set cs = {}"
    "\<forall>c\<in>set kept. call_typed h0 c" "resource_ids_unique h0"
  shows "\<exists>s'. fold_opt fcall_remove_freed cs s = Some s' \<and>
    leak_sim h0 (D \<union> set cs) s' (fold leak_step (map (call_event h0) cs) (m, kept))"
  using assms
proof (induction cs arbitrary: D s m kept)
  case (Cons c cs)
  obtain s1 where s1: "fcall_remove_freed c s = Some s1"
      "leak_sim h0 (insert c D) s1 (leak_step (call_event h0 c) (m, kept))"
    using fcall_remove_freed_sim [OF Cons.prems(1), of c] Cons.prems by auto
  obtain m1 kept1 where t1: "leak_step (call_event h0 c) (m, kept) = (m1, kept1)" by fastforce
  have live: "a \<in> D" if "m k = Some (a, v)" for k a v using Cons.prems(1) that unfolding leak_sim_def by (cases s; cases k) auto
  have ev: "ev_call (call_event h0 c) = c" by (simp add: call_event_def)
  have sub: "set kept1 \<subseteq> set kept" and kept1: "\<forall>d\<in>set cs. d \<in> set kept1"
  proof -
    have "kept1 = kept \<or> kept1 = remove1 c kept \<or> (\<exists>a\<in>D. kept1 = remove1 c (remove1 a kept))"
      using t1 live [of "ev_key (call_event h0 c)"] unfolding leak_step_def ev by (auto split: if_splits option.splits)
    then show "set kept1 \<subseteq> set kept" by (auto dest: set_mp [OF set_remove1_subset])
    show "\<forall>d\<in>set cs. d \<in> set kept1"
    proof
      fix d assume "d \<in> set cs"
      then have "d \<noteq> c" "d \<notin> D" "d \<in> set kept" using Cons.prems(2,3,4) by auto
      then show "d \<in> set kept1" using \<open>kept1 = kept \<or> _\<close> by (metis in_set_remove1)
    qed
  qed
  have "\<exists>s'. fold_opt fcall_remove_freed cs s1 = Some s' \<and>
      leak_sim h0 (insert c D \<union> set cs) s' (fold leak_step (map (call_event h0) cs) (m1, kept1))"
    using s1(2) t1 kept1 sub Cons.prems by (intro Cons.IH) auto
  then show ?case using s1(1) t1 by auto
qed simp

lemma free_index_ok:
  "distinct ns \<Longrightarrow> \<forall>n\<in>set ns. fi_store idx n \<noteq> None \<Longrightarrow> \<exists>idx'. fold_opt (\<lambda>n idx. free_fres_rec idx n) ns idx = Some idx'"
proof (induction ns arbitrary: idx)
  case (Cons n ns)
  have "\<exists>idx'. fold_opt (\<lambda>n idx. free_fres_rec idx n) ns (idx\<lparr>fi_store := (fi_store idx)(n := None)\<rparr>) = Some idx'"
    using Cons.prems by (intro Cons.IH) auto
  then show ?case using Cons.prems by (simp add: free_fres_rec_def)
qed simp

lemma index_nodes_ok:
  assumes "index_rep h idx m A"
  shows "distinct (a_nodes (fi_table idx))" "\<forall>n\<in>set (a_nodes (fi_table idx)). fi_store idx n \<noteq> None"
proof -
  have "i = j" if "n \<in> set (a_bucket (fi_table idx) i)" "n \<in> set (a_bucket (fi_table idx) j)" for i j n
    using index_rep_node [OF assms that(1)] index_rep_node [OF assms that(2)] by (metis option.inject)
  then show "distinct (a_nodes (fi_table idx))"
    unfolding a_nodes_def using assms by (intro distinct_concat_buckets) (auto simp: index_rep_def)
  show "\<forall>n\<in>set (a_nodes (fi_table idx)). fi_store idx n \<noteq> None"
    using index_rep_node [OF assms] by (metis mem_a_nodes option.distinct(1))
qed

text \<open>The leak filter leaves exactly the surviving calls, in order, with their data.\<close>

theorem filter_leaks_survivors:
  assumes "rd_inv rd h" "\<forall>c\<in>set (rd_calls rd). call_typed h c" "resource_ids_unique h"
  shows "\<exists>rd' h'. filter_leaks rd h = Some (rd', h') \<and> rd_inv rd' h' \<and>
    rd_calls rd' = survivors Map.empty (map (call_event h) (rd_calls rd)) \<and>
    same_calls h (set (rd_calls rd')) h'"
proof -
  let ?es = "map (call_event h) (rd_calls rd)"
  have d: "distinct (rd_calls rd)" using assms(1) by (simp add: rd_inv_def inv_calls_def)
  have calls: "map ev_call ?es = rd_calls rd" by (simp add: comp_def call_event_def)
  have "leak_sim h {} (rd, h, fres_index_init) (Map.empty, rd_calls rd)"
    using assms(1) by (simp add: leak_sim_def same_calls_def index_rep_init)
  from fold_remove_freed_sim [OF this, of "rd_calls rd"] assms d
  obtain rd' h' idx' where fold: "fold_opt fcall_remove_freed (rd_calls rd) (rd, h, fres_index_init) = Some (rd', h', idx')"
      "leak_sim h (set (rd_calls rd)) (rd', h', idx') (fold leak_step ?es (Map.empty, rd_calls rd))"
    by auto
  obtain m kept where t: "fold leak_step ?es (Map.empty, rd_calls rd) = (m, kept)" by fastforce
  have "kept = survivors Map.empty ?es"
    using leak_fold_survivors [of Map.empty "[]" ?es] t d calls by (simp add: live_ok_def)
  moreover have "rd_inv rd' h'" "rd_calls rd' = kept" "same_calls h (set kept) h'" "index_rep h idx' m (set kept)"
    using fold(2) t by (auto simp: leak_sim_def)
  moreover obtain idx'' where "fold_opt (\<lambda>n idx. free_fres_rec idx n) (a_nodes (fi_table idx')) idx' = Some idx''"
    using free_index_ok index_nodes_ok calculation(5) by metis
  ultimately show ?thesis using fold(1) by (simp add: filter_leaks_def)
qed

section \<open>Traces without reference counting\<close>

text \<open>
  Without reference counting, an allocation survives unless the next event of its resource is a
  release; releases never survive; other calls always do.
\<close>

fun next_is_free :: "'k \<Rightarrow> 'k event list \<Rightarrow> bool" where
  "next_is_free k [] = False"
| "next_is_free k (e # es) =
     (if ev_key e = k \<and> ev_type e = FTYPE_FREE then True
      else if ev_key e = k \<and> ev_type e = FTYPE_ALLOC then False
      else next_is_free k es)"

fun plain_leaks :: "'k event list \<Rightarrow> ptr list" where
  "plain_leaks [] = []"
| "plain_leaks (e # es) =
     (if ev_type e = FTYPE_FREE \<or> (ev_type e = FTYPE_ALLOC \<and> next_is_free (ev_key e) es) then []
      else [ev_call e]) @ plain_leaks es"

lemma released_plain: "\<forall>e\<in>set es. \<not> ev_counted e \<Longrightarrow> released k n es = next_is_free k es"
  by (induction es) auto

lemma survivors_plain: "\<forall>e\<in>set es. \<not> ev_counted e \<Longrightarrow> survivors cnt es = plain_leaks es"
  by (induction es arbitrary: cnt) (auto simp: released_plain split: option.splits)

end
