(* ===== verification/Trace_Pipeline.thy ===== *)
theory Trace_Pipeline
  imports Listener_Refine Tracer_Session Leaks
begin

text \<open>
  The three programs together: what the traced process does is what the post-processor has in its
  trace data, and the leak filter works on exactly these events.
\<close>

section \<open>The resource registry\<close>

text \<open>The registered types are numbered from 1 on, and their names differ.\<close>

definition registry_ok :: "module_resource list \<Rightarrow> bool" where
  "registry_ok rs \<longleftrightarrow> length rs \<le> 32 \<and> (\<forall>i<length rs. mr_id (rs ! i) = of_nat (i + 1)) \<and> distinct (map mr_type rs)"

lemma registry_ok_new:
  assumes "registry_ok rs" "new_resource rs r = Some r'"
  shows "registry_ok (rs @ [r'])"
proof -
  have r: "find (\<lambda>x. mr_type x = mr_type r) rs = None" "length rs < 32" "r' = r\<lparr>mr_id := of_nat (length rs + 1)\<rparr>"
    using assms(2) by (auto simp: new_resource_def split: if_splits)
  then have "mr_type r' \<notin> mr_type ` set rs" by (auto simp: find_None_iff)
  then show ?thesis using assms(1) r by (auto simp: registry_ok_def nth_append less_Suc_eq)
qed

lemma registry_ok_prefix:
  assumes "registry_ok (xs @ ys)"
  shows "registry_ok xs"
proof -
  have "mr_id (xs ! i) = of_nat (i + 1)" if "i < length xs" for i
  proof -
    have "mr_id ((xs @ ys) ! i) = of_nat (i + 1)" using assms that by (simp add: registry_ok_def)
    then show ?thesis using that by (simp add: nth_append)
  qed
  then show ?thesis using assms by (simp add: registry_ok_def)
qed

lemma registry_ok_op: "registry_ok rs \<Longrightarrow> registry_ok (op_resources rs p)"
  by (cases p) (auto simp: registry_ok_new split: option.split)

definition registry_index :: "module_resource list \<Rightarrow> nat \<Rightarrow> sp_rtrace_resource option" where
  "registry_index rs i = (if 0 < i \<and> i \<le> length rs then Some (written_resource (rs ! (i - 1))) else None)"

lemma registry_id:
  assumes "registry_ok rs" "i < length rs"
  shows "unat (mr_id (rs ! i)) = i + 1"
proof -
  have "unat (of_nat (i + 1) :: u64) = i + 1"
    using assms by (subst unat_of_nat) (simp add: registry_ok_def)
  then show ?thesis using assms by (simp add: registry_ok_def)
qed

lemma registry_index_snoc:
  assumes "registry_ok (rs @ [r])"
  shows "(registry_index rs)(unat (mr_id r) \<mapsto> written_resource r) = registry_index (rs @ [r])"
  using registry_id [OF assms, of "length rs"] by (auto simp: registry_index_def fun_eq_iff nth_append)

section \<open>The calls of a session\<close>

fun op_call :: "sp_rtrace_options \<Rightarrow> module_resource list \<Rightarrow> nat \<Rightarrow> tracer_op \<Rightarrow> acall list" where
  "op_call opt rs n (T_Call bt ctx clock call trace args) =
     [\<lparr>ac_data = written_call n call ctx (call_timestamp opt clock), ac_resource = registry_index rs (unat (mf_res_type_id call)),
       ac_args = map_option written_args args, ac_frames = Some (written_frames (the (select_trace opt bt call trace)))\<rparr>]"
| "op_call opt rs n p = []"

fun op_calls :: "sp_rtrace_options \<Rightarrow> module_resource list \<Rightarrow> nat \<Rightarrow> tracer_op list \<Rightarrow> acall list" where
  "op_calls opt rs n [] = []"
| "op_calls opt rs n (p # ps) =
     op_call opt rs n p @ op_calls opt (op_resources rs p) (n + length (op_call opt rs n p)) ps"

definition in_step :: "atrace \<Rightarrow> module_resource list \<Rightarrow> bool" where
  "in_step a rs \<longleftrightarrow> ta_index a = registry_index rs \<and> ta_resources a = map written_resource rs \<and> \<not> ta_open a"

lemma relay_append:
  "\<exists>k' pid' ms'. relay envs k pid ms (xs @ ys) = relay envs k pid ms xs @ relay envs k' pid' ms' ys"
proof (induction xs arbitrary: k pid ms)
  case Nil
  then show ?case by (auto intro: exI)
next
  case (Cons x xs)
  then show ?case by simp
qed

text \<open>Mappings, modules and process data do not touch the calls.\<close>

lemma add_maps:
  "ta_calls (foldl (trace_add pk) a (map map_packet ms)) = ta_calls a" 
  "in_step a rs \<Longrightarrow> in_step (foldl (trace_add pk) a (map map_packet ms)) rs"
  by (induction ms arbitrary: a) (auto simp: map_packet_def in_step_def)

lemma relay_op:
  assumes "in_step a rs" "registry_ok rs"
  shows "\<exists>a'. foldl (trace_add pk) a (relay envs k pid ms (op_packets opt rs p)) = a' \<and> in_step a' (op_resources rs p) \<and>
    ta_calls a' = ta_calls a @ op_call opt rs (length (ta_calls a)) p"
proof (cases p)
  case (T_Call bt ctx clock call trace args)
  with assms show ?thesis by (cases args) (simp_all add: in_step_def update_last_def)
next
  case (T_Context i n)
  with assms show ?thesis by (simp add: in_step_def)
next
  case (T_Library l)
  with assms show ?thesis by (simp add: add_maps)
next
  case (T_Resource r)
  show ?thesis
  proof (cases "new_resource rs r")
    case None
    with T_Resource assms show ?thesis by simp
  next
    case (Some r')
    have "registry_ok (rs @ [r'])" using assms(2) Some by (rule registry_ok_new)
    with T_Resource Some assms registry_index_snoc show ?thesis by (simp add: in_step_def)
  qed
qed

lemma relay_ops:
  assumes "in_step a rs" "registry_ok rs"
  shows "\<exists>a' rs'. foldl (trace_add pk) a (relay envs k pid ms (ops_packets opt rs ps)) = a' \<and> in_step a' rs' \<and> registry_ok rs' \<and>
    ta_calls a' = ta_calls a @ op_calls opt rs (length (ta_calls a)) ps"
  using assms
proof (induction ps arbitrary: a rs k pid ms)
  case Nil
  then show ?case by auto
next
  case (Cons p ps)
  obtain k' pid' ms' where r: "relay envs k pid ms (ops_packets opt rs (p # ps)) =
      relay envs k pid ms (op_packets opt rs p) @ relay envs k' pid' ms' (ops_packets opt (op_resources rs p) ps)"
    using relay_append [of envs k pid ms "op_packets opt rs p"] by fastforce
  obtain b where b: "foldl (trace_add pk) a (relay envs k pid ms (op_packets opt rs p)) = b" "in_step b (op_resources rs p)"
    "ta_calls b = ta_calls a @ op_call opt rs (length (ta_calls a)) p"
    using relay_op [OF Cons.prems] by blast
  from Cons.IH [OF b(2) registry_ok_op [OF Cons.prems(2)], of k' pid' ms'] b show ?case
    by (auto simp: r simp del: ops_packets.simps)
qed

lemma add_modules:
  "ta_calls (foldl (trace_add pk) a (relay envs k pid ms (map P_Module mods))) = ta_calls a"
  "in_step a rs \<Longrightarrow> in_step (foldl (trace_add pk) a (relay envs k pid ms (map P_Module mods))) rs"
  by (induction mods arbitrary: a k) (auto simp: in_step_def)

lemma add_resources:
  assumes "in_step a rs0" "registry_ok (rs0 @ rs)"
  shows "ta_calls (foldl (trace_add pk) a (relay envs k pid ms (map P_Resource rs))) = ta_calls a \<and>
    in_step (foldl (trace_add pk) a (relay envs k pid ms (map P_Resource rs))) (rs0 @ rs)"
  using assms
proof (induction rs arbitrary: a rs0 k)
  case (Cons r rs)
  have "registry_ok (rs0 @ [r])" using registry_ok_prefix [of "rs0 @ [r]" rs] Cons.prems(2) by simp
  then have "in_step (trace_add pk a (P_Resource r)) (rs0 @ [r])"
    using Cons.prems(1) registry_index_snoc by (simp add: in_step_def)
  from Cons.IH [OF this] Cons.prems(2) show ?case by simp
qed simp

section \<open>End to end\<close>

text \<open>
  The conditions: the fields of all packets can be represented, no heap statistics have been
  taken, and the registry of resource types is in order.
\<close>

definition session_fits :: "u32 \<Rightarrow> pointer_t \<Rightarrow> tracer_op list \<Rightarrow> tracer \<Rightarrow> bool" where
  "session_fits pid heap_end ops s \<longleftrightarrow> session_ok pid heap_end ops s \<and> hd (tr_heap_info s) = 0 \<and> registry_ok (tr_resources s) \<and>
     (\<forall>q\<in>set (session_packets pid heap_end ops s). packet_fits q \<and>
        (case q of P_Call c x t \<Rightarrow> unat (mf_res_type_id c) < RES_INDEX_SIZE | _ \<Rightarrow> True))"

lemma session_calls:
  assumes "registry_ok (tr_resources s)" "hd (tr_heap_info s) = 0"
  shows "\<exists>a rs. foldl (trace_add pk) empty_trace
      (hd (initial_packets pid s) # relay envs 1 0 [] (tl (session_packets pid heap_end ops s))) = a \<and>
    ta_calls a = op_calls ((tr_options s)\<lparr>op_enable := True\<rparr>) (tr_resources s) 0 ops \<and> in_step a rs \<and> registry_ok rs"
proof -
  let ?opt = "(tr_options s)\<lparr>op_enable := True\<rparr>" and ?rs = "tr_resources s"
  let ?P = "P_Process pid 0 0 (op_backtrace_depth (tr_options s)) (tr_proc_name s)" and ?L = "P_Library (str ''*'')"
  have sp: "tl (session_packets pid heap_end ops s) = [?P] @ map P_Module (main_module # tr_modules s) @ map P_Resource ?rs @ [?L] @
      ops_packets ?opt ?rs ops @ [?L]"
    using assms(2) by (simp add: session_packets_def initial_packets_def final_packets_def)
  obtain k1 p1 m1 k2 p2 m2 k3 p3 m3 k4 p4 m4 k5 p5 m5 where r:
    "relay envs 1 0 [] (tl (session_packets pid heap_end ops s)) = relay envs 1 0 [] [?P] @
      relay envs k1 p1 m1 (map P_Module (main_module # tr_modules s)) @ relay envs k2 p2 m2 (map P_Resource ?rs) @
      relay envs k3 p3 m3 [?L] @ relay envs k4 p4 m4 (ops_packets ?opt ?rs ops) @ relay envs k5 p5 m5 [?L]"
    unfolding sp using relay_append by metis
  define a1 where "a1 = foldl (trace_add pk) (trace_add pk empty_trace (hd (initial_packets pid s))) (relay envs 1 0 [] [?P])"
  define a2 where "a2 = foldl (trace_add pk) a1 (relay envs k1 p1 m1 (map P_Module (main_module # tr_modules s)))"
  define a3 where "a3 = foldl (trace_add pk) a2 (relay envs k2 p2 m2 (map P_Resource ?rs))"
  define a4 where "a4 = foldl (trace_add pk) a3 (relay envs k3 p3 m3 [?L])"
  have a1: "in_step a1 []" "ta_calls a1 = []"
    by (auto simp: a1_def initial_packets_def in_step_def empty_trace_def registry_index_def)
  have a2: "in_step a2 []" "ta_calls a2 = []" using add_modules a1 by (simp_all add: a2_def del: list.map)
  have a3: "in_step a3 ?rs" "ta_calls a3 = []" using add_resources [OF a2(1)] assms(1) a2(2) by (simp_all add: a3_def)
  have a4: "in_step a4 ?rs" "ta_calls a4 = []" using add_maps a3 by (simp_all add: a4_def)
  obtain a5 rs' where a5: "foldl (trace_add pk) a4 (relay envs k4 p4 m4 (ops_packets ?opt ?rs ops)) = a5"
    "ta_calls a5 = op_calls ?opt ?rs 0 ops" "in_step a5 rs'" "registry_ok rs'"
    using relay_ops [OF a4(1) assms(1)] a4(2) by fastforce
  have "foldl (trace_add pk) empty_trace (hd (initial_packets pid s) # relay envs 1 0 [] (tl (session_packets pid heap_end ops s))) =
      foldl (trace_add pk) a5 (relay envs k5 p5 m5 [?L])"
    unfolding r a5(1) [symmetric] a4_def a3_def a2_def a1_def by (simp only: foldl.simps foldl_append)
  moreover have "in_step (foldl (trace_add pk) a5 (relay envs k5 p5 m5 [?L])) rs'"
    "ta_calls (foldl (trace_add pk) a5 (relay envs k5 p5 m5 [?L])) = op_calls ?opt ?rs 0 ops"
    using a5(2,3) add_maps by simp_all
  ultimately show ?thesis using a5(4) by metis
qed

text \<open>The ids of the resource types are all different.\<close>

lemma in_step_ids:
  assumes "in_step a rs" "registry_ok rs"
  shows "distinct (map rs_id (ta_resources a))"
proof -
  have "map rs_id (ta_resources a) = map mr_id rs" using assms(1) by (simp add: in_step_def written_resource_def comp_def)
  moreover have "mr_id (rs ! i) \<noteq> mr_id (rs ! j)" if "i < length rs" "j < length rs" "i \<noteq> j" for i j
    using registry_id [OF assms(2) that(1)] registry_id [OF assms(2) that(2)] that(3) by auto
  ultimately show ?thesis by (simp add: distinct_conv_nth)
qed

text \<open>The packets of the events.\<close>

lemma small_in_block: "q \<in> set qs \<Longrightarrow> length (encode_all qs) \<le> PIPE_BUFFER_SIZE \<Longrightarrow> small_packet q"
  by (induction qs) (auto simp: small_packet_def)

lemma ops_small: "ops_ok opt rs ps \<Longrightarrow> q \<in> set (ops_packets opt rs ps) \<Longrightarrow> small_packet q"
  by (induction ps arbitrary: rs) (auto simp: op_ok.simps dest: small_in_block)

lemma ops_resource_id:
  "registry_ok rs \<Longrightarrow> P_Resource r \<in> set (ops_packets opt rs ps) \<Longrightarrow> unat (mr_id r) < RES_INDEX_SIZE"
proof (induction ps arbitrary: rs)
  case (Cons p ps)
  show ?case
  proof (cases "P_Resource r \<in> set (op_packets opt rs p)")
    case True
    then have n: "registry_ok (rs @ [r])" using Cons.prems(1)
      by (cases p) (auto intro: registry_ok_new split: option.splits)
    from registry_id [OF this, of "length rs"] n show ?thesis by (simp add: registry_ok_def RES_INDEX_SIZE_def)
  qed (use Cons registry_ok_op in auto)
qed simp

lemma ops_kinds: "q \<in> set (ops_packets opt rs ps) \<Longrightarrow> \<not> is_settings q \<and> (\<forall>a b h. q \<noteq> P_Heap a b h)"
proof (induction ps arbitrary: rs)
  case (Cons p ps)
  then show ?case by (cases p) (auto split: option.splits)
qed simp

lemma session_readable:
  assumes "session_fits pid heap_end ops s" "q \<in> set (tl (session_packets pid heap_end ops s))"
  shows "small_packet q \<and> packet_fits q \<and> \<not> is_settings q \<and> (packet_readable q \<or> (\<exists>l. q = P_Library l))"
proof -
  let ?opt = "(tr_options s)\<lparr>op_enable := True\<rparr>"
  have ok: "session_ok pid heap_end ops s" "hd (tr_heap_info s) = 0" "registry_ok (tr_resources s)"
    using assms(1) by (auto simp: session_fits_def)
  have mem: "q \<in> set (tl (initial_packets pid s)) \<or> q \<in> set (ops_packets ?opt (tr_resources s) ops) \<or> q = P_Library (str ''*'')"
    using assms(2) ok(2) by (auto simp: session_packets_def final_packets_def initial_packets_def)
  then have small: "small_packet q"
    using ok(1) ops_small by (auto simp: session_ok_def final_packets_def initial_packets_def)
  have in_all: "q \<in> set (session_packets pid heap_end ops s)"
    using assms(2) by (metis list.sel(2) list.set_sel(2))
  have fits: "packet_fits q" "\<forall>c x t. q = P_Call c x t \<longrightarrow> unat (mf_res_type_id c) < RES_INDEX_SIZE"
    using assms(1) in_all unfolding session_fits_def by (fastforce)+
  have "unat (mr_id r) < RES_INDEX_SIZE" if "q = P_Resource r" for r
  proof -
    have "unat (mr_id r) < RES_INDEX_SIZE" if r: "r \<in> set (tr_resources s)" for r
    proof -
      obtain i where "i < length (tr_resources s)" "r = tr_resources s ! i" using r by (metis in_set_conv_nth)
      then show ?thesis using registry_id [OF ok(3), of i] ok(3) by (simp add: registry_ok_def RES_INDEX_SIZE_def)
    qed
    then show ?thesis using that mem ops_resource_id [OF ok(3)] by (auto simp: initial_packets_def)
  qed
  moreover have "\<not> is_settings q \<and> (\<forall>a b h. q \<noteq> P_Heap a b h)"
    using mem by (auto simp: initial_packets_def dest: ops_kinds)
  ultimately show ?thesis using small fits by (cases q) auto
qed

text \<open>What the listener forwards is readable.\<close>

lemma relay_readable:
  assumes "good_envs envs" "\<forall>q\<in>set qs. small_packet q \<and> (packet_readable q \<or> (\<exists>l. q = P_Library l))"
  shows "\<forall>q\<in>set (relay envs k pid ms qs). small_packet q \<and> packet_readable q"
  using assms(2)
proof (induction qs arbitrary: k pid ms)
  case (Cons q qs)
  have new: "set (fst (new_mmaps ms xs)) \<subseteq> set xs" for ms xs
    by (induction ms xs rule: new_mmaps.induct) (auto simp: Let_def split: if_splits prod.splits)
  have "small_packet x \<and> packet_readable x" if x: "x \<in> set (forwarded (envs k) pid ms q)" for x
  proof (cases "\<exists>l. q = P_Library l")
    case True
    then obtain m where m: "x = map_packet m" "m \<in> set (fst (new_mmaps ms (env_maps (envs k) pid)))"
      using x by auto
    then have "m \<in> set (env_maps (envs k) pid)" using new by blast
    with m(1) have "x = map_packet m" "m \<in> set (env_maps (envs k) pid)" by simp_all
    then show ?thesis using assms(1) short_map_packet by (auto simp: good_envs_def)
  next
    case False
    then have q: "small_packet q" "packet_readable q" using Cons.prems by auto
    have x: "x = stamped (le_time (envs k)) q" using x False by (cases q) auto
    show ?thesis
    proof (cases q)
      case (P_Process p sec usec depth name)
      then show ?thesis using x q stamp_process_ok(2) [of p sec usec depth name "envs k"]
        by (auto simp: small_packet_def)
    qed (use x q in auto)
  qed
  with Cons show ?case by (auto simp del: forwarded.simps)
qed simp

text \<open>
  From the traced process to the trace data: whatever the scheduling of the three programs, which
  decides about the chunks that are read, the post-processor ends with exactly the calls of the
  session: their order, data, arguments, backtraces and resource types.
\<close>

theorem pipeline_ok:
  assumes s: "session_fits pid heap_end ops s" "tr_out s = []" "0 < fd" "is_cstring arch" "length arch < 240"
    and env: "good_envs envs" "\<forall>k x y. 0 < le_connect (envs k) x y"
  shows "\<exists>s' bs. trace_session pid arch heap_end fd ops s = Some s' \<and> is_handshake arch bs \<and>
    tr_out s' = bs @ encode_all (session_packets pid heap_end ops s) \<and>
    (\<forall>c chunks. concat (c # chunks) = tr_out s' \<longrightarrow> length bs \<le> length c \<longrightarrow>
       (\<forall>c\<in>set (c # chunks). c \<noteq> [] \<and> length c \<le> LISTENER_BUFFER_SIZE) \<longrightarrow>
       (\<exists>l. process_data envs (listener_init u) (map R_Data (c # chunks)) = Some (0, l) \<and> length bs \<le> length (ls_out l) \<and>
         (\<forall>d dhunks. concat (d # dhunks) = tl (ls_out l) \<longrightarrow> length bs \<le> length d + 1 \<longrightarrow>
            (\<forall>d\<in>set (d # dhunks). d \<noteq> [] \<and> length d \<le> BUFFER_SIZE) \<longrightarrow>
            (\<exists>p. read_binary_data pk (parser_init junk) (d # dhunks) = Some (Inr p) \<and> parser_inv p \<and>
               ta_calls (trace_abs p) = op_calls ((tr_options s)\<lparr>op_enable := True\<rparr>) (tr_resources s) 0 ops \<and>
               distinct (map rs_id (ta_resources (trace_abs p)))))))"
proof -
  have ok: "session_ok pid heap_end ops s" "hd (tr_heap_info s) = 0" "registry_ok (tr_resources s)"
    and fit: "\<forall>q\<in>set (session_packets pid heap_end ops s). packet_fits q"
    using s(1) by (auto simp: session_fits_def)
  obtain s' bs where s': "trace_session pid arch heap_end fd ops s = Some s'" "is_handshake arch bs"
    "tr_out s' = bs @ encode_all (session_packets pid heap_end ops s)"
    using trace_session_ok [OF ok(1) s(3-5)] s(2) by auto
  let ?d = "op_output_dir (tr_options s)" and ?p = "op_postproc (tr_options s)"
  let ?qs = "tl (session_packets pid heap_end ops s)"
  have sp: "session_packets pid heap_end ops s = P_Settings ?d ?p # ?qs" by (simp add: session_packets_def initial_packets_def)
  have qs: "\<forall>q\<in>set ?qs. small_packet q \<and> packet_fits q \<and> \<not> is_settings q"
    "\<forall>q\<in>set ?qs. small_packet q \<and> (packet_readable q \<or> (\<exists>l. q = P_Library l))"
    "small_packet (P_Settings ?d ?p)"
    using session_readable [OF s(1)] ok(1) by (auto simp: session_ok_def initial_packets_def)
  have fs: "packet_fits (P_Settings ?d ?p)" using fit sp by (metis list.set_intros(1))
  have run: "\<exists>l. process_data envs (listener_init u) (map R_Data (c # chunks)) = Some (0, l) \<and> length bs \<le> length (ls_out l) \<and>
         (\<forall>d dhunks. concat (d # dhunks) = tl (ls_out l) \<longrightarrow> length bs \<le> length d + 1 \<longrightarrow>
            (\<forall>d\<in>set (d # dhunks). d \<noteq> [] \<and> length d \<le> BUFFER_SIZE) \<longrightarrow>
            (\<exists>p. read_binary_data pk (parser_init junk) (d # dhunks) = Some (Inr p) \<and> parser_inv p \<and>
               ta_calls (trace_abs p) = op_calls ((tr_options s)\<lparr>op_enable := True\<rparr>) (tr_resources s) 0 ops \<and>
               distinct (map rs_id (ta_resources (trace_abs p)))))"
    if 1: "concat (c # chunks) = tr_out s'" "length bs \<le> length c"
      "\<forall>c\<in>set (c # chunks). c \<noteq> [] \<and> length c \<le> LISTENER_BUFFER_SIZE" for c chunks
  proof -
    from 1 have c: "concat (c # chunks) = bs @ encode_all (P_Settings ?d ?p # ?qs)" using s'(3) sp by simp
    from process_data_ok [OF s'(2) env qs(3) fs qs(1) c 1(2,3), of u] obtain l where
      l: "process_data envs (listener_init u) (map R_Data (c # chunks)) = Some (0, l)"
        "ls_out l = bs @ encode_all (P_Settings ?d ?p # relay envs 1 0 [] ?qs)" by blast
    have rd: "\<forall>q\<in>set (P_Settings ?d ?p # relay envs 1 0 [] ?qs). packet_readable q \<and> small_packet q"
      using relay_readable [OF env(1) qs(2)] qs(3) fs by auto
    have ne: "bs \<noteq> []" using s'(2) by (auto simp: is_handshake_def handshake_bytes_def Let_def)
    have "\<exists>p. read_binary_data pk (parser_init junk) (d # dhunks) = Some (Inr p) \<and> parser_inv p \<and>
        ta_calls (trace_abs p) = op_calls ((tr_options s)\<lparr>op_enable := True\<rparr>) (tr_resources s) 0 ops \<and>
        distinct (map rs_id (ta_resources (trace_abs p)))"
      if d: "concat (d # dhunks) = tl (ls_out l)" "length bs \<le> length d + 1" "\<forall>d\<in>set (d # dhunks). d \<noteq> [] \<and> length d \<le> BUFFER_SIZE"
      for d dhunks
    proof -
      have "concat (d # dhunks) = tl bs @ encode_all (P_Settings ?d ?p # relay envs 1 0 [] ?qs)"
        using d(1) l(2) ne by simp
      from read_binary_data_ok [OF s'(2) rd this d(2,3), of pk junk] obtain p where
        "read_binary_data pk (parser_init junk) (d # dhunks) = Some (Inr p)" "parser_inv p"
        "trace_abs p = foldl (trace_add pk) empty_trace (P_Settings ?d ?p # relay envs 1 0 [] ?qs)" by blast
      moreover have "hd (initial_packets pid s) = P_Settings ?d ?p" by (simp add: initial_packets_def)
      ultimately show ?thesis using session_calls [OF ok(3,2), of pk pid envs heap_end ops] in_step_ids by fastforce
    qed
    moreover have "length bs \<le> length (ls_out l)" using l(2) by simp
    ultimately show ?thesis using l(1) by blast
  qed
  then show ?thesis using s' by blast
qed

end
