(* ===== verification/Leak_Report.thy ===== *)
theory Leak_Report
  imports Trace_Pipeline
begin

text \<open>
  The leak filter on the data of the calls.  The records of the trace data are found by address;
  here the outcome is stated on the calls themselves, where a resource is identified by the id of
  its type and its own id, so that it can be composed with the reader of the trace.
\<close>

section \<open>Renaming of events\<close>

definition rename_event :: "(ptr \<Rightarrow> ptr) \<Rightarrow> ('k \<Rightarrow> 'l) \<Rightarrow> 'k event \<Rightarrow> 'l event" where
  "rename_event f g e = \<lparr>ev_call = f (ev_call e), ev_type = ev_type e, ev_key = g (ev_key e), ev_counted = ev_counted e\<rparr>"

lemma rename_event_simps [simp]:
  "ev_call (rename_event f g e) = f (ev_call e)" "ev_type (rename_event f g e) = ev_type e"
  "ev_key (rename_event f g e) = g (ev_key e)" "ev_counted (rename_event f g e) = ev_counted e"
  by (simp_all add: rename_event_def)

lemma released_rename:
  "inj_on g K \<Longrightarrow> k \<in> K \<Longrightarrow> \<forall>e\<in>set es. ev_key e \<in> K \<Longrightarrow> released (g k) n (map (rename_event f g) es) = released k n es"
  by (induction es arbitrary: n) (auto simp: inj_on_eq_iff)

lemma survivors_rename:
  assumes "inj_on g K" "\<forall>e\<in>set es. ev_key e \<in> K" "\<forall>k\<in>K. cnt' (g k) = cnt k"
  shows "survivors cnt' (map (rename_event f g) es) = map f (survivors cnt es)"
  using assms(2,3)
proof (induction es arbitrary: cnt cnt')
  case (Cons e es)
  let ?k = "ev_key e"
  have k: "?k \<in> K" "\<forall>e\<in>set es. ev_key e \<in> K" using Cons.prems(1) by auto
  have upd: "\<forall>x\<in>K. (cnt'(g ?k := v)) (g x) = (cnt(?k := v)) x" for v
    using Cons.prems(2) k(1) assms(1) by (auto simp: inj_on_eq_iff)
  have look: "cnt' (g ?k) = cnt ?k" using Cons.prems(2) k(1) by simp
  have "survivors (cnt'(g ?k := v)) (map (rename_event f g) es) = map f (survivors (cnt(?k := v)) es)" for v
    by (rule Cons.IH [OF k(2) upd])
  then show ?case
    using Cons.IH [OF k(2) Cons.prems(2)] released_rename [OF assms(1) k] by (simp add: look split: option.split)
qed simp

section \<open>The calls that leak\<close>

definition acall_key :: "acall \<Rightarrow> u64 \<times> pointer_t" where
  "acall_key a = (rs_id (the (ac_resource a)), fc_res_id (ac_data a))"

definition acall_event :: "acall list \<Rightarrow> nat \<Rightarrow> (u64 \<times> pointer_t) event" where
  "acall_event as i = \<lparr>ev_call = i, ev_type = fc_type (ac_data (as ! i)), ev_key = acall_key (as ! i),
     ev_counted = (rs_flags (the (ac_resource (as ! i))) AND RESOURCE_REFCOUNT \<noteq> 0)\<rparr>"

text \<open>The calls of a sequence that are left by the leak filter, in order.\<close>

definition leaking_calls :: "acall list \<Rightarrow> acall list" where
  "leaking_calls as = map (\<lambda>i. as ! i) (survivors Map.empty (map (acall_event as) [0..<length as]))"

definition key_data :: "rheap \<Rightarrow> key \<Rightarrow> u64 \<times> pointer_t" where
  "key_data h k = (rs_id (rr_data (the (rh_resources h (fst k)))), snd k)"

lemma call_event_data:
  assumes "call_typed h (cs ! i)" "i < length cs"
  shows "rename_event id (key_data h) (call_event h (cs ! i)) = rename_event (\<lambda>j. cs ! j) id (acall_event (map (call_abs h) cs) i)"
proof -
  obtain call p r where c: "rh_fcalls h (cs ! i) = Some call" "fc_res_type (call_data call) = RFIELD_REF p"
    "p \<noteq> NULL" "rh_resources h p = Some r"
    using assms(1) by (auto simp: call_typed_def)
  then show ?thesis using assms(2)
    by (simp add: rename_event_def call_event_def acall_event_def acall_key_def call_abs_def Let_def res_key_def
        is_refcounted_def key_data_def)
qed

lemma same_calls_abs: "same_calls h A h' \<Longrightarrow> c \<in> A \<Longrightarrow> call_abs h' c = call_abs h c"
  by (simp add: same_calls_def call_abs_def)

lemma survivors_sub: "set (survivors cnt es) \<subseteq> ev_call ` set es"
proof (induction es arbitrary: cnt)
  case (Cons e es)
  from Cons.IH show ?case by (auto split: option.splits)
qed simp

theorem filter_leaks_data:
  assumes "rd_inv rd h" "\<forall>c\<in>set (rd_calls rd). call_typed h c" "resource_ids_unique h"
  shows "\<exists>rd' h'. filter_leaks rd h = Some (rd', h') \<and> rd_inv rd' h' \<and>
    map (call_abs h') (rd_calls rd') = leaking_calls (map (call_abs h) (rd_calls rd))"
proof -
  let ?cs = "rd_calls rd" and ?as = "map (call_abs h) (rd_calls rd)"
  let ?es = "map (call_event h) ?cs" and ?ds = "map (acall_event ?as) [0..<length ?cs]"
  obtain rd' h' where r: "filter_leaks rd h = Some (rd', h')" "rd_inv rd' h'"
    "rd_calls rd' = survivors Map.empty ?es" "same_calls h (set (rd_calls rd')) h'"
    using filter_leaks_survivors [OF assms] by blast
  have cs: "?cs = map (\<lambda>i. ?cs ! i) [0..<length ?cs]" by (simp add: map_nth)
  have "map (rename_event id (key_data h)) ?es = map (rename_event (\<lambda>j. ?cs ! j) id) ?ds"
  proof (rule nth_equalityI)
    show "map (rename_event id (key_data h)) ?es ! i = map (rename_event (\<lambda>j. ?cs ! j) id) ?ds ! i"
      if "i < length (map (rename_event id (key_data h)) ?es)" for i
      using that call_event_data [of h ?cs i] assms(2) by simp
  qed simp
  moreover have "survivors Map.empty (map (rename_event id (key_data h)) ?es) = map id (survivors Map.empty ?es)"
  proof (rule survivors_rename)
    show "inj_on (key_data h) (ev_key ` set ?es)"
    proof (rule inj_onI)
      fix x y assume xy: "x \<in> ev_key ` set ?es" "y \<in> ev_key ` set ?es" "key_data h x = key_data h y"
      obtain c d where cd: "c \<in> set ?cs" "d \<in> set ?cs" "x = the (res_key h c)" "y = the (res_key h d)"
        using xy(1,2) by (auto simp: call_event_def)
      obtain p i r where c: "res_key h c = Some (p, i)" "rh_resources h p = Some r"
        using call_typed_key assms(2) cd(1) by metis
      obtain q j s where d: "res_key h d = Some (q, j)" "rh_resources h q = Some s"
        using call_typed_key assms(2) cd(2) by metis
      have "i = j" "rs_id (rr_data r) = rs_id (rr_data s)" using xy(3) cd(3,4) c d by (simp_all add: key_data_def)
      moreover have "p = q" using assms(3) c(2) d(2) calculation(2) unfolding resource_ids_unique_def by blast
      ultimately show "x = y" using cd(3,4) c(1) d(1) by simp
    qed
  qed auto
  moreover have "survivors Map.empty (map (rename_event (\<lambda>j. ?cs ! j) id) ?ds) = map (\<lambda>j. ?cs ! j) (survivors Map.empty ?ds)"
    by (rule survivors_rename [of id UNIV]) auto
  ultimately have calls: "rd_calls rd' = map (\<lambda>j. ?cs ! j) (survivors Map.empty ?ds)" using r(3) by simp
  have "map (call_abs h') (rd_calls rd') = map (call_abs h) (rd_calls rd')"
    using same_calls_abs [OF r(4)] by simp
  also have "\<dots> = leaking_calls ?as"
    using survivors_sub [of Map.empty ?ds] unfolding calls leaking_calls_def
    by (auto simp: acall_event_def)
  finally show ?thesis using r(1,2) by blast
qed

section \<open>The leaks of a traced session\<close>

lemma parser_typed:
  assumes "parser_inv p" "\<forall>a\<in>set (ta_calls (trace_abs p)). ac_resource a \<noteq> None"
  shows "\<forall>c\<in>set (rd_calls (ps_rd p)). call_typed (ps_heap p) c"
proof
  fix c assume c: "c \<in> set (rd_calls (ps_rd p))"
  have fresh: "rh_resources (ps_heap p) NULL = None"
    using assms(1) by (auto simp: parser_inv_def Let_def rd_inv_def inv_fresh_def)
  obtain call r where "rh_fcalls (ps_heap p) c = Some call" "fc_res_type (call_data call) = RFIELD_REF r"
    "r = NULL \<or> rh_resources (ps_heap p) r \<noteq> None"
    using assms(1) c by (auto simp: parser_inv_def Let_def call_res_ok_def)
  moreover have "ac_resource (call_abs (ps_heap p) c) \<noteq> None" using assms(2) c by (auto simp: trace_abs_def Let_def)
  ultimately show "call_typed (ps_heap p) c" using fresh by (cases "r = NULL") (auto simp: call_typed_def call_abs_def Let_def)
qed

lemma parser_unique_ids:
  assumes "parser_inv p" "distinct (map rs_id (ta_resources (trace_abs p)))"
  shows "resource_ids_unique (ps_heap p)"
proof -
  let ?h = "ps_heap p" and ?rs = "rd_resources (ps_rd p)"
  have d: "set ?rs = dom (rh_resources ?h)" using assms(1) by (auto simp: parser_inv_def Let_def)
  have "inj_on (\<lambda>r. rs_id (rr_data (the (rh_resources ?h r)))) (set ?rs)"
    using assms(2) by (simp add: trace_abs_def Let_def distinct_map comp_def)
  then show ?thesis unfolding resource_ids_unique_def d by (metis domI inj_onD option.sel)
qed

theorem leak_report_ok:
  assumes "parser_inv p" "distinct (map rs_id (ta_resources (trace_abs p)))"
    "\<forall>a\<in>set (ta_calls (trace_abs p)). ac_resource a \<noteq> None"
  shows "\<exists>rd' h'. filter_leaks (ps_rd p) (ps_heap p) = Some (rd', h') \<and> rd_inv rd' h' \<and>
    map (call_abs h') (rd_calls rd') = leaking_calls (ta_calls (trace_abs p))"
proof -
  have "rd_inv (ps_rd p) (ps_heap p)" using assms(1) by (simp add: parser_inv_def Let_def)
  from filter_leaks_data [OF this parser_typed [OF assms(1,3)] parser_unique_ids [OF assms(1,2)]]
  show ?thesis by (simp add: trace_abs_def Let_def)
qed

end
