(* ===== verification/Module_Calls.thy ===== *)
theory Module_Calls
  imports Leak_Report
begin

text \<open>
  What the tracing modules hand to the main module: a sequence of function calls with their
  arguments.  The resources that are still allocated after a sequence of calls are specified
  directly, and it is shown that these are the leaks in the report when every allocation is of a
  resource that is not allocated at that time.
\<close>

section \<open>Outstanding allocations\<close>

text \<open>\<open>ty\<close> and \<open>key\<close> give the type and the resource of a call; the first list are the calls to be kept so far.\<close>

fun outstanding :: "('c \<Rightarrow> u32) \<Rightarrow> ('c \<Rightarrow> 'k) \<Rightarrow> 'c list \<Rightarrow> 'c list \<Rightarrow> 'c list" where
  "outstanding ty key kept [] = kept"
| "outstanding ty key kept (c # cs) =
     outstanding ty key (if ty c = FTYPE_FREE then filter (\<lambda>d. ty d = FTYPE_ALLOC \<longrightarrow> key d \<noteq> key c) kept else kept @ [c]) cs"

fun fresh_allocs :: "('c \<Rightarrow> u32) \<Rightarrow> ('c \<Rightarrow> 'k) \<Rightarrow> 'c list \<Rightarrow> 'c list \<Rightarrow> bool" where
  "fresh_allocs ty key kept [] = True"
| "fresh_allocs ty key kept (c # cs) =
     ((ty c = FTYPE_ALLOC \<longrightarrow> (\<forall>d\<in>set kept. ty d = FTYPE_ALLOC \<longrightarrow> key d \<noteq> key c)) \<and>
      fresh_allocs ty key (if ty c = FTYPE_FREE then filter (\<lambda>d. ty d = FTYPE_ALLOC \<longrightarrow> key d \<noteq> key c) kept else kept @ [c]) cs)"

lemma ftypes_differ [simp]: "FTYPE_ALLOC \<noteq> FTYPE_FREE" "FTYPE_FREE \<noteq> FTYPE_ALLOC"
  by (simp_all add: FTYPE_ALLOC_def FTYPE_FREE_def)

lemma outstanding_append:
  "outstanding ty key kept (xs @ ys) = outstanding ty key (outstanding ty key kept xs) ys"
  by (induction xs arbitrary: kept) simp_all

lemma fresh_allocs_append:
  "fresh_allocs ty key kept (xs @ ys) \<longleftrightarrow> fresh_allocs ty key kept xs \<and> fresh_allocs ty key (outstanding ty key kept xs) ys"
  by (induction xs arbitrary: kept) simp_all

lemma outstanding_sub: "set (outstanding ty key kept cs) \<subseteq> set kept \<union> set cs"
  by (induction cs arbitrary: kept) (fastforce split: if_splits)+

lemma outstanding_map:
  "outstanding ty key (map f kept) (map f cs) = map f (outstanding (ty \<circ> f) (key \<circ> f) kept cs)"
proof (induction cs arbitrary: kept)
  case (Cons c cs)
  have "map f kept @ [f c] = map f (kept @ [c])" by simp
  then show ?case using Cons.IH by (simp add: filter_map comp_def del: map_append)
qed simp

lemma fresh_allocs_map:
  "fresh_allocs ty key (map f kept) (map f cs) = fresh_allocs (ty \<circ> f) (key \<circ> f) kept cs"
proof (induction cs arbitrary: kept)
  case (Cons c cs)
  have "map f kept @ [f c] = map f (kept @ [c])" by simp
  then show ?case using Cons.IH by (simp add: filter_map comp_def del: map_append)
qed simp

text \<open>Only the equality of the resources matters.\<close>

lemma same_keys_cong:
  assumes "\<forall>x\<in>A. ty x = ty' x" "\<forall>x\<in>A. \<forall>y\<in>A. key x = key y \<longleftrightarrow> key' x = key' y" "set kept \<subseteq> A" "set cs \<subseteq> A"
  shows "outstanding ty key kept cs = outstanding ty' key' kept cs \<and> fresh_allocs ty key kept cs = fresh_allocs ty' key' kept cs"
  using assms(3,4)
proof (induction cs arbitrary: kept)
  case (Cons c cs)
  have c: "c \<in> A" "set cs \<subseteq> A" "ty c = ty' c" using Cons.prems assms(1) by auto
  have f: "filter (\<lambda>d. ty d = FTYPE_ALLOC \<longrightarrow> key d \<noteq> key c) kept = filter (\<lambda>d. ty' d = FTYPE_ALLOC \<longrightarrow> key' d \<noteq> key' c) kept"
    by (rule filter_cong) (use Cons.prems(1) c(1) assms(1,2) in auto)
  have g: "(\<forall>d\<in>set kept. ty d = FTYPE_ALLOC \<longrightarrow> key d \<noteq> key c) \<longleftrightarrow> (\<forall>d\<in>set kept. ty' d = FTYPE_ALLOC \<longrightarrow> key' d \<noteq> key' c)"
    using Cons.prems(1) c(1) assms(1,2) by (metis subsetD)
  have "set (filter (\<lambda>d. ty' d = FTYPE_ALLOC \<longrightarrow> key' d \<noteq> key' c) kept) \<subseteq> A" "set (kept @ [c]) \<subseteq> A"
    using Cons.prems(1) c(1) by auto
  from Cons.IH [OF this(1) c(2)] Cons.IH [OF this(2) c(2)] show ?case by (simp add: f g c(3))
qed simp

section \<open>The leaks are the outstanding allocations\<close>

text \<open>
  \<open>cnt\<close> are the reference counts after the calls that are kept: as an allocation is always of a
  resource that is not allocated, they never exceed 1, whether the resource is counted or not.
\<close>

lemma survivors_outstanding:
  assumes "fresh_allocs ev_type ev_key kept es"
    "\<forall>k. cnt k = (if \<exists>d\<in>set kept. ev_type d = FTYPE_ALLOC \<and> ev_key d = k then Some 1 else None)"
  shows "map ev_call (outstanding ev_type ev_key kept es) =
    map ev_call (filter (\<lambda>d. ev_type d = FTYPE_ALLOC \<longrightarrow> \<not> released (ev_key d) 1 es) kept) @ survivors cnt es"
  using assms
proof (induction es arbitrary: kept cnt)
  case (Cons e es)
  let ?k = "ev_key e"
  consider (free) "ev_type e = FTYPE_FREE" | (alloc) "ev_type e = FTYPE_ALLOC" | (other) "ev_type e \<noteq> FTYPE_FREE" "ev_type e \<noteq> FTYPE_ALLOC"
    by blast
  then show ?case
  proof cases
    case free
    let ?kept = "filter (\<lambda>d. ev_type d = FTYPE_ALLOC \<longrightarrow> ev_key d \<noteq> ?k) kept"
    define c where "c = cnt(?k := None)"
    have "\<forall>k. c k = (if \<exists>d\<in>set ?kept. ev_type d = FTYPE_ALLOC \<and> ev_key d = k then Some 1 else None)"
      using Cons.prems(2) by (auto simp: c_def)
    from Cons.IH [OF _ this] have "map ev_call (outstanding ev_type ev_key ?kept es) =
        map ev_call (filter (\<lambda>d. ev_type d = FTYPE_ALLOC \<longrightarrow> \<not> released (ev_key d) 1 es) ?kept) @ survivors c es"
      using Cons.prems(1) free by simp
    moreover have "survivors cnt (e # es) = survivors c es"
      using free Cons.prems(2) [rule_format, of ?k] by (cases "cnt ?k") (auto simp: c_def fun_upd_idem split: if_splits)
    moreover have "filter (\<lambda>d. ev_type d = FTYPE_ALLOC \<longrightarrow> \<not> released (ev_key d) 1 es) ?kept =
        filter (\<lambda>d. ev_type d = FTYPE_ALLOC \<longrightarrow> \<not> released (ev_key d) 1 (e # es)) kept"
      using free by (auto simp: intro!: filter_cong)
    ultimately show ?thesis using free by simp
  next
    case alloc
    have fresh: "\<forall>d\<in>set kept. ev_type d = FTYPE_ALLOC \<longrightarrow> ev_key d \<noteq> ?k" using Cons.prems(1) alloc by simp
    then have "cnt ?k = None" using Cons.prems(2) by auto
    define c where "c = cnt(?k \<mapsto> 1)"
    have "\<forall>k. c k = (if \<exists>d\<in>set (kept @ [e]). ev_type d = FTYPE_ALLOC \<and> ev_key d = k then Some 1 else None)"
      using Cons.prems(2) alloc by (auto simp: c_def)
    from Cons.IH [OF _ this] have "map ev_call (outstanding ev_type ev_key (kept @ [e]) es) =
        map ev_call (filter (\<lambda>d. ev_type d = FTYPE_ALLOC \<longrightarrow> \<not> released (ev_key d) 1 es) (kept @ [e])) @ survivors c es"
      using Cons.prems(1) alloc by simp
    moreover have "filter (\<lambda>d. ev_type d = FTYPE_ALLOC \<longrightarrow> \<not> released (ev_key d) 1 (e # es)) kept =
        filter (\<lambda>d. ev_type d = FTYPE_ALLOC \<longrightarrow> \<not> released (ev_key d) 1 es) kept"
      using fresh by (intro filter_cong) auto
    ultimately show ?thesis using alloc \<open>cnt ?k = None\<close> by (simp add: c_def)
  next
    case other
    have "\<forall>k. cnt k = (if \<exists>d\<in>set (kept @ [e]). ev_type d = FTYPE_ALLOC \<and> ev_key d = k then Some 1 else None)"
      using Cons.prems(2) other by simp
    moreover have "released k 1 (e # es) = released k 1 es" for k using other by simp
    ultimately show ?thesis using Cons.IH [of "kept @ [e]" cnt] Cons.prems(1) other by (simp del: released.simps)
  qed
qed simp

definition acall_type :: "acall \<Rightarrow> u32" where
  "acall_type a = fc_type (ac_data a)"

theorem leaking_outstanding:
  assumes "fresh_allocs acall_type acall_key [] as"
  shows "leaking_calls as = outstanding acall_type acall_key [] as"
proof -
  let ?es = "map (acall_event as) [0..<length as]" and ?nth = "\<lambda>i. as ! i"
  have as: "as = map ?nth [0..<length as]" by (simp add: map_nth)
  have t: "(ev_type \<circ> acall_event as) i = (acall_type \<circ> ?nth) i" "(ev_key \<circ> acall_event as) i = (acall_key \<circ> ?nth) i" for i
    by (simp_all add: acall_event_def acall_type_def)
  have cong: "outstanding (ev_type \<circ> acall_event as) (ev_key \<circ> acall_event as) [] [0..<length as] =
      outstanding (acall_type \<circ> ?nth) (acall_key \<circ> ?nth) [] [0..<length as] \<and>
    fresh_allocs (ev_type \<circ> acall_event as) (ev_key \<circ> acall_event as) [] [0..<length as] =
      fresh_allocs (acall_type \<circ> ?nth) (acall_key \<circ> ?nth) [] [0..<length as]"
    by (rule same_keys_cong [where A = UNIV]) (use t in auto)
  have fr: "fresh_allocs ev_type ev_key [] ?es"
    using cong assms as fresh_allocs_map [of acall_type acall_key ?nth "[]" "[0..<length as]"]
      fresh_allocs_map [of ev_type ev_key "acall_event as" "[]" "[0..<length as]"] by simp
  have "survivors Map.empty ?es = map ev_call (outstanding ev_type ev_key [] ?es)"
    using survivors_outstanding [OF fr, of Map.empty] by simp
  also have "\<dots> = map (ev_call \<circ> acall_event as) (outstanding (acall_type \<circ> ?nth) (acall_key \<circ> ?nth) [] [0..<length as])"
    using cong outstanding_map [of ev_type ev_key "acall_event as" "[]" "[0..<length as]"] by simp
  also have "ev_call \<circ> acall_event as = id" by (simp add: fun_eq_iff acall_event_def)
  finally have "leaking_calls as = map ?nth (outstanding (acall_type \<circ> ?nth) (acall_key \<circ> ?nth) [] [0..<length as])"
    by (simp add: leaking_calls_def comp_def)
  also have "\<dots> = outstanding acall_type acall_key [] as"
    using outstanding_map [of acall_type acall_key ?nth "[]" "[0..<length as]"] as by simp
  finally show ?thesis .
qed

section \<open>Calls of the modules\<close>

type_synonym mcall = "module_fcall \<times> module_farg list option"

definition mcall_type :: "mcall \<Rightarrow> u32" where
  "mcall_type c = mf_type (fst c)"

definition mcall_key :: "mcall \<Rightarrow> u32 \<times> pointer_t" where
  "mcall_key c = (mf_res_type_id (fst c), mf_res_id (fst c))"

abbreviation held :: "mcall list \<Rightarrow> mcall list" where
  "held \<equiv> outstanding mcall_type mcall_key []"

abbreviation fresh_calls :: "mcall list \<Rightarrow> bool" where
  "fresh_calls \<equiv> fresh_allocs mcall_type mcall_key []"

text \<open>The environment of a call: the implementation of the backtrace, the call context and the clock.\<close>

record call_env =
  ce_backtrace :: "nat \<Rightarrow> pointer_t list"
  ce_context :: u32
  ce_clock :: "(int \<times> int) option"

definition call_op :: "call_env \<Rightarrow> mcall \<Rightarrow> tracer_op" where
  "call_op env c = T_Call (ce_backtrace env) (ce_context env) (ce_clock env) (fst c) None (snd c)"

definition module_ops :: "(nat \<Rightarrow> call_env) \<Rightarrow> mcall list \<Rightarrow> tracer_op list" where
  "module_ops env cs = map (\<lambda>(i, c). call_op (env i) c) (zip [0..<length cs] cs)"

text \<open>What the report shows of a call.\<close>

definition shown_call :: "acall \<Rightarrow> cstring option \<times> (u64 \<times> pointer_t) \<times> u32" where
  "shown_call a = (fc_name (ac_data a), acall_key a, fc_res_size (ac_data a))"

definition made_call :: "mcall \<Rightarrow> cstring option \<times> (u64 \<times> pointer_t) \<times> u32" where
  "made_call c = (Some (stored_text (mf_name (fst c))), (ucast (mf_res_type_id (fst c)), mf_res_id (fst c)), mf_res_size (fst c))"

text \<open>The calls use registered resource types.\<close>

definition known_type :: "module_resource list \<Rightarrow> u32 \<Rightarrow> bool" where
  "known_type rs r \<longleftrightarrow> (\<exists>i<length rs. r = of_nat (i + 1))"

definition known_types :: "module_resource list \<Rightarrow> mcall list \<Rightarrow> bool" where
  "known_types rs cs \<longleftrightarrow> (\<forall>c\<in>set cs. known_type rs (mf_res_type_id (fst c)))"

definition made_acall :: "sp_rtrace_options \<Rightarrow> module_resource list \<Rightarrow> (nat \<Rightarrow> call_env) \<Rightarrow> nat \<times> mcall \<Rightarrow> acall" where
  "made_acall opt rs env x = hd (op_call opt rs (fst x) (call_op (env (fst x)) (snd x)))"

lemma op_calls_module:
  "op_calls opt rs n (map (\<lambda>(i, c). call_op (env i) c) (zip [n..<n + length cs] cs)) =
    map (made_acall opt rs env) (zip [n..<n + length cs] cs)"
proof (induction cs arbitrary: n)
  case (Cons c cs)
  have "[n..<n + length (c # cs)] = n # [Suc n..<Suc n + length cs]" using upt_conv_Cons [of n "n + length (c # cs)"] by simp
  with Cons.IH [of "Suc n"] show ?case by (simp add: made_acall_def call_op_def)
qed simp

lemma ucast64_inj: "(ucast (a :: u32) :: u64) = ucast b \<Longrightarrow> a = b"
  by (metis unat_ucast_up unsigned_word_eqI)

lemma known_type_ids:
  assumes "registry_ok rs" "known_types rs cs" "c \<in> set cs"
  shows "\<exists>r. registry_index rs (unat (mf_res_type_id (fst c))) = Some (written_resource r) \<and>
    mr_id r = ucast (mf_res_type_id (fst c))"
proof -
  obtain i where i: "i < length rs" "mf_res_type_id (fst c) = of_nat (i + 1)"
    using assms(2,3) by (auto simp: known_types_def known_type_def)
  have "i + 1 < 2 ^ 32" using i(1) assms(1) by (simp add: registry_ok_def)
  then have n: "unat (mf_res_type_id (fst c)) = i + 1" unfolding i(2) by (subst unat_of_nat) simp
  then have "unat (mr_id (rs ! i)) = unat (ucast (mf_res_type_id (fst c)) :: u64)"
    using registry_id [OF assms(1) i(1)] unat_ucast_up [of "mf_res_type_id (fst c)"] by simp
  then have "mr_id (rs ! i) = ucast (mf_res_type_id (fst c))" by (rule unsigned_word_eqI)
  then show ?thesis using i n by (auto simp: registry_index_def)
qed

text \<open>The report shows exactly the outstanding calls of the modules.\<close>

theorem module_leaks:
  assumes "registry_ok rs" "known_types rs cs" "fresh_calls cs"
  shows "map shown_call (leaking_calls (op_calls opt rs 0 (module_ops env cs))) = map made_call (held cs)"
    "\<forall>a\<in>set (op_calls opt rs 0 (module_ops env cs)). ac_resource a \<noteq> None"
proof -
  let ?zs = "zip [0..<length cs] cs" and ?F = "made_acall opt rs env"
  have as: "op_calls opt rs 0 (module_ops env cs) = map ?F ?zs"
    using op_calls_module [of opt rs 0 env cs] by (simp add: module_ops_def)
  have cs: "map snd ?zs = cs" by simp
  have z: "\<exists>r. ac_resource (?F x) = Some (written_resource r) \<and> mr_id r = ucast (mf_res_type_id (fst (snd x)))"
    "acall_type (?F x) = mcall_type (snd x)"
    "fc_res_id (ac_data (?F x)) = mf_res_id (fst (snd x))" if "x \<in> set ?zs" for x
  proof -
    have "snd x \<in> set cs" using that cs by (metis image_eqI list.set_map)
    from known_type_ids [OF assms(1,2) this]
    show "\<exists>r. ac_resource (?F x) = Some (written_resource r) \<and> mr_id r = ucast (mf_res_type_id (fst (snd x)))" by (simp add: made_acall_def call_op_def)
  qed (simp_all add: made_acall_def call_op_def acall_type_def mcall_type_def written_call_def)
  then show "\<forall>a\<in>set (op_calls opt rs 0 (module_ops env cs)). ac_resource a \<noteq> None" unfolding as by fastforce
  have key: "acall_key (?F x) = (ucast (mf_res_type_id (fst (snd x))), mf_res_id (fst (snd x)))" if "x \<in> set ?zs" for x
    using z(1,3) [OF that] by (auto simp: acall_key_def written_resource_def)
  have eq: "acall_key (?F x) = acall_key (?F y) \<longleftrightarrow> mcall_key (snd x) = mcall_key (snd y)" if "x \<in> set ?zs" "y \<in> set ?zs" for x y
    unfolding key [OF that(1)] key [OF that(2)] mcall_key_def by (auto dest: ucast64_inj)
  have cong: "outstanding (acall_type \<circ> ?F) (acall_key \<circ> ?F) [] ?zs = outstanding (mcall_type \<circ> snd) (mcall_key \<circ> snd) [] ?zs \<and>
      fresh_allocs (acall_type \<circ> ?F) (acall_key \<circ> ?F) [] ?zs = fresh_allocs (mcall_type \<circ> snd) (mcall_key \<circ> snd) [] ?zs"
    by (rule same_keys_cong [where A = "set ?zs"]) (use z(2) eq in auto)
  let ?os = "outstanding (mcall_type \<circ> snd) (mcall_key \<circ> snd) [] ?zs"
  have "fresh_allocs acall_type acall_key [] (map ?F ?zs)"
    using assms(3) cong fresh_allocs_map [of acall_type acall_key ?F "[]" ?zs]
      fresh_allocs_map [of mcall_type mcall_key snd "[]" ?zs] cs by simp
  then have "leaking_calls (map ?F ?zs) = map ?F ?os"
    using leaking_outstanding cong outstanding_map [of acall_type acall_key ?F "[]" ?zs] by simp
  moreover have "held cs = map snd ?os" using outstanding_map [of mcall_type mcall_key snd "[]" ?zs] cs by simp
  moreover have "shown_call (?F x) = made_call (snd x)" if "x \<in> set ?os" for x
  proof -
    have "x \<in> set ?zs" using that outstanding_sub [of _ _ "[]" ?zs] by fastforce
    from key [OF this] show ?thesis
      by (simp add: shown_call_def made_call_def made_acall_def call_op_def written_call_def)
  qed
  ultimately show "map shown_call (leaking_calls (op_calls opt rs 0 (module_ops env cs))) = map made_call (held cs)"
    unfolding as by simp
qed

end
