(* ===== verification/Memory_Module.thy ===== *)
theory Memory_Module
  imports Emu_Heap Module_Calls
begin

text \<open>
  The memory tracing module (sp\_rtrace\_memory.c): the tracing functions, which call the original
  function and report the outcome, and the entry points that replace the allocation functions of
  the C library.  What the original function returned is an argument.
\<close>

section \<open>Tracing functions\<close>

text \<open>The static state: the resource id, whether heap statistics are wanted, and the internal heap.\<close>

record memory_module =
  mm_res :: u32
  mm_get_heap :: bool
  mm_on :: bool
  mm_lock :: bool
  mm_emu :: emu_heap

text \<open>The outcome: the reported calls, and whether the heap statistics are updated.  A size is cut to an int.\<close>

type_synonym report = "mcall list \<times> bool"

definition memory_call :: "memory_module \<Rightarrow> u32 \<Rightarrow> string \<Rightarrow> u64 \<Rightarrow> pointer_t \<Rightarrow> mcall" where
  "memory_call m ty name n p = (\<lparr>mf_type = ty, mf_name = Some (str name), mf_res_type_id = mm_res m, mf_res_id = p,
     mf_res_size = ucast n\<rparr>, None)"

definition trace_malloc :: "memory_module \<Rightarrow> u64 \<Rightarrow> pointer_t \<Rightarrow> report" where
  "trace_malloc m n rc = (if rc \<noteq> 0 then ([memory_call m FTYPE_ALLOC ''malloc'' n rc], mm_get_heap m) else ([], False))"

definition trace_calloc :: "memory_module \<Rightarrow> u64 \<Rightarrow> u64 \<Rightarrow> pointer_t \<Rightarrow> report" where
  "trace_calloc m nmemb n rc =
     (if rc \<noteq> 0 then ([memory_call m FTYPE_ALLOC ''calloc'' (nmemb * n) rc], mm_get_heap m) else ([], False))"

definition trace_realloc :: "memory_module \<Rightarrow> pointer_t \<Rightarrow> u64 \<Rightarrow> pointer_t \<Rightarrow> report" where
  "trace_realloc m p n rc =
     ((if (rc \<noteq> 0 \<or> n = 0) \<and> p \<noteq> 0 then [memory_call m FTYPE_FREE ''realloc'' 0 p] else []) @
      (if rc \<noteq> 0 then [memory_call m FTYPE_ALLOC ''realloc'' n rc] else []), rc \<noteq> 0 \<and> mm_get_heap m)"

definition trace_posix_memalign :: "memory_module \<Rightarrow> u64 \<Rightarrow> pointer_t \<Rightarrow> int \<Rightarrow> report" where
  "trace_posix_memalign m n memptr rc =
     (if rc = 0 then ([memory_call m FTYPE_ALLOC ''posix_memalign'' n memptr], mm_get_heap m) else ([], False))"

definition trace_free :: "memory_module \<Rightarrow> pointer_t \<Rightarrow> report" where
  "trace_free m p = ([memory_call m FTYPE_FREE ''free'' 0 p], mm_get_heap m)"

section \<open>Entry points\<close>

text \<open>
  While the backtrace is locked, or the tracing is off, the original function is used.  The tracing
  functions other than that of \<open>posix_memalign\<close> release the lock.
\<close>

definition malloc_entry :: "u64 \<Rightarrow> pointer_t \<Rightarrow> memory_module \<Rightarrow> report \<times> memory_module" where
  "malloc_entry n rc m =
     (if mm_lock m \<or> \<not> mm_on m then (([], False), m) else (trace_malloc m n rc, m\<lparr>mm_lock := False\<rparr>))"

definition calloc_entry :: "u64 \<Rightarrow> u64 \<Rightarrow> pointer_t \<Rightarrow> memory_module \<Rightarrow> report \<times> memory_module" where
  "calloc_entry nmemb n rc m =
     (if mm_lock m \<or> \<not> mm_on m then (([], False), m) else (trace_calloc m nmemb n rc, m\<lparr>mm_lock := False\<rparr>))"

definition posix_memalign_entry :: "u64 \<Rightarrow> pointer_t \<Rightarrow> int \<Rightarrow> memory_module \<Rightarrow> report \<times> memory_module" where
  "posix_memalign_entry n memptr rc m =
     (if \<not> mm_on m then (([], False), m) else (trace_posix_memalign m n memptr rc, m))"

definition free_entry :: "pointer_t \<Rightarrow> memory_module \<Rightarrow> report \<times> memory_module" where
  "free_entry p m =
     (if is_in_internal_heap (mm_emu m) (unat p) then (([], False), m\<lparr>mm_emu := emu_free (unat p) (mm_emu m)\<rparr>)
      else if mm_lock m \<or> \<not> mm_on m then (([], False), m)
      else (trace_free m p, m\<lparr>mm_lock := False\<rparr>))"

text \<open>
  A block of the internal heap is moved to one of the original allocator, whatever the state of
  the lock; \<open>rc\<close> is the result of the original \<open>malloc\<close> in that case.
\<close>

definition realloc_entry :: "pointer_t \<Rightarrow> u64 \<Rightarrow> pointer_t \<Rightarrow> memory_module \<Rightarrow> report \<times> memory_module" where
  "realloc_entry p n rc m =
     (if is_in_internal_heap (mm_emu m) (unat p) then
        (let rep = (if mm_on m then trace_malloc m n rc else ([], False));
             m = (if mm_on m then m\<lparr>mm_lock := False\<rparr> else m);
             e = mm_emu m; chunk_size = load_u32 (eh_mem e) (unat p - 4);
             k = (if unat n > chunk_size then chunk_size else unat n)
         in if rc \<noteq> 0 \<and> p \<noteq> 0
            then (rep, m\<lparr>mm_emu := emu_free (unat p) (e\<lparr>eh_mem := copy_bytes k (unat p) (unat rc) (eh_mem e)\<rparr>)\<rparr>)
            else (rep, m))
      else if mm_lock m \<or> \<not> mm_on m then (([], False), m)
      else (trace_realloc m p n rc, m\<lparr>mm_lock := False\<rparr>))"

section \<open>The traced program\<close>

text \<open>The calls of the program, with the results of the original functions.\<close>

datatype mem_op =
    Malloc u64 pointer_t
  | Calloc u64 u64 pointer_t
  | Realloc pointer_t u64 pointer_t
  | Memalign u64 pointer_t int
  | Free pointer_t

fun mem_entry :: "mem_op \<Rightarrow> memory_module \<Rightarrow> report \<times> memory_module" where
  "mem_entry (Malloc n rc) m = malloc_entry n rc m"
| "mem_entry (Calloc nmemb n rc) m = calloc_entry nmemb n rc m"
| "mem_entry (Realloc p n rc) m = realloc_entry p n rc m"
| "mem_entry (Memalign n p rc) m = posix_memalign_entry n p rc m"
| "mem_entry (Free p) m = free_entry p m"

fun mem_run :: "mem_op list \<Rightarrow> memory_module \<Rightarrow> mcall list \<times> memory_module" where
  "mem_run [] m = ([], m)"
| "mem_run (x # xs) m = (case mem_entry x m of ((cs, _), m) \<Rightarrow> (case mem_run xs m of (ds, m) \<Rightarrow> (cs @ ds, m)))"

text \<open>
  What the program has allocated from the original allocator, as the manual pages describe it: an
  unsuccessful \<open>realloc\<close> leaves the block alone, one with size 0 releases it.  Blocks of the
  internal heap do not belong to it.
\<close>

definition internal :: "memory_module \<Rightarrow> pointer_t \<Rightarrow> bool" where
  "internal m p = is_in_internal_heap (mm_emu m) (unat p)"

fun blocks_after :: "memory_module \<Rightarrow> (pointer_t \<times> u64) list \<Rightarrow> mem_op \<Rightarrow> (pointer_t \<times> u64) list" where
  "blocks_after m bs (Malloc n rc) = (if rc \<noteq> 0 then bs @ [(rc, n)] else bs)"
| "blocks_after m bs (Calloc nmemb n rc) = (if rc \<noteq> 0 then bs @ [(rc, nmemb * n)] else bs)"
| "blocks_after m bs (Realloc p n rc) =
     (if internal m p then (if rc \<noteq> 0 then bs @ [(rc, n)] else bs)
      else if rc \<noteq> 0 then filter (\<lambda>b. fst b \<noteq> p) bs @ [(rc, n)]
      else if n = 0 then filter (\<lambda>b. fst b \<noteq> p) bs else bs)"
| "blocks_after m bs (Memalign n p rc) = (if rc = 0 then bs @ [(p, n)] else bs)"
| "blocks_after m bs (Free p) = (if internal m p then bs else filter (\<lambda>b. fst b \<noteq> p) bs)"

text \<open>A successful allocation returns an address that is not null and not in use.\<close>

fun alloc_ok :: "memory_module \<Rightarrow> (pointer_t \<times> u64) list \<Rightarrow> mem_op \<Rightarrow> bool" where
  "alloc_ok m bs (Malloc n rc) = (rc \<notin> fst ` set bs)"
| "alloc_ok m bs (Calloc nmemb n rc) = (rc \<notin> fst ` set bs)"
| "alloc_ok m bs (Realloc p n rc) = ((rc = p \<and> \<not> internal m p) \<or> rc \<notin> fst ` set bs)"
| "alloc_ok m bs (Memalign n p rc) = (rc = 0 \<longrightarrow> p \<notin> fst ` set bs \<and> p \<noteq> 0)"
| "alloc_ok m bs (Free p) = True"

fun alloc_run :: "memory_module \<Rightarrow> (pointer_t \<times> u64) list \<Rightarrow> mem_op list \<Rightarrow> bool" where
  "alloc_run m bs [] = True"
| "alloc_run m bs (x # xs) = (alloc_ok m bs x \<and> alloc_run m (blocks_after m bs x) xs)"

definition program_blocks :: "memory_module \<Rightarrow> mem_op list \<Rightarrow> (pointer_t \<times> u64) list" where
  "program_blocks m xs = foldl (blocks_after m) [] xs"

section \<open>The reported calls describe the blocks\<close>

text \<open>The calls and the blocks are in step: every block has its call, in the same order.\<close>

definition block_call :: "memory_module \<Rightarrow> mcall \<Rightarrow> pointer_t \<times> u64 \<Rightarrow> bool" where
  "block_call m c b \<longleftrightarrow> mf_type (fst c) = FTYPE_ALLOC \<and> mf_res_type_id (fst c) = mm_res m \<and> mf_res_id (fst c) = fst b \<and>
     mf_res_size (fst c) = ucast (snd b) \<and> fst b \<noteq> 0"

definition running :: "memory_module \<Rightarrow> memory_module \<Rightarrow> bool" where
  "running m m' \<longleftrightarrow> mm_on m' \<and> \<not> mm_lock m' \<and> mm_res m' = mm_res m \<and> eh_base (mm_emu m') = eh_base (mm_emu m)"

lemma running_same: "running m m' \<Longrightarrow> internal m' p = internal m p \<and> mm_res m' = mm_res m"
  by (simp add: running_def internal_def is_in_internal_heap_def)

lemma memory_call_type [simp]: "mcall_type (memory_call m t name n p) = t"
  by (simp add: mcall_type_def memory_call_def)

lemma block_calls_addr:
  "list_all2 (block_call m) cs bs \<Longrightarrow>
    p \<in> fst ` set bs \<longleftrightarrow> (\<exists>c\<in>set cs. mcall_type c = FTYPE_ALLOC \<and> mcall_key c = (mm_res m, p))"
  by (induction rule: list_all2_induct) (auto simp: block_call_def mcall_type_def mcall_key_def)

lemma block_calls_alloc:
  "list_all2 (block_call m) cs bs \<Longrightarrow> p \<noteq> 0 \<Longrightarrow> mm_res m' = mm_res m \<Longrightarrow>
    list_all2 (block_call m) (cs @ [memory_call m' FTYPE_ALLOC name n p]) (bs @ [(p, n)])"
  by (intro list_all2_appendI) (simp_all add: block_call_def memory_call_def)

lemma block_calls_free:
  "list_all2 (block_call m) cs bs \<Longrightarrow> mm_res m' = mm_res m \<Longrightarrow>
    list_all2 (block_call m)
      (filter (\<lambda>d. mcall_type d = FTYPE_ALLOC \<longrightarrow> mcall_key d \<noteq> mcall_key (memory_call m' FTYPE_FREE name n p)) cs)
      (filter (\<lambda>b. fst b \<noteq> p) bs)"
  by (induction rule: list_all2_induct) (auto simp: block_call_def mcall_type_def mcall_key_def memory_call_def)

lemma free_null:
  assumes "list_all2 (block_call m) cs bs"
  shows "filter (\<lambda>b. fst b \<noteq> 0) bs = bs"
  using assms by (induction rule: list_all2_induct) (auto simp: block_call_def)

text \<open>One call of the program.\<close>

lemma mem_entry_ok:
  assumes "running m m'" "list_all2 (block_call m) kept bs" "alloc_ok m bs x" "mem_entry x m' = ((cs, w), m'')"
  shows "running m m'' \<and> fresh_allocs mcall_type mcall_key kept cs \<and>
    list_all2 (block_call m) (outstanding mcall_type mcall_key kept cs) (blocks_after m bs x)"
proof -
  note m = running_same [OF assms(1)]
  have run: "mm_on m'" "\<not> mm_lock m'" "mm_res m' = mm_res m" using assms(1) by (auto simp: running_def)
  have fr: "(\<forall>d\<in>set ks. mcall_type d = FTYPE_ALLOC \<longrightarrow> mcall_key d \<noteq> mcall_key (memory_call m' FTYPE_ALLOC name n p))"
    if "list_all2 (block_call m) ks cs'" "p \<notin> fst ` set cs'" for ks cs' name n p
    using block_calls_addr [OF that(1), of p] that(2) run(3) by (auto simp: mcall_key_def memory_call_def)
  note al = block_calls_alloc [OF assms(2) _ run(3)] and fe = block_calls_free [OF assms(2) run(3)]
  show ?thesis
  proof (cases x)
    case (Malloc n rc)
    then show ?thesis using assms(1,3,4) run al fr [OF assms(2)] assms(2)
      by (auto simp: malloc_entry_def trace_malloc_def running_def split: if_splits)
  next
    case (Calloc nmemb n rc)
    then show ?thesis using assms(1,3,4) run al fr [OF assms(2)] assms(2)
      by (auto simp: calloc_entry_def trace_calloc_def running_def split: if_splits)
  next
    case (Memalign n p rc)
    then show ?thesis using assms(1,3,4) run al fr [OF assms(2)] assms(2)
      by (auto simp: posix_memalign_entry_def trace_posix_memalign_def running_def split: if_splits)
  next
    case (Free p)
    then show ?thesis using assms(1,3,4) run fe assms(2) m
      by (auto simp: free_entry_def trace_free_def running_def internal_def emu_free_def split: if_splits)
  next
    case (Realloc p n rc)
    have emu: "eh_base (emu_free q e) = eh_base e" for q e by (simp add: emu_free_def)
    have "mem_entry x m' = (trace_realloc m' p n rc, m'\<lparr>mm_lock := False\<rparr>)" if "\<not> internal m p"
      using Realloc that run m [of p] unfolding internal_def by (simp add: realloc_entry_def)
    then have outer: "cs = fst (trace_realloc m' p n rc) \<and> running m m''" if "\<not> internal m p"
      using that assms(1,4) by (auto simp: running_def prod_eq_iff)
    consider (inner) "internal m p" | (move) "\<not> internal m p" "rc \<noteq> 0" "p \<noteq> 0" | (new) "\<not> internal m p" "rc \<noteq> 0" "p = 0"
      | (gone) "\<not> internal m p" "rc = 0" "n = 0" "p \<noteq> 0" | (none) "\<not> internal m p" "rc = 0" "n \<noteq> 0 \<or> p = 0" by blast
    then show ?thesis
    proof cases
      case inner
      then show ?thesis using Realloc assms(1,3,4) run al fr [OF assms(2)] assms(2) m
        by (auto simp: realloc_entry_def trace_malloc_def running_def internal_def Let_def emu split: if_splits)
    next
      case move
      let ?bs = "filter (\<lambda>b. fst b \<noteq> p) bs"
      have rc: "rc \<notin> fst ` set ?bs" using Realloc move assms(3) by auto
      have cs: "cs = [memory_call m' FTYPE_FREE ''realloc'' 0 p, memory_call m' FTYPE_ALLOC ''realloc'' n rc]" "running m m''"
        using outer move by (auto simp: trace_realloc_def)
      then show ?thesis using Realloc move fr [OF fe rc] block_calls_alloc [OF fe move(2) run(3)] cs(2) by (simp add: cs(1))
    next
      case new
      then show ?thesis using Realloc assms(3) outer al fr [OF assms(2)] free_null [OF assms(2)]
        by (auto simp: trace_realloc_def)
    next
      case gone
      then show ?thesis using Realloc outer fe by (auto simp: trace_realloc_def)
    next
      case none
      then show ?thesis using Realloc assms(2) outer free_null [OF assms(2)] by (auto simp: trace_realloc_def)
    qed
  qed
qed

text \<open>
  The outstanding calls after a run of the program are its blocks, in the order of their
  allocation, with their sizes cut to 32 bits.
\<close>

lemma mem_run_ok:
  assumes "running m m'" "list_all2 (block_call m) kept bs" "alloc_run m bs xs" "mem_run xs m' = (cs, m'')"
  shows "fresh_allocs mcall_type mcall_key kept cs \<and>
    list_all2 (block_call m) (outstanding mcall_type mcall_key kept cs) (foldl (blocks_after m) bs xs)"
  using assms
proof (induction xs arbitrary: m' kept bs cs m'')
  case (Cons x xs)
  obtain c1 w m1 where x: "mem_entry x m' = ((c1, w), m1)" by (metis prod.exhaust)
  obtain c2 m2 where xs: "mem_run xs m1 = (c2, m2)" by fastforce
  have cs: "cs = c1 @ c2" using Cons.prems(4) x xs by simp
  have 1: "running m m1 \<and> fresh_allocs mcall_type mcall_key kept c1 \<and>
      list_all2 (block_call m) (outstanding mcall_type mcall_key kept c1) (blocks_after m bs x)"
    using mem_entry_ok [OF Cons.prems(1,2) _ x] Cons.prems(3) by simp
  then have "fresh_allocs mcall_type mcall_key (outstanding mcall_type mcall_key kept c1) c2 \<and>
      list_all2 (block_call m) (outstanding mcall_type mcall_key (outstanding mcall_type mcall_key kept c1) c2)
        (foldl (blocks_after m) (blocks_after m bs x) xs)"
    using Cons.prems(3) by (intro Cons.IH [OF _ _ _ xs]) auto
  with 1 show ?case by (simp add: cs fresh_allocs_append outstanding_append)
qed simp

theorem memory_held:
  assumes "mm_on m" "\<not> mm_lock m" "alloc_run m [] xs"
  shows "fresh_calls (fst (mem_run xs m))"
    "map (\<lambda>c. (mf_res_id (fst c), mf_res_size (fst c))) (held (fst (mem_run xs m))) = map (\<lambda>(p, n). (p, ucast n)) (program_blocks m xs)"
proof -
  have "running m m" using assms(1,2) by (simp add: running_def)
  moreover have "mem_run xs m = (fst (mem_run xs m), snd (mem_run xs m))" by simp
  ultimately have r: "fresh_calls (fst (mem_run xs m))" "list_all2 (block_call m) (held (fst (mem_run xs m))) (program_blocks m xs)"
    using mem_run_ok [of m m "[]" "[]" xs] assms(3) unfolding program_blocks_def by blast+
  then show "fresh_calls (fst (mem_run xs m))" by simp
  have "list_all2 (block_call m) cs bs \<Longrightarrow> map (\<lambda>c. (mf_res_id (fst c), mf_res_size (fst c))) cs = map (\<lambda>(p, n). (p, ucast n)) bs" for cs bs
    by (induction rule: list_all2_induct) (auto simp: block_call_def)
  with r(2) show "map (\<lambda>c. (mf_res_id (fst c), mf_res_size (fst c))) (held (fst (mem_run xs m))) =
      map (\<lambda>(p, n). (p, ucast n)) (program_blocks m xs)" by simp
qed

text \<open>All calls are of the resource type of the module.\<close>

lemma mem_run_res:
  "mem_run xs m = (cs, m') \<Longrightarrow> \<forall>c\<in>set cs. mf_res_type_id (fst c) = mm_res m"
proof (induction xs arbitrary: m cs m')
  case (Cons x xs)
  obtain c1 w m1 where x: "mem_entry x m = ((c1, w), m1)" by (metis prod.exhaust)
  obtain c2 m2 where xs: "mem_run xs m1 = (c2, m2)" by fastforce
  have "mm_res m1 = mm_res m \<and> (\<forall>c\<in>set c1. mf_res_type_id (fst c) = mm_res m)"
    using x by (cases x) (auto simp: malloc_entry_def calloc_entry_def realloc_entry_def posix_memalign_entry_def free_entry_def
        trace_malloc_def trace_calloc_def trace_realloc_def trace_posix_memalign_def trace_free_def memory_call_def Let_def split: if_splits)
  moreover have "cs = c1 @ c2" using Cons.prems x xs by simp
  ultimately show ?case using Cons.IH [OF xs] by (simp add: ball_Un)
qed simp

end
