(* ===== verification/Text_Format.thy ===== *)
theory Text_Format
  imports Proto
begin

text \<open>The conversions of the printf family that the sources use, on bytes.\<close>

definition digit_char :: "nat \<Rightarrow> byte" where
  "digit_char d = (if d < 10 then word_of_nat (48 + d) else word_of_nat (87 + d))"

function digits :: "nat \<Rightarrow> nat \<Rightarrow> cstring" where
  "digits b n = (if b < 2 \<or> n < b then [digit_char n] else digits b (n div b) @ [digit_char (n mod b)])"
  by auto
termination by (relation "measure snd") auto

declare digits.simps [simp del]

text \<open>\<open>%x\<close>, \<open>%u\<close> and \<open>%d\<close>; \<open>%2x\<close> and the like pad with spaces on the left.\<close>

definition format_x :: "nat \<Rightarrow> cstring" where
  "format_x n = digits 16 n"

definition format_0x :: "nat \<Rightarrow> cstring" where
  "format_0x n = str ''0x'' @ format_x n"

definition format_u :: "nat \<Rightarrow> cstring" where
  "format_u n = digits 10 n"

definition format_d :: "int \<Rightarrow> cstring" where
  "format_d i = (if i < 0 then str ''-'' @ format_u (nat (- i)) else format_u (nat i))"

definition pad_left :: "nat \<Rightarrow> cstring \<Rightarrow> cstring" where
  "pad_left w t = replicate (w - length t) 32 @ t"

section \<open>Properties\<close>

lemma length_digits: "2 \<le> b \<Longrightarrow> n < b ^ k \<Longrightarrow> 0 < k \<Longrightarrow> length (digits b n) \<le> k"
proof (induction b n arbitrary: k rule: digits.induct)
  case (1 b n)
  show ?case
  proof (cases "n < b")
    case False
    then have "1 < k" using "1.prems" by (cases k) (auto intro: gr0I)
    then obtain j where j: "k = Suc j" "0 < j" by (cases k) auto
    have "n div b < b ^ j" using "1.prems"(2) j(1) by (simp add: less_mult_imp_div_less mult.commute)
    from "1.IH" [OF _ "1.prems"(1) this j(2)] False "1.prems"(1) show ?thesis by (subst digits.simps) (simp add: j(1))
  qed (use "1.prems" in \<open>simp add: digits.simps\<close>)
qed

definition digit_value :: "byte \<Rightarrow> nat" where
  "digit_value c = (if c < 58 then unat c - 48 else unat c - 87)"

lemma digit_value_char: "d < 16 \<Longrightarrow> digit_value (digit_char d) = d"
proof -
  assume "d < 16"
  then have "unat (word_of_nat (48 + d) :: byte) = 48 + d" "unat (word_of_nat (87 + d) :: byte) = 87 + d"
    by (simp_all add: unat_of_nat del: of_nat_add)
  then show ?thesis by (simp add: digit_value_def digit_char_def word_less_nat_alt del: of_nat_add)
qed

text \<open>Reading the digits gives the number back.\<close>

lemma digits_value:
  "2 \<le> b \<Longrightarrow> b \<le> 16 \<Longrightarrow> foldl (\<lambda>v c. v * b + digit_value c) 0 (digits b n) = n"
proof (induction b n rule: digits.induct)
  case (1 b n)
  show ?case
  proof (cases "n < b")
    case True
    then show ?thesis using "1.prems" by (simp add: digits.simps digit_value_char)
  next
    case False
    then show ?thesis using "1.IH" "1.prems" by (subst digits.simps) (simp add: digit_value_char less_le_trans [OF mod_less_divisor])
  qed
qed

lemma digits_inj: "2 \<le> b \<Longrightarrow> b \<le> 16 \<Longrightarrow> digits b n = digits b m \<Longrightarrow> n = m"
  by (metis digits_value)

text \<open>No digit ends a string.\<close>

lemma digits_chars: "2 \<le> b \<Longrightarrow> b \<le> 16 \<Longrightarrow> \<forall>c\<in>set (digits b n). \<exists>d<16. c = digit_char d"
proof (induction b n rule: digits.induct)
  case (1 b n)
  have "n mod b < 16" using "1.prems" using mod_less_divisor [of b n] by linarith
  with 1 show ?case by (subst digits.simps) (auto intro: less_le_trans)
qed

lemma digit_char_nonzero: "d < 16 \<Longrightarrow> digit_char d \<noteq> 0"
proof -
  assume "d < 16"
  then have "unat (digit_char d) \<noteq> 0" by (simp add: digit_char_def unat_of_nat del: of_nat_add)
  then show ?thesis by (metis unat_0)
qed

text \<open>A 32 bit value in hexadecimal or decimal form fits into the buffers of 16 bytes.\<close>

lemma format_fits:
  "length (format_0x (unat (w :: u32))) < 16" "length (format_d (sint (w :: u32))) < 16"
proof -
  have "unat w < 16 ^ 8" using unsigned_less [where 'a = nat, of w] by simp
  then have "length (digits 16 (unat w)) \<le> 8" using length_digits [of 16 "unat w" 8] by simp
  then show "length (format_0x (unat w)) < 16" by (simp add: format_0x_def format_x_def str_def)
  have "nat \<bar>sint w\<bar> < 10 ^ 10" using sint_ge [of w] sint_lt [of w] by (simp add: nat_less_iff abs_if)
  then have "length (digits 10 (nat \<bar>sint w\<bar>)) \<le> 10" using length_digits [of 10 "nat \<bar>sint w\<bar>" 10] by simp
  then show "length (format_d (sint w)) < 16" by (auto simp: format_d_def format_u_def str_def abs_if split: if_splits)
qed

end
