(* ===== verification/File_Module.thy ===== *)
theory File_Module
  imports Text_Format Module_Calls
begin

text \<open>
  The file tracing module (sp\_rtrace\_file.c): the tracing functions for everything that opens or
  closes file descriptors and streams.  The results of the original functions are arguments.
\<close>

section \<open>State\<close>

definition MAX_FD_COUNT :: int where "MAX_FD_COUNT = 1024"

datatype rt_fd = FD_TYPE_UNKNOWN | FD_TYPE_CLOSED | FD_TYPE_FILE | FD_TYPE_SOCKET | FD_TYPE_INOTIFY | FD_TYPE_EVENTFD
  | FD_TYPE_SIGNALFD | FD_TYPE_TIMERFD | FD_TYPE_EPOLL | FD_TYPE_PTY | FD_TYPE_PIPE

fun get_fd_string :: "rt_fd \<Rightarrow> cstring" where
  "get_fd_string FD_TYPE_UNKNOWN = str ''(unknown)''"
| "get_fd_string FD_TYPE_CLOSED = str ''(closed)''"
| "get_fd_string FD_TYPE_FILE = str ''file''"
| "get_fd_string FD_TYPE_SOCKET = str ''socket''"
| "get_fd_string FD_TYPE_INOTIFY = str ''inotify''"
| "get_fd_string FD_TYPE_EVENTFD = str ''eventfd''"
| "get_fd_string FD_TYPE_SIGNALFD = str ''signalfd''"
| "get_fd_string FD_TYPE_TIMERFD = str ''timerfd''"
| "get_fd_string FD_TYPE_EPOLL = str ''epoll''"
| "get_fd_string FD_TYPE_PTY = str ''pty''"
| "get_fd_string FD_TYPE_PIPE = str ''pipe''"

text \<open>\<open>fm_info\<close> is the buffer \<open>last_sock_info\<close> of the size of a socket address.\<close>

record file_module =
  fm_fds :: "int \<Rightarrow> rt_fd"
  fm_res_fd :: u32
  fm_res_fp :: u32
  fm_last_fd :: int
  fm_info :: "byte list"

definition SOCK_INFO_SIZE :: nat where "SOCK_INFO_SIZE = 110"

text \<open>An access to the table with a negative index is \<open>None\<close>.\<close>

definition set_fd :: "int \<Rightarrow> rt_fd \<Rightarrow> file_module \<Rightarrow> file_module option" where
  "set_fd fd ty m = (if fd < MAX_FD_COUNT then do { guard (0 \<le> fd); Some (m\<lparr>fm_fds := (fm_fds m)(fd := ty)\<rparr>) } else Some m)"

definition get_fd :: "int \<Rightarrow> file_module \<Rightarrow> rt_fd option" where
  "get_fd fd m = (if fd < MAX_FD_COUNT then do { guard (0 \<le> fd); Some (fm_fds m fd) } else Some FD_TYPE_UNKNOWN)"

section \<open>Reports\<close>

text \<open>The reported calls and the new state.\<close>

type_synonym freport = "(mcall list \<times> file_module) option"

definition no_report :: "file_module \<Rightarrow> freport" where
  "no_report m = Some ([], m)"

definition fd_call :: "file_module \<Rightarrow> u32 \<Rightarrow> string \<Rightarrow> u32 \<Rightarrow> int \<Rightarrow> module_farg list option \<Rightarrow> mcall" where
  "fd_call m ty name n fd args =
     (\<lparr>mf_type = ty, mf_name = Some (str name), mf_res_type_id = fm_res_fd m, mf_res_id = word_of_int fd, mf_res_size = n\<rparr>, args)"

definition fp_call :: "file_module \<Rightarrow> u32 \<Rightarrow> string \<Rightarrow> u32 \<Rightarrow> pointer_t \<Rightarrow> module_farg list option \<Rightarrow> mcall" where
  "fp_call m ty name n fp args =
     (\<lparr>mf_type = ty, mf_name = Some (str name), mf_res_type_id = fm_res_fp m, mf_res_id = fp, mf_res_size = n\<rparr>, args)"

definition arg :: "string \<Rightarrow> cstring \<Rightarrow> module_farg" where
  "arg name v = (Some (str name), Some v)"

definition arg_end :: module_farg where
  "arg_end = (None, None)"

section \<open>Tracing functions\<close>

definition trace_creat :: "cstring \<Rightarrow> u32 \<Rightarrow> int \<Rightarrow> file_module \<Rightarrow> freport" where
  "trace_creat pathname mode rc m =
     (if rc \<noteq> -1 then do {
        m' \<leftarrow> set_fd rc FD_TYPE_FILE m;
        Some ([fd_call m FTYPE_ALLOC ''creat'' 1 rc (Some [arg ''path'' pathname, arg ''mode'' (format_0x (unat mode)), arg_end])], m') }
      else no_report m)"

definition trace_open_common :: "string \<Rightarrow> int \<Rightarrow> cstring \<Rightarrow> u32 \<Rightarrow> file_module \<Rightarrow> freport" where
  "trace_open_common name fd path flags m = do {
     m' \<leftarrow> set_fd fd FD_TYPE_FILE m;
     Some ([fd_call m FTYPE_ALLOC name 1 fd (Some [arg ''path'' path, arg ''flags'' (format_0x (unat flags)), arg_end])], m') }"

definition trace_open :: "cstring \<Rightarrow> u32 \<Rightarrow> int \<Rightarrow> file_module \<Rightarrow> freport" where
  "trace_open pathname flags rc m = (if rc \<noteq> -1 then trace_open_common ''open'' rc pathname flags m else no_report m)"

definition trace_open64 :: "cstring \<Rightarrow> u32 \<Rightarrow> int \<Rightarrow> file_module \<Rightarrow> freport" where
  "trace_open64 pathname flags rc m = (if rc \<noteq> -1 then trace_open_common ''open64'' rc pathname flags m else no_report m)"

definition trace_openat :: "cstring \<Rightarrow> u32 \<Rightarrow> int \<Rightarrow> file_module \<Rightarrow> freport" where
  "trace_openat pathname flags rc m = (if rc \<noteq> -1 then trace_open_common ''openat'' rc pathname flags m else no_report m)"

text \<open>The result, not the descriptor, is marked as closed.\<close>

definition trace_close :: "int \<Rightarrow> int \<Rightarrow> file_module \<Rightarrow> freport" where
  "trace_close fd rc m =
     (if rc \<noteq> -1 then do { m' \<leftarrow> set_fd rc FD_TYPE_CLOSED m; Some ([fd_call m FTYPE_FREE ''close'' 0 fd None], m') }
      else no_report m)"

definition trace_dup_common :: "string \<Rightarrow> int \<Rightarrow> int \<Rightarrow> int \<Rightarrow> file_module \<Rightarrow> freport" where
  "trace_dup_common name oldfd newfd retfd m = do {
     fdtype \<leftarrow> get_fd oldfd m;
     m' \<leftarrow> set_fd retfd fdtype m;
     Some ((if newfd \<ge> 0 \<and> newfd = retfd then [fd_call m FTYPE_FREE name 0 newfd None] else []) @
       [fd_call m FTYPE_ALLOC name 1 retfd (Some [arg ''oldfd'' (format_d oldfd), arg ''type'' (get_fd_string fdtype), arg_end])], m') }"

definition trace_dup :: "int \<Rightarrow> int \<Rightarrow> file_module \<Rightarrow> freport" where
  "trace_dup oldfd rc m = (if rc \<noteq> -1 then trace_dup_common ''dup'' oldfd (-1) rc m else no_report m)"

definition trace_dup2 :: "int \<Rightarrow> int \<Rightarrow> int \<Rightarrow> file_module \<Rightarrow> freport" where
  "trace_dup2 oldfd newfd rc m = (if rc \<noteq> -1 \<and> oldfd \<noteq> newfd then trace_dup_common ''dup2'' oldfd newfd rc m else no_report m)"

definition trace_dup3 :: "int \<Rightarrow> int \<Rightarrow> int \<Rightarrow> file_module \<Rightarrow> freport" where
  "trace_dup3 oldfd newfd rc m = (if rc \<noteq> -1 \<and> oldfd \<noteq> newfd then trace_dup_common ''dup3'' oldfd newfd rc m else no_report m)"

definition F_DUPFD :: int where "F_DUPFD = 0"
definition F_DUPFD_CLOEXEC :: int where "F_DUPFD_CLOEXEC = 1030"

text \<open>The argument is read only for some commands; all commands but the duplicating ones report nothing.\<close>

definition trace_fcntl :: "int \<Rightarrow> int \<Rightarrow> int \<Rightarrow> int \<Rightarrow> file_module \<Rightarrow> freport" where
  "trace_fcntl fd cmd newfd rc m =
     (if (cmd = F_DUPFD \<or> cmd = F_DUPFD_CLOEXEC) \<and> rc \<noteq> -1 then trace_dup_common ''fcntl'' fd newfd rc m else no_report m)"

definition trace_socket_common :: "string \<Rightarrow> int \<Rightarrow> u32 \<Rightarrow> u32 \<Rightarrow> u32 \<Rightarrow> file_module \<Rightarrow> freport" where
  "trace_socket_common name fd domain type protocol m = do {
     m' \<leftarrow> set_fd fd FD_TYPE_SOCKET m;
     Some ([fd_call m FTYPE_ALLOC name 1 fd (Some [arg ''domain'' (format_0x (unat domain)), arg ''type'' (format_0x (unat type)),
       arg ''protocol'' (format_0x (unat protocol)), arg_end])], m') }"

definition trace_socket :: "u32 \<Rightarrow> u32 \<Rightarrow> u32 \<Rightarrow> int \<Rightarrow> file_module \<Rightarrow> freport" where
  "trace_socket domain type protocol rc m =
     (if rc \<noteq> -1 then trace_socket_common ''socket'' rc domain type protocol m else no_report m)"

definition then_report :: "freport \<Rightarrow> (file_module \<Rightarrow> freport) \<Rightarrow> freport" where
  "then_report r f = do { (cs, m) \<leftarrow> r; (ds, m) \<leftarrow> f m; Some (cs @ ds, m) }"

definition trace_socketpair :: "u32 \<Rightarrow> u32 \<Rightarrow> u32 \<Rightarrow> int \<Rightarrow> int \<Rightarrow> int \<Rightarrow> file_module \<Rightarrow> freport" where
  "trace_socketpair domain type protocol sv0 sv1 rc m =
     (if rc \<noteq> -1 then then_report (trace_socket_common ''socketpair'' sv0 domain type protocol m)
        (trace_socket_common ''socketpair'' sv1 domain type protocol)
      else no_report m)"

text \<open>Socket addresses: the bytes of the path with the length of the address, or the fields that are printed.\<close>

datatype sockaddr =
    SA_Unix "byte list" nat
  | SA_Inet byte byte byte byte u16
  | SA_Inet6 "byte list" u16
  | SA_Netlink u32
  | SA_Packet u16 u32
  | SA_Other u16

text \<open>\<open>sprintf\<close> and \<open>strncpy\<close> into a buffer.\<close>

definition put_text :: "cstring \<Rightarrow> byte list \<Rightarrow> byte list" where
  "put_text t buf = t @ [0] @ drop (length t + 1) buf"

definition strncpy :: "nat \<Rightarrow> byte list \<Rightarrow> byte list \<Rightarrow> byte list" where
  "strncpy n src buf = (let t = take n (cstr src) in t @ replicate (n - length t) 0 @ drop n buf)"

definition join_with :: "byte \<Rightarrow> cstring list \<Rightarrow> cstring" where
  "join_with c ts = (case ts of [] \<Rightarrow> [] | t # ts \<Rightarrow> t @ concat (map (\<lambda>u. c # u) ts))"

fun sock_info :: "sockaddr \<Rightarrow> byte list \<Rightarrow> byte list" where
  "sock_info (SA_Unix sa_data addrlen) buf =
     (strncpy (min addrlen SOCK_INFO_SIZE) sa_data buf)[SOCK_INFO_SIZE - 1 := 0]"
| "sock_info (SA_Inet a b c d port) buf =
     put_text (join_with 46 (map (\<lambda>x. format_d (uint x)) [a, b, c, d]) @ str '':'' @ format_d (uint port)) buf"
| "sock_info (SA_Inet6 hex port) buf =
     put_text (join_with 58 (map (\<lambda>x. pad_left 2 (format_x (unat x))) hex) @ str ''/'' @ format_d (uint port)) buf"
| "sock_info (SA_Netlink pid) buf = put_text (format_d (sint pid)) buf"
| "sock_info (SA_Packet protocol ifindex) buf =
     put_text (format_0x (unat protocol) @ str '':'' @ format_0x (unat ifindex)) buf"
| "sock_info (SA_Other family) buf = put_text (take (SOCK_INFO_SIZE - 1) (format_0x (unat family))) buf"

fun sock_args :: "sockaddr \<Rightarrow> cstring \<Rightarrow> module_farg list" where
  "sock_args (SA_Unix d n) info = [arg ''family'' (str ''AF_UNIX''), arg ''path'' info, arg_end]"
| "sock_args (SA_Inet a b c d p) info = [arg ''family'' (str ''AF_INET''), arg ''address:port'' info, arg_end]"
| "sock_args (SA_Inet6 h p) info = [arg ''family'' (str ''AF_INET6''), arg ''address/port'' info, arg_end]"
| "sock_args (SA_Netlink p) info = [arg ''family'' (str ''AF_NETLINK''), arg ''dest-PID/socket'' info, arg_end]"
| "sock_args (SA_Packet p i) info = [arg ''family'' (str ''AF_PACKET''), arg ''protocol:interface'' info, arg_end]"
| "sock_args (SA_Other f) info = [arg ''family'' info, (None, None), arg_end]"

definition trace_bind_common :: "string \<Rightarrow> int \<Rightarrow> sockaddr \<Rightarrow> file_module \<Rightarrow> freport" where
  "trace_bind_common name fd addr m = (
     let info = sock_info addr ((fm_info m)[0 := 0]);
         m1 = m\<lparr>fm_last_fd := fd, fm_info := info\<rparr>
     in do {
       m' \<leftarrow> set_fd fd FD_TYPE_SOCKET m1;
       Some ([fd_call m FTYPE_FREE name 0 fd None, fd_call m FTYPE_ALLOC name 0 fd (Some (sock_args addr (cstr info)))], m') })"

definition trace_bind :: "int \<Rightarrow> sockaddr \<Rightarrow> int \<Rightarrow> file_module \<Rightarrow> freport" where
  "trace_bind sockfd addr rc m = (if rc = 0 then trace_bind_common ''bind'' sockfd addr m else no_report m)"

definition trace_connect :: "int \<Rightarrow> sockaddr \<Rightarrow> int \<Rightarrow> file_module \<Rightarrow> freport" where
  "trace_connect sockfd addr rc m = (if rc = 0 then trace_bind_common ''connect'' sockfd addr m else no_report m)"

definition trace_accept_common :: "string \<Rightarrow> int \<Rightarrow> int \<Rightarrow> file_module \<Rightarrow> freport" where
  "trace_accept_common name sockfd retfd m = do {
     ty \<leftarrow> get_fd sockfd m;
     m' \<leftarrow> set_fd retfd FD_TYPE_SOCKET m;
     Some ([fd_call m FTYPE_ALLOC name 1 retfd (Some ([arg ''sockfd'' (format_d sockfd)] @
       (if ty = FD_TYPE_SOCKET \<and> fm_last_fd m = sockfd \<and> cstr (fm_info m) \<noteq> [] then [arg ''path'' (cstr (fm_info m))] else [(None, None)]) @
       [arg_end]))], m') }"

definition trace_accept :: "int \<Rightarrow> int \<Rightarrow> file_module \<Rightarrow> freport" where
  "trace_accept sockfd rc m = (if rc \<noteq> -1 then trace_accept_common ''accept'' sockfd rc m else no_report m)"

definition trace_accept4 :: "int \<Rightarrow> int \<Rightarrow> file_module \<Rightarrow> freport" where
  "trace_accept4 sockfd rc m = (if rc \<noteq> -1 then trace_accept_common ''accept4'' sockfd rc m else no_report m)"

definition trace_fd_common :: "string \<Rightarrow> rt_fd \<Rightarrow> int \<Rightarrow> file_module \<Rightarrow> freport" where
  "trace_fd_common name type fd m = do {
     m' \<leftarrow> set_fd fd type m;
     Some ([fd_call m FTYPE_ALLOC name 1 fd None], m') }"

definition trace_fd_common_flags :: "string \<Rightarrow> rt_fd \<Rightarrow> int \<Rightarrow> u32 \<Rightarrow> file_module \<Rightarrow> freport" where
  "trace_fd_common_flags name type fd flags m = do {
     m' \<leftarrow> set_fd fd type m;
     Some ([fd_call m FTYPE_ALLOC name 1 fd (Some [arg ''flags'' (format_0x (unat flags)), arg_end])], m') }"

definition trace_inotify_init :: "int \<Rightarrow> file_module \<Rightarrow> freport" where
  "trace_inotify_init rc m = (if rc \<noteq> -1 then trace_fd_common ''inotify_init'' FD_TYPE_INOTIFY rc m else no_report m)"

definition trace_inotify_init1 :: "u32 \<Rightarrow> int \<Rightarrow> file_module \<Rightarrow> freport" where
  "trace_inotify_init1 flags rc m =
     (if rc \<noteq> -1 then trace_fd_common_flags ''inotify_init1'' FD_TYPE_INOTIFY rc flags m else no_report m)"

definition trace_eventfd :: "u32 \<Rightarrow> int \<Rightarrow> file_module \<Rightarrow> freport" where
  "trace_eventfd flags rc m = (if rc \<noteq> -1 then trace_fd_common_flags ''eventfd'' FD_TYPE_EVENTFD rc flags m else no_report m)"

definition trace_signalfd :: "int \<Rightarrow> u32 \<Rightarrow> int \<Rightarrow> file_module \<Rightarrow> freport" where
  "trace_signalfd fd flags rc m =
     (if fd = -1 \<and> rc \<noteq> -1 then trace_fd_common_flags ''signalfd'' FD_TYPE_SIGNALFD rc flags m else no_report m)"

definition trace_timerfd_create :: "u32 \<Rightarrow> int \<Rightarrow> file_module \<Rightarrow> freport" where
  "trace_timerfd_create flags rc m =
     (if rc \<noteq> -1 then trace_fd_common_flags ''timerfd_create'' FD_TYPE_TIMERFD rc flags m else no_report m)"

definition trace_epoll_create :: "int \<Rightarrow> file_module \<Rightarrow> freport" where
  "trace_epoll_create rc m = (if rc \<noteq> -1 then trace_fd_common ''epoll_create'' FD_TYPE_EPOLL rc m else no_report m)"

definition trace_epoll_create1 :: "u32 \<Rightarrow> int \<Rightarrow> file_module \<Rightarrow> freport" where
  "trace_epoll_create1 flags rc m =
     (if rc \<noteq> -1 then trace_fd_common_flags ''epoll_create1'' FD_TYPE_EPOLL rc flags m else no_report m)"

definition trace_getpt :: "int \<Rightarrow> file_module \<Rightarrow> freport" where
  "trace_getpt rc m = (if rc \<noteq> -1 then trace_fd_common ''getpt'' FD_TYPE_PTY rc m else no_report m)"

definition trace_posix_openpt :: "u32 \<Rightarrow> int \<Rightarrow> file_module \<Rightarrow> freport" where
  "trace_posix_openpt flags rc m =
     (if rc \<noteq> -1 then trace_fd_common_flags ''posix_openpt'' FD_TYPE_PTY rc flags m else no_report m)"

definition trace_pipe :: "int \<Rightarrow> int \<Rightarrow> int \<Rightarrow> file_module \<Rightarrow> freport" where
  "trace_pipe fd0 fd1 rc m =
     (if rc \<noteq> -1 then then_report (trace_fd_common ''pipe'' FD_TYPE_PIPE fd0 m) (trace_fd_common ''pipe'' FD_TYPE_PIPE fd1)
      else no_report m)"

definition trace_pipe2 :: "int \<Rightarrow> int \<Rightarrow> u32 \<Rightarrow> int \<Rightarrow> file_module \<Rightarrow> freport" where
  "trace_pipe2 fd0 fd1 flags rc m =
     (if rc \<noteq> -1 then then_report (trace_fd_common_flags ''pipe2'' FD_TYPE_PIPE fd0 flags m)
        (trace_fd_common_flags ''pipe2'' FD_TYPE_PIPE fd1 flags)
      else no_report m)"

definition trace_fopen_common :: "string \<Rightarrow> pointer_t \<Rightarrow> cstring option \<Rightarrow> cstring \<Rightarrow> file_module \<Rightarrow> mcall" where
  "trace_fopen_common name fp path mode m =
     fp_call m FTYPE_ALLOC name 1 fp (Some [(Some (str ''path''), path), arg ''mode'' mode, arg_end])"

definition trace_fopen :: "cstring \<Rightarrow> cstring \<Rightarrow> pointer_t \<Rightarrow> file_module \<Rightarrow> freport" where
  "trace_fopen path mode rc m = (if rc \<noteq> 0 then Some ([trace_fopen_common ''fopen'' rc (Some path) mode m], m) else no_report m)"

definition trace_fdopen :: "int \<Rightarrow> cstring \<Rightarrow> pointer_t \<Rightarrow> file_module \<Rightarrow> freport" where
  "trace_fdopen fd mode rc m =
     (if rc \<noteq> 0 then do {
        m' \<leftarrow> set_fd fd FD_TYPE_CLOSED m;
        Some ([fd_call m FTYPE_FREE ''fdopen'' 0 fd None,
          fp_call m FTYPE_ALLOC ''fdopen'' 1 rc (Some [arg ''fd'' (format_d fd), arg ''mode'' mode, arg_end])], m') }
      else no_report m)"

definition trace_fclose_common :: "string \<Rightarrow> pointer_t \<Rightarrow> file_module \<Rightarrow> mcall" where
  "trace_fclose_common name fp m = fp_call m FTYPE_FREE name 0 fp None"

definition trace_freopen :: "cstring option \<Rightarrow> cstring \<Rightarrow> pointer_t \<Rightarrow> pointer_t \<Rightarrow> file_module \<Rightarrow> freport" where
  "trace_freopen path mode stream rc m =
     (if rc \<noteq> 0 then Some ([trace_fclose_common ''freopen'' stream m, trace_fopen_common ''freopen'' rc path mode m], m)
      else no_report m)"

definition trace_popen :: "cstring \<Rightarrow> cstring \<Rightarrow> pointer_t \<Rightarrow> file_module \<Rightarrow> freport" where
  "trace_popen command type rc m =
     (if rc \<noteq> 0 then Some ([trace_fopen_common ''popen'' rc (Some command) type m], m) else no_report m)"

definition trace_pclose :: "pointer_t \<Rightarrow> int \<Rightarrow> file_module \<Rightarrow> freport" where
  "trace_pclose fp rc m = (if rc = 0 then Some ([trace_fclose_common ''pclose'' fp m], m) else no_report m)"

definition trace_fclose :: "pointer_t \<Rightarrow> int \<Rightarrow> file_module \<Rightarrow> freport" where
  "trace_fclose fp rc m = (if rc = 0 then Some ([trace_fclose_common ''fclose'' fp m], m) else no_report m)"

definition trace_fcloseall :: "int \<Rightarrow> file_module \<Rightarrow> freport" where
  "trace_fcloseall rc m = (if rc = 0 then Some ([trace_fclose_common ''fcloseall'' (- 1) m], m) else no_report m)"

end
