(* ===== verification/Module_Contract.thy ===== *)
theory Module_Contract
  imports Module_Calls
begin

text \<open>
  The contract of a tracing module: its reports move the set of outstanding resources exactly as
  the traced functions move the state of the world.  What follows from it for whole runs is proved
  once; the modules are interpretations.
\<close>

section \<open>Outstanding resources\<close>

type_synonym res_key = "u32 \<times> pointer_t"

definition tracks_keys :: "mcall list \<Rightarrow> res_key set \<Rightarrow> bool" where
  "tracks_keys cs K \<longleftrightarrow> (\<forall>c\<in>set cs. mcall_type c = FTYPE_ALLOC) \<and> distinct (map mcall_key cs) \<and> mcall_key ` set cs = K"

definition moves :: "res_key set \<Rightarrow> mcall list \<Rightarrow> res_key set \<Rightarrow> bool" where
  "moves K cs K' \<longleftrightarrow> (\<forall>kept. tracks_keys kept K \<longrightarrow> fresh_allocs mcall_type mcall_key kept cs \<and>
     tracks_keys (outstanding mcall_type mcall_key kept cs) K')"

lemma moves_none: "moves K [] K"
  by (simp add: moves_def)

lemma moves_append: "moves K cs K' \<Longrightarrow> moves K' ds K'' \<Longrightarrow> moves K (cs @ ds) K''"
  by (simp add: moves_def fresh_allocs_append outstanding_append)

lemma moves_alloc:
  assumes "mcall_type c = FTYPE_ALLOC" "mcall_key c \<notin> K"
  shows "moves K [c] (insert (mcall_key c) K)"
  unfolding moves_def
proof (intro allI impI)
  fix kept assume t: "tracks_keys kept K"
  then have "mcall_key c \<notin> mcall_key ` set kept" using assms(2) by (simp add: tracks_keys_def)
  then have "\<forall>d\<in>set kept. mcall_key d \<noteq> mcall_key c" by (metis image_eqI)
  then show "fresh_allocs mcall_type mcall_key kept [c] \<and> tracks_keys (outstanding mcall_type mcall_key kept [c]) (insert (mcall_key c) K)"
    using t assms by (simp add: tracks_keys_def)
qed

lemma moves_free:
  assumes "mcall_type c = FTYPE_FREE"
  shows "moves K [c] (K - {mcall_key c})"
  unfolding moves_def
proof (intro allI impI)
  fix kept assume t: "tracks_keys kept K"
  have "filter (\<lambda>d. mcall_type d = FTYPE_ALLOC \<longrightarrow> mcall_key d \<noteq> mcall_key c) kept = filter (\<lambda>d. mcall_key d \<noteq> mcall_key c) kept"
    by (rule filter_cong) (use t in \<open>simp_all add: tracks_keys_def\<close>)
  moreover have "mcall_key ` {d \<in> A. mcall_key d \<noteq> k} = mcall_key ` A - {k}" for A k by blast
  ultimately show "fresh_allocs mcall_type mcall_key kept [c] \<and> tracks_keys (outstanding mcall_type mcall_key kept [c]) (K - {mcall_key c})"
    using t assms by (simp add: tracks_keys_def distinct_map_filter)
qed

lemma moves_free_other: "mcall_type c = FTYPE_FREE \<Longrightarrow> mcall_key c \<notin> K \<Longrightarrow> moves K [c] K"
  using moves_free [of c K] by simp

lemma tracks_keys_exist:
  assumes "finite K"
  shows "\<exists>kept. tracks_keys kept K"
proof -
  obtain ks where ks: "set ks = K" "distinct ks" using finite_distinct_list [OF assms] by blast
  define call :: "res_key \<Rightarrow> mcall" where
    "call k = (\<lparr>mf_type = FTYPE_ALLOC, mf_name = None, mf_res_type_id = fst k, mf_res_id = snd k, mf_res_size = 0\<rparr>, None)" for k
  have c: "mcall_type (call k) = FTYPE_ALLOC" "mcall_key (call k) = k" for k
    by (simp_all add: call_def mcall_type_def mcall_key_def)
  have "tracks_keys (map call ks) K" using ks c by (simp add: tracks_keys_def image_image comp_def)
  then show ?thesis by blast
qed

section \<open>The contract\<close>

fun run_calls :: "('x \<Rightarrow> 'm \<Rightarrow> (mcall list \<times> 'm) option) \<Rightarrow> 'x list \<Rightarrow> 'm \<Rightarrow> (mcall list \<times> 'm) option" where
  "run_calls trace [] m = Some ([], m)"
| "run_calls trace (x # xs) m = do { (cs, m) \<leftarrow> trace x m; (ds, m) \<leftarrow> run_calls trace xs m; Some (cs @ ds, m) }"

fun all_legal :: "('w \<Rightarrow> 'x \<Rightarrow> bool) \<Rightarrow> ('w \<Rightarrow> 'x \<Rightarrow> 'w) \<Rightarrow> 'w \<Rightarrow> 'x list \<Rightarrow> bool" where
  "all_legal legal after w [] = True"
| "all_legal legal after w (x # xs) = (legal w x \<and> all_legal legal after (after w x) xs)"

text \<open>
  \<open>trace\<close> are the reports of a traced call and the new state of the module, \<open>after\<close> what the call
  does to the world, \<open>legal\<close> that its results are as documented, \<open>rel\<close> what the module knows of the
  world, \<open>keys\<close> the resources of the world.
\<close>

locale resource_module =
  fixes trace :: "'x \<Rightarrow> 'm \<Rightarrow> (mcall list \<times> 'm) option"
    and after :: "'w \<Rightarrow> 'x \<Rightarrow> 'w"
    and legal :: "'w \<Rightarrow> 'x \<Rightarrow> bool"
    and rel :: "'m \<Rightarrow> 'w \<Rightarrow> bool"
    and keys :: "'w \<Rightarrow> res_key set"
    and types :: "u32 set"
  assumes step: "rel m w \<Longrightarrow> legal w x \<Longrightarrow> \<exists>cs m'. trace x m = Some (cs, m') \<and> rel m' (after w x) \<and>
      moves (keys w) cs (keys (after w x)) \<and> fst ` mcall_key ` set cs \<subseteq> types"
begin

lemma run_moves:
  "rel m w \<Longrightarrow> all_legal legal after w xs \<Longrightarrow> \<exists>cs m'. run_calls trace xs m = Some (cs, m') \<and> rel m' (foldl after w xs) \<and>
    moves (keys w) cs (keys (foldl after w xs)) \<and> fst ` mcall_key ` set cs \<subseteq> types"
proof (induction xs arbitrary: m w)
  case Nil
  then show ?case by (simp add: moves_none)
next
  case (Cons x xs)
  obtain cs m' where c: "trace x m = Some (cs, m')" "rel m' (after w x)" "moves (keys w) cs (keys (after w x))"
    "fst ` mcall_key ` set cs \<subseteq> types" using step [OF Cons.prems(1), of x] Cons.prems(2) by auto
  obtain ds m'' where d: "run_calls trace xs m' = Some (ds, m'')" "rel m'' (foldl after (after w x) xs)"
    "moves (keys (after w x)) ds (keys (foldl after (after w x) xs))" "fst ` mcall_key ` set ds \<subseteq> types"
    using Cons.IH [OF c(2)] Cons.prems(2) by auto
  from moves_append [OF c(3) d(3)] c(1,4) d(1,2,4) show ?case
    by (intro exI [of _ "cs @ ds"] exI [of _ m'']) (simp add: image_Un)
qed

text \<open>From a world without resources the outstanding calls are one for every resource.\<close>

theorem run_held:
  assumes "rel m w" "keys w = {}" "all_legal legal after w xs"
  shows "\<exists>cs m'. run_calls trace xs m = Some (cs, m') \<and> rel m' (foldl after w xs) \<and> fresh_calls cs \<and> distinct (map mcall_key (held cs)) \<and>
    mcall_key ` set (held cs) = keys (foldl after w xs) \<and> fst ` mcall_key ` set cs \<subseteq> types"
proof -
  obtain cs m' where r: "run_calls trace xs m = Some (cs, m')" "rel m' (foldl after w xs)" "moves {} cs (keys (foldl after w xs))"
    "fst ` mcall_key ` set cs \<subseteq> types" using run_moves [OF assms(1,3)] assms(2) by auto
  have "tracks_keys [] {}" by (simp add: tracks_keys_def)
  with r(3) have "fresh_calls cs" "tracks_keys (held cs) (keys (foldl after w xs))" by (simp_all add: moves_def)
  then show ?thesis using r(1,2,4) by (intro exI [of _ cs] exI [of _ m']) (simp add: tracks_keys_def)
qed

end

end
