(* ===== verification/File_Handles.thy ===== *)
theory File_Handles
  imports File_Module Module_Contract
begin

text \<open>
  The reports of the file tracing module describe what the program has open.  The descriptors and
  streams of the program are specified by the documented effect of the original functions, and the
  outstanding calls are shown to be exactly one for each of them.
\<close>

section \<open>The program\<close>

datatype file_op =
    Creat cstring u32 int | Open cstring u32 int | Open64 cstring u32 int | Openat cstring u32 int
  | Close int int | Dup int int | Dup2 int int int | Dup3 int int int | Fcntl int int int int
  | Socket u32 u32 u32 int | Socketpair u32 u32 u32 int int int
  | Bind int sockaddr int | Connect int sockaddr int | Accept int int | Accept4 int int
  | Inotify_init int | Inotify_init1 u32 int | Eventfd u32 int | Signalfd int u32 int | Timerfd_create u32 int
  | Epoll_create int | Epoll_create1 u32 int | Getpt int | Posix_openpt u32 int
  | Pipe int int int | Pipe2 int int u32 int
  | Fopen cstring cstring pointer_t | Fdopen int cstring pointer_t | Freopen "cstring option" cstring pointer_t pointer_t
  | Popen cstring cstring pointer_t | Pclose pointer_t int | Fclose pointer_t int | Fcloseall int

text \<open>The table of tracing functions.\<close>

fun trace_on :: "file_op \<Rightarrow> file_module \<Rightarrow> freport" where
  "trace_on (Creat p md rc) = trace_creat p md rc"
| "trace_on (Open p fl rc) = trace_open p fl rc"
| "trace_on (Open64 p fl rc) = trace_open64 p fl rc"
| "trace_on (Openat p fl rc) = trace_openat p fl rc"
| "trace_on (Close fd rc) = trace_close fd rc"
| "trace_on (Dup fd rc) = trace_dup fd rc"
| "trace_on (Dup2 fd nfd rc) = trace_dup2 fd nfd rc"
| "trace_on (Dup3 fd nfd rc) = trace_dup3 fd nfd rc"
| "trace_on (Fcntl fd cmd nfd rc) = trace_fcntl fd cmd nfd rc"
| "trace_on (Socket d t p rc) = trace_socket d t p rc"
| "trace_on (Socketpair d t p a b rc) = trace_socketpair d t p a b rc"
| "trace_on (Bind fd addr rc) = trace_bind fd addr rc"
| "trace_on (Connect fd addr rc) = trace_connect fd addr rc"
| "trace_on (Accept fd rc) = trace_accept fd rc"
| "trace_on (Accept4 fd rc) = trace_accept4 fd rc"
| "trace_on (Inotify_init rc) = trace_inotify_init rc"
| "trace_on (Inotify_init1 fl rc) = trace_inotify_init1 fl rc"
| "trace_on (Eventfd fl rc) = trace_eventfd fl rc"
| "trace_on (Signalfd fd fl rc) = trace_signalfd fd fl rc"
| "trace_on (Timerfd_create fl rc) = trace_timerfd_create fl rc"
| "trace_on (Epoll_create rc) = trace_epoll_create rc"
| "trace_on (Epoll_create1 fl rc) = trace_epoll_create1 fl rc"
| "trace_on (Getpt rc) = trace_getpt rc"
| "trace_on (Posix_openpt fl rc) = trace_posix_openpt fl rc"
| "trace_on (Pipe a b rc) = trace_pipe a b rc"
| "trace_on (Pipe2 a b fl rc) = trace_pipe2 a b fl rc"
| "trace_on (Fopen p md rc) = trace_fopen p md rc"
| "trace_on (Fdopen fd md rc) = trace_fdopen fd md rc"
| "trace_on (Freopen p md st rc) = trace_freopen p md st rc"
| "trace_on (Popen c t rc) = trace_popen c t rc"
| "trace_on (Pclose fp rc) = trace_pclose fp rc"
| "trace_on (Fclose fp rc) = trace_fclose fp rc"
| "trace_on (Fcloseall rc) = trace_fcloseall rc"

fun file_run :: "file_op list \<Rightarrow> file_module \<Rightarrow> freport" where
  "file_run [] m = no_report m"
| "file_run (x # xs) m = then_report (trace_on x m) (file_run xs)"

text \<open>
  The entry points that replace the functions of the C library.  Three of them use the original
  function while the backtrace is locked; an unknown command of \<open>fcntl\<close> ends the program.
\<close>

definition fcntl_commands :: "int set" where
  "fcntl_commands = {F_DUPFD, F_DUPFD_CLOEXEC, 1, 2, 3, 4, 5, 6, 7, 8, 9, 10, 11, 15, 16, 1024, 1025, 1026}"

definition file_entry :: "bool \<Rightarrow> bool \<Rightarrow> file_op \<Rightarrow> file_module \<Rightarrow> freport" where
  "file_entry on lock x m = (case x of
     Open p fl rc \<Rightarrow> if lock \<or> \<not> on then no_report m else trace_on x m
   | Open64 p fl rc \<Rightarrow> if lock \<or> \<not> on then no_report m else trace_on x m
   | Close fd rc \<Rightarrow> if lock \<or> \<not> on then no_report m else trace_on x m
   | Fcntl fd cmd nfd rc \<Rightarrow> do { guard (cmd \<in> fcntl_commands); if on then trace_on x m else no_report m }
   | _ \<Rightarrow> if on then trace_on x m else no_report m)"

section \<open>What the program has open\<close>

datatype handle = H_Fd int | H_Fp pointer_t

text \<open>
  What a call closes and opens.  A descriptor that is handed to a stream is closed with it.  The
  remaining cases of \<open>pclose\<close>, \<open>fclose\<close> and \<open>fcloseall\<close> are treated below.
\<close>

fun closes :: "file_op \<Rightarrow> handle set" where
  "closes (Close fd rc) = (if rc \<noteq> -1 then {H_Fd fd} else {})"
| "closes (Dup2 fd nfd rc) = (if rc \<noteq> -1 \<and> fd \<noteq> nfd then {H_Fd nfd} else {})"
| "closes (Dup3 fd nfd rc) = (if rc \<noteq> -1 \<and> fd \<noteq> nfd then {H_Fd nfd} else {})"
| "closes (Fdopen fd md rc) = (if rc \<noteq> 0 then {H_Fd fd} else {})"
| "closes (Freopen p md st rc) = (if rc \<noteq> 0 then {H_Fp st} else {})"
| "closes (Pclose fp rc) = (if rc = 0 then {H_Fp fp} else {})"
| "closes (Fclose fp rc) = (if rc = 0 then {H_Fp fp} else {})"
| "closes x = {}"

fun opens :: "file_op \<Rightarrow> handle list" where
  "opens (Creat p md rc) = (if rc \<noteq> -1 then [H_Fd rc] else [])"
| "opens (Open p fl rc) = (if rc \<noteq> -1 then [H_Fd rc] else [])"
| "opens (Open64 p fl rc) = (if rc \<noteq> -1 then [H_Fd rc] else [])"
| "opens (Openat p fl rc) = (if rc \<noteq> -1 then [H_Fd rc] else [])"
| "opens (Close fd rc) = []"
| "opens (Dup fd rc) = (if rc \<noteq> -1 then [H_Fd rc] else [])"
| "opens (Dup2 fd nfd rc) = (if rc \<noteq> -1 \<and> fd \<noteq> nfd then [H_Fd rc] else [])"
| "opens (Dup3 fd nfd rc) = (if rc \<noteq> -1 \<and> fd \<noteq> nfd then [H_Fd rc] else [])"
| "opens (Fcntl fd cmd nfd rc) = (if (cmd = F_DUPFD \<or> cmd = F_DUPFD_CLOEXEC) \<and> rc \<noteq> -1 then [H_Fd rc] else [])"
| "opens (Socket d t p rc) = (if rc \<noteq> -1 then [H_Fd rc] else [])"
| "opens (Socketpair d t p a b rc) = (if rc \<noteq> -1 then [H_Fd a, H_Fd b] else [])"
| "opens (Bind fd addr rc) = []"
| "opens (Connect fd addr rc) = []"
| "opens (Accept fd rc) = (if rc \<noteq> -1 then [H_Fd rc] else [])"
| "opens (Accept4 fd rc) = (if rc \<noteq> -1 then [H_Fd rc] else [])"
| "opens (Inotify_init rc) = (if rc \<noteq> -1 then [H_Fd rc] else [])"
| "opens (Inotify_init1 fl rc) = (if rc \<noteq> -1 then [H_Fd rc] else [])"
| "opens (Eventfd fl rc) = (if rc \<noteq> -1 then [H_Fd rc] else [])"
| "opens (Signalfd fd fl rc) = (if fd = -1 \<and> rc \<noteq> -1 then [H_Fd rc] else [])"
| "opens (Timerfd_create fl rc) = (if rc \<noteq> -1 then [H_Fd rc] else [])"
| "opens (Epoll_create rc) = (if rc \<noteq> -1 then [H_Fd rc] else [])"
| "opens (Epoll_create1 fl rc) = (if rc \<noteq> -1 then [H_Fd rc] else [])"
| "opens (Getpt rc) = (if rc \<noteq> -1 then [H_Fd rc] else [])"
| "opens (Posix_openpt fl rc) = (if rc \<noteq> -1 then [H_Fd rc] else [])"
| "opens (Pipe a b rc) = (if rc \<noteq> -1 then [H_Fd a, H_Fd b] else [])"
| "opens (Pipe2 a b fl rc) = (if rc \<noteq> -1 then [H_Fd a, H_Fd b] else [])"
| "opens (Fopen p md rc) = (if rc \<noteq> 0 then [H_Fp rc] else [])"
| "opens (Fdopen fd md rc) = (if rc \<noteq> 0 then [H_Fp rc] else [])"
| "opens (Freopen p md st rc) = (if rc \<noteq> 0 then [H_Fp rc] else [])"
| "opens (Popen c t rc) = (if rc \<noteq> 0 then [H_Fp rc] else [])"
| "opens (Pclose fp rc) = []"
| "opens (Fclose fp rc) = []"
| "opens (Fcloseall rc) = []"

definition handles_after :: "handle set \<Rightarrow> file_op \<Rightarrow> handle set" where
  "handles_after hs x = hs - closes x \<union> set (opens x)"

text \<open>
  What is documented of the results: new descriptors are not negative and not in use, \<open>dup2\<close>
  returns the requested descriptor, bound and connected sockets are open.
\<close>

fun handle_valid :: "handle \<Rightarrow> bool" where
  "handle_valid (H_Fd fd) \<longleftrightarrow> 0 \<le> fd \<and> fd < 2 ^ 31"
| "handle_valid (H_Fp fp) \<longleftrightarrow> fp \<noteq> - 1"

fun used_fds :: "file_op \<Rightarrow> int set" where
  "used_fds (Close fd rc) = {fd, rc}"
| "used_fds (Dup fd rc) = {fd}"
| "used_fds (Dup2 fd nfd rc) = {fd, nfd}"
| "used_fds (Dup3 fd nfd rc) = {fd, nfd}"
| "used_fds (Fcntl fd cmd nfd rc) = {fd}"
| "used_fds (Bind fd addr rc) = {fd}"
| "used_fds (Connect fd addr rc) = {fd}"
| "used_fds (Accept fd rc) = {fd}"
| "used_fds (Accept4 fd rc) = {fd}"
| "used_fds (Fdopen fd md rc) = {fd}"
| "used_fds x = {}"

fun file_failed :: "file_op \<Rightarrow> bool" where
  "file_failed (Close fd rc) = (rc = -1)"
| "file_failed (Dup fd rc) = (rc = -1)"
| "file_failed (Dup2 fd nfd rc) = (rc = -1)"
| "file_failed (Dup3 fd nfd rc) = (rc = -1)"
| "file_failed (Fcntl fd cmd nfd rc) = (rc = -1)"
| "file_failed (Bind fd addr rc) = (rc \<noteq> 0)"
| "file_failed (Connect fd addr rc) = (rc \<noteq> 0)"
| "file_failed (Accept fd rc) = (rc = -1)"
| "file_failed (Accept4 fd rc) = (rc = -1)"
| "file_failed (Fdopen fd md rc) = (rc = 0)"
| "file_failed x = False"

fun special_ok :: "handle set \<Rightarrow> file_op \<Rightarrow> bool" where
  "special_ok hs (Dup2 fd nfd rc) = (rc = -1 \<or> rc = nfd)"
| "special_ok hs (Dup3 fd nfd rc) = (rc = -1 \<or> rc = nfd)"
| "special_ok hs (Bind fd addr rc) = (rc = 0 \<longrightarrow> H_Fd fd \<in> hs)"
| "special_ok hs (Connect fd addr rc) = (rc = 0 \<longrightarrow> H_Fd fd \<in> hs)"
| "special_ok hs x = True"

definition file_ok :: "handle set \<Rightarrow> file_op \<Rightarrow> bool" where
  "file_ok hs x \<longleftrightarrow> distinct (opens x) \<and> (\<forall>h\<in>set (opens x). handle_valid h \<and> h \<notin> hs - closes x) \<and>
     (\<not> file_failed x \<longrightarrow> (\<forall>fd\<in>used_fds x. 0 \<le> fd \<and> fd < 2 ^ 31)) \<and> special_ok hs x"

fun files_ok :: "handle set \<Rightarrow> file_op list \<Rightarrow> bool" where
  "files_ok hs [] = True"
| "files_ok hs (x # xs) = (file_ok hs x \<and> files_ok (handles_after hs x) xs)"

section \<open>The outstanding calls\<close>

definition handle_key :: "file_module \<Rightarrow> handle \<Rightarrow> u32 \<times> pointer_t" where
  "handle_key m h = (case h of H_Fd fd \<Rightarrow> (fm_res_fd m, word_of_int fd) | H_Fp fp \<Rightarrow> (fm_res_fp m, fp))"

definition same_res :: "file_module \<Rightarrow> file_module \<Rightarrow> bool" where
  "same_res m m' \<longleftrightarrow> fm_res_fd m' = fm_res_fd m \<and> fm_res_fp m' = fm_res_fp m"

definition tracks :: "file_module \<Rightarrow> mcall list \<Rightarrow> handle set \<Rightarrow> bool" where
  "tracks m cs hs \<longleftrightarrow> (\<forall>c\<in>set cs. mcall_type c = FTYPE_ALLOC) \<and> distinct (map mcall_key cs) \<and>
     mcall_key ` set cs = handle_key m ` hs \<and> (\<forall>h\<in>hs. handle_valid h)"

lemma fd_word_inj:
  assumes "(word_of_int fd :: u64) = word_of_int fd'" "0 \<le> fd" "fd < 2 ^ 31" "0 \<le> fd'" "fd' < 2 ^ 31"
  shows "fd = fd'"
proof -
  have u: "uint (word_of_int x :: u64) = x" if "0 \<le> x" "x < 2 ^ 31" for x
    by (rule word_of_int_inverse [OF refl]) (use that in auto)
  have "uint (word_of_int fd :: u64) = uint (word_of_int fd' :: u64)" using assms(1) by (rule arg_cong)
  then show ?thesis by (simp only: u [OF assms(2,3)] u [OF assms(4,5)])
qed

lemma handle_key_inj:
  assumes "fm_res_fd m \<noteq> fm_res_fp m"
  shows "inj_on (handle_key m) {h. handle_valid h}"
proof (rule inj_onI, goal_cases)
  case (1 h g)
  then show ?case using assms fd_word_inj by (cases h; cases g) (auto simp: handle_key_def)
qed

abbreviation next_kept :: "mcall list \<Rightarrow> mcall \<Rightarrow> mcall list" where
  "next_kept kept c \<equiv> outstanding mcall_type mcall_key kept [c]"

abbreviation fresh_call :: "mcall list \<Rightarrow> mcall \<Rightarrow> bool" where
  "fresh_call kept c \<equiv> fresh_allocs mcall_type mcall_key kept [c]"

lemma tracks_open:
  assumes t: "tracks m kept hs" and h: "handle_valid h" "h \<notin> hs" and r: "fm_res_fd m \<noteq> fm_res_fp m"
    and c: "mcall_type c = FTYPE_ALLOC" "mcall_key c = handle_key m h"
  shows "fresh_call kept c \<and> tracks m (next_kept kept c) (insert h hs)"
proof -
  have "handle_key m h \<notin> handle_key m ` hs"
    using inj_on_image_mem_iff [OF handle_key_inj [OF r], of h hs] t h by (auto simp: tracks_def)
  then have new: "mcall_key c \<notin> mcall_key ` set kept" using t c(2) by (simp add: tracks_def)
  then have "\<forall>d\<in>set kept. mcall_key d \<noteq> mcall_key c" by (metis image_eqI)
  then show ?thesis using t h c new by (simp add: tracks_def)
qed

lemma tracks_close:
  assumes t: "tracks m kept hs" and h: "handle_valid h" and r: "fm_res_fd m \<noteq> fm_res_fp m"
    and c: "mcall_type c = FTYPE_FREE" "mcall_key c = handle_key m h"
  shows "fresh_call kept c \<and> tracks m (next_kept kept c) (hs - {h})"
proof -
  have "handle_key m ` (hs - {h}) = handle_key m ` hs - {handle_key m h}"
    using inj_on_image_set_diff [OF handle_key_inj [OF r], of hs "{h}"] t h by (auto simp: tracks_def)
  moreover have "mcall_key ` {d \<in> A. mcall_key d \<noteq> k} = mcall_key ` A - {k}" for A k by blast
  moreover have "filter (\<lambda>d. mcall_type d = FTYPE_ALLOC \<longrightarrow> mcall_key d \<noteq> mcall_key c) kept = filter (\<lambda>d. mcall_key d \<noteq> mcall_key c) kept"
    by (rule filter_cong) (use t in \<open>simp_all add: tracks_def\<close>)
  ultimately show ?thesis using t c by (simp add: tracks_def distinct_map_filter)
qed

text \<open>The effect of a report on the outstanding calls, for any state of the module.\<close>

definition effect :: "file_module \<Rightarrow> (file_module \<Rightarrow> freport) \<Rightarrow> handle set \<Rightarrow> handle set \<Rightarrow> bool" where
  "effect m f hs hs' \<longleftrightarrow> (\<forall>m0 kept. same_res m m0 \<longrightarrow> tracks m kept hs \<longrightarrow>
     (\<exists>cs m1. f m0 = Some (cs, m1) \<and> same_res m m1 \<and> fresh_allocs mcall_type mcall_key kept cs \<and>
        tracks m (outstanding mcall_type mcall_key kept cs) hs' \<and> fst ` mcall_key ` set cs \<subseteq> {fm_res_fd m, fm_res_fp m}))"

lemma handle_key_type: "fst (handle_key m h) \<in> {fm_res_fd m, fm_res_fp m}"
  by (simp add: handle_key_def split: handle.split)

lemma effect_none: "(\<And>m0. f m0 = no_report m0) \<Longrightarrow> effect m f hs hs"
  by (simp add: effect_def no_report_def)

lemma effect_then:
  assumes "effect m f hs hs'" "effect m g hs' hs''"
  shows "effect m (\<lambda>m0. then_report (f m0) g) hs hs''"
  unfolding effect_def
proof (intro allI impI)
  fix m0 kept assume m0: "same_res m m0" and t: "tracks m kept hs"
  obtain cs m1 where c: "f m0 = Some (cs, m1)" "same_res m m1" "fresh_allocs mcall_type mcall_key kept cs"
    "tracks m (outstanding mcall_type mcall_key kept cs) hs'" "fst ` mcall_key ` set cs \<subseteq> {fm_res_fd m, fm_res_fp m}"
    using assms(1) m0 t unfolding effect_def by blast
  obtain ds m2 where d: "g m1 = Some (ds, m2)" "same_res m m2" "fresh_allocs mcall_type mcall_key (outstanding mcall_type mcall_key kept cs) ds"
    "tracks m (outstanding mcall_type mcall_key (outstanding mcall_type mcall_key kept cs) ds) hs''"
    "fst ` mcall_key ` set ds \<subseteq> {fm_res_fd m, fm_res_fp m}"
    using assms(2) c(2,4) unfolding effect_def by blast
  show "\<exists>cs m1. then_report (f m0) g = Some (cs, m1) \<and> same_res m m1 \<and> fresh_allocs mcall_type mcall_key kept cs \<and>
      tracks m (outstanding mcall_type mcall_key kept cs) hs'' \<and> fst ` mcall_key ` set cs \<subseteq> {fm_res_fd m, fm_res_fp m}"
    using c d by (intro exI [of _ "cs @ ds"] exI [of _ m2])
      (simp add: then_report_def fresh_allocs_append outstanding_append image_Un)
qed

definition reports :: "file_module \<Rightarrow> (file_module \<Rightarrow> freport) \<Rightarrow> u32 \<Rightarrow> handle \<Rightarrow> bool" where
  "reports m f ty h \<longleftrightarrow> (\<forall>m0. same_res m m0 \<longrightarrow>
     (\<exists>c m1. f m0 = Some ([c], m1) \<and> same_res m m1 \<and> mcall_type c = ty \<and> mcall_key c = handle_key m h))"

lemma effect_open:
  assumes "fm_res_fd m \<noteq> fm_res_fp m" "handle_valid h" "h \<notin> hs" "reports m f FTYPE_ALLOC h"
  shows "effect m f hs (insert h hs)"
  unfolding effect_def
proof (intro allI impI)
  fix m0 kept assume m0: "same_res m m0" and t: "tracks m kept hs"
  obtain c m1 where c: "f m0 = Some ([c], m1)" "same_res m m1" "mcall_type c = FTYPE_ALLOC" "mcall_key c = handle_key m h"
    using assms(4) m0 unfolding reports_def by blast
  with tracks_open [OF t assms(2,3,1) c(3,4)] handle_key_type [of m h] show "\<exists>cs m1. f m0 = Some (cs, m1) \<and> same_res m m1 \<and>
      fresh_allocs mcall_type mcall_key kept cs \<and> tracks m (outstanding mcall_type mcall_key kept cs) (insert h hs) \<and>
      fst ` mcall_key ` set cs \<subseteq> {fm_res_fd m, fm_res_fp m}"
    by (intro exI [of _ "[c]"] exI [of _ m1]) auto
qed

lemma effect_close:
  assumes "fm_res_fd m \<noteq> fm_res_fp m" "handle_valid h" "reports m f FTYPE_FREE h"
  shows "effect m f hs (hs - {h})"
  unfolding effect_def
proof (intro allI impI)
  fix m0 kept assume m0: "same_res m m0" and t: "tracks m kept hs"
  obtain c m1 where c: "f m0 = Some ([c], m1)" "same_res m m1" "mcall_type c = FTYPE_FREE" "mcall_key c = handle_key m h"
    using assms(3) m0 unfolding reports_def by blast
  with tracks_close [OF t assms(2,1) c(3,4)] handle_key_type [of m h] show "\<exists>cs m1. f m0 = Some (cs, m1) \<and> same_res m m1 \<and>
      fresh_allocs mcall_type mcall_key kept cs \<and> tracks m (outstanding mcall_type mcall_key kept cs) (hs - {h}) \<and>
      fst ` mcall_key ` set cs \<subseteq> {fm_res_fd m, fm_res_fp m}"
    by (intro exI [of _ "[c]"] exI [of _ m1]) auto
qed

text \<open>A report of two calls is that of the first followed by that of the second.\<close>

lemma effect_eq: "effect m g hs hs' \<Longrightarrow> (\<And>m0. f m0 = g m0) \<Longrightarrow> effect m f hs hs'"
  by (simp add: effect_def)

lemmas report_simps = reports_def same_res_def set_fd_def get_fd_def fd_call_def fp_call_def mcall_type_def mcall_key_def handle_key_def
  trace_open_common_def trace_socket_common_def trace_fd_common_def trace_fd_common_flags_def trace_fopen_common_def
  trace_fclose_common_def trace_accept_common_def trace_dup_common_def

lemma common_reports:
  assumes "0 \<le> fd" "fd < 2 ^ 31"
  shows "reports m (trace_open_common name fd path flags) FTYPE_ALLOC (H_Fd fd)"
    "reports m (trace_socket_common name fd d t p) FTYPE_ALLOC (H_Fd fd)"
    "reports m (trace_fd_common name type fd) FTYPE_ALLOC (H_Fd fd)"
    "reports m (trace_fd_common_flags name type fd flags) FTYPE_ALLOC (H_Fd fd)"
    "0 \<le> sockfd \<Longrightarrow> reports m (trace_accept_common name sockfd fd) FTYPE_ALLOC (H_Fd fd)"
    "reports m (trace_creat path mode fd) FTYPE_ALLOC (H_Fd fd)"
  using assms by (auto simp: report_simps trace_creat_def)

lemma dup_effect:
  assumes "fm_res_fd m \<noteq> fm_res_fp m" "0 \<le> oldfd" "handle_valid (H_Fd retfd)" "H_Fd retfd \<notin> hs - (if newfd \<ge> 0 \<and> newfd = retfd then {H_Fd newfd} else {})"
  shows "effect m (trace_dup_common name oldfd newfd retfd) hs
    (insert (H_Fd retfd) (hs - (if newfd \<ge> 0 \<and> newfd = retfd then {H_Fd newfd} else {})))"
proof (cases "newfd \<ge> 0 \<and> newfd = retfd")
  case True
  let ?f = "\<lambda>m0. Some ([fd_call m0 FTYPE_FREE name 0 newfd None], m0)"
  let ?g = "trace_dup_common name oldfd (-1) retfd"
  have eq: "trace_dup_common name oldfd newfd retfd m0 = then_report (?f m0) ?g" for m0
    using True by (simp add: trace_dup_common_def then_report_def bind_assoc case_prod_beta)
  have "effect m (\<lambda>m0. then_report (?f m0) ?g) hs (insert (H_Fd retfd) (hs - {H_Fd newfd}))"
  proof (rule effect_then)
    show "effect m ?f hs (hs - {H_Fd newfd})" using assms(1,3) True by (intro effect_close) (auto simp: report_simps)
    show "effect m ?g (hs - {H_Fd newfd}) (insert (H_Fd retfd) (hs - {H_Fd newfd}))"
      using assms True by (intro effect_open) (auto simp: report_simps)
  qed
  from effect_eq [OF this eq] show ?thesis using True by simp
next
  case False
  have "effect m (trace_dup_common name oldfd newfd retfd) hs (insert (H_Fd retfd) hs)"
    using assms False by (intro effect_open) (auto simp: report_simps)
  then show ?thesis using False by auto
qed

lemma bind_effect:
  assumes "fm_res_fd m \<noteq> fm_res_fp m" "handle_valid (H_Fd fd)" "H_Fd fd \<in> hs"
  shows "effect m (trace_bind_common name fd addr) hs hs"
proof -
  let ?f = "\<lambda>m0. Some ([fd_call m0 FTYPE_FREE name 0 fd None], m0)"
  let ?info = "\<lambda>m0. sock_info addr ((fm_info m0)[0 := 0])"
  let ?g = "\<lambda>m0. do { m' \<leftarrow> set_fd fd FD_TYPE_SOCKET (m0\<lparr>fm_last_fd := fd, fm_info := ?info m0\<rparr>);
       Some ([fd_call m0 FTYPE_ALLOC name 0 fd (Some (sock_args addr (cstr (?info m0))))], m') }"
  have eq: "trace_bind_common name fd addr m0 = then_report (?f m0) ?g" for m0
    by (simp add: trace_bind_common_def then_report_def Let_def bind_assoc)
  have "effect m (\<lambda>m0. then_report (?f m0) ?g) hs (insert (H_Fd fd) (hs - {H_Fd fd}))"
  proof (rule effect_then)
    show "effect m ?f hs (hs - {H_Fd fd})" using assms by (intro effect_close) (auto simp: report_simps)
    show "effect m ?g (hs - {H_Fd fd}) (insert (H_Fd fd) (hs - {H_Fd fd}))"
      using assms by (intro effect_open) (auto simp: report_simps)
  qed
  from effect_eq [OF this eq] show ?thesis using assms(3) by (simp add: insert_absorb)
qed

lemma move_effect:
  assumes "fm_res_fd m \<noteq> fm_res_fp m" "handle_valid h" "handle_valid g" "g \<notin> hs - {h}"
    "reports m F FTYPE_FREE h" "reports m G FTYPE_ALLOC g" "\<And>m0. f m0 = then_report (F m0) G"
  shows "effect m f hs (insert g (hs - {h}))"
proof -
  show ?thesis
    by (rule effect_eq [OF effect_then [OF effect_close [OF assms(1,2,5)] effect_open [OF assms(1,3,4,6)]] assms(7)])
qed

section \<open>All functions\<close>

lemma effect_if:
  assumes "c \<Longrightarrow> effect m f hs hs'" "\<not> c \<Longrightarrow> hs' = hs"
  shows "effect m (\<lambda>m0. if c then f m0 else no_report m0) hs hs'"
  using assms by (cases c) (auto intro: effect_none)

lemma new_fd_effect:
  assumes "fm_res_fd m \<noteq> fm_res_fp m" "\<forall>h\<in>set (if c then [H_Fd rc] else []). handle_valid h \<and> h \<notin> hs"
    "c \<Longrightarrow> 0 \<le> rc \<Longrightarrow> rc < 2 ^ 31 \<Longrightarrow> reports m f FTYPE_ALLOC (H_Fd rc)"
  shows "effect m (\<lambda>m0. if c then f m0 else no_report m0) hs (hs \<union> set (if c then [H_Fd rc] else []))"
proof (rule effect_if)
  assume c: c
  then show "effect m f hs (hs \<union> set (if c then [H_Fd rc] else []))"
    using effect_open [OF assms(1), of "H_Fd rc" hs f] assms(2,3) by simp
qed simp

lemma new_pair_effect:
  assumes "fm_res_fd m \<noteq> fm_res_fp m" "\<forall>h\<in>set (if c then [H_Fd a, H_Fd b] else []). handle_valid h \<and> h \<notin> hs"
    "distinct (if c then [H_Fd a, H_Fd b] else [])"
    "\<And>fd. 0 \<le> fd \<Longrightarrow> fd < 2 ^ 31 \<Longrightarrow> reports m (f fd) FTYPE_ALLOC (H_Fd fd)"
  shows "effect m (\<lambda>m0. if c then then_report (f a m0) (f b) else no_report m0) hs (hs \<union> set (if c then [H_Fd a, H_Fd b] else []))"
proof (rule effect_if)
  assume c: c
  have "effect m (\<lambda>m0. then_report (f a m0) (f b)) hs (insert (H_Fd b) (insert (H_Fd a) hs))"
    using c assms by (intro effect_then [OF effect_open effect_open]) auto
  then show "effect m (\<lambda>m0. then_report (f a m0) (f b)) hs (hs \<union> set (if c then [H_Fd a, H_Fd b] else []))"
    using c by (simp add: insert_commute)
qed simp

lemma new_fp_effect:
  assumes "fm_res_fd m \<noteq> fm_res_fp m" "\<forall>h\<in>set (if rc \<noteq> 0 then [H_Fp rc] else []). handle_valid h \<and> h \<notin> hs"
  shows "effect m (\<lambda>m0. if rc \<noteq> 0 then Some ([trace_fopen_common name rc path mode m0], m0) else no_report m0) hs
    (hs \<union> set (if rc \<noteq> 0 then [H_Fp rc] else []))"
proof (rule effect_if)
  assume rc: "rc \<noteq> 0"
  have "reports m (\<lambda>m0. Some ([trace_fopen_common name rc path mode m0], m0)) FTYPE_ALLOC (H_Fp rc)"
    by (auto simp: report_simps)
  from effect_open [OF assms(1) _ _ this, of hs] rc assms(2)
  show "effect m (\<lambda>m0. Some ([trace_fopen_common name rc path mode m0], m0)) hs (hs \<union> set (if rc \<noteq> 0 then [H_Fp rc] else []))"
    by simp
qed simp

text \<open>Closing a stream that is not a valid one has no effect, as with \<open>fcloseall\<close>.\<close>

lemma close_fp_effect:
  assumes "fm_res_fd m \<noteq> fm_res_fp m"
  shows "effect m (\<lambda>m0. if c then Some ([trace_fclose_common name fp m0], m0) else no_report m0) hs (hs - (if c then {H_Fp fp} else {}))"
proof (rule effect_if)
  assume c: c
  let ?f = "\<lambda>m0. Some ([trace_fclose_common name fp m0], m0)"
  have rep: "reports m ?f FTYPE_FREE (H_Fp fp)" by (auto simp: report_simps)
  show "effect m ?f hs (hs - (if c then {H_Fp fp} else {}))"
  proof (cases "handle_valid (H_Fp fp)")
    case True
    then show ?thesis using effect_close [OF assms True rep] c by simp
  next
    case False
    have same: "tracks m kept hs \<Longrightarrow> filter (\<lambda>d. mcall_type d = FTYPE_ALLOC \<longrightarrow> mcall_key d \<noteq> handle_key m (H_Fp fp)) kept = kept" for kept
    proof (rule filter_True, intro ballI impI notI)
      fix d assume t: "tracks m kept hs" and d: "d \<in> set kept" "mcall_key d = handle_key m (H_Fp fp)"
      have "mcall_key d \<in> mcall_key ` set kept" using d(1) by (rule imageI)
      then have "handle_key m (H_Fp fp) \<in> handle_key m ` hs" using t d(2) by (simp add: tracks_def)
      then obtain h where "h \<in> hs" "handle_key m (H_Fp fp) = handle_key m h" by (rule imageE)
      moreover have "handle_valid h" using t calculation(1) by (simp add: tracks_def)
      ultimately have "handle_key m h = handle_key m (H_Fp fp)" "handle_valid h" by simp_all
      then show False using assms False by (cases h) (auto simp: handle_key_def)
    qed
    show ?thesis unfolding effect_def
    proof (intro allI impI)
      fix m0 kept assume m0: "same_res m m0" and t: "tracks m kept hs"
      obtain d m1 where d: "?f m0 = Some ([d], m1)" "same_res m m1" "mcall_type d = FTYPE_FREE" "mcall_key d = handle_key m (H_Fp fp)"
        using rep m0 unfolding reports_def by blast
      have "H_Fp fp \<notin> hs" using False t by (auto simp: tracks_def)
      then have "tracks m (next_kept kept d) (hs - (if c then {H_Fp fp} else {}))" using d(3,4) same [OF t] t c by simp
      then show "\<exists>cs m1. ?f m0 = Some (cs, m1) \<and> same_res m m1 \<and> fresh_allocs mcall_type mcall_key kept cs \<and>
          tracks m (outstanding mcall_type mcall_key kept cs) (hs - (if c then {H_Fp fp} else {})) \<and>
          fst ` mcall_key ` set cs \<subseteq> {fm_res_fd m, fm_res_fp m}"
        using d handle_key_type [of m "H_Fp fp"] by (intro exI [of _ "[d]"] exI [of _ m1]) auto
    qed
  qed
qed simp

lemma close_effect:
  assumes "fm_res_fd m \<noteq> fm_res_fp m" "rc \<noteq> -1 \<Longrightarrow> 0 \<le> fd \<and> fd < 2 ^ 31 \<and> 0 \<le> rc"
  shows "effect m (trace_close fd rc) hs (hs - (if rc \<noteq> -1 then {H_Fd fd} else {}))"
  unfolding trace_close_def [abs_def]
proof (rule effect_if)
  assume rc: "rc \<noteq> -1"
  let ?f = "\<lambda>m. do { m' \<leftarrow> set_fd rc FD_TYPE_CLOSED m; Some ([fd_call m FTYPE_FREE ''close'' 0 fd None], m') }"
  have "reports m ?f FTYPE_FREE (H_Fd fd)" using assms(2) rc by (auto simp: report_simps)
  from effect_close [OF assms(1) _ this, of hs] show "effect m ?f hs (hs - (if rc \<noteq> -1 then {H_Fd fd} else {}))"
    using assms(2) rc by simp
qed simp

theorem trace_on_effect:
  assumes r: "fm_res_fd m \<noteq> fm_res_fp m" and ok: "file_ok hs x"
  shows "effect m (trace_on x) hs (handles_after hs x)"
proof -
  have new: "\<forall>h\<in>set (opens x). handle_valid h \<and> h \<notin> hs - closes x" "distinct (opens x)"
    and used: "\<not> file_failed x \<Longrightarrow> \<forall>fd\<in>used_fds x. 0 \<le> fd \<and> fd < 2 ^ 31" and special: "special_ok hs x"
    using ok by (auto simp: file_ok_def)
  note fd = new_fd_effect [OF r, where hs = hs] and pair = new_pair_effect [OF r, where hs = hs] and fp = new_fp_effect [OF r, where hs = hs]
  show ?thesis
  proof (cases x)
    case (Creat p md rc)
    have "trace_creat p md rc = (\<lambda>m0. if rc \<noteq> -1 then trace_creat p md rc m0 else no_report m0)"
      by (auto simp: trace_creat_def)
    moreover have "effect m (\<lambda>m0. if rc \<noteq> -1 then trace_creat p md rc m0 else no_report m0) hs (handles_after hs x)"
      using fd [of "rc \<noteq> -1" rc "trace_creat p md rc"] new common_reports(6) Creat by (simp add: handles_after_def)
    ultimately show ?thesis using Creat by simp
  next
    case (Open p fl rc)
    then show ?thesis using fd [of "rc \<noteq> -1" rc] new common_reports(1) by (simp add: handles_after_def trace_open_def [abs_def])
  next
    case (Open64 p fl rc)
    then show ?thesis using fd [of "rc \<noteq> -1" rc] new common_reports(1) by (simp add: handles_after_def trace_open64_def [abs_def])
  next
    case (Openat p fl rc)
    then show ?thesis using fd [of "rc \<noteq> -1" rc] new common_reports(1) by (simp add: handles_after_def trace_openat_def [abs_def])
  next
    case (Close fd rc)
    then show ?thesis using close_effect [OF r] used by (simp add: handles_after_def)
  next
    case (Dup fd rc)
    then show ?thesis
      using effect_if [of "rc \<noteq> -1" m "trace_dup_common ''dup'' fd (-1) rc" hs] dup_effect [OF r, of fd rc hs "-1"] new used
      by (simp add: handles_after_def trace_dup_def [abs_def])
  next
    case (Dup2 fd nfd rc)
    show ?thesis
    proof (cases "rc \<noteq> -1 \<and> fd \<noteq> nfd")
      case True
      with Dup2 used special have "0 \<le> nfd" "rc = nfd" "0 \<le> fd" by auto
      with Dup2 True dup_effect [OF r, of fd rc hs nfd] new show ?thesis by (simp add: handles_after_def trace_dup2_def [abs_def])
    qed (use Dup2 effect_none in \<open>auto simp: handles_after_def trace_dup2_def\<close>)
  next
    case (Dup3 fd nfd rc)
    show ?thesis
    proof (cases "rc \<noteq> -1 \<and> fd \<noteq> nfd")
      case True
      with Dup3 used special have "0 \<le> nfd" "rc = nfd" "0 \<le> fd" by auto
      with Dup3 True dup_effect [OF r, of fd rc hs nfd] new show ?thesis by (simp add: handles_after_def trace_dup3_def [abs_def])
    qed (use Dup3 effect_none in \<open>auto simp: handles_after_def trace_dup3_def\<close>)
  next
    case (Fcntl fd cmd nfd rc)
    show ?thesis
    proof (cases "(cmd = F_DUPFD \<or> cmd = F_DUPFD_CLOEXEC) \<and> rc \<noteq> -1")
      case True
      have "H_Fd rc \<notin> hs" "handle_valid (H_Fd rc)" "0 \<le> fd" using Fcntl True new used by auto
      moreover have "hs - (if nfd \<ge> 0 \<and> nfd = rc then {H_Fd nfd} else {}) = hs" using calculation(1) by auto
      ultimately have "effect m (trace_dup_common ''fcntl'' fd nfd rc) hs (insert (H_Fd rc) hs)"
        using dup_effect [OF r, of fd rc hs nfd] by simp
      with Fcntl True show ?thesis by (simp add: handles_after_def trace_fcntl_def [abs_def])
    qed (use Fcntl effect_none in \<open>auto simp: handles_after_def trace_fcntl_def\<close>)
  next
    case (Socket d t p rc)
    then show ?thesis using fd [of "rc \<noteq> -1" rc] new common_reports(2) by (simp add: handles_after_def trace_socket_def [abs_def])
  next
    case (Socketpair d t p a b rc)
    then show ?thesis using pair [of "rc \<noteq> -1" a b "\<lambda>fd. trace_socket_common ''socketpair'' fd d t p"] new common_reports(2)
      by (simp add: handles_after_def trace_socketpair_def [abs_def])
  next
    case (Bind fd addr rc)
    then show ?thesis using effect_if [of "rc = 0" m "trace_bind_common ''bind'' fd addr" hs hs] bind_effect [OF r] used special
      by (simp add: handles_after_def trace_bind_def [abs_def])
  next
    case (Connect fd addr rc)
    then show ?thesis using effect_if [of "rc = 0" m "trace_bind_common ''connect'' fd addr" hs hs] bind_effect [OF r] used special
      by (simp add: handles_after_def trace_connect_def [abs_def])
  next
    case (Accept s rc)
    then show ?thesis using fd [of "rc \<noteq> -1" rc] new common_reports(5) used by (simp add: handles_after_def trace_accept_def [abs_def])
  next
    case (Accept4 s rc)
    then show ?thesis using fd [of "rc \<noteq> -1" rc] new common_reports(5) used by (simp add: handles_after_def trace_accept4_def [abs_def])
  next
    case (Inotify_init rc)
    then show ?thesis using fd [of "rc \<noteq> -1" rc] new common_reports(3) by (simp add: handles_after_def trace_inotify_init_def [abs_def])
  next
    case (Inotify_init1 fl rc)
    then show ?thesis using fd [of "rc \<noteq> -1" rc] new common_reports(4) by (simp add: handles_after_def trace_inotify_init1_def [abs_def])
  next
    case (Eventfd fl rc)
    then show ?thesis using fd [of "rc \<noteq> -1" rc] new common_reports(4) by (simp add: handles_after_def trace_eventfd_def [abs_def])
  next
    case (Signalfd s fl rc)
    then show ?thesis using fd [of "s = -1 \<and> rc \<noteq> -1" rc] new common_reports(4) by (simp add: handles_after_def trace_signalfd_def [abs_def])
  next
    case (Timerfd_create fl rc)
    then show ?thesis using fd [of "rc \<noteq> -1" rc] new common_reports(4) by (simp add: handles_after_def trace_timerfd_create_def [abs_def])
  next
    case (Epoll_create rc)
    then show ?thesis using fd [of "rc \<noteq> -1" rc] new common_reports(3) by (simp add: handles_after_def trace_epoll_create_def [abs_def])
  next
    case (Epoll_create1 fl rc)
    then show ?thesis using fd [of "rc \<noteq> -1" rc] new common_reports(4) by (simp add: handles_after_def trace_epoll_create1_def [abs_def])
  next
    case (Getpt rc)
    then show ?thesis using fd [of "rc \<noteq> -1" rc] new common_reports(3) by (simp add: handles_after_def trace_getpt_def [abs_def])
  next
    case (Posix_openpt fl rc)
    then show ?thesis using fd [of "rc \<noteq> -1" rc] new common_reports(4) by (simp add: handles_after_def trace_posix_openpt_def [abs_def])
  next
    case (Pipe a b rc)
    then show ?thesis using pair [of "rc \<noteq> -1" a b "trace_fd_common ''pipe'' FD_TYPE_PIPE"] new common_reports(3)
      by (simp add: handles_after_def trace_pipe_def [abs_def])
  next
    case (Pipe2 a b fl rc)
    then show ?thesis using pair [of "rc \<noteq> -1" a b "\<lambda>fd. trace_fd_common_flags ''pipe2'' FD_TYPE_PIPE fd fl"] new common_reports(4)
      by (simp add: handles_after_def trace_pipe2_def [abs_def])
  next
    case (Fopen p md rc)
    then show ?thesis using fp [of rc] new by (simp add: handles_after_def trace_fopen_def [abs_def])
  next
    case (Popen c t rc)
    then show ?thesis using fp [of rc] new by (simp add: handles_after_def trace_popen_def [abs_def])
  next
    case (Fdopen fd md rc)
    show ?thesis
    proof (cases "rc = 0")
      case False
      let ?F = "\<lambda>m. do { m' \<leftarrow> set_fd fd FD_TYPE_CLOSED m; Some ([fd_call m FTYPE_FREE ''fdopen'' 0 fd None], m') }"
      let ?G = "\<lambda>m. Some ([fp_call m FTYPE_ALLOC ''fdopen'' 1 rc (Some [arg ''fd'' (format_d fd), arg ''mode'' md, arg_end])], m)"
      have fd: "0 \<le> fd" "fd < 2 ^ 31" "handle_valid (H_Fp rc)" "H_Fp rc \<notin> hs - {H_Fd fd}" using Fdopen False new used by auto
      have "trace_fdopen fd md rc m0 = then_report (?F m0) ?G" for m0
        using False by (auto simp: trace_fdopen_def then_report_def set_fd_def fp_call_def)
      moreover have "reports m ?F FTYPE_FREE (H_Fd fd)" "reports m ?G FTYPE_ALLOC (H_Fp rc)" using fd by (auto simp: report_simps)
      ultimately have "effect m (trace_fdopen fd md rc) hs (insert (H_Fp rc) (hs - {H_Fd fd}))"
        using fd by (intro move_effect [OF r]) auto
      then show ?thesis using Fdopen False by (simp add: handles_after_def)
    qed (use Fdopen effect_none in \<open>auto simp: handles_after_def trace_fdopen_def\<close>)
  next
    case (Freopen p md st rc)
    show ?thesis
    proof (cases "rc = 0")
      case False
      have rc: "handle_valid (H_Fp rc)" "H_Fp rc \<notin> hs - {H_Fp st}" using Freopen False new by auto
      have "reports m (\<lambda>m. Some ([trace_fopen_common ''freopen'' rc p md m], m)) FTYPE_ALLOC (H_Fp rc)" by (auto simp: report_simps)
      from effect_open [OF r rc this]
        effect_then [OF close_fp_effect [OF r, of True "''freopen''" st hs, unfolded if_True]]
      have "effect m (\<lambda>m0. then_report (Some ([trace_fclose_common ''freopen'' st m0], m0))
          (\<lambda>m. Some ([trace_fopen_common ''freopen'' rc p md m], m))) hs (insert (H_Fp rc) (hs - {H_Fp st}))"
        by blast
      then show ?thesis using Freopen False by (simp add: handles_after_def trace_freopen_def [abs_def] then_report_def)
    qed (use Freopen effect_none in \<open>auto simp: handles_after_def trace_freopen_def\<close>)
  next
    case (Pclose fp rc)
    then show ?thesis using close_fp_effect [OF r] by (simp add: handles_after_def trace_pclose_def [abs_def])
  next
    case (Fclose fp rc)
    then show ?thesis using close_fp_effect [OF r] by (simp add: handles_after_def trace_fclose_def [abs_def])
  next
    case (Fcloseall rc)
    have "effect m (trace_fcloseall rc) hs (hs - (if rc = 0 then {H_Fp (- 1)} else {}))"
      using close_fp_effect [OF r] by (simp add: trace_fcloseall_def [abs_def])
    moreover have "effect m (trace_fcloseall rc) hs hs" if "H_Fp (- 1) \<in> hs"
      using that unfolding effect_def tracks_def by fastforce
    moreover have "hs - (if rc = 0 then {H_Fp (- 1)} else {}) = hs" if "H_Fp (- 1) \<notin> hs" using that by auto
    ultimately have "effect m (trace_fcloseall rc) hs hs" by (cases "H_Fp (- 1) \<in> hs") simp_all
    then show ?thesis using Fcloseall by (simp add: handles_after_def)
  qed
qed

section \<open>Runs\<close>

lemma effect_moves:
  assumes eff: "effect m f hs hs'" and "finite hs" "\<forall>h\<in>hs. handle_valid h" "same_res m m0"
  shows "\<exists>cs m1. f m0 = Some (cs, m1) \<and> same_res m m1 \<and> (\<forall>h\<in>hs'. handle_valid h) \<and>
    moves (handle_key m ` hs) cs (handle_key m ` hs') \<and> fst ` mcall_key ` set cs \<subseteq> {fm_res_fd m, fm_res_fp m}"
proof -
  have tr: "tracks m kept hs" if "tracks_keys kept (handle_key m ` hs)" for kept
    using that assms(3) by (simp add: tracks_def tracks_keys_def)
  obtain kept where "tracks_keys kept (handle_key m ` hs)" using tracks_keys_exist assms(2) by blast
  from eff [unfolded effect_def, rule_format, OF assms(4) tr [OF this]] obtain cs m1 where
    cs: "f m0 = Some (cs, m1)" "same_res m m1" "fst ` mcall_key ` set cs \<subseteq> {fm_res_fd m, fm_res_fp m}"
    "tracks m (outstanding mcall_type mcall_key kept cs) hs'" by blast
  have "moves (handle_key m ` hs) cs (handle_key m ` hs')"
    unfolding moves_def
  proof (intro allI impI)
    fix kept assume "tracks_keys kept (handle_key m ` hs)"
    from eff [unfolded effect_def, rule_format, OF assms(4) tr [OF this]] cs(1)
    show "fresh_allocs mcall_type mcall_key kept cs \<and> tracks_keys (outstanding mcall_type mcall_key kept cs) (handle_key m ` hs')"
      by (auto simp: tracks_def tracks_keys_def)
  qed
  then show ?thesis using cs by (auto simp: tracks_def)
qed

text \<open>The file module keeps the contract of a tracing module.\<close>

definition file_rel :: "file_module \<Rightarrow> file_module \<Rightarrow> handle set \<Rightarrow> bool" where
  "file_rel m m' hs \<longleftrightarrow> fm_res_fd m \<noteq> fm_res_fp m \<and> same_res m m' \<and> finite hs \<and> (\<forall>h\<in>hs. handle_valid h)"

interpretation files: resource_module trace_on handles_after file_ok "file_rel m0" "\<lambda>hs. handle_key m0 ` hs"
  "{fm_res_fd m0, fm_res_fp m0}" for m0
proof
  fix m hs x assume rel: "file_rel m0 m hs" and ok: "file_ok hs x"
  have "effect m0 (trace_on x) hs (handles_after hs x)" using trace_on_effect ok rel by (simp add: file_rel_def)
  from effect_moves [OF this, of m] rel obtain cs m' where
    "trace_on x m = Some (cs, m')" "same_res m0 m'" "\<forall>h\<in>handles_after hs x. handle_valid h"
    "moves (handle_key m0 ` hs) cs (handle_key m0 ` handles_after hs x)" "fst ` mcall_key ` set cs \<subseteq> {fm_res_fd m0, fm_res_fp m0}"
    by (auto simp: file_rel_def)
  moreover have "finite (handles_after hs x)" using rel by (simp add: file_rel_def handles_after_def)
  ultimately show "\<exists>cs m'. trace_on x m = Some (cs, m') \<and> file_rel m0 m' (handles_after hs x) \<and>
      moves (handle_key m0 ` hs) cs (handle_key m0 ` handles_after hs x) \<and> fst ` mcall_key ` set cs \<subseteq> {fm_res_fd m0, fm_res_fp m0}"
    using rel by (auto simp: file_rel_def)
qed

lemma file_run_calls: "file_run xs m = run_calls trace_on xs m"
  by (induction xs arbitrary: m) (auto simp: no_report_def then_report_def)

lemma files_ok_legal: "files_ok hs xs = all_legal file_ok handles_after hs xs"
  by (induction xs arbitrary: hs) auto

lemma file_rel_start: "fm_res_fd m \<noteq> fm_res_fp m \<Longrightarrow> file_rel m m {}"
  by (simp add: file_rel_def same_res_def)

text \<open>
  After any run the outstanding calls are those of the open descriptors and streams, one for each;
  all accesses to the table of descriptors are within its bounds.
\<close>

theorem file_held:
  assumes "fm_res_fd m \<noteq> fm_res_fp m" "files_ok {} xs"
  shows "\<exists>cs m'. file_run xs m = Some (cs, m') \<and> distinct (map mcall_key (held cs)) \<and>
    mcall_key ` set (held cs) = handle_key m ` foldl handles_after {} xs"
  using files.run_held [OF file_rel_start [OF assms(1)], of xs] assms(2)
  unfolding file_run_calls files_ok_legal by auto

text \<open>
  \<open>fcloseall\<close> closes all streams, but is reported as closing the stream -1: a stream stays
  outstanding.  So does one closed by a \<open>pclose\<close> that returns the status of a failed command.
\<close>

lemma fcloseall_keeps:
  assumes "rc \<noteq> 0" "rc \<noteq> - 1"
  shows "\<exists>cs. file_run [Fopen path mode rc, Fcloseall 0] m = Some (cs, m) \<and> map (\<lambda>c. mf_res_id (fst c)) (held cs) = [rc]"
    "status \<noteq> 0 \<Longrightarrow> \<exists>cs. file_run [Popen path mode rc, Pclose rc status] m = Some (cs, m) \<and> map (\<lambda>c. mf_res_id (fst c)) (held cs) = [rc]"
  using assms by (auto simp: then_report_def trace_fopen_def trace_popen_def trace_fcloseall_def trace_pclose_def no_report_def
      trace_fopen_common_def trace_fclose_common_def fp_call_def mcall_type_def mcall_key_def)

text \<open>A closed descriptor keeps its type in the table, and descriptor 0 is marked as closed instead.\<close>

lemma close_marks_zero:
  assumes "0 < fd"
  shows "\<exists>cs m'. trace_close fd 0 m = Some (cs, m') \<and> fm_fds m' fd = fm_fds m fd \<and> fm_fds m' 0 = FD_TYPE_CLOSED"
  using assms by (simp add: trace_close_def set_fd_def MAX_FD_COUNT_def)

end
