(* ===== verification/Shm_Sysv.thy ===== *)
theory Shm_Sysv
  imports Module_Contract Text_Format
begin

text \<open>
  The module that traces System V shared memory (sp\_rtrace\_shmsysv.c): the table from attached
  addresses to segments, the tracing functions, and the correspondence of their reports with the
  segments and attachments of the process.
\<close>

section \<open>The table of attachments\<close>

record addrmap =
  am_addr :: pointer_t
  am_shmid :: int

definition SYSV_HASH_SIZE :: int where "SYSV_HASH_SIZE = 256"

definition addrmap_compare_nodes :: "addrmap \<Rightarrow> addrmap \<Rightarrow> int" where
  "addrmap_compare_nodes node1 node2 = sint (am_addr node1 - am_addr node2)"

function addrmap_hash_loop :: "u64 \<Rightarrow> u64 \<Rightarrow> u64" where
  "addrmap_hash_loop hash value =
     (if value \<noteq> 0 then addrmap_hash_loop (hash XOR (value AND 0xFF)) (drop_bit 3 value) else hash)"
  by pat_completeness auto
termination
  by (relation "measure (\<lambda>(_, value). unat value)") (auto simp: drop_bit_3_less)

declare addrmap_hash_loop.simps [simp del]

definition addrmap_calc_node_hash :: "addrmap \<Rightarrow> int" where
  "addrmap_calc_node_hash node = sint (addrmap_hash_loop 0 (am_addr node))"

text \<open>The operations of the hash table on the nodes.\<close>

definition addrmap_bucket :: "addrmap \<Rightarrow> nat option" where
  "addrmap_bucket node = hash_index SYSV_HASH_SIZE (addrmap_calc_node_hash node)"

definition addrmap_find :: "addrmap atable \<Rightarrow> addrmap \<Rightarrow> addrmap option option" where
  "addrmap_find t node = map_option (\<lambda>b. a_find addrmap_compare_nodes t b node) (addrmap_bucket node)"

definition addrmap_store :: "addrmap atable \<Rightarrow> addrmap \<Rightarrow> addrmap atable option" where
  "addrmap_store t node = map_option (\<lambda>b. a_store addrmap_compare_nodes t b node) (addrmap_bucket node)"

definition addrmap_remove :: "addrmap atable \<Rightarrow> addrmap \<Rightarrow> addrmap atable option" where
  "addrmap_remove t node = map_option (\<lambda>b. a_remove t b node) (addrmap_bucket node)"

section \<open>Tracing functions\<close>

text \<open>What \<open>IPC_STAT\<close> tells about a segment.\<close>

record shmid_ds =
  ds_cpid :: int
  ds_nattch :: u64
  ds_mode :: u32
  ds_segsz :: u64

type_synonym shm_stat = "int \<Rightarrow> shmid_ds option"

record shm_module =
  sm_pid :: int
  sm_table :: "addrmap atable"
  sm_segment :: u32
  sm_address :: u32
  sm_control :: u32

definition IPC_CREAT :: u32 where "IPC_CREAT = 512"
definition IPC_RMID :: int where "IPC_RMID = 0"
definition SHM_DEST :: u32 where "SHM_DEST = 512"

definition shm_call :: "u32 \<Rightarrow> u32 \<Rightarrow> string \<Rightarrow> u32 \<Rightarrow> pointer_t \<Rightarrow> module_farg list option \<Rightarrow> mcall" where
  "shm_call res ty name n i args =
     (\<lparr>mf_type = ty, mf_name = Some (str name), mf_res_type_id = res, mf_res_id = i, mf_res_size = n\<rparr>, args)"

abbreviation shm_arg :: "string \<Rightarrow> cstring \<Rightarrow> module_farg" where
  "shm_arg name v \<equiv> (Some (str name), Some v)"

text \<open>A counter of attachments is stored in an int.\<close>

definition stat_nattch :: "shmid_ds \<Rightarrow> int" where
  "stat_nattch ds = sint (ucast (ds_nattch ds) :: u32)"

definition trace_shmget :: "u64 \<Rightarrow> u32 \<Rightarrow> int \<Rightarrow> shm_module \<Rightarrow> (mcall list \<times> shm_module) option" where
  "trace_shmget n shmflg rc m =
     Some (if rc \<noteq> -1 \<and> shmflg AND IPC_CREAT \<noteq> 0
           then [shm_call (sm_segment m) FTYPE_ALLOC ''shmget'' (ucast n) (word_of_int rc) None] else [], m)"

definition trace_shmctl :: "int \<Rightarrow> int \<Rightarrow> shm_stat \<Rightarrow> int \<Rightarrow> shm_module \<Rightarrow> (mcall list \<times> shm_module) option" where
  "trace_shmctl shmid cmd stat rc m = (
     let nattach = (if cmd = IPC_RMID
                    then (case stat shmid of Some ds \<Rightarrow> if ds_cpid ds = sm_pid m then stat_nattch ds else -1 | None \<Rightarrow> -1)
                    else -1)
     in Some ((if cmd = IPC_RMID
               then [shm_call (sm_control m) FTYPE_FREE ''shmctl'' 0 (word_of_int shmid)
                       (Some [shm_arg ''cmd'' (str ''IPC_RMID''), (None, None)])] else []) @
              (if rc \<noteq> -1 \<and> nattach = 0
               then [shm_call (sm_segment m) FTYPE_FREE ''shmctl'' 0 (word_of_int shmid) None] else []), m))"

definition trace_shmat :: "int \<Rightarrow> shm_stat \<Rightarrow> pointer_t \<Rightarrow> shm_module \<Rightarrow> (mcall list \<times> shm_module) option" where
  "trace_shmat shmid stat rc m =
     (if rc \<noteq> - 1 then do {
        t \<leftarrow> (case stat shmid of
                Some ds \<Rightarrow> if ds_cpid ds = sm_pid m then addrmap_store (sm_table m) \<lparr>am_addr = rc, am_shmid = shmid\<rparr>
                           else Some (sm_table m)
              | None \<Rightarrow> Some (sm_table m));
        Some ([shm_call (sm_address m) FTYPE_ALLOC ''shmat''
                 (case stat shmid of Some ds \<Rightarrow> ucast (ds_segsz ds) | None \<Rightarrow> 1) rc
                 (Some [shm_arg ''shmid'' (format_0x (unat (word_of_int shmid :: u32))),
                        shm_arg ''cpid'' (case stat shmid of Some ds \<Rightarrow> format_d (ds_cpid ds) | None \<Rightarrow> []), (None, None)])],
              m\<lparr>sm_table := t\<rparr>) }
      else Some ([], m))"

text \<open>The node is removed whether the address is detached or not.\<close>

definition trace_shmdt :: "pointer_t \<Rightarrow> shm_stat \<Rightarrow> int \<Rightarrow> shm_module \<Rightarrow> (mcall list \<times> shm_module) option" where
  "trace_shmdt shmaddr stat rc m = do {
     pnode \<leftarrow> addrmap_find (sm_table m) \<lparr>am_addr = shmaddr, am_shmid = 0\<rparr>;
     (nattach, shmid, t) \<leftarrow> (case pnode of
         None \<Rightarrow> Some (-1, 0, sm_table m)
       | Some node \<Rightarrow> do {
           t \<leftarrow> addrmap_remove (sm_table m) node;
           Some (case stat (am_shmid node) of
                   Some ds \<Rightarrow> if ds_mode ds AND SHM_DEST \<noteq> 0 then stat_nattch ds else -1
                 | None \<Rightarrow> -1, am_shmid node, t) });
     Some (if rc = 0
           then [shm_call (sm_address m) FTYPE_FREE ''shmdt'' 0 shmaddr None] @
                (if nattach = 1 then [shm_call (sm_segment m) FTYPE_FREE ''shmdt'' 0 (word_of_int shmid) None] else [])
           else [], m\<lparr>sm_table := t\<rparr>) }"

section \<open>The table as a map\<close>

lemma and_8bit_less: "(v :: u64) AND 0xFF < 0x100"
proof -
  have "v AND 0xFF \<le> 0xFF" by (rule word_and_le1)
  also have "(0xFF :: u64) < 0x100" by simp
  finally show ?thesis .
qed

lemma xor_8bit_less:
  assumes "(a :: u64) < 0x100" "b < 0x100"
  shows "a XOR b < 0x100"
proof -
  have "uint a < 2 ^ 8" "uint b < 2 ^ 8" using assms by (simp_all add: word_less_def)
  then have "uint a XOR uint b < 2 ^ 8" by (intro XOR_upper uint_ge_0)
  then show ?thesis by (simp add: word_less_def unsigned_xor_eq)
qed

lemma addrmap_hash_less: "hash < 0x100 \<Longrightarrow> addrmap_hash_loop hash v < 0x100"
proof (induction hash v rule: addrmap_hash_loop.induct)
  case (1 hash v)
  then show ?case by (subst addrmap_hash_loop.simps) (auto simp: xor_8bit_less and_8bit_less)
qed

definition addrmap_slot :: "addrmap \<Rightarrow> nat" where
  "addrmap_slot node = unat (addrmap_hash_loop 0 (am_addr node))"

lemma addrmap_bucket_slot: "addrmap_bucket node = Some (addrmap_slot node)"
proof -
  let ?w = "addrmap_hash_loop 0 (am_addr node)"
  have "?w < 0x100" by (rule addrmap_hash_less) simp
  then have u: "uint ?w < 256" by (simp add: word_less_def)
  moreover have "- (2 ^ 63) \<le> uint ?w" by (rule order_trans [OF _ uint_ge_0]) simp
  ultimately have s: "sint ?w = uint ?w" by (simp add: sint_uint signed_take_bit_int_eq_self)
  have n: "sint (word_of_int i :: 32 word) = i" if "0 \<le> i" "i < 256" for i
    using that by (simp add: signed_take_bit_int_eq_self sint_sbintrunc')
  have "hash_index 256 (uint ?w) = Some (nat (uint ?w))"
    using u by (simp add: hash_index_def Let_def n [OF uint_ge_0 u] del: word_of_int_uint of_int_uint)
  then show ?thesis using s
    by (simp add: addrmap_bucket_def addrmap_calc_node_hash_def SYSV_HASH_SIZE_def addrmap_slot_def)
qed

lemma addrmap_compare_0: "addrmap_compare_nodes x y = 0 \<longleftrightarrow> am_addr x = am_addr y"
  by (simp add: addrmap_compare_nodes_def signed_eq_0_iff)

lemma addrmap_hash_ok: "hash_ok addrmap_compare_nodes addrmap_slot"
  by (auto simp: hash_ok_def addrmap_compare_0 addrmap_slot_def)

abbreviation addrmap_unique :: "addrmap atable \<Rightarrow> bool" where
  "addrmap_unique \<equiv> a_unique addrmap_compare_nodes"

text \<open>The segment the table has for an address.\<close>

definition addrmap_get :: "addrmap atable \<Rightarrow> pointer_t \<Rightarrow> addrmap option" where
  "addrmap_get t a = the (addrmap_find t \<lparr>am_addr = a, am_shmid = 0\<rparr>)"

lemma addrmap_find_get: "addrmap_find t \<lparr>am_addr = a, am_shmid = i\<rparr> = Some (addrmap_get t a)"
  by (simp add: addrmap_get_def addrmap_find_def addrmap_bucket_slot a_find_def addrmap_compare_0 addrmap_slot_def)

lemma addrmap_get_find: "addrmap_get t a = find (\<lambda>x. am_addr x = a) (a_bucket t (addrmap_slot \<lparr>am_addr = a, am_shmid = 0\<rparr>))"
  by (simp add: addrmap_get_def addrmap_find_def addrmap_bucket_slot a_find_def addrmap_compare_0)

lemma addrmap_get_addr: "addrmap_get t a = Some node \<Longrightarrow> am_addr node = a"
  by (auto simp: addrmap_get_find find_Some_iff)

lemma addrmap_store_get:
  assumes "addrmap_unique t"
  shows "\<exists>t'. addrmap_store t node = Some t' \<and> addrmap_unique t' \<and>
    (\<forall>a. addrmap_get t' a = (if am_addr node = a then Some node else addrmap_get t a))"
proof -
  have "addrmap_get (a_store addrmap_compare_nodes t (addrmap_slot node) node) a =
      (if am_addr node = a then Some node else addrmap_get t a)" for a
    using a_find_store [OF addrmap_hash_ok assms, of node "\<lparr>am_addr = a, am_shmid = 0\<rparr>"]
    by (simp add: addrmap_get_def addrmap_find_def addrmap_bucket_slot addrmap_compare_0)
  then show ?thesis using a_store_unique(1) [OF addrmap_hash_ok assms]
    by (simp add: addrmap_store_def addrmap_bucket_slot)
qed

lemma addrmap_remove_get:
  assumes "addrmap_unique t" "addrmap_get t (am_addr node) = Some node"
  shows "\<exists>t'. addrmap_remove t node = Some t' \<and> addrmap_unique t' \<and>
    (\<forall>a. addrmap_get t' a = (if am_addr node = a then None else addrmap_get t a))"
proof -
  let ?b = "addrmap_slot node" and ?c = "\<lambda>x. addrmap_compare_nodes x node = 0"
  let ?t = "a_remove t ?b node"
  have slot: "addrmap_slot \<lparr>am_addr = am_addr node, am_shmid = 0\<rparr> = ?b" by (simp add: addrmap_slot_def)
  have sorted: "sorted_wrt (\<lambda>x y. addrmap_compare_nodes x y \<noteq> 0) (a_bucket t ?b)" using assms(1) by (simp add: a_unique_def)
  have first: "find ?c (a_bucket t ?b) = Some node" using assms(2) slot by (simp add: addrmap_get_find addrmap_compare_0)
  have "(case Some node of None \<Rightarrow> a_bucket t ?b | Some y \<Rightarrow> remove1 y (a_bucket t ?b)) = filter (\<lambda>x. addrmap_compare_nodes x node \<noteq> 0) (a_bucket t ?b)"
    by (rule find_unique_remove1 [OF sorted first]) (simp_all add: addrmap_compare_0)
  then have rem: "remove1 node (a_bucket t ?b) = filter (\<lambda>x. am_addr x \<noteq> am_addr node) (a_bucket t ?b)"
    by (simp add: addrmap_compare_0)
  have bk: "a_bucket ?t i = (if i = ?b then filter (\<lambda>x. am_addr x \<noteq> am_addr node) (a_bucket t ?b) else a_bucket t i)" for i
    by (simp add: a_remove_def rem)
  have f: "find (\<lambda>x. am_addr x = a) (filter (\<lambda>x. am_addr x \<noteq> b) xs) = (if a = b then None else find (\<lambda>x. am_addr x = a) xs)" for a b xs
    by (induction xs) auto
  have "addrmap_get ?t a = (if am_addr node = a then None else addrmap_get t a)" for a
    using slot by (auto simp: addrmap_get_find bk f)
  moreover have "addrmap_unique ?t" using assms(1) by (simp add: a_unique_def bk sorted_wrt_filter)
  ultimately show ?thesis by (simp add: addrmap_remove_def addrmap_bucket_slot)
qed

end
