(* ===== verification/Shm_Segments.thy ===== *)
theory Shm_Segments
  imports Shm_Sysv
begin

text \<open>
  The reports of the shared memory module describe the segments and attachments of the process.
  The world are the segments the process has created, with the mark for destruction, and its
  attached addresses; it changes as the manual pages of the system calls describe.
\<close>

section \<open>The world\<close>

record shm_world =
  sw_own :: "int \<rightharpoonup> bool"
  sw_at :: "pointer_t \<rightharpoonup> int"

datatype shm_op =
    Shmget u64 u32 int
  | Shmctl int int shm_stat int
  | Shmat int shm_stat pointer_t
  | Shmdt pointer_t shm_stat int

fun shm_trace_on :: "shm_op \<Rightarrow> shm_module \<Rightarrow> (mcall list \<times> shm_module) option" where
  "shm_trace_on (Shmget n fl rc) = trace_shmget n fl rc"
| "shm_trace_on (Shmctl i cmd st rc) = trace_shmctl i cmd st rc"
| "shm_trace_on (Shmat i st rc) = trace_shmat i st rc"
| "shm_trace_on (Shmdt a st rc) = trace_shmdt a st rc"

definition attached :: "shm_world \<Rightarrow> int \<Rightarrow> pointer_t set" where
  "attached w i = {a. sw_at w a = Some i}"

text \<open>A segment that is marked is destroyed with its last attachment.\<close>

fun shm_after :: "shm_world \<Rightarrow> shm_op \<Rightarrow> shm_world" where
  "shm_after w (Shmget n fl rc) = (if rc \<noteq> -1 \<and> fl AND IPC_CREAT \<noteq> 0 then w\<lparr>sw_own := (sw_own w)(rc \<mapsto> False)\<rparr> else w)"
| "shm_after w (Shmctl i cmd st rc) =
     (if cmd = IPC_RMID \<and> rc \<noteq> -1 \<and> i \<in> dom (sw_own w)
      then w\<lparr>sw_own := (sw_own w)(i := if attached w i = {} then None else Some True)\<rparr> else w)"
| "shm_after w (Shmat i st rc) = (if rc \<noteq> - 1 then w\<lparr>sw_at := (sw_at w)(rc \<mapsto> i)\<rparr> else w)"
| "shm_after w (Shmdt a st rc) =
     (case sw_at w a of
        Some i \<Rightarrow> if rc = 0 then w\<lparr>sw_at := (sw_at w)(a := None),
                     sw_own := (if sw_own w i = Some True \<and> attached w i = {a} then (sw_own w)(i := None) else sw_own w)\<rparr> else w
      | None \<Rightarrow> w)"

text \<open>
  The answers of \<open>IPC_STAT\<close>: the own segments are used by this process only; other segments have
  another creator.  A segment id is new when it is handed out by a creating \<open>shmget\<close>, and detaching
  fails exactly for addresses that are not attached.
\<close>

definition stat_ok :: "int \<Rightarrow> shm_world \<Rightarrow> shm_stat \<Rightarrow> bool" where
  "stat_ok pid w st \<longleftrightarrow> (\<forall>i. case sw_own w i of
      Some marked \<Rightarrow> \<exists>ds. st i = Some ds \<and> ds_cpid ds = pid \<and> unat (ds_nattch ds) = card (attached w i) \<and> card (attached w i) < 2 ^ 31 \<and>
        (ds_mode ds AND SHM_DEST \<noteq> 0) = marked
    | None \<Rightarrow> \<forall>ds. st i = Some ds \<longrightarrow> ds_cpid ds \<noteq> pid)"

fun shm_legal :: "int \<Rightarrow> shm_world \<Rightarrow> shm_op \<Rightarrow> bool" where
  "shm_legal pid w (Shmget n fl rc) \<longleftrightarrow>
     (rc \<noteq> -1 \<and> fl AND IPC_CREAT \<noteq> 0 \<longrightarrow> 0 \<le> rc \<and> rc < 2 ^ 31 \<and> rc \<notin> dom (sw_own w) \<and> attached w rc = {})"
| "shm_legal pid w (Shmctl i cmd st rc) \<longleftrightarrow> stat_ok pid w st"
| "shm_legal pid w (Shmat i st rc) \<longleftrightarrow> rc \<noteq> - 1 \<longrightarrow> rc \<notin> dom (sw_at w) \<and> stat_ok pid (shm_after w (Shmat i st rc)) st"
| "shm_legal pid w (Shmdt a st rc) \<longleftrightarrow> stat_ok pid w st \<and> (rc = 0 \<longleftrightarrow> a \<in> dom (sw_at w))"

definition shm_keys :: "shm_module \<Rightarrow> shm_world \<Rightarrow> res_key set" where
  "shm_keys m w = (\<lambda>i. (sm_segment m, word_of_int i)) ` dom (sw_own w) \<union> (\<lambda>a. (sm_address m, a)) ` dom (sw_at w)"

text \<open>The module knows the attachments of its own segments.\<close>

definition shm_known :: "shm_world \<Rightarrow> pointer_t \<rightharpoonup> addrmap" where
  "shm_known w a = (case sw_at w a of
     Some i \<Rightarrow> if i \<in> dom (sw_own w) then Some \<lparr>am_addr = a, am_shmid = i\<rparr> else None | None \<Rightarrow> None)"

definition shm_rel :: "shm_module \<Rightarrow> shm_module \<Rightarrow> shm_world \<Rightarrow> bool" where
  "shm_rel m0 m w \<longleftrightarrow> m = m0\<lparr>sm_table := sm_table m\<rparr> \<and> distinct [sm_segment m0, sm_address m0, sm_control m0] \<and>
     addrmap_unique (sm_table m) \<and> finite (dom (sw_at w)) \<and> (\<forall>i\<in>dom (sw_own w). 0 \<le> i \<and> i < 2 ^ 31) \<and>
     addrmap_get (sm_table m) = shm_known w"

lemma shm_known_at:
  "rc \<notin> dom (sw_at w) \<Longrightarrow> shm_known (w\<lparr>sw_at := (sw_at w)(rc \<mapsto> i)\<rparr>) =
    (\<lambda>a. if rc = a \<and> i \<in> dom (sw_own w) then Some \<lparr>am_addr = rc, am_shmid = i\<rparr> else shm_known w a)"
  by (rule ext) (auto simp: shm_known_def domIff split: option.split)

lemma shm_known_dt: "shm_known (w\<lparr>sw_at := (sw_at w)(a := None)\<rparr>) = (\<lambda>b. if a = b then None else shm_known w b)"
  by (rule ext) (auto simp: shm_known_def split: option.split)

lemma shm_known_own: "attached w i = {} \<Longrightarrow> shm_known (w\<lparr>sw_own := (sw_own w)(i := b)\<rparr>) = shm_known w"
  by (rule ext) (auto simp: shm_known_def attached_def domIff split: option.split)

lemma shm_known_mark: "i \<in> dom (sw_own w) \<Longrightarrow> shm_known (w\<lparr>sw_own := (sw_own w)(i \<mapsto> b)\<rparr>) = shm_known w"
  by (rule ext) (auto simp: shm_known_def domIff split: option.split)

lemma shm_rel_get: "shm_rel m0 m w \<Longrightarrow> addrmap_get (sm_table m) a = shm_known w a"
  by (simp add: shm_rel_def)

section \<open>The contract\<close>

lemma seg_word_inj:
  assumes "(word_of_int i :: u64) = word_of_int j" "0 \<le> i" "i < 2 ^ 31" "0 \<le> j" "j < 2 ^ 31"
  shows "i = j"
proof -
  have u: "uint (word_of_int x :: u64) = x" if "0 \<le> x" "x < 2 ^ 31" for x
    by (rule word_of_int_inverse [OF refl]) (use that in auto)
  have "uint (word_of_int i :: u64) = uint (word_of_int j :: u64)" using assms(1) by (rule arg_cong)
  then show ?thesis by (simp only: u [OF assms(2,3)] u [OF assms(4,5)])
qed

lemma shm_call_simps [simp]:
  "mcall_type (shm_call res ty name n i args) = ty" "mcall_key (shm_call res ty name n i args) = (res, i)"
  by (simp_all add: shm_call_def mcall_type_def mcall_key_def)

lemma stat_nattch_small: "unat (ds_nattch ds) = n \<Longrightarrow> n < 2 ^ 31 \<Longrightarrow> stat_nattch ds = int n"
proof -
  assume n: "unat (ds_nattch ds) = n" "n < 2 ^ 31"
  have "unat (ucast (ds_nattch ds) :: u32) = n" using n by (simp add: unsigned_ucast_eq take_bit_nat_eq_self)
  then have u: "uint (ucast (ds_nattch ds) :: u32) = int n" using uint_nat [of "ucast (ds_nattch ds) :: u32"] by simp
  show ?thesis unfolding stat_nattch_def sint_uint u
    using n(2) by (simp add: signed_take_bit_int_eq_self)
qed

lemma stat_own:
  assumes "stat_ok pid w st" "sw_own w i = Some marked"
  shows "\<exists>ds. st i = Some ds \<and> ds_cpid ds = pid \<and> stat_nattch ds = int (card (attached w i)) \<and> (ds_mode ds AND SHM_DEST \<noteq> 0) = marked"
proof -
  have "\<exists>ds. st i = Some ds \<and> ds_cpid ds = pid \<and> unat (ds_nattch ds) = card (attached w i) \<and> card (attached w i) < 2 ^ 31 \<and>
      (ds_mode ds AND SHM_DEST \<noteq> 0) = marked"
    using assms(1) [unfolded stat_ok_def, rule_format, of i] assms(2) by simp
  then show ?thesis using stat_nattch_small by blast
qed

lemma stat_foreign: "stat_ok pid w st \<Longrightarrow> sw_own w i = None \<Longrightarrow> st i = Some ds \<Longrightarrow> ds_cpid ds \<noteq> pid"
  using stat_ok_def [of pid w st] by (auto dest: spec [of _ i])

lemma attached_finite: "finite (dom (sw_at w)) \<Longrightarrow> finite (attached w i)"
  by (rule finite_subset [of _ "dom (sw_at w)"]) (auto simp: attached_def)

lemma shm_segment_keys:
  assumes "shm_rel m0 m w" "0 \<le> i" "i < 2 ^ 31"
  shows "(sm_segment m0, word_of_int i) \<in> shm_keys m0 w \<longleftrightarrow> i \<in> dom (sw_own w)"
    "shm_keys m0 (w\<lparr>sw_own := (sw_own w)(i := None)\<rparr>) = shm_keys m0 w - {(sm_segment m0, word_of_int i)}"
proof -
  have inj: "(word_of_int j :: u64) = word_of_int i \<longleftrightarrow> j = i" if "j \<in> dom (sw_own w)" for j
    using seg_word_inj [of j i] that assms by (auto simp: shm_rel_def)
  have ne: "sm_address m0 \<noteq> sm_segment m0" using assms(1) by (auto simp: shm_rel_def)
  show "(sm_segment m0, word_of_int i) \<in> shm_keys m0 w \<longleftrightarrow> i \<in> dom (sw_own w)"
  proof -
    have "(sm_segment m0, word_of_int i) \<in> shm_keys m0 w \<longleftrightarrow> (\<exists>j\<in>dom (sw_own w). (word_of_int j :: u64) = word_of_int i)"
      using ne by (simp add: shm_keys_def image_iff) (metis (no_types))
    then show ?thesis using inj by blast
  qed
  have "(\<lambda>j. (sm_segment m0, word_of_int j :: u64)) ` (dom (sw_own w) - {i}) =
      (\<lambda>j. (sm_segment m0, word_of_int j)) ` dom (sw_own w) - {(sm_segment m0, word_of_int i)}"
    using inj by auto
  then show "shm_keys m0 (w\<lparr>sw_own := (sw_own w)(i := None)\<rparr>) = shm_keys m0 w - {(sm_segment m0, word_of_int i)}"
    using ne by (auto simp: shm_keys_def)
qed

definition shm_step_ok :: "shm_module \<Rightarrow> shm_module \<Rightarrow> shm_world \<Rightarrow> shm_op \<Rightarrow> bool" where
  "shm_step_ok m0 m w x \<longleftrightarrow> (\<exists>cs m'. shm_trace_on x m = Some (cs, m') \<and> shm_rel m0 m' (shm_after w x) \<and>
     moves (shm_keys m0 w) cs (shm_keys m0 (shm_after w x)) \<and>
     fst ` mcall_key ` set cs \<subseteq> {sm_segment m0, sm_address m0, sm_control m0})"

lemma shm_relD:
  "shm_rel m0 m w \<Longrightarrow> sm_segment m = sm_segment m0 \<and> sm_address m = sm_address m0 \<and> sm_control m = sm_control m0 \<and> sm_pid m = sm_pid m0"
  by (cases m; cases m0) (simp add: shm_rel_def)

lemma shm_step_get:
  assumes rel: "shm_rel m0 m w" and legal: "shm_legal (sm_pid m0) w (Shmget n fl rc)"
  shows "shm_step_ok m0 m w (Shmget n fl rc)"
proof (cases "rc \<noteq> -1 \<and> fl AND IPC_CREAT \<noteq> 0")
  case True
  let ?c = "shm_call (sm_segment m) FTYPE_ALLOC ''shmget'' (ucast n) (word_of_int rc) None"
  let ?w = "w\<lparr>sw_own := (sw_own w)(rc \<mapsto> False)\<rparr>"
  have rc: "0 \<le> rc" "rc < 2 ^ 31" "rc \<notin> dom (sw_own w)" "attached w rc = {}" using legal True by auto
  have "mcall_key ?c \<notin> shm_keys m0 w"
    using shm_segment_keys(1) [OF rel rc(1,2)] rc(3) shm_relD [OF rel] by simp
  from moves_alloc [OF _ this] have "moves (shm_keys m0 w) [?c] (insert (sm_segment m0, word_of_int rc) (shm_keys m0 w))"
    using shm_relD [OF rel] by simp
  moreover have "insert (sm_segment m0, word_of_int rc) (shm_keys m0 w) = shm_keys m0 ?w" by (auto simp: shm_keys_def)
  moreover have "shm_rel m0 m ?w" using rel rc by (simp add: shm_rel_def shm_known_own)
  ultimately show ?thesis using True shm_relD [OF rel] by (simp add: shm_step_ok_def trace_shmget_def)
qed (use rel in \<open>auto simp: shm_step_ok_def trace_shmget_def moves_none\<close>)

lemma shm_step_ctl:
  assumes rel: "shm_rel m0 m w" and legal: "shm_legal (sm_pid m0) w (Shmctl i cmd st rc)"
  shows "shm_step_ok m0 m w (Shmctl i cmd st rc)"
proof (cases "cmd = IPC_RMID")
  case True
  note ids = shm_relD [OF rel]
  let ?c = "shm_call (sm_control m) FTYPE_FREE ''shmctl'' 0 (word_of_int i) (Some [shm_arg ''cmd'' (str ''IPC_RMID''), (None, None)])"
  let ?d = "shm_call (sm_segment m) FTYPE_FREE ''shmctl'' 0 (word_of_int i) None"
  have "sm_control m0 \<noteq> sm_segment m0" "sm_control m0 \<noteq> sm_address m0" using rel by (auto simp: shm_rel_def)
  then have "mcall_key ?c \<notin> shm_keys m0 w" using ids by (auto simp: shm_keys_def)
  then have c: "moves (shm_keys m0 w) [?c] (shm_keys m0 w)" by (intro moves_free_other) simp_all
  have fin: "finite (attached w i)" using rel by (intro attached_finite) (simp add: shm_rel_def)
  show ?thesis
  proof (cases "rc \<noteq> -1 \<and> i \<in> dom (sw_own w)")
    case own: True
    then obtain marked where "sw_own w i = Some marked" by auto
    from stat_own [OF _ this, of "sm_pid m0" st] legal obtain ds where
      ds: "st i = Some ds" "ds_cpid ds = sm_pid m0" "stat_nattch ds = int (card (attached w i))" by (auto simp del: not_None_eq)
    show ?thesis
    proof (cases "attached w i = {}")
      case none: True
      have rng: "0 \<le> i" "i < 2 ^ 31" using rel own by (auto simp: shm_rel_def)
      have "shm_rel m0 m (w\<lparr>sw_own := (sw_own w)(i := None)\<rparr>)"
        using rel none by (simp add: shm_rel_def shm_known_own)
      moreover have "moves (shm_keys m0 w) ([?c] @ [?d]) (shm_keys m0 (w\<lparr>sw_own := (sw_own w)(i := None)\<rparr>))"
        using moves_append [OF c moves_free [of ?d "shm_keys m0 w"]] shm_segment_keys(2) [OF rel rng] ids by simp
      moreover have "trace_shmctl i cmd st rc m = Some ([?c] @ [?d], m)"
        using True own ds none ids by (simp add: trace_shmctl_def)
      ultimately show ?thesis using True own none ids unfolding shm_step_ok_def by (intro exI [of _ "[?c] @ [?d]"] exI [of _ m]) auto
    next
      case some: False
      have "shm_rel m0 m (w\<lparr>sw_own := (sw_own w)(i \<mapsto> True)\<rparr>)"
        using rel own by (simp add: shm_rel_def shm_known_mark insert_absorb)
      moreover have "shm_keys m0 (w\<lparr>sw_own := (sw_own w)(i \<mapsto> True)\<rparr>) = shm_keys m0 w"
        using own by (auto simp: shm_keys_def)
      moreover have "trace_shmctl i cmd st rc m = Some ([?c], m)"
        using True own ds some ids fin by (simp add: trace_shmctl_def)
      ultimately show ?thesis using True own some ids c unfolding shm_step_ok_def by (intro exI [of _ "[?c]"] exI [of _ m]) auto
    qed
  next
    case foreign: False
    then have w: "shm_after w (Shmctl i cmd st rc) = w" using True by auto
    have "ds_cpid ds \<noteq> sm_pid m0" if "st i = Some ds" "rc \<noteq> -1" for ds
      using stat_foreign [of "sm_pid m0" w st i ds] legal foreign that by auto
    then have "trace_shmctl i cmd st rc m = Some ([?c], m)"
      using True ids by (auto simp: trace_shmctl_def split: option.split)
    then show ?thesis using rel c ids unfolding shm_step_ok_def w by (intro exI [of _ "[?c]"] exI [of _ m]) auto
  qed
qed (use rel in \<open>auto simp: shm_step_ok_def trace_shmctl_def moves_none\<close>)

lemma shm_step_at:
  assumes rel: "shm_rel m0 m w" and legal: "shm_legal (sm_pid m0) w (Shmat i st rc)"
  shows "shm_step_ok m0 m w (Shmat i st rc)"
proof (cases "rc = - 1")
  case False
  note ids = shm_relD [OF rel]
  let ?w = "w\<lparr>sw_at := (sw_at w)(rc \<mapsto> i)\<rparr>"
  have new: "rc \<notin> dom (sw_at w)" "stat_ok (sm_pid m0) ?w st" using legal False by auto
  have tab: "addrmap_unique (sm_table m)" "addrmap_get (sm_table m) rc = None" using rel new(1) by (auto simp: shm_rel_def shm_known_def domIff)
  obtain c t where c: "trace_shmat i st rc m = Some ([c], m\<lparr>sm_table := t\<rparr>)" "mcall_type c = FTYPE_ALLOC" "mcall_key c = (sm_address m0, rc)"
    and t: "addrmap_unique t" "\<forall>a. addrmap_get t a = (if rc = a \<and> i \<in> dom (sw_own w) then Some \<lparr>am_addr = rc, am_shmid = i\<rparr> else addrmap_get (sm_table m) a)"
  proof (cases "i \<in> dom (sw_own w)")
    case True
    then obtain marked where "sw_own ?w i = Some marked" by auto
    from stat_own [OF new(2) this] obtain ds where ds: "st i = Some ds" "ds_cpid ds = sm_pid m0" by blast
    obtain t where "addrmap_store (sm_table m) \<lparr>am_addr = rc, am_shmid = i\<rparr> = Some t" "addrmap_unique t"
      "\<forall>a. addrmap_get t a = (if rc = a then Some \<lparr>am_addr = rc, am_shmid = i\<rparr> else addrmap_get (sm_table m) a)"
      using addrmap_store_get [OF tab(1), of "\<lparr>am_addr = rc, am_shmid = i\<rparr>"] by auto
    with True ds ids False show ?thesis by (intro that [of _ t]) (auto simp: trace_shmat_def)
  next
    case no: False
    then have "ds_cpid ds \<noteq> sm_pid m0" if "st i = Some ds" for ds using stat_foreign [OF new(2) _ that] by auto
    with no ids False tab(1) show ?thesis
      by (cases "st i") (auto simp: trace_shmat_def intro!: that [of _ "sm_table m"])
  qed
  have "(sm_address m0, rc) \<notin> shm_keys m0 w" using rel new(1) by (auto simp: shm_keys_def shm_rel_def)
  then have "moves (shm_keys m0 w) [c] (insert (sm_address m0, rc) (shm_keys m0 w))" using moves_alloc [OF c(2)] c(3) by simp
  moreover have "insert (sm_address m0, rc) (shm_keys m0 w) = shm_keys m0 ?w" by (auto simp: shm_keys_def)
  moreover have "shm_rel m0 (m\<lparr>sm_table := t\<rparr>) ?w"
    using rel t new(1) by (cases m; cases m0) (simp add: shm_rel_def shm_known_at fun_eq_iff)
  ultimately show ?thesis using False c by (simp add: shm_step_ok_def)
qed (use rel in \<open>auto simp: shm_step_ok_def trace_shmat_def moves_none\<close>)

lemma shm_step_dt:
  assumes rel: "shm_rel m0 m w" and legal: "shm_legal (sm_pid m0) w (Shmdt a st rc)"
  shows "shm_step_ok m0 m w (Shmdt a st rc)"
proof (cases "sw_at w a")
  case None
  then have "rc \<noteq> 0" "addrmap_get (sm_table m) a = None" using legal shm_rel_get [OF rel] by (auto simp: shm_known_def)
  then have "trace_shmdt a st rc m = Some ([], m)" by (simp add: trace_shmdt_def addrmap_find_get)
  then show ?thesis using None rel by (simp add: shm_step_ok_def moves_none)
next
  case (Some i)
  note ids = shm_relD [OF rel]
  let ?c = "shm_call (sm_address m) FTYPE_FREE ''shmdt'' 0 a None" and ?d = "shm_call (sm_segment m) FTYPE_FREE ''shmdt'' 0 (word_of_int i) None"
  let ?w = "w\<lparr>sw_at := (sw_at w)(a := None)\<rparr>"
  have rc: "rc = 0" "stat_ok (sm_pid m0) w st" using legal Some by auto
  have fin: "finite (attached w i)" "a \<in> attached w i" using rel Some by (auto simp: shm_rel_def attached_finite attached_def)
  have "shm_keys m0 ?w = shm_keys m0 w - {(sm_address m0, a)}" using rel by (auto simp: shm_keys_def shm_rel_def)
  then have c: "moves (shm_keys m0 w) [?c] (shm_keys m0 ?w)" using moves_free [of ?c "shm_keys m0 w"] ids by simp
  show ?thesis
  proof (cases "sw_own w i")
    case None
    then have "addrmap_get (sm_table m) a = None" using Some shm_rel_get [OF rel] by (simp add: shm_known_def domIff)
    then have "trace_shmdt a st rc m = Some ([?c], m)" using rc by (simp add: trace_shmdt_def addrmap_find_get)
    moreover have "shm_rel m0 m ?w" using rel None Some by (auto simp: shm_rel_def shm_known_dt shm_known_def domIff fun_eq_iff)
    ultimately show ?thesis using Some None rc ids c by (simp add: shm_step_ok_def)
  next
    case own: (Some marked)
    obtain ds where ds: "st i = Some ds" "ds_cpid ds = sm_pid m0" "stat_nattch ds = int (card (attached w i))" "(ds_mode ds AND SHM_DEST \<noteq> 0) = marked"
      using stat_own [OF rc(2) own] by blast
    have g: "addrmap_get (sm_table m) a = Some \<lparr>am_addr = a, am_shmid = i\<rparr>" using Some own shm_rel_get [OF rel] by (simp add: shm_known_def domIff)
    obtain t where t: "addrmap_remove (sm_table m) \<lparr>am_addr = a, am_shmid = i\<rparr> = Some t" "addrmap_unique t"
      "\<forall>b. addrmap_get t b = (if a = b then None else addrmap_get (sm_table m) b)"
      using addrmap_remove_get [of "sm_table m" "\<lparr>am_addr = a, am_shmid = i\<rparr>"] g rel by (auto simp: shm_rel_def)
    have one: "card (attached w i) = 1 \<longleftrightarrow> attached w i = {a}" using fin by (auto simp: card_1_singleton_iff)
    have rel': "shm_rel m0 (m\<lparr>sm_table := t\<rparr>) ?w"
      using rel t(2,3) by (cases m; cases m0) (simp add: shm_rel_def shm_known_dt fun_eq_iff)
    have tr: "trace_shmdt a st rc m = Some ([?c] @ (if marked \<and> attached w i = {a} then [?d] else []), m\<lparr>sm_table := t\<rparr>)"
      using rc g t(1) ds one by (auto simp: trace_shmdt_def addrmap_find_get)
    show ?thesis
    proof (cases "marked \<and> attached w i = {a}")
      case last: True
      let ?w' = "?w\<lparr>sw_own := (sw_own w)(i := None)\<rparr>"
      have rng: "0 \<le> i" "i < 2 ^ 31" using rel own by (auto simp: shm_rel_def)
      have "attached ?w i = {}" using last by (auto simp: attached_def)
      then have "shm_rel m0 (m\<lparr>sm_table := t\<rparr>) ?w'"
        using rel' shm_known_own [of ?w i None] by (simp add: shm_rel_def)
      moreover have "shm_keys m0 ?w' = shm_keys m0 ?w - {(sm_segment m0, word_of_int i)}"
        using shm_segment_keys(2) [OF rel' rng] by simp
      then have "moves (shm_keys m0 w) ([?c] @ [?d]) (shm_keys m0 ?w')"
        using moves_append [OF c moves_free [of ?d "shm_keys m0 ?w"]] ids by simp
      ultimately show ?thesis using tr Some own last rc ids by (simp add: shm_step_ok_def)
    next
      case False
      then have "shm_after w (Shmdt a st rc) = ?w" using Some own rc by auto
      then show ?thesis using tr rel' c ids False by (simp add: shm_step_ok_def del: shm_after.simps)
    qed
  qed
qed

interpretation sysv: resource_module shm_trace_on shm_after "shm_legal (sm_pid m0)" "shm_rel m0" "shm_keys m0"
  "{sm_segment m0, sm_address m0, sm_control m0}" for m0
proof
  fix m w x assume "shm_rel m0 m w" "shm_legal (sm_pid m0) w x"
  then show "\<exists>cs m'. shm_trace_on x m = Some (cs, m') \<and> shm_rel m0 m' (shm_after w x) \<and>
      moves (shm_keys m0 w) cs (shm_keys m0 (shm_after w x)) \<and>
      fst ` mcall_key ` set cs \<subseteq> {sm_segment m0, sm_address m0, sm_control m0}"
    unfolding shm_step_ok_def [symmetric]
    by (cases x) (simp_all only: shm_step_get shm_step_ctl shm_step_at shm_step_dt)
qed

text \<open>The start: nothing attached, and the table of the module is empty.\<close>

definition shm_none :: shm_world where
  "shm_none = \<lparr>sw_own = Map.empty, sw_at = Map.empty\<rparr>"

definition shm_fresh :: "shm_module \<Rightarrow> bool" where
  "shm_fresh m \<longleftrightarrow> sm_table m = a_init (nat SYSV_HASH_SIZE) \<and> distinct [sm_segment m, sm_address m, sm_control m]"

lemma shm_keys_none: "shm_keys m shm_none = {}"
  by (simp add: shm_keys_def shm_none_def)

lemma shm_rel_start:
  assumes "shm_fresh m"
  shows "shm_rel m m shm_none"
proof -
  have "addrmap_get (sm_table m) = shm_known shm_none"
    using assms by (auto simp: shm_fresh_def addrmap_get_find shm_known_def shm_none_def a_init_def)
  moreover have "addrmap_unique (sm_table m)" using assms by (simp add: shm_fresh_def a_unique_def a_init_def)
  ultimately show ?thesis using assms by (simp add: shm_rel_def shm_fresh_def shm_none_def)
qed

end
