(* ===== verification/Trace_Programs.thy ===== *)
theory Trace_Programs
  imports Memory_Module File_Handles Shm_Segments
begin

text \<open>
  The traced process, the listener and the post-processor as one computation, and what its leak
  report says about the traced program.
\<close>

section \<open>The composed programs\<close>

text \<open>
  \<open>cut1\<close> and \<open>cut2\<close> tell into which pieces the reads from the two pipes divide the byte streams; the
  listener has consumed the first byte of its output when the post-processor looks at it.
\<close>

definition trace_programs ::
    "u32 \<Rightarrow> cstring \<Rightarrow> pointer_t \<Rightarrow> int \<Rightarrow> (nat \<Rightarrow> listener_env) \<Rightarrow> bool \<Rightarrow> cstring \<Rightarrow> u32 \<Rightarrow>
     (byte list \<Rightarrow> byte list list) \<Rightarrow> (byte list \<Rightarrow> byte list list) \<Rightarrow> tracer_op list \<Rightarrow> tracer \<Rightarrow> parser option" where
  "trace_programs pid arch heap_end fd envs u pk junk cut1 cut2 ops s = do {
     s \<leftarrow> trace_session pid arch heap_end fd ops s;
     (rc, l) \<leftarrow> process_data envs (listener_init u) (map R_Data (cut1 (tr_out s)));
     guard (rc = 0);
     r \<leftarrow> read_binary_data pk (parser_init junk) (cut2 (tl (ls_out l)));
     (case r of Inr p \<Rightarrow> Some p | Inl e \<Rightarrow> None) }"

text \<open>Reads return at least one byte and at most a buffer; the first one returns the handshake, which is written at once.\<close>

definition good_cut :: "nat \<Rightarrow> nat \<Rightarrow> (byte list \<Rightarrow> byte list list) \<Rightarrow> bool" where
  "good_cut first lim pieces \<longleftrightarrow> (\<forall>bs. first \<le> length bs \<longrightarrow> pieces bs \<noteq> [] \<and> concat (pieces bs) = bs \<and> first \<le> length (hd (pieces bs)) \<and>
     (\<forall>c\<in>set (pieces bs). c \<noteq> [] \<and> length c \<le> lim))"

lemma good_cutD:
  assumes "good_cut first lim pieces" "first \<le> length bs"
  shows "\<exists>c cs. pieces bs = c # cs \<and> concat (c # cs) = bs \<and> first \<le> length c \<and> (\<forall>c\<in>set (c # cs). c \<noteq> [] \<and> length c \<le> lim)"
proof -
  have "pieces bs \<noteq> [] \<and> concat (pieces bs) = bs \<and> first \<le> length (hd (pieces bs)) \<and> (\<forall>c\<in>set (pieces bs). c \<noteq> [] \<and> length c \<le> lim)"
    using assms by (simp add: good_cut_def)
  then show ?thesis by (cases "pieces bs") auto
qed

definition good_setup :: "u32 \<Rightarrow> cstring \<Rightarrow> pointer_t \<Rightarrow> int \<Rightarrow> (nat \<Rightarrow> listener_env) \<Rightarrow>
     (byte list \<Rightarrow> byte list list) \<Rightarrow> (byte list \<Rightarrow> byte list list) \<Rightarrow> tracer_op list \<Rightarrow> tracer \<Rightarrow> bool" where
  "good_setup pid arch heap_end fd envs cut1 cut2 ops s \<longleftrightarrow> session_fits pid heap_end ops s \<and> tr_out s = [] \<and> 0 < fd \<and>
     is_cstring arch \<and> length arch < 240 \<and> good_envs envs \<and> (\<forall>k x y. 0 < le_connect (envs k) x y) \<and>
     good_cut (handshake_size arch) LISTENER_BUFFER_SIZE cut1 \<and> good_cut (handshake_size arch - 1) BUFFER_SIZE cut2"

text \<open>Whatever the scheduling, the trace data hold the calls of the traced process.\<close>

theorem trace_programs_calls:
  assumes "good_setup pid arch heap_end fd envs cut1 cut2 ops s"
  shows "\<exists>p. trace_programs pid arch heap_end fd envs u pk junk cut1 cut2 ops s = Some p \<and> parser_inv p \<and>
    ta_calls (trace_abs p) = op_calls ((tr_options s)\<lparr>op_enable := True\<rparr>) (tr_resources s) 0 ops \<and>
    distinct (map rs_id (ta_resources (trace_abs p)))"
proof -
  have a: "session_fits pid heap_end ops s" "tr_out s = []" "0 < fd" "is_cstring arch" "length arch < 240"
    "good_envs envs" "\<forall>k x y. 0 < le_connect (envs k) x y"
    and pieces: "good_cut (handshake_size arch) LISTENER_BUFFER_SIZE cut1" "good_cut (handshake_size arch - 1) BUFFER_SIZE cut2"
    using assms by (auto simp: good_setup_def)
  obtain s' bs where s': "trace_session pid arch heap_end fd ops s = Some s'" "is_handshake arch bs"
    "tr_out s' = bs @ encode_all (session_packets pid heap_end ops s)"
    and run: "\<forall>c chunks. concat (c # chunks) = tr_out s' \<longrightarrow> length bs \<le> length c \<longrightarrow>
       (\<forall>c\<in>set (c # chunks). c \<noteq> [] \<and> length c \<le> LISTENER_BUFFER_SIZE) \<longrightarrow>
       (\<exists>l. process_data envs (listener_init u) (map R_Data (c # chunks)) = Some (0, l) \<and> length bs \<le> length (ls_out l) \<and>
         (\<forall>d dhunks. concat (d # dhunks) = tl (ls_out l) \<longrightarrow> length bs \<le> length d + 1 \<longrightarrow>
            (\<forall>d\<in>set (d # dhunks). d \<noteq> [] \<and> length d \<le> BUFFER_SIZE) \<longrightarrow>
            (\<exists>p. read_binary_data pk (parser_init junk) (d # dhunks) = Some (Inr p) \<and> parser_inv p \<and>
               ta_calls (trace_abs p) = op_calls ((tr_options s)\<lparr>op_enable := True\<rparr>) (tr_resources s) 0 ops \<and>
               distinct (map rs_id (ta_resources (trace_abs p))))))"
    using pipeline_ok [OF a, where u = u and pk = pk and junk = junk] by blast
  have n: "length bs = handshake_size arch" using s'(2) by (auto simp: is_handshake_def)
  obtain c cs where c: "cut1 (tr_out s') = c # cs" "concat (c # cs) = tr_out s'" "length bs \<le> length c"
    "\<forall>c\<in>set (c # cs). c \<noteq> [] \<and> length c \<le> LISTENER_BUFFER_SIZE"
    using good_cutD [OF pieces(1), of "tr_out s'"] unfolding n by (simp add: s'(3) n) blast
  obtain l where l: "process_data envs (listener_init u) (map R_Data (c # cs)) = Some (0, l)" "length bs \<le> length (ls_out l)"
    and rd: "\<forall>d dhunks. concat (d # dhunks) = tl (ls_out l) \<longrightarrow> length bs \<le> length d + 1 \<longrightarrow>
            (\<forall>d\<in>set (d # dhunks). d \<noteq> [] \<and> length d \<le> BUFFER_SIZE) \<longrightarrow>
            (\<exists>p. read_binary_data pk (parser_init junk) (d # dhunks) = Some (Inr p) \<and> parser_inv p \<and>
               ta_calls (trace_abs p) = op_calls ((tr_options s)\<lparr>op_enable := True\<rparr>) (tr_resources s) 0 ops \<and>
               distinct (map rs_id (ta_resources (trace_abs p))))"
    using mp [OF mp [OF mp [OF spec [OF spec [OF run]] c(2)] c(3)] c(4)] by blast
  obtain d ds where d: "cut2 (tl (ls_out l)) = d # ds" "concat (d # ds) = tl (ls_out l)" "length bs \<le> length d + 1"
    "\<forall>d\<in>set (d # ds). d \<noteq> [] \<and> length d \<le> BUFFER_SIZE"
  proof -
    have "handshake_size arch - 1 \<le> length (tl (ls_out l))" using l(2) n by simp
    from good_cutD [OF pieces(2) this] show ?thesis using that n by fastforce
  qed
  obtain p where "read_binary_data pk (parser_init junk) (d # ds) = Some (Inr p)" "parser_inv p"
    "ta_calls (trace_abs p) = op_calls ((tr_options s)\<lparr>op_enable := True\<rparr>) (tr_resources s) 0 ops"
    "distinct (map rs_id (ta_resources (trace_abs p)))"
    using mp [OF mp [OF mp [OF spec [OF spec [OF rd]] d(2)] d(3)] d(4)] by blast
  then show ?thesis using s'(1) c(1) l(1) d(1) by (simp add: trace_programs_def)
qed

text \<open>The leak report shows the outstanding calls of the modules.\<close>

definition leak_report :: "parser \<Rightarrow> (cstring option \<times> (u64 \<times> pointer_t) \<times> u32) list option" where
  "leak_report p = map_option (\<lambda>(rd, h). map (\<lambda>c. shown_call (call_abs h c)) (rd_calls rd)) (filter_leaks (ps_rd p) (ps_heap p))"

theorem traced_leaks:
  assumes "good_setup pid arch heap_end fd envs cut1 cut2 (module_ops env cs) s" "known_types (tr_resources s) cs" "fresh_calls cs"
  shows "\<exists>p. trace_programs pid arch heap_end fd envs u pk junk cut1 cut2 (module_ops env cs) s = Some p \<and>
    leak_report p = Some (map made_call (held cs))"
proof -
  let ?as = "op_calls ((tr_options s)\<lparr>op_enable := True\<rparr>) (tr_resources s) 0 (module_ops env cs)"
  have reg: "registry_ok (tr_resources s)" using assms(1) by (auto simp: good_setup_def session_fits_def)
  obtain p where p: "trace_programs pid arch heap_end fd envs u pk junk cut1 cut2 (module_ops env cs) s = Some p" "parser_inv p"
    "ta_calls (trace_abs p) = ?as" "distinct (map rs_id (ta_resources (trace_abs p)))"
    using trace_programs_calls [OF assms(1)] by blast
  have ml: "map shown_call (leaking_calls ?as) = map made_call (held cs)" "\<forall>a\<in>set ?as. ac_resource a \<noteq> None"
    using module_leaks [OF reg assms(2,3)] by blast+
  obtain rd' h' where "filter_leaks (ps_rd p) (ps_heap p) = Some (rd', h')" "map (call_abs h') (rd_calls rd') = leaking_calls ?as"
    using leak_report_ok [OF p(2,4)] ml(2) p(3) by auto
  moreover have "map (\<lambda>c. shown_call (call_abs h' c)) (rd_calls rd') = map shown_call (map (call_abs h') (rd_calls rd'))" by simp
  ultimately show ?thesis using p(1) ml(1) by (simp add: leak_report_def)
qed

section \<open>Leaks of a tracing module\<close>

context resource_module
begin

text \<open>The report on a program traced with a module has one entry for every resource the program has left, and no other.\<close>

theorem run_leaks:
  assumes conf: "\<And>cs m'. run_calls trace xs m = Some (cs, m') \<Longrightarrow> good_setup pid arch heap_end fd envs cut1 cut2 (module_ops env cs) s"
    and res: "\<forall>r\<in>types. known_type (tr_resources s) r"
    and run: "rel m w" "keys w = {}" "all_legal legal after w xs"
  shows "\<exists>cs m' p rep. run_calls trace xs m = Some (cs, m') \<and>
    trace_programs pid arch heap_end fd envs u pk junk cut1 cut2 (module_ops env cs) s = Some p \<and> leak_report p = Some rep \<and>
    distinct (map (\<lambda>(name, k, n). k) rep) \<and>
    (\<lambda>(name, k, n). k) ` set rep = (\<lambda>k. (ucast (fst k), snd k)) ` keys (foldl after w xs)"
proof -
  obtain cs m' where cs: "run_calls trace xs m = Some (cs, m')" "fresh_calls cs" "distinct (map mcall_key (held cs))"
    "mcall_key ` set (held cs) = keys (foldl after w xs)" "fst ` mcall_key ` set cs \<subseteq> types"
    using run_held [OF run] by blast
  have "known_types (tr_resources s) cs"
    unfolding known_types_def
  proof
    fix c assume "c \<in> set cs"
    then have "mf_res_type_id (fst c) \<in> types" using cs(5) image_eqI [of _ fst "mcall_key c"] by (fastforce simp: mcall_key_def)
    then show "known_type (tr_resources s) (mf_res_type_id (fst c))" using res by auto
  qed
  from traced_leaks [OF conf [OF cs(1)] this cs(2)] obtain p where
    p: "trace_programs pid arch heap_end fd envs u pk junk cut1 cut2 (module_ops env cs) s = Some p"
      "leak_report p = Some (map made_call (held cs))" by blast
  define up :: "u32 \<times> pointer_t \<Rightarrow> u64 \<times> pointer_t" where "up = (\<lambda>k. (ucast (fst k), snd k))"
  have key: "(\<lambda>(name, k, n). k) (made_call c) = up (mcall_key c)" for c by (simp add: made_call_def up_def mcall_key_def)
  have inj: "inj up" by (auto simp: inj_on_def up_def prod_eq_iff dest: ucast64_inj)
  have ks: "map (\<lambda>(name, k, n). k) (map made_call (held cs)) = map up (map mcall_key (held cs))" using key by simp
  have "distinct (map (\<lambda>(name, k, n). k) (map made_call (held cs)))"
    unfolding ks using cs(3) inj by (simp only: distinct_map [of up] inj_on_subset [OF _ subset_UNIV] simp_thms)
  moreover have "(\<lambda>(name, k, n). k) ` set (map made_call (held cs)) = up ` keys (foldl after w xs)"
    using arg_cong [OF ks, of set] cs(4) by (simp only: set_map)
  ultimately show ?thesis using cs(1) p unfolding up_def by blast
qed

end

section \<open>Memory leaks\<close>

text \<open>The report on a program traced with the memory module lists the blocks it has not released, with their sizes.\<close>

theorem memory_leaks:
  assumes "good_setup pid arch heap_end fd envs cut1 cut2 (module_ops env (fst (mem_run xs m))) s"
    "known_type (tr_resources s) (mm_res m)" "mm_on m" "\<not> mm_lock m" "alloc_run m [] xs"
  shows "\<exists>p rep. trace_programs pid arch heap_end fd envs u pk junk cut1 cut2 (module_ops env (fst (mem_run xs m))) s = Some p \<and>
    leak_report p = Some rep \<and> map (\<lambda>(name, (r, a), n). (a, n)) rep = map (\<lambda>(a, n). (a, ucast n)) (program_blocks m xs)"
proof -
  let ?cs = "fst (mem_run xs m)"
  have "known_types (tr_resources s) ?cs"
    using assms(2) mem_run_res [of xs m ?cs "snd (mem_run xs m)"] by (simp add: known_types_def)
  from traced_leaks [OF assms(1) this memory_held(1) [OF assms(3-5)]] obtain p where
    p: "trace_programs pid arch heap_end fd envs u pk junk cut1 cut2 (module_ops env ?cs) s = Some p"
      "leak_report p = Some (map made_call (held ?cs))" by blast
  moreover have "map (\<lambda>(name, (r, a), n). (a, n)) (map made_call (held ?cs)) = map (\<lambda>c. (mf_res_id (fst c), mf_res_size (fst c))) (held ?cs)"
    by (simp add: made_call_def)
  ultimately show ?thesis using memory_held(2) [OF assms(3-5)] by auto
qed

section \<open>Descriptor leaks\<close>

text \<open>
  The report on a program traced with the file module has one entry for every descriptor and
  stream the program has left open, and no other.
\<close>

theorem file_leaks:
  assumes conf: "\<And>cs m'. file_run xs m = Some (cs, m') \<Longrightarrow> good_setup pid arch heap_end fd envs cut1 cut2 (module_ops env cs) s"
    and res: "known_type (tr_resources s) (fm_res_fd m)" "known_type (tr_resources s) (fm_res_fp m)" "fm_res_fd m \<noteq> fm_res_fp m"
    and ok: "files_ok {} xs"
  shows "\<exists>cs m' p rep. file_run xs m = Some (cs, m') \<and>
    trace_programs pid arch heap_end fd envs u pk junk cut1 cut2 (module_ops env cs) s = Some p \<and> leak_report p = Some rep \<and>
    distinct (map (\<lambda>(name, k, n). k) rep) \<and>
    (\<lambda>(name, k, n). k) ` set rep = (\<lambda>h. (ucast (fst (handle_key m h)), snd (handle_key m h))) ` foldl handles_after {} xs"
  using files.run_leaks [OF _ _ file_rel_start [OF res(3)], of xs pid arch heap_end fd envs cut1 cut2 env s u pk junk] conf res ok
  unfolding file_run_calls files_ok_legal image_image by simp

section \<open>Shared memory leaks\<close>

text \<open>
  The report on a program traced with the shared memory module has one entry for every segment the
  program has created and that is not destroyed, and one for every attachment.
\<close>

theorem shm_leaks:
  assumes conf: "\<And>cs m'. run_calls shm_trace_on xs m = Some (cs, m') \<Longrightarrow> good_setup pid arch heap_end fd envs cut1 cut2 (module_ops env cs) s"
    and res: "\<forall>r\<in>{sm_segment m, sm_address m, sm_control m}. known_type (tr_resources s) r" "shm_fresh m"
    and ok: "all_legal (shm_legal (sm_pid m)) shm_after shm_none xs"
  shows "\<exists>cs m' p rep. run_calls shm_trace_on xs m = Some (cs, m') \<and>
    trace_programs pid arch heap_end fd envs u pk junk cut1 cut2 (module_ops env cs) s = Some p \<and> leak_report p = Some rep \<and>
    distinct (map (\<lambda>(name, k, n). k) rep) \<and>
    (\<lambda>(name, k, n). k) ` set rep = (\<lambda>k. (ucast (fst k), snd k)) ` shm_keys m (foldl shm_after shm_none xs)"
  by (rule sysv.run_leaks [OF conf res(1) shm_rel_start [OF res(2)] shm_keys_none ok])

end
