(* ===== verification/Examples.thy ===== *)
theory Examples
  imports Trace_Programs
begin

text \<open>
  Concrete programs, tracer states and environments at which the properties of the composed
  programs are applied.
\<close>

section \<open>Reads of a fixed size\<close>

function chunks :: "nat \<Rightarrow> byte list \<Rightarrow> byte list list" where
  "chunks n bs = (if bs = [] \<or> n = 0 then [] else take n bs # chunks n (drop n bs))"
  by pat_completeness auto
termination
  by (relation "measure (\<lambda>(n, bs). length bs)") auto

declare chunks.simps [simp del]

lemma chunks_sound: "0 < n \<Longrightarrow> concat (chunks n bs) = bs \<and> (\<forall>c\<in>set (chunks n bs). c \<noteq> [] \<and> length c \<le> n)"
proof (induction n bs rule: chunks.induct)
  case (1 n bs)
  then show ?case by (subst (1 2) chunks.simps) auto
qed

lemma good_cut_chunks:
  assumes "0 < first" "first \<le> n" "n \<le> lim"
  shows "good_cut first lim (chunks n)"
  unfolding good_cut_def
proof (intro allI impI)
  fix bs :: "byte list" assume bs: "first \<le> length bs"
  have "chunks n bs \<noteq> [] \<and> first \<le> length (hd (chunks n bs))" using bs assms by (subst (1 2) chunks.simps) auto
  moreover have "\<forall>c\<in>set (chunks n bs). c \<noteq> [] \<and> length c \<le> lim" using chunks_sound [of n bs] assms by fastforce
  ultimately show "chunks n bs \<noteq> [] \<and> concat (chunks n bs) = bs \<and> first \<le> length (hd (chunks n bs)) \<and>
      (\<forall>c\<in>set (chunks n bs). c \<noteq> [] \<and> length c \<le> lim)"
    using chunks_sound [of n bs] assms by auto
qed

section \<open>A traced process\<close>

definition ex_resource :: "nat \<Rightarrow> string \<Rightarrow> module_resource" where
  "ex_resource i name = \<lparr>mr_id = of_nat i, mr_type = str name, mr_desc = str name, mr_flags = 0\<rparr>"

definition ex_options :: sp_rtrace_options where
  "ex_options = \<lparr>op_backtrace_depth = 0, op_enable_timestamps = False, op_enable = False, op_manage_preproc = True,
     op_enable_packet_buffering = True, op_output_dir = str ''/tmp'', op_postproc = str ''post'', op_start_dir = str ''/'',
     op_filter = sp_rtrace_filter_create FILTER_TYPE_ALL\<rparr>"

definition ex_tracer :: "module_resource list \<Rightarrow> tracer" where
  "ex_tracer rs = \<lparr>tr_options = ex_options, tr_fd_proc = 0, tr_buffer = replicate 8192 0, tr_head = 0, tr_locked = False,
     tr_modules = [], tr_resources = rs, tr_heap_info = replicate 10 0, tr_heap_bottom = 0, tr_proc_name = str ''prog'',
     tr_initialized = True, tr_out = [], tr_broken = False\<rparr>"

definition ex_env :: "nat \<Rightarrow> call_env" where
  "ex_env i = \<lparr>ce_backtrace = (\<lambda>n. []), ce_context = 0, ce_clock = None\<rparr>"

definition ex_listener_env :: "nat \<Rightarrow> listener_env" where
  "ex_listener_env k = \<lparr>le_maps = (\<lambda>pid. None), le_time = (1, 2), le_connect = (\<lambda>d p. 5)\<rparr>"

lemma ex_envs: "good_envs ex_listener_env" "\<forall>k x y. 0 < le_connect (ex_listener_env k) x y"
  by (simp_all add: good_envs_def env_maps_def ex_listener_env_def)

text \<open>A call that can be traced by the example process.\<close>

definition ex_call_ok :: "module_resource list \<Rightarrow> mcall \<Rightarrow> bool" where
  "ex_call_ok rs c \<longleftrightarrow> (case snd c of Some as \<Rightarrow> length (encode (P_Args as)) \<le> 1000 \<and> packet_fits (P_Args as) | None \<Rightarrow> True) \<and>
     (\<exists>name. mf_name (fst c) = Some name \<and> is_cstring name \<and> length name < 64) \<and>
     unat (mf_res_type_id (fst c)) < RES_INDEX_SIZE"

definition ex_resource_ok :: "module_resource \<Rightarrow> bool" where
  "ex_resource_ok r \<longleftrightarrow> is_cstring (mr_type r) \<and> length (mr_type r) < 64 \<and> is_cstring (mr_desc r) \<and> length (mr_desc r) < 64 \<and>
     fits_word (mr_id r)"

lemma write_string_bound: "length (write_string s) \<le> length (stored_text s) + 5"
  using pad_zeros_aligned(2) [of "2 + length (stored_text s)"]
  by (auto simp: write_string_def stored_text_def Let_def split: option.split)

lemma write_string_short: "length s < 64 \<Longrightarrow> length (write_string (Some s)) < 70"
  using write_string_bound [of "Some s"] by (simp add: stored_text_def)

definition ex_packets :: "mcall \<Rightarrow> trace_packet list" where
  "ex_packets c = P_Call (fst c) 0 0 # (case snd c of Some as \<Rightarrow> [P_Args as] | None \<Rightarrow> []) @ [P_Trace None]"

lemma ex_op_packets: "op_packets (ex_options\<lparr>op_enable := True\<rparr>) rs (call_op (ex_env i) c) = ex_packets c"
  by (simp add: call_op_def ex_env_def call_timestamp_def ex_options_def select_trace_def ex_packets_def)

lemma ex_ops_packets:
  "ops_packets (ex_options\<lparr>op_enable := True\<rparr>) rs (map (\<lambda>(i, c). call_op (ex_env i) c) ys) = concat (map (ex_packets \<circ> snd) ys)"
proof (induction ys)
  case (Cons y ys)
  have "op_resources rs (call_op (ex_env (fst y)) (snd y)) = rs" by (simp add: call_op_def)
  with Cons show ?case by (simp add: case_prod_beta ex_op_packets)
qed simp

lemma ex_call_small:
  assumes "ex_call_ok rs c"
  shows "length (encode_all (ex_packets c)) \<le> PIPE_BUFFER_SIZE"
    "q \<in> set (ex_packets c) \<Longrightarrow> packet_fits q \<and> (case q of P_Call c x t \<Rightarrow> unat (mf_res_type_id c) < RES_INDEX_SIZE | _ \<Rightarrow> True)"
proof -
  obtain name where n: "mf_name (fst c) = Some name" "is_cstring name" "length name < 64"
    using assms by (auto simp: ex_call_ok_def)
  have "length (encode (P_Call (fst c) 0 0)) < 200" "length (encode (P_Trace None)) < 100"
    using write_string_short [OF n(3)] n(1) by (simp_all add: encode_def call_payload_def trace_payload_def)
  moreover have "length (encode (P_Args as)) \<le> 1000" if "snd c = Some as" for as using assms that by (simp add: ex_call_ok_def)
  ultimately show "length (encode_all (ex_packets c)) \<le> PIPE_BUFFER_SIZE"
    by (cases "snd c") (auto simp: ex_packets_def PIPE_BUFFER_SIZE_def)
  have "unat (mf_res_type_id (fst c)) < 2147483648" using assms by (simp add: ex_call_ok_def RES_INDEX_SIZE_def)
  then have "packet_fits (P_Call (fst c) 0 0)" "packet_fits (P_Trace None)"
    using n by (simp_all add: fits_string_def stored_text_def fits_word_def)
  then show "packet_fits q \<and> (case q of P_Call c x t \<Rightarrow> unat (mf_res_type_id c) < RES_INDEX_SIZE | _ \<Rightarrow> True)" if "q \<in> set (ex_packets c)"
    using assms that by (auto simp: ex_packets_def ex_call_ok_def split: option.splits)
qed

lemma ex_args_ok:
  assumes "\<forall>x\<in>set as. \<exists>s t. x = (Some s, Some t) \<and> is_cstring s \<and> is_cstring t \<and> length s < 64 \<and> length t < 64" "length as \<le> 7"
  shows "length (encode (P_Args (as @ (None, None) # rest))) \<le> 1000 \<and> packet_fits (P_Args (as @ (None, None) # rest))"
proof -
  have u: "args_used (as @ (None, None) # rest) = as" using assms(1) by (induction as) auto
  have "length (concat (map (\<lambda>(name, v). write_string name @ write_string v) as)) \<le> length as * 140"
    using assms(1)
  proof (induction as)
    case (Cons x as)
    then obtain s t where "x = (Some s, Some t)" "length s < 64" "length t < 64" by auto
    with Cons write_string_short [of s] write_string_short [of t] show ?case by simp
  qed simp
  moreover have "fits_string n \<and> fits_string v" if "(n, v) \<in> set as" for n v
    using assms(1) that by (fastforce simp: fits_string_def stored_text_def)
  ultimately show ?thesis using assms(2) by (auto simp: encode_def args_payload_def u)
qed

lemma ex_ops_ok:
  "\<forall>c\<in>set (map snd ys). ex_call_ok rs c \<Longrightarrow>
    ops_ok (ex_options\<lparr>op_enable := True\<rparr>) rs (map (\<lambda>(i, c). call_op (ex_env i) c) ys)"
proof (induction ys)
  case (Cons y ys)
  have "ex_call_ok rs (snd y)" using Cons.prems by simp
  then have "op_ok (ex_options\<lparr>op_enable := True\<rparr>) rs (call_op (ex_env (fst y)) (snd y))"
    using ex_call_small(1) unfolding op_ok.simps ex_op_packets
    by (simp add: call_op_def ex_env_def ex_options_def select_trace_def)
  with Cons show ?case by (simp add: case_prod_beta call_op_def)
qed simp

lemma ex_initial:
  assumes "\<forall>r\<in>set rs. ex_resource_ok r" "q \<in> set (initial_packets pid (ex_tracer rs)) \<or> q \<in> set (final_packets heap_end (ex_tracer rs))"
  shows "small_packet q \<and> packet_fits q \<and> (\<forall>c x t. q \<noteq> P_Call c x t)"
proof -
  have "length (encode (P_Resource r)) \<le> PIPE_BUFFER_SIZE \<and> packet_fits (P_Resource r)" if "r \<in> set rs" for r
    using that assms(1) write_string_short [of "mr_type r"] write_string_short [of "mr_desc r"]
    by (auto simp: ex_resource_ok_def encode_def resource_payload_def PIPE_BUFFER_SIZE_def fits_string_def stored_text_def)
  then show ?thesis using assms(2)
    by (auto simp: initial_packets_def final_packets_def ex_tracer_def ex_options_def small_packet_def main_module_def encode_def
        module_info_payload_def PIPE_BUFFER_SIZE_def fits_string_def stored_text_def str_def is_cstring_def write_string_def
        pad_zeros_eq Let_def)
qed

lemma ex_session:
  assumes "registry_ok rs" "\<forall>r\<in>set rs. ex_resource_ok r" "\<forall>c\<in>set cs. ex_call_ok rs c"
  shows "session_fits pid heap_end (module_ops ex_env cs) (ex_tracer rs)"
proof -
  let ?ys = "zip [0..<length cs] cs"
  have ys: "\<forall>c\<in>set (map snd ?ys). ex_call_ok rs c" using assms(3) by simp
  have opt: "tr_options (ex_tracer rs) = ex_options" "tr_resources (ex_tracer rs) = rs" by (simp_all add: ex_tracer_def)
  have q: "packet_fits q \<and> (case q of P_Call c x t \<Rightarrow> unat (mf_res_type_id c) < RES_INDEX_SIZE | _ \<Rightarrow> True)"
    if "q \<in> set (session_packets pid heap_end (module_ops ex_env cs) (ex_tracer rs))" for q
  proof (cases "q \<in> set (initial_packets pid (ex_tracer rs)) \<or> q \<in> set (final_packets heap_end (ex_tracer rs))")
    case True
    from ex_initial [OF assms(2) this] show ?thesis by (simp split: trace_packet.split)
  next
    case False
    then have "q \<in> set (concat (map (ex_packets \<circ> snd) ?ys))"
      using that ex_ops_packets [of rs] opt by (simp add: session_packets_def module_ops_def)
    then obtain c where "c \<in> set cs" "q \<in> set (ex_packets c)" by (auto dest: set_zip_rightD)
    then show ?thesis using assms(3) ex_call_small(2) by blast
  qed
  have "session_ok pid heap_end (module_ops ex_env cs) (ex_tracer rs)"
    using ex_initial [OF assms(2)] ex_ops_ok [OF ys] opt
    by (auto simp: session_ok_def pipe_inv_def ex_tracer_def ex_options_def PIPE_BUFFER_SIZE_def module_ops_def)
  then show ?thesis using q assms(1) opt by (simp add: session_fits_def ex_tracer_def)
qed

definition ex_arch :: cstring where
  "ex_arch = str ''x86_64''"

lemma ex_arch_ok: "is_cstring ex_arch" "length ex_arch < 240" "handshake_size ex_arch = 16"
  by (simp_all add: ex_arch_def str_def is_cstring_def handshake_size_def ALIGN_SIZE_def)

lemma ex_setup:
  assumes "registry_ok rs" "\<forall>r\<in>set rs. ex_resource_ok r" "\<forall>c\<in>set cs. ex_call_ok rs c"
  shows "good_setup 77 ex_arch 0 5 ex_listener_env (chunks 100) (chunks 50) (module_ops ex_env cs) (ex_tracer rs)"
  using ex_session [OF assms] ex_envs ex_arch_ok
  by (simp add: good_setup_def good_cut_chunks LISTENER_BUFFER_SIZE_def BUFFER_SIZE_def) (simp add: ex_tracer_def)

section \<open>Three traced programs\<close>

definition ex_memory_resources :: "module_resource list" where
  "ex_memory_resources = [ex_resource 1 ''memory'']"

definition ex_memory :: memory_module where
  "ex_memory = \<lparr>mm_res = 1, mm_get_heap = False, mm_on = True, mm_lock = False, mm_emu = emu_init 1000\<rparr>"

definition ex_mem_program :: "mem_op list" where
  "ex_mem_program = [Malloc 100 500000, Malloc 20 600000, Realloc 500000 150 700000, Free 600000]"

definition ex_file_resources :: "module_resource list" where
  "ex_file_resources = [ex_resource 1 ''fd'', ex_resource 2 ''fp'']"

definition ex_file :: file_module where
  "ex_file = \<lparr>fm_fds = (\<lambda>_. FD_TYPE_UNKNOWN), fm_res_fd = 1, fm_res_fp = 2, fm_last_fd = -1, fm_info = replicate 110 0\<rparr>"

definition ex_file_program :: "file_op list" where
  "ex_file_program = [Pipe 3 4 0, Close 3 0, Epoll_create 3, Close 4 0]"

definition ex_shm_resources :: "module_resource list" where
  "ex_shm_resources = [ex_resource 1 ''segment'', ex_resource 2 ''address'', ex_resource 3 ''control'']"

definition ex_shm :: shm_module where
  "ex_shm = \<lparr>sm_pid = 77, sm_table = a_init (nat SYSV_HASH_SIZE), sm_segment = 1, sm_address = 2, sm_control = 3\<rparr>"

definition ex_stat :: "(int \<times> u32) list \<Rightarrow> shm_stat" where
  "ex_stat xs i = map_option (\<lambda>md. \<lparr>ds_cpid = 77, ds_nattch = 1, ds_mode = md, ds_segsz = 4096\<rparr>) (map_of xs i)"

text \<open>A segment is marked while it is attached and destroyed by the detachment, another one is left attached.\<close>

definition ex_shm_program :: "shm_op list" where
  "ex_shm_program = [Shmget 4096 IPC_CREAT 7, Shmat 7 (ex_stat [(7, 0)]) 20480, Shmctl 7 IPC_RMID (ex_stat [(7, 0)]) 0,
     Shmget 4096 IPC_CREAT 8, Shmat 8 (ex_stat [(7, SHM_DEST), (8, 0)]) 36864, Shmdt 20480 (ex_stat [(7, SHM_DEST), (8, 0)]) 0]"

lemma ex_stat_ok:
  assumes "dom (sw_own w) = set (map fst xs)" "\<And>i md. map_of xs i = Some md \<Longrightarrow>
    (\<exists>a. attached w i = {a}) \<and> sw_own w i = Some (md AND SHM_DEST \<noteq> 0)"
  shows "stat_ok 77 w (ex_stat xs)"
  unfolding stat_ok_def
proof
  fix i
  show "case sw_own w i of
      Some marked \<Rightarrow> \<exists>ds. ex_stat xs i = Some ds \<and> ds_cpid ds = 77 \<and> unat (ds_nattch ds) = card (attached w i) \<and>
        card (attached w i) < 2 ^ 31 \<and> (ds_mode ds AND SHM_DEST \<noteq> 0) = marked
    | None \<Rightarrow> \<forall>ds. ex_stat xs i = Some ds \<longrightarrow> ds_cpid ds \<noteq> 77"
  proof (cases "map_of xs i")
    case None
    then have "sw_own w i = None" using assms(1) by (auto simp: map_of_eq_None_iff)
    with None show ?thesis by (simp add: ex_stat_def)
  next
    case (Some md)
    from assms(2) [OF this] Some show ?thesis by (auto simp: ex_stat_def)
  qed
qed

lemma ex_registries:
  "registry_ok ex_memory_resources" "\<forall>r\<in>set ex_memory_resources. ex_resource_ok r"
  "registry_ok ex_file_resources" "\<forall>r\<in>set ex_file_resources. ex_resource_ok r"
  "registry_ok ex_shm_resources" "\<forall>r\<in>set ex_shm_resources. ex_resource_ok r"
  by (auto simp: ex_memory_resources_def ex_file_resources_def ex_shm_resources_def registry_ok_def ex_resource_def ex_resource_ok_def str_def
      is_cstring_def fits_word_def less_Suc_eq)

lemma ex_memory_calls: "\<forall>c\<in>set (fst (mem_run ex_mem_program ex_memory)). ex_call_ok ex_memory_resources c"
  by (simp add: ex_mem_program_def ex_memory_def malloc_entry_def realloc_entry_def free_entry_def trace_malloc_def trace_realloc_def
      trace_free_def is_in_internal_heap_def EMU_HEAP_SIZE_def emu_init_def memory_call_def ex_call_ok_def str_def is_cstring_def RES_INDEX_SIZE_def)

lemma ex_file_calls: "file_run ex_file_program ex_file = Some (cs, m') \<Longrightarrow> \<forall>c\<in>set cs. ex_call_ok ex_file_resources c"
  by (auto simp: ex_file_program_def ex_file_def trace_pipe_def trace_close_def trace_epoll_create_def trace_fd_common_def
      then_report_def no_report_def set_fd_def fd_call_def ex_call_ok_def str_def is_cstring_def RES_INDEX_SIZE_def MAX_FD_COUNT_def)

lemma ex_shm_world: "foldl shm_after shm_none ex_shm_program = \<lparr>sw_own = [8 \<mapsto> False], sw_at = [36864 \<mapsto> 8]\<rparr>"
  by (auto simp: ex_shm_program_def shm_none_def IPC_CREAT_def IPC_RMID_def attached_def)

lemma is_cstring_digits: "2 \<le> b \<Longrightarrow> b \<le> 16 \<Longrightarrow> is_cstring (digits b n)"
  using digits_chars [of b n] digit_char_nonzero by (fastforce simp: is_cstring_def)

lemma ex_shm_format:
  "is_cstring (format_0x n)" "format_d 77 = str ''77''"
  "is_cstring (str ''77'')" "length (str ''77'') < 64" "length (format_0x (unat (w :: u32))) < 64"
  using is_cstring_digits [of 16 n] format_fits(1) [of w]
  by (simp_all add: format_0x_def format_d_def format_u_def format_x_def digits.simps digit_char_def str_def is_cstring_def)

lemma shm_call_ok:
  assumes "unat r < RES_INDEX_SIZE" "is_cstring (str name)" "length name < 64"
    "args = None \<or> (\<exists>as. args = Some (as @ [(None, None)]) \<and> length as \<le> 7 \<and>
      (\<forall>x\<in>set as. \<exists>s t. x = (Some s, Some t) \<and> is_cstring s \<and> is_cstring t \<and> length s < 64 \<and> length t < 64))"
  shows "ex_call_ok rs (shm_call r ty name n i args)"
  using assms ex_args_ok by (auto simp: ex_call_ok_def shm_call_def str_def)

definition ex_ids :: "shm_module \<Rightarrow> bool" where
  "ex_ids m \<longleftrightarrow> sm_segment m = 1 \<and> sm_address m = 2 \<and> sm_control m = 3"

lemma ex_shm_step:
  assumes "shm_trace_on x m = Some (cs, m')" "ex_ids m" "\<And>i st rc. x = Shmat i st rc \<Longrightarrow> \<exists>ys. st = ex_stat ys"
  shows "ex_ids m' \<and> (\<forall>c\<in>set cs. ex_call_ok rs c)"
proof (cases x)
  case (Shmget n fl rc)
  then show ?thesis using assms by (auto simp: trace_shmget_def ex_ids_def RES_INDEX_SIZE_def str_def is_cstring_def intro!: shm_call_ok)
next
  case (Shmctl i cmd st rc)
  have "ex_call_ok rs (shm_call r ty ''shmctl'' n j (Some [shm_arg ''cmd'' (str ''IPC_RMID''), (None, None)]))" if "unat r < RES_INDEX_SIZE" for r ty n j
    by (rule shm_call_ok) (use that in \<open>auto simp: str_def is_cstring_def intro!: exI [of _ "[shm_arg ''cmd'' (str ''IPC_RMID'')]"]\<close>)
  moreover have "ex_call_ok rs (shm_call r ty ''shmctl'' n j None)" if "unat r < RES_INDEX_SIZE" for r ty n j
    by (rule shm_call_ok) (use that in \<open>auto simp: str_def is_cstring_def\<close>)
  ultimately show ?thesis using assms(1,2) Shmctl by (auto simp: trace_shmctl_def ex_ids_def RES_INDEX_SIZE_def Let_def)
next
  case (Shmat i st rc)
  then obtain ys where st: "st = ex_stat ys" using assms(3) by blast
  define cpid where "cpid = (case st i of Some ds \<Rightarrow> format_d (ds_cpid ds) | None \<Rightarrow> [])"
  have cpid: "is_cstring cpid" "length cpid < 64"
    using ex_shm_format(2-4) by (cases "map_of ys i"; simp add: cpid_def st ex_stat_def is_cstring_def)+
  have "ex_call_ok rs (shm_call 2 ty ''shmat'' n j (Some [shm_arg ''shmid'' (format_0x (unat (w :: u32))), shm_arg ''cpid'' cpid, (None, None)]))" for ty n j w
    by (rule shm_call_ok) (use cpid ex_shm_format in \<open>auto simp: RES_INDEX_SIZE_def str_def is_cstring_def
      intro!: exI [of _ "[shm_arg ''shmid'' (format_0x (unat (w :: u32))), shm_arg ''cpid'' cpid]"]\<close>)
  then show ?thesis using assms(1,2) unfolding Shmat shm_trace_on.simps trace_shmat_def cpid_def [symmetric]
    by (auto simp: ex_ids_def Let_def bind_eq_Some_conv split: if_splits)
next
  case (Shmdt a st rc)
  have "ex_call_ok rs (shm_call r ty ''shmdt'' n j None)" if "unat r < RES_INDEX_SIZE" for r ty n j
    by (rule shm_call_ok) (use that in \<open>auto simp: str_def is_cstring_def\<close>)
  then have "ex_call_ok rs (shm_call r ty ''shmdt'' n j None)" if "r = 1 \<or> r = 2" for r ty n j
    using that by (auto simp: RES_INDEX_SIZE_def)
  moreover obtain k j t where "cs = (if rc = 0 then [shm_call (sm_address m) FTYPE_FREE ''shmdt'' 0 a None] @
      (if k = (1 :: int) then [shm_call (sm_segment m) FTYPE_FREE ''shmdt'' 0 (word_of_int j) None] else []) else [])" "m' = m\<lparr>sm_table := t\<rparr>"
    using assms(1) unfolding Shmdt shm_trace_on.simps trace_shmdt_def bind_eq_Some_conv case_prod_beta by blast
  ultimately show ?thesis using assms(2) by (auto simp: ex_ids_def)
qed

lemma ex_shm_run:
  "run_calls shm_trace_on xs m = Some (cs, m') \<Longrightarrow> ex_ids m \<Longrightarrow> \<forall>i st rc. Shmat i st rc \<in> set xs \<longrightarrow> (\<exists>ys. st = ex_stat ys) \<Longrightarrow>
    \<forall>c\<in>set cs. ex_call_ok rs c"
proof (induction xs arbitrary: m cs)
  case (Cons x xs)
  then obtain as m1 ds where r: "shm_trace_on x m = Some (as, m1)" "run_calls shm_trace_on xs m1 = Some (ds, m')" "cs = as @ ds"
    by (auto simp: bind_eq_Some_conv)
  have "ex_ids m1 \<and> (\<forall>c\<in>set as. ex_call_ok rs c)" by (rule ex_shm_step [OF r(1) Cons.prems(2)]) (use Cons.prems(3) in auto)
  then show ?case using Cons.IH [OF r(2)] Cons.prems(3) r(3) by auto
qed simp

lemma ex_shm_calls: "run_calls shm_trace_on ex_shm_program ex_shm = Some (cs, m') \<Longrightarrow> \<forall>c\<in>set cs. ex_call_ok ex_shm_resources c"
  by (erule ex_shm_run) (auto simp: ex_shm_program_def ex_ids_def ex_shm_def)

lemma ex_shm_legal: "all_legal (shm_legal (sm_pid ex_shm)) shm_after shm_none ex_shm_program"
proof -
  have "stat_ok 77 \<lparr>sw_own = [7 \<mapsto> False], sw_at = [20480 \<mapsto> 7]\<rparr> (ex_stat [(7, 0)])"
    by (rule ex_stat_ok) (auto simp: attached_def split: if_splits)
  moreover have "stat_ok 77 \<lparr>sw_own = [7 \<mapsto> True, 8 \<mapsto> False], sw_at = [20480 \<mapsto> 7, 36864 \<mapsto> 8]\<rparr> (ex_stat [(7, SHM_DEST), (8, 0)])"
    by (rule ex_stat_ok) (auto simp: attached_def SHM_DEST_def split: if_splits)
  moreover have "{a :: pointer_t. (if a = 20480 then Some (7::int) else None) = Some 7} = {20480}" by auto
  ultimately show ?thesis
    by (simp add: ex_shm_program_def shm_none_def IPC_CREAT_def IPC_RMID_def attached_def ex_shm_def)
qed

lemmas ex_memory_setup = ex_setup [OF ex_registries(1,2) ex_memory_calls]
  and ex_file_setup = ex_setup [OF ex_registries(3,4) ex_file_calls]
  and ex_shm_setup = ex_setup [OF ex_registries(5,6) ex_shm_calls]

end
