(* ===== verification/Module_Init.thy ===== *)
theory Module_Init
  imports Tracer
begin

text \<open>
  How a tracing module comes into use: the tables of functions its entry points dispatch to, the
  loading of the original functions, the registration at the main module, and the switching by the
  main module.  The dispatch is a state machine; its invariant is proved by rule induction.
\<close>

section \<open>The dispatch state\<close>

datatype init_mode = MODULE_UNINITIALIZED | MODULE_LOADED | MODULE_READY

datatype trace_table = Trace_init | Trace_emu | Trace_off | Trace_on

text \<open>
  \<open>di_symbols\<close> are the original functions that were found for \<open>trace_off\<close> (before, it is empty, or holds
  the own implementation of the memory module), \<open>di_slot\<close> the position of the module in the
  registry of the main module, \<open>di_res\<close> the ids of its resource types.
\<close>

record dispatch =
  di_mode :: init_mode
  di_rt :: trace_table
  di_init_rt :: trace_table
  di_symbols :: "pointer_t list"
  di_slot :: "nat option"
  di_res :: "u32 list"

text \<open>\<open>dd_emu\<close> tells that the module has its own implementation of its functions for the time of the loading.\<close>

record module_desc =
  dd_emu :: bool
  dd_name :: cstring
  dd_symcount :: nat
  dd_resources :: "module_resource list"

definition dispatch_start :: "module_desc \<Rightarrow> dispatch" where
  "dispatch_start desc = \<lparr>di_mode = MODULE_UNINITIALIZED, di_rt = Trace_init, di_init_rt = Trace_off,
     di_symbols = replicate (dd_symcount desc) 0, di_slot = None, di_res = []\<rparr>"

definition module_enable :: "bool \<Rightarrow> dispatch \<Rightarrow> dispatch" where
  "module_enable v d = d\<lparr>di_rt := (if v then Trace_on else Trace_off)\<rparr>"

text \<open>The main module calls the registered functions when it switches the tracing.\<close>

definition callbacks :: "tracer \<Rightarrow> dispatch \<Rightarrow> dispatch" where
  "callbacks s d = (case di_slot d of Some i \<Rightarrow> module_enable (md_enabled (tr_modules s ! i)) d | None \<Rightarrow> d)"

section \<open>Initialisation\<close>

definition load_begin :: "module_desc \<Rightarrow> dispatch \<Rightarrow> dispatch" where
  "load_begin desc d = (if dd_emu desc then d\<lparr>di_rt := Trace_emu\<rparr> else d)"

definition load_end :: "pointer_t list \<Rightarrow> dispatch \<Rightarrow> dispatch" where
  "load_end syms d = d\<lparr>di_symbols := syms, di_mode := MODULE_LOADED\<rparr>"

fun register_resources :: "module_resource list \<Rightarrow> tracer \<Rightarrow> (u32 list \<times> tracer) option" where
  "register_resources [] s = Some ([], s)"
| "register_resources (r # rs) s = do {
     (i, s) \<leftarrow> sp_rtrace_register_resource r s;
     (is, s) \<leftarrow> register_resources rs s;
     Some (i # is, s) }"

text \<open>\<open>main_init\<close> is \<open>sp_rtrace_initialize\<close> in the environment of the process.\<close>

type_synonym main_init = "tracer \<Rightarrow> (bool \<times> tracer) option"

definition module_ready :: "module_desc \<Rightarrow> main_init \<Rightarrow> dispatch \<Rightarrow> tracer \<Rightarrow> (dispatch \<times> tracer) option" where
  "module_ready desc main_init d s = do {
     (ok, s) \<leftarrow> main_init s;
     if \<not> ok then Some (d, s)
     else do {
       let slot = length (tr_modules s);
       (i, s) \<leftarrow> sp_rtrace_register_module (dd_name desc) 1 0 (di_symbols d) s;
       let d = callbacks s (if i = 0 then d else d\<lparr>di_slot := Some slot\<rparr>);
       (is, s) \<leftarrow> register_resources (dd_resources desc) s;
       let d = callbacks s d;
       Some (d\<lparr>di_res := is, di_init_rt := di_rt d, di_mode := MODULE_READY\<rparr>, s) } }"

text \<open>The whole function: \<open>syms\<close> are the results of \<open>dlsym\<close>; the first case falls through to the second one.\<close>

definition trace_initialize :: "module_desc \<Rightarrow> pointer_t list \<Rightarrow> main_init \<Rightarrow> dispatch \<Rightarrow> tracer \<Rightarrow> (dispatch \<times> tracer) option" where
  "trace_initialize desc syms main_init d s =
     (let d = (if di_mode d = MODULE_UNINITIALIZED then load_end syms (load_begin desc d) else d)
      in if di_mode d = MODULE_LOADED then module_ready desc main_init d s else Some (d, s))"

text \<open>
  An entry point uses the table \<open>trace_rt\<close>; the functions of \<open>trace_init\<close> initialise the module and use the
  table \<open>trace_init_rt\<close>.  The result is the table whose function finally runs; \<open>Trace_init\<close> there stands
  for a call that never returns.
\<close>

definition dispatch_call :: "module_desc \<Rightarrow> pointer_t list \<Rightarrow> main_init \<Rightarrow> dispatch \<Rightarrow> tracer \<Rightarrow> (trace_table \<times> dispatch \<times> tracer) option" where
  "dispatch_call desc syms main_init d s =
     (if di_rt d = Trace_init
      then do { (d, s) \<leftarrow> trace_initialize desc syms main_init d s; Some (di_init_rt d, d, s) }
      else Some (di_rt d, d, s))"

section \<open>The modules\<close>

definition module_res :: "string \<Rightarrow> string \<Rightarrow> u32 \<Rightarrow> module_resource" where
  "module_res type desc flags = \<lparr>mr_id = 0, mr_type = str type, mr_desc = str desc, mr_flags = flags\<rparr>"

definition memory_desc :: module_desc where
  "memory_desc = \<lparr>dd_emu = True, dd_name = str ''memory'', dd_symcount = 5,
     dd_resources = [module_res ''memory'' ''memory allocation in bytes'' 0]\<rparr>"

definition file_desc :: module_desc where
  "file_desc = \<lparr>dd_emu = False, dd_name = str ''file'', dd_symcount = 33,
     dd_resources = [module_res ''fd'' ''file descriptor'' 0, module_res ''fp'' ''file pointer'' 0]\<rparr>"

definition shmsysv_desc :: module_desc where
  "shmsysv_desc = \<lparr>dd_emu = False, dd_name = str ''shmsysv'', dd_symcount = 4,
     dd_resources = [module_res ''segment'' ''shared memory segment'' 1, module_res ''address'' ''shared memory attachments'' 0,
       module_res ''control'' ''shared memory segment control operation'' 0]\<rparr>"

definition memtransfer_desc :: module_desc where
  "memtransfer_desc = \<lparr>dd_emu = False, dd_name = str ''memtransfer'', dd_symcount = 24,
     dd_resources = [module_res ''memtransfer'' ''memory transfer operations in bytes'' 0]\<rparr>"

section \<open>The registry of modules\<close>

text \<open>The operations of the main module keep the registered modules; they change only what is enabled.\<close>

definition module_slots :: "tracer \<Rightarrow> (cstring \<times> u32) list" where
  "module_slots s = map (\<lambda>m. (md_name m, md_id m)) (tr_modules s)"

lemma module_slots_simps [simp]:
  "module_slots (enable_tracing v s) = module_slots s" "module_slots (pipe_buffer_flush s) = module_slots s"
  "module_slots (pipe_buffer_unlock ptr n s) = module_slots s" "module_slots (s\<lparr>tr_options := opt\<rparr>) = module_slots s"
  "module_slots (s\<lparr>tr_fd_proc := fd\<rparr>) = module_slots s" "module_slots (pipe_buffer_reset s) = module_slots s"
  "module_slots (close_pipe s) = module_slots s" "module_slots (snd (open_pipe accessible fd s)) = module_slots s"
  "module_slots (s\<lparr>tr_resources := rs\<rparr>) = module_slots s"
  by (simp_all add: module_slots_def enable_tracing_def pipe_buffer_flush_def pipe_buffer_unlock_def pipe_buffer_reset_def
      close_pipe_def open_pipe_def Let_def comp_def)

lemma module_slots_emit: "emit bs s = Some (n, s') \<Longrightarrow> module_slots s' = module_slots s"
  by (auto simp: emit_def pipe_buffer_lock_def put_bytes_def bind_eq_Some_conv split: if_splits) (simp add: module_slots_def)

lemma module_slots_handshake: "write_handshake a b arch s = Some (n, s') \<Longrightarrow> module_slots s' = module_slots s"
  by (auto simp: write_handshake_def pipe_buffer_lock_def put_bytes_def bind_eq_Some_conv Let_def split: if_splits) (simp add: module_slots_def)

lemma module_slots_write:
  "write_module_info m s = Some (n, s') \<Longrightarrow> module_slots s' = module_slots s"
  "write_resource_registry r s = Some (n, s') \<Longrightarrow> module_slots s' = module_slots s"
  "write_heap_info h s = Some (n, s') \<Longrightarrow> module_slots s' = module_slots s"
  by (auto simp: write_module_info_def write_resource_registry_def write_heap_info_def dest: module_slots_emit split: if_splits)

lemma module_slots_all:
  assumes "\<And>x s n s'. f x s = Some (n, s') \<Longrightarrow> module_slots s' = module_slots s"
  shows "write_all f xs s = Some s' \<Longrightarrow> module_slots s' = module_slots s"
  by (induction xs arbitrary: s) (auto simp: bind_eq_Some_conv dest: assms)

lemma module_slots_lists:
  "write_all write_module_info ms s = Some s' \<Longrightarrow> module_slots s' = module_slots s"
  "write_all write_resource_registry rs s = Some s' \<Longrightarrow> module_slots s' = module_slots s"
  by (rule module_slots_all [OF module_slots_write(1)]; assumption) (rule module_slots_all [OF module_slots_write(2)]; assumption)

lemma module_slots_initial: "write_initial_data pid arch s = Some s' \<Longrightarrow> module_slots s' = module_slots s"
  by (auto simp: write_initial_data_def write_output_settings_def write_process_info_def sp_rtrace_write_new_library_def bind_eq_Some_conv Let_def
      dest!: module_slots_handshake module_slots_emit module_slots_write module_slots_lists)

lemma module_slots_toggle: "signal_toggle_tracing pid arch he acc fd s = Some s' \<Longrightarrow> module_slots s' = module_slots s"
proof -
  have "module_slots t = module_slots s" if "open_pipe a fd s = (g, t)" for a g t and s :: tracer
    using module_slots_simps(8) [of a fd s] that by simp
  moreover assume "signal_toggle_tracing pid arch he acc fd s = Some s'"
  ultimately show ?thesis
    by (auto simp: signal_toggle_tracing_def sp_rtrace_write_new_library_def bind_eq_Some_conv Let_def split: if_splits prod.splits
        dest!: module_slots_initial module_slots_emit module_slots_write(3))
qed

lemma module_slots_initialize:
  assumes "sp_rtrace_initialize getenv cmdline pid arch he acc fd s = Some (ok, s')"
  shows "module_slots s' = module_slots s"
proof -
  have "module_slots t = module_slots s" if "open_pipe a fd s = (g, t)" for a g t and s :: tracer
    using module_slots_simps(8) [of a fd s] that by simp
  moreover have "module_slots (s\<lparr>tr_heap_bottom := h\<rparr>) = module_slots s" "module_slots (s\<lparr>tr_proc_name := n\<rparr>) = module_slots s"
    "module_slots (s\<lparr>tr_initialized := v\<rparr>) = module_slots s" for s h n v by (simp_all add: module_slots_def)
  ultimately show ?thesis using assms
    by (auto simp: sp_rtrace_initialize_def bind_eq_Some_conv Let_def split: if_splits prod.splits dest!: module_slots_initial)
qed

lemma module_slots_resource: "sp_rtrace_register_resource r s = Some (i, s') \<Longrightarrow> module_slots s' = module_slots s"
  by (auto simp: sp_rtrace_register_resource_def bind_eq_Some_conv Let_def split: option.splits if_splits dest!: module_slots_write(2))

lemma module_slots_resources: "register_resources rs s = Some (is, s') \<Longrightarrow> module_slots s' = module_slots s"
  by (induction rs arbitrary: s "is") (auto simp: bind_eq_Some_conv dest: module_slots_resource)

lemma module_slots_module:
  assumes "sp_rtrace_register_module name a b syms s = Some (i, s')"
  shows "0 \<notin> set syms" "length (tr_modules s) < 16 \<Longrightarrow> i \<noteq> 0 \<and> module_slots s' = module_slots s @ [(name, i)]"
    "16 \<le> length (tr_modules s) \<Longrightarrow> i = 0 \<and> s' = s"
proof -
  have "push_bit n (1 :: u32) \<noteq> 0" if "n < 16" for n
    using that by (simp add: push_bit_eq_mult)
  then show "length (tr_modules s) < 16 \<Longrightarrow> i \<noteq> 0 \<and> module_slots s' = module_slots s @ [(name, i)]"
    using assms by (auto simp: sp_rtrace_register_module_def bind_eq_Some_conv Let_def split: if_splits dest!: module_slots_write(1))
      (simp_all add: module_slots_def)
qed (use assms in \<open>auto simp: sp_rtrace_register_module_def split: if_splits\<close>)

section \<open>The state machine\<close>

datatype mod_phase = P_Idle | P_Loading | P_Finished

datatype mod_event = Ev_Load | Ev_Loaded | Ev_Ready | Ev_Call trace_table | Ev_Main | Ev_Fini

type_synonym mod_state = "mod_phase \<times> dispatch \<times> tracer"

text \<open>
  The constructor and the first call load the original functions, and \<open>dlsym\<close> may call functions of the
  module meanwhile; the module becomes ready when the environment is accessible; the main module
  switches the tracing, writes packets and registers other modules; the destructor ends the
  tracing.  Calls use \<open>trace_rt\<close>, or \<open>trace_init_rt\<close> after an unsuccessful attempt to become ready.
\<close>

inductive module_step :: "module_desc \<Rightarrow> mod_state \<Rightarrow> mod_event \<Rightarrow> mod_state \<Rightarrow> bool" for desc where
  Load: "di_mode d = MODULE_UNINITIALIZED \<Longrightarrow> module_step desc (P_Idle, d, s) Ev_Load (P_Loading, load_begin desc d, s)"
| Loaded: "length syms = dd_symcount desc \<Longrightarrow> module_step desc (P_Loading, d, s) Ev_Loaded (P_Idle, load_end syms d, s)"
| Ready: "di_mode d = MODULE_LOADED \<Longrightarrow> length (tr_modules s) < 16 \<Longrightarrow>
    module_ready desc (sp_rtrace_initialize getenv cmdline pid arch he acc fd) d s = Some (d', s') \<Longrightarrow>
    module_step desc (P_Idle, d, s) Ev_Ready (P_Idle, d', s')"
| Call: "di_rt d \<noteq> Trace_init \<Longrightarrow> module_step desc (p, d, s) (Ev_Call (di_rt d)) (p, d, s)"
| Init_Call: "di_rt d = Trace_init \<Longrightarrow> di_mode d \<noteq> MODULE_UNINITIALIZED \<Longrightarrow>
    module_step desc (P_Idle, d, s) (Ev_Call (di_init_rt d)) (P_Idle, d, s)"
| Toggle: "signal_toggle_tracing pid arch he acc fd s = Some s' \<Longrightarrow> p \<noteq> P_Finished \<Longrightarrow>
    module_step desc (p, d, s) Ev_Main (p, callbacks s' d, s')"
| Write: "emit bs s = Some (n, s') \<Longrightarrow> p \<noteq> P_Finished \<Longrightarrow> module_step desc (p, d, s) Ev_Main (p, callbacks s' d, s')"
| Register: "sp_rtrace_register_module name a b syms s = Some (i, s') \<Longrightarrow> p \<noteq> P_Finished \<Longrightarrow>
    module_step desc (p, d, s) Ev_Main (p, callbacks s' d, s')"
| Fini: "di_mode d \<noteq> MODULE_UNINITIALIZED \<Longrightarrow> module_step desc (P_Idle, d, s) Ev_Fini (P_Finished, module_enable False d, s)"

inductive_cases module_callE: "module_step desc x (Ev_Call t) y"

inductive module_reach :: "module_desc \<Rightarrow> mod_state \<Rightarrow> bool" for desc where
  start: "module_reach desc (P_Idle, dispatch_start desc, s)"
| step: "module_reach desc x \<Longrightarrow> module_step desc x e y \<Longrightarrow> module_reach desc y"

text \<open>The invariant, by the mode of the module.\<close>

definition slot_ok :: "module_desc \<Rightarrow> dispatch \<Rightarrow> tracer \<Rightarrow> bool" where
  "slot_ok desc d s \<longleftrightarrow> (\<exists>i. di_slot d = Some i \<and> i < length (tr_modules s) \<and> md_name (tr_modules s ! i) = dd_name desc)"

definition module_on :: "dispatch \<Rightarrow> tracer \<Rightarrow> bool" where
  "module_on d s = md_enabled (tr_modules s ! the (di_slot d))"

fun module_inv :: "module_desc \<Rightarrow> mod_state \<Rightarrow> bool" where
  "module_inv desc (p, d, s) = (case di_mode d of
     MODULE_UNINITIALIZED \<Rightarrow> p \<noteq> P_Finished \<and> di_init_rt d = Trace_off \<and> di_slot d = None \<and>
       di_rt d = (if p = P_Loading \<and> dd_emu desc then Trace_emu else Trace_init)
   | MODULE_LOADED \<Rightarrow> p \<noteq> P_Loading \<and> di_init_rt d = Trace_off \<and> di_slot d = None \<and>
       di_rt d = (if p = P_Finished then Trace_off else if dd_emu desc then Trace_emu else Trace_init)
   | MODULE_READY \<Rightarrow> p \<noteq> P_Loading \<and> 0 \<notin> set (di_symbols d) \<and> slot_ok desc d s \<and> di_init_rt d \<in> {Trace_off, Trace_on} \<and>
       di_rt d = (if p \<noteq> P_Finished \<and> module_on d s then Trace_on else Trace_off))"

lemma slot_ok_slots:
  "slot_ok desc d s \<longleftrightarrow> (\<exists>i. di_slot d = Some i \<and> i < length (module_slots s) \<and> fst (module_slots s ! i) = dd_name desc)"
  by (auto simp: slot_ok_def module_slots_def)

lemma slot_ok_grow:
  assumes "slot_ok desc d s" "module_slots s' = module_slots s @ ms" "di_slot d' = di_slot d"
  shows "slot_ok desc d' s'"
  using assms by (auto simp: slot_ok_slots nth_append)

lemma callbacks_simps [simp]:
  "di_mode (callbacks s d) = di_mode d" "di_init_rt (callbacks s d) = di_init_rt d" "di_slot (callbacks s d) = di_slot d"
  "di_symbols (callbacks s d) = di_symbols d" "di_slot d = None \<Longrightarrow> callbacks s d = d"
  by (auto simp: callbacks_def module_enable_def split: option.split)

lemma callbacks_rt: "slot_ok desc d t \<Longrightarrow> di_rt (callbacks s d) = (if module_on d s then Trace_on else Trace_off)"
  by (auto simp: slot_ok_def callbacks_def module_enable_def module_on_def)

lemma module_inv_main:
  assumes "module_inv desc (p, d, s)" "p \<noteq> P_Finished" "module_slots s' = module_slots s @ ms"
  shows "module_inv desc (p, callbacks s' d, s')"
proof (cases "di_mode d")
  case MODULE_READY
  then have ok: "slot_ok desc d s" using assms(1) by simp
  have "module_on (callbacks s' d) s' = module_on d s'" by (simp add: module_on_def)
  with MODULE_READY assms callbacks_rt [OF ok, of s'] slot_ok_grow [OF ok assms(3), of "callbacks s' d"] show ?thesis by simp
qed (use assms in auto)

lemma module_inv_ready:
  assumes inv: "module_inv desc (P_Idle, d, s)" "di_mode d = MODULE_LOADED" and room: "length (tr_modules s) < 16"
    and ready: "module_ready desc (sp_rtrace_initialize getenv cmdline pid arch he acc fd) d s = Some (d', s')"
  shows "module_inv desc (P_Idle, d', s')"
proof -
  obtain ok t where init: "sp_rtrace_initialize getenv cmdline pid arch he acc fd s = Some (ok, t)"
    using ready by (auto simp: module_ready_def bind_eq_Some_conv)
  show ?thesis
proof (cases ok)
  case False
  then have "d' = d" "s' = t" using ready init by (simp_all add: module_ready_def)
  then show ?thesis using inv by simp
next
  case True
  have len: "length (tr_modules t) = length (tr_modules s)"
    using arg_cong [OF module_slots_initialize [OF init], of length] by (simp add: module_slots_def)
  obtain i t1 "is" where r: "sp_rtrace_register_module (dd_name desc) 1 0 (di_symbols d) t = Some (i, t1)"
    "register_resources (dd_resources desc) t1 = Some (is, s')"
    and d': "d' = (let d = callbacks s' (callbacks t1 (if i = 0 then d else d\<lparr>di_slot := Some (length (tr_modules t))\<rparr>))
      in d\<lparr>di_res := is, di_init_rt := di_rt d, di_mode := MODULE_READY\<rparr>)"
    using ready init True by (auto simp: module_ready_def bind_eq_Some_conv Let_def)
  have m: "0 \<notin> set (di_symbols d)" "i \<noteq> 0" "module_slots t1 = module_slots t @ [(dd_name desc, i)]"
    using module_slots_module(1,2) [OF r(1)] room len by simp_all
  let ?e = "d\<lparr>di_slot := Some (length (tr_modules t))\<rparr>"
  have e: "slot_ok desc ?e s'"
    using module_slots_resources [OF r(2)] m(3) by (simp add: slot_ok_slots) (simp add: module_slots_def nth_append)
  have e': "slot_ok desc (callbacks t1 ?e) s'" using e by (simp add: slot_ok_def)
  have rt: "di_rt (callbacks s' (callbacks t1 ?e)) = (if module_on d' s' then Trace_on else Trace_off)"
    using callbacks_rt [OF e', of s'] m(2) by (simp add: d' Let_def module_on_def)
  have "slot_ok desc d' s'" using e m(2) by (simp add: d' Let_def slot_ok_def)
  moreover have "di_rt d' = (if module_on d' s' then Trace_on else Trace_off)" "di_init_rt d' = di_rt d'"
    "di_mode d' = MODULE_READY" "di_symbols d' = di_symbols d" using rt m(2) by (simp_all add: d' Let_def)
  ultimately show ?thesis using m(1) by simp
qed
qed

lemma module_inv_step: "module_step desc x e y \<Longrightarrow> module_inv desc x \<Longrightarrow> module_inv desc y"
proof (induction rule: module_step.induct)
  case (Ready d s getenv cmdline pid arch he acc fd d' s')
  show ?case by (rule module_inv_ready [OF Ready(4,1,2,3)])
next
  case (Toggle pid arch he acc fd s s' p d)
  then show ?case by (intro module_inv_main [where s = s and ms = "[]"]) (simp_all add: module_slots_toggle)
next
  case (Write bs s n s' p d)
  then show ?case by (intro module_inv_main [where s = s and ms = "[]"]) (simp_all add: module_slots_emit)
next
  case (Register name a b syms s i s' p d)
  show ?case
  proof (cases "length (tr_modules s) < 16")
    case True
    with Register module_slots_module(2) [OF Register(1)] show ?thesis by (intro module_inv_main [where s = s and ms = "[(name, i)]"]) auto
  next
    case False
    with Register module_slots_module(3) [OF Register(1)] show ?thesis by (intro module_inv_main [where s = s and ms = "[]"]) auto
  qed
next
  case (Fini d s)
  then show ?case by (cases "di_mode d") (auto simp: module_enable_def slot_ok_def)
qed (auto simp: load_begin_def load_end_def split: init_mode.splits)

theorem module_reach_inv: "module_reach desc x \<Longrightarrow> module_inv desc x"
proof (induction rule: module_reach.induct)
  case (start s)
  then show ?case by (simp add: dispatch_start_def)
qed (rule module_inv_step)

section \<open>Calls\<close>

text \<open>
  No call is sent to an original function before the original functions are loaded, none to a
  tracing function unless the main module has enabled the registered module, and none is sent
  round in circles.
\<close>

theorem dispatch_sound:
  assumes "module_reach desc (p, d, s)" "module_step desc (p, d, s) (Ev_Call t) y"
  shows "t \<noteq> Trace_init" "t \<noteq> Trace_emu \<Longrightarrow> di_mode d \<noteq> MODULE_UNINITIALIZED"
    "t = Trace_on \<longleftrightarrow> di_mode d = MODULE_READY \<and> p \<noteq> P_Finished \<and> module_on d s"
    "di_mode d = MODULE_READY \<Longrightarrow> t \<in> {Trace_off, Trace_on} \<and> 0 \<notin> set (di_symbols d) \<and> slot_ok desc d s"
    "t = Trace_emu \<Longrightarrow> dd_emu desc \<and> di_mode d \<noteq> MODULE_READY"
proof -
  have inv: "module_inv desc (p, d, s)" by (rule module_reach_inv [OF assms(1)])
  have t: "t = di_rt d \<and> t \<noteq> Trace_init \<or> di_rt d = Trace_init \<and> di_mode d \<noteq> MODULE_UNINITIALIZED \<and> t = di_init_rt d"
    by (rule module_callE [OF assms(2)]) auto
  show "t \<noteq> Trace_init" "t \<noteq> Trace_emu \<Longrightarrow> di_mode d \<noteq> MODULE_UNINITIALIZED"
    "t = Trace_on \<longleftrightarrow> di_mode d = MODULE_READY \<and> p \<noteq> P_Finished \<and> module_on d s"
    "di_mode d = MODULE_READY \<Longrightarrow> t \<in> {Trace_off, Trace_on} \<and> 0 \<notin> set (di_symbols d) \<and> slot_ok desc d s"
    "t = Trace_emu \<Longrightarrow> dd_emu desc \<and> di_mode d \<noteq> MODULE_READY"
    using inv t by (cases "di_mode d"; auto split: if_splits)+
qed

text \<open>
  A call is always served, at once or after the loading; while a module with its own
  implementation is loading, by that one.
\<close>

theorem dispatch_progress:
  assumes "module_reach desc (p, d, s)"
  shows "(\<exists>t y. module_step desc (p, d, s) (Ev_Call t) y) \<or>
    di_mode d = MODULE_UNINITIALIZED \<and> (p = P_Idle \<and> (\<exists>y. module_step desc (p, d, s) Ev_Load y) \<or> p = P_Loading \<and> \<not> dd_emu desc)"
proof (cases "di_rt d = Trace_init")
  case False
  then show ?thesis using Call by blast
next
  case True
  have inv: "module_inv desc (p, d, s)" by (rule module_reach_inv [OF assms])
  show ?thesis
  proof (cases "di_mode d = MODULE_UNINITIALIZED")
    case False
    then have "p = P_Idle" using inv True by (cases "di_mode d"; cases p) (auto split: if_splits)
    then show ?thesis using Init_Call [OF True False] by blast
  next
    case uninit: True
    have "\<exists>y. module_step desc (P_Idle, d, s) Ev_Load y" using Load [OF uninit] by blast
    then show ?thesis using inv True uninit by (cases p) (simp_all split: if_splits)
  qed
qed

text \<open>The whole initialisation is a sequence of steps.\<close>

inductive module_steps :: "module_desc \<Rightarrow> mod_state \<Rightarrow> mod_state \<Rightarrow> bool" for desc where
  none: "module_steps desc x x"
| some: "module_step desc x e y \<Longrightarrow> module_steps desc y z \<Longrightarrow> module_steps desc x z"

lemma module_steps_reach: "module_steps desc x y \<Longrightarrow> module_reach desc x \<Longrightarrow> module_reach desc y"
  by (induction rule: module_steps.induct) (auto intro: module_reach.step)

theorem trace_initialize_steps:
  assumes "trace_initialize desc syms (sp_rtrace_initialize getenv cmdline pid arch he acc fd) d s = Some (d', s')"
    "length syms = dd_symcount desc" "length (tr_modules s) < 16"
  shows "module_steps desc (P_Idle, d, s) (P_Idle, d', s')"
proof -
  have ready: "module_steps desc (P_Idle, e, s) (P_Idle, d', s')"
    if "module_ready desc (sp_rtrace_initialize getenv cmdline pid arch he acc fd) e s = Some (d', s')" "di_mode e = MODULE_LOADED" for e
    by (rule some [OF Ready [OF that(2) assms(3) that(1)] none])
  show ?thesis
  proof (cases "di_mode d")
    case MODULE_UNINITIALIZED
    then have "module_steps desc (P_Idle, load_end syms (load_begin desc d), s) (P_Idle, d', s')"
      using assms(1) by (intro ready) (simp_all add: trace_initialize_def load_end_def Let_def)
    then show ?thesis by (rule some [OF Load [OF MODULE_UNINITIALIZED] some [OF Loaded [OF assms(2)]]])
  qed (use assms ready none in \<open>auto simp: trace_initialize_def\<close>)
qed

text \<open>
  A call runs a function of one of the tables, never one of the initialising functions again,
  and leaves the module in a reachable state.
\<close>

lemma module_ready_rt:
  "module_ready desc main_init d s = Some (d', s') \<Longrightarrow> d' = d \<or> di_init_rt d' = di_rt d' \<and> di_mode d' = MODULE_READY"
  by (auto simp: module_ready_def bind_eq_Some_conv Let_def split: if_splits)

theorem dispatch_call_ok:
  assumes reach: "module_reach desc (P_Idle, d, s)"
    and call: "dispatch_call desc syms (sp_rtrace_initialize getenv cmdline pid arch he acc fd) d s = Some (t, d', s')"
    and room: "length syms = dd_symcount desc" "length (tr_modules s) < 16"
  shows "module_reach desc (P_Idle, d', s') \<and> t \<noteq> Trace_init \<and> (t = Trace_on \<longleftrightarrow> di_mode d' = MODULE_READY \<and> module_on d' s')"
proof (cases "di_rt d = Trace_init")
  case False
  then have e: "d' = d" "s' = s" "t = di_rt d" using call by (auto simp: dispatch_call_def)
  have "module_step desc (P_Idle, d, s) (Ev_Call t) (P_Idle, d, s)" unfolding e(3) by (rule Call [OF False])
  from dispatch_sound(1,3) [OF reach this] show ?thesis using reach e by simp
next
  case True
  then have i: "trace_initialize desc syms (sp_rtrace_initialize getenv cmdline pid arch he acc fd) d s = Some (d', s')" "t = di_init_rt d'"
    using call by (auto simp: dispatch_call_def bind_eq_Some_conv)
  have reach': "module_reach desc (P_Idle, d', s')"
    by (rule module_steps_reach [OF trace_initialize_steps [OF i(1) room] reach])
  have inv: "module_inv desc (P_Idle, d', s')" by (rule module_reach_inv [OF reach'])
  have "di_init_rt d' = Trace_off \<and> di_mode d' = MODULE_LOADED \<or> di_init_rt d' = di_rt d' \<and> di_mode d' = MODULE_READY"
    using i(1) True module_reach_inv [OF reach]
    by (cases "di_mode d") (auto simp: trace_initialize_def load_end_def load_begin_def Let_def split: if_splits dest!: module_ready_rt)
  then show ?thesis using inv reach' i(2) by (auto split: if_splits)
qed

text \<open>Without a free slot the module is left dispatching to its initialising functions: the next call does not end.\<close>

lemma registry_full_circle:
  assumes "di_mode d = MODULE_LOADED" "di_rt d = Trace_init" "di_slot d = None" "0 \<notin> set (di_symbols d)"
    "main_init s = Some (True, s)" "16 \<le> length (tr_modules s)" "dd_resources desc = []"
  shows "dispatch_call desc syms main_init d s = Some (Trace_init, d\<lparr>di_res := [], di_init_rt := Trace_init, di_mode := MODULE_READY\<rparr>, s)"
  using assms by (simp add: dispatch_call_def trace_initialize_def module_ready_def sp_rtrace_register_module_def)

text \<open>A module with its own implementation uses it as long as the environment is not accessible.\<close>

lemma emu_until_ready:
  assumes "module_reach desc (P_Idle, d, s)" "dd_emu desc" "di_mode d = MODULE_LOADED"
  shows "dispatch_call desc syms main_init d s = Some (Trace_emu, d, s)"
  using module_reach_inv [OF assms(1)] assms(2,3) by (simp add: dispatch_call_def)

end
