(* ===== verification/Transfer_Module.thy ===== *)
theory Transfer_Module
  imports Module_Calls Module_Init
begin

text \<open>
  The module that traces memory transfers (sp\_rtrace\_memtransfer.c).  The tracing functions run the
  original function on the memory of the process and report one call with the number of bytes and
  the source; some of them measure the source after the original function has run.
\<close>

section \<open>Memory and the functions of the C library\<close>

type_synonym memory = "pointer_t \<Rightarrow> byte"

text \<open>Strings of characters of \<open>w\<close> bytes: 1, or 4 for \<open>wchar_t\<close>.  Without a terminator the length is never found.\<close>

definition char_zero :: "nat \<Rightarrow> memory \<Rightarrow> pointer_t \<Rightarrow> bool" where
  "char_zero w mem p = list_all (\<lambda>i. mem (p + of_nat i) = 0) [0..<w]"

partial_function (option) str_len :: "nat \<Rightarrow> memory \<Rightarrow> pointer_t \<Rightarrow> nat option" where
  "str_len w mem p = (if char_zero w mem p then Some 0 else do { n \<leftarrow> str_len w mem (p + of_nat w); Some (n + 1) })"

fun strn_len :: "nat \<Rightarrow> memory \<Rightarrow> pointer_t \<Rightarrow> nat \<Rightarrow> nat" where
  "strn_len w mem p 0 = 0"
| "strn_len w mem p (Suc n) = (if char_zero w mem p then 0 else Suc (strn_len w mem (p + of_nat w) n))"

definition lc_copy :: "pointer_t \<Rightarrow> pointer_t \<Rightarrow> nat \<Rightarrow> memory \<Rightarrow> memory" where
  "lc_copy dst src n mem a = (if unat (a - dst) < n then mem (src + (a - dst)) else mem a)"

definition lc_zero :: "pointer_t \<Rightarrow> nat \<Rightarrow> memory \<Rightarrow> memory" where
  "lc_zero dst n mem a = (if unat (a - dst) < n then 0 else mem a)"

definition lc_fill :: "pointer_t \<Rightarrow> byte list \<Rightarrow> nat \<Rightarrow> memory \<Rightarrow> memory" where
  "lc_fill dst c n mem a = (if unat (a - dst) < n then c ! (unat (a - dst) mod length c) else mem a)"

definition lc_strcpy :: "nat \<Rightarrow> pointer_t \<Rightarrow> pointer_t \<Rightarrow> memory \<Rightarrow> memory option" where
  "lc_strcpy w dst src mem = map_option (\<lambda>k. lc_copy dst src ((k + 1) * w) mem) (str_len w mem src)"

definition lc_strncpy :: "nat \<Rightarrow> pointer_t \<Rightarrow> pointer_t \<Rightarrow> nat \<Rightarrow> memory \<Rightarrow> memory" where
  "lc_strncpy w dst src n mem =
     (let k = strn_len w mem src n in lc_zero (dst + of_nat (k * w)) ((n - k) * w) (lc_copy dst src (k * w) mem))"

definition lc_strcat :: "nat \<Rightarrow> pointer_t \<Rightarrow> pointer_t \<Rightarrow> memory \<Rightarrow> memory option" where
  "lc_strcat w dst src mem = do { k \<leftarrow> str_len w mem dst; lc_strcpy w (dst + of_nat (k * w)) src mem }"

definition lc_strn_end :: "nat \<Rightarrow> pointer_t \<Rightarrow> pointer_t \<Rightarrow> nat \<Rightarrow> memory \<Rightarrow> memory" where
  "lc_strn_end w dst src n mem =
     (let k = strn_len w mem src n in lc_zero (dst + of_nat (k * w)) w (lc_copy dst src (k * w) mem))"

definition lc_strncat :: "nat \<Rightarrow> pointer_t \<Rightarrow> pointer_t \<Rightarrow> nat \<Rightarrow> memory \<Rightarrow> memory option" where
  "lc_strncat w dst src n mem = map_option (\<lambda>k. lc_strn_end w (dst + of_nat (k * w)) src n mem) (str_len w mem dst)"

text \<open>Duplication writes to a new block \<open>rc\<close>, or fails with \<open>rc = 0\<close>.\<close>

definition lc_strdup :: "nat \<Rightarrow> pointer_t \<Rightarrow> pointer_t \<Rightarrow> memory \<Rightarrow> memory option" where
  "lc_strdup w rc s mem = (if rc = 0 then Some mem else lc_strcpy w rc s mem)"

definition lc_strndup :: "nat \<Rightarrow> pointer_t \<Rightarrow> pointer_t \<Rightarrow> nat \<Rightarrow> memory \<Rightarrow> memory" where
  "lc_strndup w rc s n mem = (if rc = 0 then mem else lc_strn_end w rc s n mem)"

section \<open>Tracing functions\<close>

type_synonym treport = "(mcall \<times> memory) option"

definition transfer_call :: "u32 \<Rightarrow> string \<Rightarrow> u64 \<Rightarrow> pointer_t \<Rightarrow> mcall" where
  "transfer_call res name n p =
     (\<lparr>mf_type = FTYPE_ALLOC, mf_name = Some (str name), mf_res_type_id = res, mf_res_id = p, mf_res_size = ucast n\<rparr>, None)"

definition SIZEOF_WCHAR :: nat where "SIZEOF_WCHAR = 4"

text \<open>The result of \<open>strlen\<close>, and of \<open>wcslen\<close> times the size of a character, in the given memory.\<close>

definition measured :: "nat \<Rightarrow> memory \<Rightarrow> pointer_t \<Rightarrow> u64 option" where
  "measured w mem p = map_option (\<lambda>k. of_nat k * of_nat w) (str_len w mem p)"

definition trace_strcpy :: "u32 \<Rightarrow> pointer_t \<Rightarrow> pointer_t \<Rightarrow> memory \<Rightarrow> treport" where
  "trace_strcpy res dst src mem = do {
     mem \<leftarrow> lc_strcpy 1 dst src mem; n \<leftarrow> measured 1 mem src; Some (transfer_call res ''strcpy'' n src, mem) }"

definition trace_mempcpy :: "u32 \<Rightarrow> pointer_t \<Rightarrow> pointer_t \<Rightarrow> u64 \<Rightarrow> memory \<Rightarrow> treport" where
  "trace_mempcpy res dest src n mem = Some (transfer_call res ''mempcpy'' n src, lc_copy dest src (unat n) mem)"

definition trace_memmove :: "u32 \<Rightarrow> pointer_t \<Rightarrow> pointer_t \<Rightarrow> u64 \<Rightarrow> memory \<Rightarrow> treport" where
  "trace_memmove res dest src n mem = Some (transfer_call res ''memmove'' n src, lc_copy dest src (unat n) mem)"

definition trace_memcpy :: "u32 \<Rightarrow> pointer_t \<Rightarrow> pointer_t \<Rightarrow> u64 \<Rightarrow> memory \<Rightarrow> treport" where
  "trace_memcpy res dest src n mem = Some (transfer_call res ''memcpy'' n src, lc_copy dest src (unat n) mem)"

definition trace_memset :: "u32 \<Rightarrow> pointer_t \<Rightarrow> u32 \<Rightarrow> u64 \<Rightarrow> memory \<Rightarrow> treport" where
  "trace_memset res s c n mem = Some (transfer_call res ''memset'' n s, lc_fill s [ucast c] (unat n) mem)"

definition trace_strncpy :: "u32 \<Rightarrow> pointer_t \<Rightarrow> pointer_t \<Rightarrow> u64 \<Rightarrow> memory \<Rightarrow> treport" where
  "trace_strncpy res dest src n mem = Some (transfer_call res ''strncpy'' n src, lc_strncpy 1 dest src (unat n) mem)"

definition trace_stpcpy :: "u32 \<Rightarrow> pointer_t \<Rightarrow> pointer_t \<Rightarrow> memory \<Rightarrow> treport" where
  "trace_stpcpy res dest src mem = do {
     mem \<leftarrow> lc_strcpy 1 dest src mem; n \<leftarrow> measured 1 mem src; Some (transfer_call res ''stpcpy'' n src, mem) }"

definition trace_strcat :: "u32 \<Rightarrow> pointer_t \<Rightarrow> pointer_t \<Rightarrow> memory \<Rightarrow> treport" where
  "trace_strcat res dest src mem = do {
     mem \<leftarrow> lc_strcat 1 dest src mem; n \<leftarrow> measured 1 mem src; Some (transfer_call res ''strcat'' n src, mem) }"

definition trace_strncat :: "u32 \<Rightarrow> pointer_t \<Rightarrow> pointer_t \<Rightarrow> u64 \<Rightarrow> memory \<Rightarrow> treport" where
  "trace_strncat res dest src n mem = do {
     mem \<leftarrow> lc_strncat 1 dest src (unat n) mem; Some (transfer_call res ''strncat'' n src, mem) }"

definition trace_bcopy :: "u32 \<Rightarrow> pointer_t \<Rightarrow> pointer_t \<Rightarrow> u64 \<Rightarrow> memory \<Rightarrow> treport" where
  "trace_bcopy res src dest n mem = Some (transfer_call res ''bcopy'' n src, lc_copy dest src (unat n) mem)"

definition trace_bzero :: "u32 \<Rightarrow> pointer_t \<Rightarrow> u64 \<Rightarrow> memory \<Rightarrow> treport" where
  "trace_bzero res s n mem = Some (transfer_call res ''bzero'' n s, lc_zero s (unat n) mem)"

definition trace_strdup :: "u32 \<Rightarrow> pointer_t \<Rightarrow> pointer_t \<Rightarrow> memory \<Rightarrow> treport" where
  "trace_strdup res s rc mem = do {
     mem \<leftarrow> lc_strdup 1 rc s mem; n \<leftarrow> measured 1 mem s; Some (transfer_call res ''strdup'' n s, mem) }"

definition trace_strndup :: "u32 \<Rightarrow> pointer_t \<Rightarrow> u64 \<Rightarrow> pointer_t \<Rightarrow> memory \<Rightarrow> treport" where
  "trace_strndup res s n rc mem = Some (transfer_call res ''strndup'' n s, lc_strndup 1 rc s (unat n) mem)"

text \<open>Wide characters: the size in bytes is computed modulo $2^{64}$.\<close>

abbreviation wide :: "u64 \<Rightarrow> u64" where
  "wide n \<equiv> n * of_nat SIZEOF_WCHAR"

definition trace_wmemcpy :: "u32 \<Rightarrow> pointer_t \<Rightarrow> pointer_t \<Rightarrow> u64 \<Rightarrow> memory \<Rightarrow> treport" where
  "trace_wmemcpy res dest src n mem =
     Some (transfer_call res ''wmemcpy'' (wide n) src, lc_copy dest src (unat n * SIZEOF_WCHAR) mem)"

definition trace_wmempcpy :: "u32 \<Rightarrow> pointer_t \<Rightarrow> pointer_t \<Rightarrow> u64 \<Rightarrow> memory \<Rightarrow> treport" where
  "trace_wmempcpy res dest src n mem =
     Some (transfer_call res ''wmempcpy'' (wide n) src, lc_copy dest src (unat n * SIZEOF_WCHAR) mem)"

definition trace_wmemmove :: "u32 \<Rightarrow> pointer_t \<Rightarrow> pointer_t \<Rightarrow> u64 \<Rightarrow> memory \<Rightarrow> treport" where
  "trace_wmemmove res dest src n mem =
     Some (transfer_call res ''wmemmove'' (wide n) src, lc_copy dest src (unat n * SIZEOF_WCHAR) mem)"

definition wchar_bytes :: "u32 \<Rightarrow> byte list" where
  "wchar_bytes c = map (\<lambda>i. ucast (drop_bit (8 * i) c)) [0..<SIZEOF_WCHAR]"

definition trace_wmemset :: "u32 \<Rightarrow> pointer_t \<Rightarrow> u32 \<Rightarrow> u64 \<Rightarrow> memory \<Rightarrow> treport" where
  "trace_wmemset res s c n mem =
     Some (transfer_call res ''wmemset'' (wide n) s, lc_fill s (wchar_bytes c) (unat n * SIZEOF_WCHAR) mem)"

definition trace_wcscpy :: "u32 \<Rightarrow> pointer_t \<Rightarrow> pointer_t \<Rightarrow> memory \<Rightarrow> treport" where
  "trace_wcscpy res dest src mem = do {
     mem \<leftarrow> lc_strcpy SIZEOF_WCHAR dest src mem; n \<leftarrow> measured SIZEOF_WCHAR mem src;
     Some (transfer_call res ''wcscpy'' n src, mem) }"

definition trace_wcsncpy :: "u32 \<Rightarrow> pointer_t \<Rightarrow> pointer_t \<Rightarrow> u64 \<Rightarrow> memory \<Rightarrow> treport" where
  "trace_wcsncpy res dest src n mem =
     Some (transfer_call res ''wcsncpy'' (wide n) src, lc_strncpy SIZEOF_WCHAR dest src (unat n) mem)"

definition trace_wcpcpy :: "u32 \<Rightarrow> pointer_t \<Rightarrow> pointer_t \<Rightarrow> memory \<Rightarrow> treport" where
  "trace_wcpcpy res dest src mem = do {
     mem \<leftarrow> lc_strcpy SIZEOF_WCHAR dest src mem; n \<leftarrow> measured SIZEOF_WCHAR mem src;
     Some (transfer_call res ''wcpcpy'' n src, mem) }"

definition trace_wcpncpy :: "u32 \<Rightarrow> pointer_t \<Rightarrow> pointer_t \<Rightarrow> u64 \<Rightarrow> memory \<Rightarrow> treport" where
  "trace_wcpncpy res dest src n mem =
     Some (transfer_call res ''wcpncpy'' (wide n) src, lc_strncpy SIZEOF_WCHAR dest src (unat n) mem)"

definition trace_wcscat :: "u32 \<Rightarrow> pointer_t \<Rightarrow> pointer_t \<Rightarrow> memory \<Rightarrow> treport" where
  "trace_wcscat res dest src mem = do {
     mem \<leftarrow> lc_strcat SIZEOF_WCHAR dest src mem; n \<leftarrow> measured SIZEOF_WCHAR mem src;
     Some (transfer_call res ''wcscat'' n src, mem) }"

definition trace_wcsncat :: "u32 \<Rightarrow> pointer_t \<Rightarrow> pointer_t \<Rightarrow> u64 \<Rightarrow> memory \<Rightarrow> treport" where
  "trace_wcsncat res dest src n mem = do {
     mem \<leftarrow> lc_strncat SIZEOF_WCHAR dest src (unat n) mem; Some (transfer_call res ''wcsncat'' (wide n) src, mem) }"

definition trace_wcsdup :: "u32 \<Rightarrow> pointer_t \<Rightarrow> pointer_t \<Rightarrow> memory \<Rightarrow> treport" where
  "trace_wcsdup res s rc mem = do {
     mem \<leftarrow> lc_strdup SIZEOF_WCHAR rc s mem; n \<leftarrow> measured SIZEOF_WCHAR mem s;
     Some (transfer_call res ''wcsdup'' n s, mem) }"

text \<open>The functions of the table \<open>trace_on\<close>; the result of an allocating function is the last argument.\<close>

datatype transfer_op =
    Strcpy pointer_t pointer_t | Mempcpy pointer_t pointer_t u64 | Memmove pointer_t pointer_t u64 | Memcpy pointer_t pointer_t u64
  | Memset pointer_t u32 u64 | Strncpy pointer_t pointer_t u64 | Stpcpy pointer_t pointer_t | Strcat pointer_t pointer_t
  | Strncat pointer_t pointer_t u64 | Bcopy pointer_t pointer_t u64 | Bzero pointer_t u64 | Strdup pointer_t pointer_t
  | Strndup pointer_t u64 pointer_t | Wmemcpy pointer_t pointer_t u64 | Wmempcpy pointer_t pointer_t u64
  | Wmemmove pointer_t pointer_t u64 | Wmemset pointer_t u32 u64 | Wcscpy pointer_t pointer_t | Wcsncpy pointer_t pointer_t u64
  | Wcpcpy pointer_t pointer_t | Wcpncpy pointer_t pointer_t u64 | Wcscat pointer_t pointer_t | Wcsncat pointer_t pointer_t u64
  | Wcsdup pointer_t pointer_t

fun transfer_on :: "u32 \<Rightarrow> transfer_op \<Rightarrow> memory \<Rightarrow> treport" where
  "transfer_on res (Strcpy d s) = trace_strcpy res d s"
| "transfer_on res (Mempcpy d s n) = trace_mempcpy res d s n"
| "transfer_on res (Memmove d s n) = trace_memmove res d s n"
| "transfer_on res (Memcpy d s n) = trace_memcpy res d s n"
| "transfer_on res (Memset s c n) = trace_memset res s c n"
| "transfer_on res (Strncpy d s n) = trace_strncpy res d s n"
| "transfer_on res (Stpcpy d s) = trace_stpcpy res d s"
| "transfer_on res (Strcat d s) = trace_strcat res d s"
| "transfer_on res (Strncat d s n) = trace_strncat res d s n"
| "transfer_on res (Bcopy s d n) = trace_bcopy res s d n"
| "transfer_on res (Bzero s n) = trace_bzero res s n"
| "transfer_on res (Strdup s rc) = trace_strdup res s rc"
| "transfer_on res (Strndup s n rc) = trace_strndup res s n rc"
| "transfer_on res (Wmemcpy d s n) = trace_wmemcpy res d s n"
| "transfer_on res (Wmempcpy d s n) = trace_wmempcpy res d s n"
| "transfer_on res (Wmemmove d s n) = trace_wmemmove res d s n"
| "transfer_on res (Wmemset s c n) = trace_wmemset res s c n"
| "transfer_on res (Wcscpy d s) = trace_wcscpy res d s"
| "transfer_on res (Wcsncpy d s n) = trace_wcsncpy res d s n"
| "transfer_on res (Wcpcpy d s) = trace_wcpcpy res d s"
| "transfer_on res (Wcpncpy d s n) = trace_wcpncpy res d s n"
| "transfer_on res (Wcscat d s) = trace_wcscat res d s"
| "transfer_on res (Wcsncat d s n) = trace_wcsncat res d s n"
| "transfer_on res (Wcsdup s rc) = trace_wcsdup res s rc"

text \<open>The original functions, and the entry points, which run the function of the given table.\<close>

fun transfer_off :: "transfer_op \<Rightarrow> memory \<Rightarrow> memory option" where
  "transfer_off (Strcpy d s) mem = lc_strcpy 1 d s mem" | "transfer_off (Stpcpy d s) mem = lc_strcpy 1 d s mem"
| "transfer_off (Mempcpy d s n) mem = Some (lc_copy d s (unat n) mem)" | "transfer_off (Memmove d s n) mem = Some (lc_copy d s (unat n) mem)"
| "transfer_off (Memcpy d s n) mem = Some (lc_copy d s (unat n) mem)" | "transfer_off (Memset s c n) mem = Some (lc_fill s [ucast c] (unat n) mem)"
| "transfer_off (Strncpy d s n) mem = Some (lc_strncpy 1 d s (unat n) mem)" | "transfer_off (Strcat d s) mem = lc_strcat 1 d s mem"
| "transfer_off (Strncat d s n) mem = lc_strncat 1 d s (unat n) mem" | "transfer_off (Bcopy s d n) mem = Some (lc_copy d s (unat n) mem)"
| "transfer_off (Bzero s n) mem = Some (lc_zero s (unat n) mem)" | "transfer_off (Strdup s rc) mem = lc_strdup 1 rc s mem"
| "transfer_off (Strndup s n rc) mem = Some (lc_strndup 1 rc s (unat n) mem)"
| "transfer_off (Wmemcpy d s n) mem = Some (lc_copy d s (unat n * SIZEOF_WCHAR) mem)"
| "transfer_off (Wmempcpy d s n) mem = Some (lc_copy d s (unat n * SIZEOF_WCHAR) mem)"
| "transfer_off (Wmemmove d s n) mem = Some (lc_copy d s (unat n * SIZEOF_WCHAR) mem)"
| "transfer_off (Wmemset s c n) mem = Some (lc_fill s (wchar_bytes c) (unat n * SIZEOF_WCHAR) mem)"
| "transfer_off (Wcscpy d s) mem = lc_strcpy SIZEOF_WCHAR d s mem" | "transfer_off (Wcpcpy d s) mem = lc_strcpy SIZEOF_WCHAR d s mem"
| "transfer_off (Wcsncpy d s n) mem = Some (lc_strncpy SIZEOF_WCHAR d s (unat n) mem)"
| "transfer_off (Wcpncpy d s n) mem = Some (lc_strncpy SIZEOF_WCHAR d s (unat n) mem)"
| "transfer_off (Wcscat d s) mem = lc_strcat SIZEOF_WCHAR d s mem" | "transfer_off (Wcsncat d s n) mem = lc_strncat SIZEOF_WCHAR d s (unat n) mem"
| "transfer_off (Wcsdup s rc) mem = lc_strdup SIZEOF_WCHAR rc s mem"

definition transfer_entry :: "u32 \<Rightarrow> trace_table \<Rightarrow> transfer_op \<Rightarrow> memory \<Rightarrow> (mcall list \<times> memory) option" where
  "transfer_entry res t x mem =
     (if t = Trace_on then map_option (\<lambda>(c, mem). ([c], mem)) (transfer_on res x mem)
      else map_option (\<lambda>mem. ([], mem)) (transfer_off x mem))"

text \<open>A call of an entry point, with the initialisation of the module when it is the first one.\<close>

definition memtransfer_call ::
    "pointer_t list \<Rightarrow> main_init \<Rightarrow> transfer_op \<Rightarrow> dispatch \<Rightarrow> tracer \<Rightarrow> memory \<Rightarrow> (mcall list \<times> memory \<times> dispatch \<times> tracer) option" where
  "memtransfer_call syms main_init x d s mem = do {
     (t, d, s) \<leftarrow> dispatch_call memtransfer_desc syms main_init d s;
     (cs, mem) \<leftarrow> transfer_entry (hd (di_res d)) t x mem;
     Some (cs, mem, d, s) }"

section \<open>What is transferred\<close>

text \<open>
  The kinds of transfers: the whole source string, the given number of characters, or at most that
  number.  The address and the number of bytes written are those of the manual pages, in the memory
  before the call.
\<close>

datatype transfer_kind = K_String nat pointer_t pointer_t | K_Append nat pointer_t pointer_t | K_Block nat pointer_t pointer_t u64
  | K_Append_Part nat pointer_t pointer_t u64 | K_Part nat pointer_t pointer_t u64

fun kind_of :: "transfer_op \<Rightarrow> transfer_kind" where
  "kind_of (Strcpy d s) = K_String 1 d s" | "kind_of (Stpcpy d s) = K_String 1 d s" | "kind_of (Strdup s rc) = K_String 1 rc s"
| "kind_of (Wcscpy d s) = K_String 4 d s" | "kind_of (Wcpcpy d s) = K_String 4 d s" | "kind_of (Wcsdup s rc) = K_String 4 rc s"
| "kind_of (Strcat d s) = K_Append 1 d s" | "kind_of (Wcscat d s) = K_Append 4 d s"
| "kind_of (Mempcpy d s n) = K_Block 1 d s n" | "kind_of (Memmove d s n) = K_Block 1 d s n" | "kind_of (Memcpy d s n) = K_Block 1 d s n"
| "kind_of (Memset s c n) = K_Block 1 s s n" | "kind_of (Strncpy d s n) = K_Block 1 d s n" | "kind_of (Bcopy s d n) = K_Block 1 d s n"
| "kind_of (Bzero s n) = K_Block 1 s s n" | "kind_of (Wmemcpy d s n) = K_Block 4 d s n" | "kind_of (Wmempcpy d s n) = K_Block 4 d s n"
| "kind_of (Wmemmove d s n) = K_Block 4 d s n" | "kind_of (Wmemset s c n) = K_Block 4 s s n"
| "kind_of (Wcsncpy d s n) = K_Block 4 d s n" | "kind_of (Wcpncpy d s n) = K_Block 4 d s n"
| "kind_of (Strncat d s n) = K_Append_Part 1 d s n" | "kind_of (Wcsncat d s n) = K_Append_Part 4 d s n"
| "kind_of (Strndup s n rc) = K_Part 1 rc s n"

fun written :: "memory \<Rightarrow> transfer_kind \<Rightarrow> (pointer_t \<times> nat) option" where
  "written mem (K_String w d s) = map_option (\<lambda>k. (d, (k + 1) * w)) (str_len w mem s)"
| "written mem (K_Append w d s) = do { j \<leftarrow> str_len w mem d; k \<leftarrow> str_len w mem s; Some (d + of_nat (j * w), (k + 1) * w) }"
| "written mem (K_Block w d s n) = Some (d, unat n * w)"
| "written mem (K_Append_Part w d s n) = do { j \<leftarrow> str_len w mem d; Some (d + of_nat (j * w), (strn_len w mem s (unat n) + 1) * w) }"
| "written mem (K_Part w d s n) = Some (d, (strn_len w mem s (unat n) + 1) * w)"

text \<open>The size that is reported, and the source.\<close>

fun reported :: "memory \<Rightarrow> transfer_kind \<Rightarrow> u64 option" where
  "reported mem (K_String w d s) = measured w mem s"
| "reported mem (K_Append w d s) = measured w mem s"
| "reported mem (K_Block w d s n) = Some (n * of_nat w)"
| "reported mem (K_Append_Part w d s n) = Some (n * of_nat w)"
| "reported mem (K_Part w d s n) = Some (n * of_nat w)"

fun source_of :: "transfer_kind \<Rightarrow> pointer_t" where
  "source_of (K_String w d s) = s" | "source_of (K_Append w d s) = s" | "source_of (K_Block w d s n) = s"
| "source_of (K_Append_Part w d s n) = s" | "source_of (K_Part w d s n) = s"

definition region :: "pointer_t \<Rightarrow> nat \<Rightarrow> pointer_t set" where
  "region p n = {a. unat (a - p) < n}"

text \<open>A source that is measured must not overlap what is written; the manual pages exclude it.\<close>

fun apart :: "memory \<Rightarrow> transfer_kind \<Rightarrow> bool" where
  "apart mem (K_String w d s) = (\<forall>k. str_len w mem s = Some k \<longrightarrow> region d ((k + 1) * w) \<inter> region s ((k + 1) * w) = {})"
| "apart mem (K_Append w d s) = (\<forall>j k. str_len w mem d = Some j \<longrightarrow> str_len w mem s = Some k \<longrightarrow>
     region (d + of_nat (j * w)) ((k + 1) * w) \<inter> region s ((k + 1) * w) = {})"
| "apart mem _ = True"

lemma unat_offset: "unat (of_nat i :: u64) \<le> i"
  by (simp add: unat_of_nat)

lemma region_offset: "i < n \<Longrightarrow> p + of_nat i \<in> region p n"
  using unat_offset [of i] by (simp add: region_def)

lemma region_shift: "region (p + of_nat x) y \<subseteq> region p (x + y)"
proof
  fix a assume "a \<in> region (p + of_nat x) y"
  then have "unat (a - p - of_nat x) < y" by (simp add: region_def diff_diff_eq)
  moreover have "unat (a - p) \<le> unat (a - p - of_nat x) + unat (of_nat x :: u64)"
    using unat_word_ariths(1) [of "a - p - of_nat x" "of_nat x"] by simp
  ultimately show "a \<in> region p (x + y)" using unat_offset [of x] by (simp add: region_def)
qed

lemma char_zero_same:
  assumes "\<And>a. a \<in> region p w \<Longrightarrow> mem' a = mem a"
  shows "char_zero w mem' p = char_zero w mem p"
  unfolding char_zero_def by (rule list.pred_cong [OF refl]) (use assms region_offset in auto)

text \<open>A string keeps its length when its bytes and the terminator are kept.\<close>

lemma str_len_same:
  assumes "str_len w mem p = Some k" "\<And>a. a \<in> region p ((k + 1) * w) \<Longrightarrow> mem' a = mem a"
  shows "str_len w mem' p = Some k"
  using assms
proof (induction k arbitrary: p)
  case 0
  then have "char_zero w mem p" by (simp add: str_len.simps [of w mem p] bind_eq_Some_conv split: if_splits)
  moreover have "char_zero w mem' p = char_zero w mem p" using 0 by (intro char_zero_same) simp
  ultimately show ?case by (simp add: str_len.simps [of w mem' p])
next
  case (Suc k)
  then have z: "\<not> char_zero w mem p" "str_len w mem (p + of_nat w) = Some k"
    by (auto simp: str_len.simps [of w mem p] bind_eq_Some_conv split: if_splits)
  have "region p w \<subseteq> region p ((Suc k + 1) * w)" by (auto simp: region_def)
  then have "char_zero w mem' p = char_zero w mem p" using Suc.prems(2) by (intro char_zero_same) blast
  moreover have "region (p + of_nat w) ((k + 1) * w) \<subseteq> region p ((Suc k + 1) * w)"
    using region_shift [of p w "(k + 1) * w"] by (simp add: algebra_simps)
  then have "str_len w mem' (p + of_nat w) = Some k" using Suc.IH [OF z(2)] Suc.prems(2) by blast
  ultimately show ?case using z(1) by (simp add: str_len.simps [of w mem' p])
qed

lemma lc_outside:
  "a \<notin> region d n \<Longrightarrow> lc_copy d s n mem a = mem a" "a \<notin> region d n \<Longrightarrow> lc_zero d n mem a = mem a"
  "a \<notin> region d n \<Longrightarrow> lc_fill d c n mem a = mem a"
  by (simp_all add: lc_copy_def lc_zero_def lc_fill_def region_def)

lemma lc_part_outside:
  assumes "a \<notin> region d (x + y)"
  shows "lc_zero (d + of_nat x) y (lc_copy d s x mem) a = mem a"
proof -
  have "a \<notin> region (d + of_nat x) y" using assms region_shift by blast
  moreover have "a \<notin> region d x" using assms by (simp add: region_def)
  ultimately show ?thesis by (simp add: lc_outside)
qed

lemma lc_strncpy_outside: "a \<notin> region d (n * w) \<Longrightarrow> lc_strncpy w d s n mem a = mem a"
proof -
  have "strn_len w mem s n \<le> n" by (induction n arbitrary: s) auto
  then have "strn_len w mem s n * w + (n - strn_len w mem s n) * w = n * w" by (simp flip: add_mult_distrib)
  moreover assume "a \<notin> region d (n * w)"
  ultimately show ?thesis unfolding lc_strncpy_def Let_def by (intro lc_part_outside) simp
qed

lemma lc_strn_end_outside: "a \<notin> region d m \<Longrightarrow> m = w + strn_len w mem s n * w \<Longrightarrow> lc_strn_end w d s n mem a = mem a"
  unfolding lc_strn_end_def Let_def by (intro lc_part_outside) (simp add: algebra_simps)

text \<open>Copying a string leaves the source as it is, when they are apart.\<close>

lemma strcpy_measured:
  assumes "str_len w mem s = Some k" "region d ((k + 1) * w) \<inter> region s ((k + 1) * w) = {}"
  shows "\<exists>mem'. lc_strcpy w d s mem = Some mem' \<and> measured w mem' s = measured w mem s \<and> (\<forall>a. a \<notin> region d ((k + 1) * w) \<longrightarrow> mem' a = mem a)"
proof -
  let ?m = "lc_copy d s ((k + 1) * w) mem"
  have "str_len w ?m s = Some k"
    by (rule str_len_same [OF assms(1)]) (use assms(2) in \<open>auto intro!: lc_outside\<close>)
  then show ?thesis using assms(1) lc_outside(1) by (simp add: lc_strcpy_def measured_def)
qed

fun op_name :: "transfer_op \<Rightarrow> string" where
  "op_name (Strcpy d s) = ''strcpy''" | "op_name (Mempcpy d s n) = ''mempcpy''" | "op_name (Memmove d s n) = ''memmove''"
| "op_name (Memcpy d s n) = ''memcpy''" | "op_name (Memset s c n) = ''memset''" | "op_name (Strncpy d s n) = ''strncpy''"
| "op_name (Stpcpy d s) = ''stpcpy''" | "op_name (Strcat d s) = ''strcat''" | "op_name (Strncat d s n) = ''strncat''"
| "op_name (Bcopy s d n) = ''bcopy''" | "op_name (Bzero s n) = ''bzero''" | "op_name (Strdup s rc) = ''strdup''"
| "op_name (Strndup s n rc) = ''strndup''" | "op_name (Wmemcpy d s n) = ''wmemcpy''" | "op_name (Wmempcpy d s n) = ''wmempcpy''"
| "op_name (Wmemmove d s n) = ''wmemmove''" | "op_name (Wmemset s c n) = ''wmemset''" | "op_name (Wcscpy d s) = ''wcscpy''"
| "op_name (Wcsncpy d s n) = ''wcsncpy''" | "op_name (Wcpcpy d s) = ''wcpcpy''" | "op_name (Wcpncpy d s n) = ''wcpncpy''"
| "op_name (Wcscat d s) = ''wcscat''" | "op_name (Wcsncat d s n) = ''wcsncat''" | "op_name (Wcsdup s rc) = ''wcsdup''"

definition transfer_ok :: "u32 \<Rightarrow> transfer_op \<Rightarrow> memory \<Rightarrow> bool" where
  "transfer_ok res x mem \<longleftrightarrow> (\<forall>d m n. written mem (kind_of x) = Some (d, m) \<longrightarrow> reported mem (kind_of x) = Some n \<longrightarrow> apart mem (kind_of x) \<longrightarrow>
     (\<exists>mem'. transfer_on res x mem = Some (transfer_call res (op_name x) n (source_of (kind_of x)), mem') \<and> (\<forall>a. a \<notin> region d m \<longrightarrow> mem' a = mem a)))"

lemma transfer_string:
  assumes "kind_of x = K_String w d s" "\<And>m. (rc \<and> d = 0 \<longrightarrow> f m = Some m) \<and> (\<not> (rc \<and> d = 0) \<longrightarrow> f m = lc_strcpy w d s m)"
    "transfer_on res x mem = do { mem \<leftarrow> f mem; n \<leftarrow> measured w mem s; Some (transfer_call res (op_name x) n s, mem) }"
  shows "transfer_ok res x mem"
  unfolding transfer_ok_def
proof (intro allI impI)
  fix p m n assume a: "written mem (kind_of x) = Some (p, m)" "reported mem (kind_of x) = Some n" "apart mem (kind_of x)"
  then obtain k where k: "str_len w mem s = Some k" "p = d" "m = (k + 1) * w" "measured w mem s = Some n"
    "region d ((k + 1) * w) \<inter> region s ((k + 1) * w) = {}" using assms(1) by auto
  obtain mem' where "f mem = Some mem'" "measured w mem' s = Some n" "\<forall>a. a \<notin> region p m \<longrightarrow> mem' a = mem a"
    using strcpy_measured [OF k(1,5)] assms(2) [of mem] k by (cases "rc \<and> d = 0") auto
  then show "\<exists>mem'. transfer_on res x mem = Some (transfer_call res (op_name x) n (source_of (kind_of x)), mem') \<and> (\<forall>a. a \<notin> region p m \<longrightarrow> mem' a = mem a)"
    using assms(1,3) by auto
qed

lemma transfer_append:
  assumes "kind_of x = K_Append w d s"
    "transfer_on res x mem = do { mem \<leftarrow> lc_strcat w d s mem; n \<leftarrow> measured w mem s; Some (transfer_call res (op_name x) n s, mem) }"
  shows "transfer_ok res x mem"
  unfolding transfer_ok_def
proof (intro allI impI)
  fix p m n assume a: "written mem (kind_of x) = Some (p, m)" "reported mem (kind_of x) = Some n" "apart mem (kind_of x)"
  then obtain j k where k: "str_len w mem d = Some j" "str_len w mem s = Some k" "p = d + of_nat (j * w)" "m = (k + 1) * w"
    "measured w mem s = Some n" "region p m \<inter> region s ((k + 1) * w) = {}" using assms(1) by (auto simp: bind_eq_Some_conv)
  show "\<exists>mem'. transfer_on res x mem = Some (transfer_call res (op_name x) n (source_of (kind_of x)), mem') \<and> (\<forall>a. a \<notin> region p m \<longrightarrow> mem' a = mem a)"
    using strcpy_measured [OF k(2), of p] k assms by (auto simp: lc_strcat_def)
qed

theorem transfer_on_ok: "transfer_ok res x mem"
proof (cases x)
  case (Strdup s rc)
  then show ?thesis by (intro transfer_string [where rc = True and f = "lc_strdup 1 rc s"]) (auto simp: trace_strdup_def lc_strdup_def)
next
  case (Wcsdup s rc)
  then show ?thesis
    by (intro transfer_string [where rc = True and f = "lc_strdup 4 rc s"]) (auto simp: trace_wcsdup_def lc_strdup_def SIZEOF_WCHAR_def)
next
  case (Strcpy d s)
  then show ?thesis by (intro transfer_string [where rc = False and f = "lc_strcpy 1 d s"]) (simp_all add: trace_strcpy_def)
next
  case (Stpcpy d s)
  then show ?thesis by (intro transfer_string [where rc = False and f = "lc_strcpy 1 d s"]) (simp_all add: trace_stpcpy_def)
next
  case (Wcscpy d s)
  then show ?thesis by (intro transfer_string [where rc = False and f = "lc_strcpy 4 d s"]) (simp_all add: trace_wcscpy_def SIZEOF_WCHAR_def)
next
  case (Wcpcpy d s)
  then show ?thesis by (intro transfer_string [where rc = False and f = "lc_strcpy 4 d s"]) (simp_all add: trace_wcpcpy_def SIZEOF_WCHAR_def)
next
  case (Strcat d s)
  then show ?thesis by (intro transfer_append) (simp_all add: trace_strcat_def)
next
  case (Wcscat d s)
  then show ?thesis by (intro transfer_append) (simp_all add: trace_wcscat_def SIZEOF_WCHAR_def)
qed (auto simp: transfer_ok_def trace_mempcpy_def trace_memmove_def trace_memcpy_def trace_memset_def trace_strncpy_def trace_strncat_def
    trace_bcopy_def trace_bzero_def trace_strndup_def trace_wmemcpy_def trace_wmempcpy_def trace_wmemmove_def trace_wmemset_def
    trace_wcsncpy_def trace_wcpncpy_def trace_wcsncat_def lc_strncat_def lc_strndup_def SIZEOF_WCHAR_def bind_eq_Some_conv
    intro: lc_outside lc_strncpy_outside lc_strn_end_outside lc_strn_end_outside [where w = "Suc 0", simplified])

text \<open>Tracing does not change what a function does.\<close>

theorem transfer_transparent:
  assumes "transfer_on res x mem = Some (c, mem')"
  shows "transfer_off x mem = Some mem'"
  using assms
  by (cases x) (auto simp: trace_strcpy_def trace_stpcpy_def trace_strcat_def trace_strdup_def trace_wcscpy_def trace_wcpcpy_def trace_wcscat_def
      trace_wcsdup_def trace_mempcpy_def trace_memmove_def trace_memcpy_def trace_memset_def trace_strncpy_def trace_strncat_def
      trace_bcopy_def trace_bzero_def trace_strndup_def trace_wmemcpy_def trace_wmempcpy_def trace_wmemmove_def trace_wmemset_def
      trace_wcsncpy_def trace_wcpncpy_def trace_wcsncat_def bind_eq_Some_conv)

text \<open>The bounded functions report the bound, also where the source is shorter.\<close>

lemma bounded_overreport:
  assumes "strn_len 1 mem s (unat n) + 1 < unat n" "unat n < 2 ^ 32" "str_len 1 mem d = Some j"
  shows "\<exists>c mem' e m. trace_strncat res d s n mem = Some (c, mem') \<and> (\<forall>a. a \<notin> region e m \<longrightarrow> mem' a = mem a) \<and> m < unat (mf_res_size (fst c))"
proof -
  have "transfer_ok res (Strncat d s n) mem" by (rule transfer_on_ok)
  then obtain mem' where m: "trace_strncat res d s n mem = Some (transfer_call res ''strncat'' n s, mem')"
    "\<forall>a. a \<notin> region (d + of_nat j) (strn_len 1 mem s (unat n) + 1) \<longrightarrow> mem' a = mem a"
    using assms(3) by (auto simp: transfer_ok_def)
  have "unat (ucast n :: u32) = unat n" using assms(2) by (simp add: unsigned_ucast_eq take_bit_nat_eq_self)
  then show ?thesis using m assms(1) by (auto simp: transfer_call_def)
qed

end
