(* ===== verification/Module_Entries.thy ===== *)
theory Module_Entries
  imports File_Handles Shm_Segments Transfer_Module
begin

text \<open>
  The entry points of the modules with their initialisation: which function runs is decided by the
  life cycle, what it reports by the tracing functions.
\<close>

section \<open>The file module\<close>

text \<open>The table of descriptors is reset whenever the initialisation is called.\<close>

definition file_initialize :: "pointer_t list \<Rightarrow> main_init \<Rightarrow> dispatch \<Rightarrow> tracer \<Rightarrow> file_module \<Rightarrow> (file_module \<times> dispatch \<times> tracer) option" where
  "file_initialize syms main_init d s m = do {
     (d, s) \<leftarrow> trace_initialize file_desc syms main_init d s;
     Some (m\<lparr>fm_fds := (\<lambda>_. FD_TYPE_UNKNOWN)\<rparr>, d, s) }"

text \<open>The initialising functions pass every command of \<open>fcntl\<close> on.\<close>

definition file_call ::
    "pointer_t list \<Rightarrow> main_init \<Rightarrow> bool \<Rightarrow> file_op \<Rightarrow> dispatch \<Rightarrow> tracer \<Rightarrow> file_module \<Rightarrow>
     (mcall list \<times> file_module \<times> dispatch \<times> tracer) option" where
  "file_call syms main_init lock x d s m =
     (if di_rt d = Trace_init then do {
        (m, d, s) \<leftarrow> file_initialize syms main_init d s m;
        (cs, m) \<leftarrow> (if di_init_rt d = Trace_on then trace_on x m else no_report m);
        Some (cs, m, d, s) }
      else do {
        (cs, m) \<leftarrow> file_entry (di_rt d = Trace_on) lock x m;
        Some (cs, m, d, s) })"

section \<open>The shared memory module\<close>

text \<open>The table of attachments is created with the loading of the original functions.\<close>

definition shmsysv_initialize :: "pointer_t list \<Rightarrow> main_init \<Rightarrow> dispatch \<Rightarrow> tracer \<Rightarrow> shm_module \<Rightarrow> (shm_module \<times> dispatch \<times> tracer) option" where
  "shmsysv_initialize syms main_init d s m = (
     let m = (if di_mode d = MODULE_UNINITIALIZED then m\<lparr>sm_table := a_init (nat SYSV_HASH_SIZE)\<rparr> else m)
     in do {
       (d, s) \<leftarrow> trace_initialize shmsysv_desc syms main_init d s;
       Some (case di_res d of
               [i, j, k] \<Rightarrow> m\<lparr>sm_segment := i, sm_address := j, sm_control := k\<rparr>
             | _ \<Rightarrow> m, d, s) })"

definition shmsysv_call ::
    "pointer_t list \<Rightarrow> main_init \<Rightarrow> shm_op \<Rightarrow> dispatch \<Rightarrow> tracer \<Rightarrow> shm_module \<Rightarrow>
     (mcall list \<times> shm_module \<times> dispatch \<times> tracer) option" where
  "shmsysv_call syms main_init x d s m =
     (if di_rt d = Trace_init then do {
        (m, d, s) \<leftarrow> shmsysv_initialize syms main_init d s m;
        (cs, m) \<leftarrow> (if di_init_rt d = Trace_on then shm_trace_on x m else Some ([], m));
        Some (cs, m, d, s) }
      else do {
        (cs, m) \<leftarrow> (if di_rt d = Trace_on then shm_trace_on x m else Some ([], m));
        Some (cs, m, d, s) })"

section \<open>Reports\<close>

text \<open>A module reports only when it is registered and enabled by the main module.\<close>

locale entry_point =
  fixes desc :: module_desc
    and run :: "pointer_t list \<Rightarrow> main_init \<Rightarrow> dispatch \<Rightarrow> tracer \<Rightarrow> 'm \<Rightarrow> (mcall list \<times> 'm \<times> dispatch \<times> tracer) option"
  assumes table: "run syms main_init d s m = Some (cs, m', d', s') \<Longrightarrow>
      \<exists>t. dispatch_call desc syms main_init d s = Some (t, d', s') \<and> (t \<noteq> Trace_on \<longrightarrow> cs = [])"
begin

theorem reports_enabled:
  assumes "module_reach desc (P_Idle, d, s)" "length syms = dd_symcount desc" "length (tr_modules s) < 16"
    "run syms (sp_rtrace_initialize getenv cmdline pid arch he acc fd) d s m = Some (cs, m', d', s')"
  shows "module_reach desc (P_Idle, d', s') \<and> (cs \<noteq> [] \<longrightarrow> di_mode d' = MODULE_READY \<and> module_on d' s')"
proof -
  obtain t where t: "dispatch_call desc syms (sp_rtrace_initialize getenv cmdline pid arch he acc fd) d s = Some (t, d', s')"
    "t \<noteq> Trace_on \<longrightarrow> cs = []" using table [OF assms(4)] by blast
  from dispatch_call_ok [OF assms(1) t(1) assms(2,3)] t(2) show ?thesis by blast
qed

end

lemma file_entry_off: "file_entry False lock x m = Some (cs, m') \<Longrightarrow> cs = []"
  by (cases x) (auto simp: file_entry_def no_report_def bind_eq_Some_conv)

interpretation file_entries: entry_point file_desc "\<lambda>syms main_init. file_call syms main_init lock x" for lock x
proof
  fix syms main_init d s m cs m' d' s'
  assume r: "file_call syms main_init lock x d s m = Some (cs, m', d', s')"
  show "\<exists>t. dispatch_call file_desc syms main_init d s = Some (t, d', s') \<and> (t \<noteq> Trace_on \<longrightarrow> cs = [])"
  proof (cases "di_rt d = Trace_init")
    case True
    with r show ?thesis
      by (auto simp: file_call_def file_initialize_def dispatch_call_def bind_eq_Some_conv no_report_def split: if_splits)
  next
    case False
    with r have "d' = d" "s' = s" "file_entry (di_rt d = Trace_on) lock x m = Some (cs, m')"
      by (auto simp: file_call_def bind_eq_Some_conv)
    with False show ?thesis using file_entry_off [of lock x m cs m'] by (auto simp: dispatch_call_def)
  qed
qed

interpretation sysv_entries: entry_point shmsysv_desc "\<lambda>syms main_init. shmsysv_call syms main_init x" for x
proof
  fix syms main_init d s m cs m' d' s'
  assume "shmsysv_call syms main_init x d s m = Some (cs, m', d', s')"
  then show "\<exists>t. dispatch_call shmsysv_desc syms main_init d s = Some (t, d', s') \<and> (t \<noteq> Trace_on \<longrightarrow> cs = [])"
    by (auto simp: shmsysv_call_def shmsysv_initialize_def dispatch_call_def bind_eq_Some_conv Let_def split: if_splits)
qed

interpretation transfer_entries: entry_point memtransfer_desc "\<lambda>syms main_init. memtransfer_call syms main_init x" for x
proof
  fix syms main_init d s m cs m' d' s'
  assume "memtransfer_call syms main_init x d s m = Some (cs, m', d', s')"
  then show "\<exists>t. dispatch_call memtransfer_desc syms main_init d s = Some (t, d', s') \<and> (t \<noteq> Trace_on \<longrightarrow> cs = [])"
    by (auto simp: memtransfer_call_def transfer_entry_def bind_eq_Some_conv split: if_splits)
qed

end
