(* ===== verification/Shm_Posix.thy ===== *)
theory Shm_Posix
  imports Trace_Programs
begin

text \<open>
  The module that traces POSIX shared memory and memory mappings (sp\_rtrace\_shmposix.c): the registries
  of object names, descriptors and mapped addresses, and the tracing functions.  The registries are
  search trees of the C library; every comparison is a total order on the keys, so that a tree is
  determined by its nodes, here in the order of their insertion.
\<close>

section \<open>The registry of names\<close>

text \<open>Which of the allocations of a registry succeed.\<close>

record memory_ok =
  mo_malloc :: bool
  mo_strdup :: bool
  mo_tsearch :: bool

record nreg_node =
  nr_name :: cstring
  nr_hash :: u32

fun nreg_raw_loop :: "u32 \<Rightarrow> cstring \<Rightarrow> u32" where
  "nreg_raw_loop hash [] = hash"
| "nreg_raw_loop hash (c # name) = (
     let hash = hash + scast c; hash = hash + push_bit 10 hash
     in nreg_raw_loop (hash XOR drop_bit 6 hash) name)"

definition nreg_calc_raw_hash :: "cstring \<Rightarrow> u32" where
  "nreg_calc_raw_hash name = (
     let hash = nreg_raw_loop 0 name; hash = hash + push_bit 3 hash; hash = hash XOR drop_bit 11 hash
     in hash + push_bit 15 hash)"

definition nreg_validate_hash :: "u32 \<Rightarrow> nreg_node \<Rightarrow> bool \<Rightarrow> bool" where
  "nreg_validate_hash hash node valid = (if valid then nr_hash node \<noteq> hash else False)"

definition nreg_hash_exists :: "nreg_node list \<Rightarrow> u32 \<Rightarrow> bool" where
  "nreg_hash_exists reg hash = (\<not> fold (nreg_validate_hash hash) reg True)"

partial_function (option) nreg_free_hash :: "nreg_node list \<Rightarrow> u32 \<Rightarrow> u32 option" where
  "nreg_free_hash reg hash = (if nreg_hash_exists reg hash then nreg_free_hash reg (hash + 1) else Some hash)"

definition nreg_calc_hash :: "nreg_node list \<Rightarrow> cstring \<Rightarrow> u32 option" where
  "nreg_calc_hash reg name = nreg_free_hash reg (nreg_calc_raw_hash name)"

definition nreg_find :: "nreg_node list \<Rightarrow> cstring \<Rightarrow> nreg_node option" where
  "nreg_find reg name = find (\<lambda>node. nr_name node = name) reg"

text \<open>A node that can not be inserted is used nevertheless.\<close>

definition nreg_get_hash :: "memory_ok \<Rightarrow> cstring \<Rightarrow> nreg_node list \<Rightarrow> (u32 \<times> nreg_node list) option" where
  "nreg_get_hash mem name reg =
     (case nreg_find reg name of
        Some node \<Rightarrow> Some (nr_hash node, reg)
      | None \<Rightarrow>
          if \<not> mo_malloc mem \<or> \<not> mo_strdup mem then Some (- 1, reg)
          else do {
            hash \<leftarrow> nreg_calc_hash reg name;
            if mo_tsearch mem then Some (hash, reg @ [\<lparr>nr_name = name, nr_hash = hash\<rparr>]) else None })"

section \<open>The registries of descriptors and addresses\<close>

datatype fd_kind = FD_UNKNOWN | FD_POSIX | FD_FILE

record fdreg_node =
  fdn_type :: fd_kind
  fdn_name :: "cstring option"
  fdn_fd :: int
  fdn_mode :: u32

definition fdreg_get_fd :: "int \<Rightarrow> fdreg_node list \<Rightarrow> fdreg_node option" where
  "fdreg_get_fd fd reg = find (\<lambda>node. fdn_fd node = fd) reg"

definition fdreg_store_fd :: "memory_ok \<Rightarrow> int \<Rightarrow> cstring \<Rightarrow> fd_kind \<Rightarrow> u32 \<Rightarrow> fdreg_node list \<Rightarrow> fdreg_node list" where
  "fdreg_store_fd mem fd name type mode reg = (
     let node = \<lparr>fdn_type = type, fdn_name = (if mo_strdup mem then Some name else None), fdn_fd = fd, fdn_mode = mode\<rparr>
     in if fdreg_get_fd fd reg \<noteq> None then map (\<lambda>n. if fdn_fd n = fd then node else n) reg
        else if mo_malloc mem \<and> mo_tsearch mem then reg @ [node] else reg)"

record addr_node =
  an_addr :: pointer_t
  an_fd :: int

definition addr_get :: "pointer_t \<Rightarrow> addr_node list \<Rightarrow> addr_node option" where
  "addr_get a reg = find (\<lambda>node. an_addr node = a) reg"

definition addr_store :: "memory_ok \<Rightarrow> pointer_t \<Rightarrow> int \<Rightarrow> addr_node list \<Rightarrow> addr_node list" where
  "addr_store mem a fd reg =
     (if addr_get a reg \<noteq> None then map (\<lambda>n. if an_addr n = a then n\<lparr>an_fd := fd\<rparr> else n) reg
      else if mo_malloc mem \<and> mo_tsearch mem then reg @ [\<lparr>an_addr = a, an_fd = fd\<rparr>] else reg)"

section \<open>Tracing functions\<close>

record posix_module =
  pm_names :: "nreg_node list"
  pm_fds :: "fdreg_node list"
  pm_addrs :: "addr_node list"
  pm_pshmmap :: u32
  pm_fshmmap :: u32
  pm_shmmap :: u32
  pm_pshmobj :: u32
  pm_pshmfd :: u32

type_synonym preport = "(mcall list \<times> posix_module) option"

definition O_CREAT :: u32 where "O_CREAT = 64"
definition CREAT_FLAGS :: u32 where "CREAT_FLAGS = 577"
definition MAP_ANONYMOUS :: u32 where "MAP_ANONYMOUS = 32"

text \<open>The arguments are printed into arrays of 16 characters.\<close>

definition arg16 :: "string \<Rightarrow> cstring \<Rightarrow> module_farg" where
  "arg16 name v = shm_arg name (take 15 v)"

definition trace_shm_open :: "cstring \<Rightarrow> u32 \<Rightarrow> u32 \<Rightarrow> memory_ok \<Rightarrow> memory_ok \<Rightarrow> int \<Rightarrow> posix_module \<Rightarrow> preport" where
  "trace_shm_open name oflag mode mem mem' rc m =
     (if rc < 0 then Some ([], m)
      else do {
        let m = m\<lparr>pm_fds := fdreg_store_fd mem rc name FD_POSIX oflag (pm_fds m)\<rparr>;
        let args = Some [shm_arg ''name'' name, arg16 ''oflag'' (format_0x (unat oflag)), arg16 ''mode'' (format_0x (unat mode)), (None, None)];
        (cs, m) \<leftarrow> (if oflag AND O_CREAT \<noteq> 0 then do {
             (i, reg) \<leftarrow> nreg_get_hash mem' name (pm_names m);
             Some ([shm_call (pm_pshmobj m) FTYPE_ALLOC ''shm_open'' 1 (ucast i) args], m\<lparr>pm_names := reg\<rparr>) }
           else Some ([], m));
        Some (cs @ [shm_call (pm_pshmfd m) FTYPE_ALLOC ''shm_open'' 1 (word_of_int rc) args], m) })"

definition trace_shm_unlink :: "cstring \<Rightarrow> memory_ok \<Rightarrow> int \<Rightarrow> posix_module \<Rightarrow> preport" where
  "trace_shm_unlink name mem rc m =
     (if rc < 0 then Some ([], m)
      else do {
        (i, reg) \<leftarrow> nreg_get_hash mem name (pm_names m);
        Some ([shm_call (pm_pshmobj m) FTYPE_FREE ''shm_unlink'' 0 (ucast i) (Some [shm_arg ''name'' name, (None, None)])],
          m\<lparr>pm_names := reg\<rparr>) })"

text \<open>
  The functions that open a file only fill the registry.  They also clear the lock of the backtraces,
  which is not set when they run: the entry points go past them otherwise.
\<close>

definition posix_open :: "cstring \<Rightarrow> u32 \<Rightarrow> memory_ok \<Rightarrow> int \<Rightarrow> posix_module \<Rightarrow> preport" where
  "posix_open pathname flags mem rc m =
     Some ([], if rc \<ge> 0 then m\<lparr>pm_fds := fdreg_store_fd mem rc pathname FD_FILE flags (pm_fds m)\<rparr> else m)"

definition posix_creat :: "cstring \<Rightarrow> memory_ok \<Rightarrow> int \<Rightarrow> posix_module \<Rightarrow> preport" where
  "posix_creat pathname mem rc m =
     Some ([], if rc \<ge> 0 then m\<lparr>pm_fds := fdreg_store_fd mem rc pathname FD_FILE CREAT_FLAGS (pm_fds m)\<rparr> else m)"

definition mapping_type :: "posix_module \<Rightarrow> fd_kind option \<Rightarrow> u32" where
  "mapping_type m kind =
     (case kind of Some k \<Rightarrow> if k = FD_POSIX then pm_pshmmap m else pm_fshmmap m | None \<Rightarrow> pm_shmmap m)"

definition trace_mmap_common ::
    "string \<Rightarrow> pointer_t \<Rightarrow> u64 \<Rightarrow> u32 \<Rightarrow> u32 \<Rightarrow> int \<Rightarrow> u64 \<Rightarrow> memory_ok \<Rightarrow> posix_module \<Rightarrow> preport" where
  "trace_mmap_common name rc n prot flags fd offset mem m = (
     let m = m\<lparr>pm_addrs := addr_store mem rc fd (pm_addrs m)\<rparr>;
         pfd = fdreg_get_fd fd (pm_fds m);
         fdargs = (if flags AND MAP_ANONYMOUS = 0
                   then [arg16 ''fd'' (format_d fd), arg16 ''offset'' (format_0x (unat offset))] @
                        (case pfd of
                           Some node \<Rightarrow> [(Some (str ''name''), fdn_name node), arg16 ''mode'' (format_0x (unat (fdn_mode node)))]
                         | None \<Rightarrow> [(None, None), (None, None)])
                   else [(None, None), (None, None), (None, None), (None, None)]);
         args = [arg16 ''length'' (format_0x (unat n)), arg16 ''prot'' (format_0x (unat prot)), arg16 ''flags'' (format_0x (unat flags))] @
                fdargs @ [(None, None)]
     in Some ([shm_call (mapping_type m (map_option fdn_type pfd)) FTYPE_ALLOC name (ucast n) rc (Some args)], m))"

definition trace_mmap ::
    "string \<Rightarrow> u64 \<Rightarrow> u32 \<Rightarrow> u32 \<Rightarrow> int \<Rightarrow> u64 \<Rightarrow> memory_ok \<Rightarrow> pointer_t \<Rightarrow> posix_module \<Rightarrow> preport" where
  "trace_mmap name n prot flags fd offset mem rc m =
     (if rc \<noteq> - 1 then trace_mmap_common name rc n prot flags fd offset mem m else Some ([], m))"

definition trace_munmap :: "pointer_t \<Rightarrow> u64 \<Rightarrow> int \<Rightarrow> posix_module \<Rightarrow> preport" where
  "trace_munmap a n rc m =
     (if rc < 0 then Some ([], m)
      else (
        let pfd = (case addr_get a (pm_addrs m) of Some paddr \<Rightarrow> fdreg_get_fd (an_fd paddr) (pm_fds m) | None \<Rightarrow> None)
        in Some ([shm_call (mapping_type m (map_option fdn_type pfd)) FTYPE_FREE ''munmap'' 0 a
             (Some [arg16 ''length'' (format_0x (unat n)), (None, None)])], m)))"

text \<open>The entry of a closed descriptor stays in the registry: the code that removes it is disabled.\<close>

definition posix_close :: "int \<Rightarrow> int \<Rightarrow> posix_module \<Rightarrow> preport" where
  "posix_close fd rc m =
     (if rc < 0 then Some ([], m)
      else Some (case fdreg_get_fd fd (pm_fds m) of
             Some pfd \<Rightarrow> if fdn_type pfd = FD_POSIX then [shm_call (pm_pshmfd m) FTYPE_FREE ''close'' 0 (word_of_int fd) None] else []
           | None \<Rightarrow> [], m))"

section \<open>The calls of a program\<close>

datatype posix_op =
    Shm_open cstring u32 u32 memory_ok memory_ok int
  | Shm_unlink cstring memory_ok int
  | Posix_open cstring u32 memory_ok int
  | Posix_open64 cstring u32 memory_ok int
  | Posix_creat cstring memory_ok int
  | Mmap u64 u32 u32 int u64 memory_ok pointer_t
  | Mmap64 u64 u32 u32 int u64 memory_ok pointer_t
  | Munmap pointer_t u64 int
  | Posix_close int int

fun posix_trace_on :: "posix_op \<Rightarrow> posix_module \<Rightarrow> preport" where
  "posix_trace_on (Shm_open name oflag mode mem mem' rc) = trace_shm_open name oflag mode mem mem' rc"
| "posix_trace_on (Shm_unlink name mem rc) = trace_shm_unlink name mem rc"
| "posix_trace_on (Posix_open p flags mem rc) = posix_open p flags mem rc"
| "posix_trace_on (Posix_open64 p flags mem rc) = posix_open p flags mem rc"
| "posix_trace_on (Posix_creat p mem rc) = posix_creat p mem rc"
| "posix_trace_on (Mmap n prot flags fd offset mem rc) = trace_mmap ''mmap'' n prot flags fd offset mem rc"
| "posix_trace_on (Mmap64 n prot flags fd offset mem rc) = trace_mmap ''mmap64'' n prot flags fd offset mem rc"
| "posix_trace_on (Munmap a n rc) = trace_munmap a n rc"
| "posix_trace_on (Posix_close fd rc) = posix_close fd rc"

section \<open>The identifiers of names\<close>

lemma nreg_validate_fold: "fold (nreg_validate_hash hash) reg b \<longleftrightarrow> b \<and> hash \<notin> nr_hash ` set reg"
  by (induction reg arbitrary: b) (auto simp: nreg_validate_hash_def)

lemma nreg_hash_exists_iff: "nreg_hash_exists reg hash \<longleftrightarrow> hash \<in> nr_hash ` set reg"
  by (simp add: nreg_hash_exists_def nreg_validate_fold)

definition nreg_ok :: "nreg_node list \<Rightarrow> bool" where
  "nreg_ok reg \<longleftrightarrow> distinct (map nr_name reg) \<and> distinct (map nr_hash reg)"

text \<open>The search ends as long as there are fewer names than identifiers.\<close>

lemma nreg_free_hash_steps:
  assumes "\<forall>j<k. hash + of_nat j \<in> nr_hash ` set reg" "hash + of_nat k \<notin> nr_hash ` set reg"
  shows "nreg_free_hash reg hash = Some (hash + of_nat k)"
  using assms
proof (induction k arbitrary: hash)
  case 0
  then show ?case by (subst nreg_free_hash.simps) (simp add: nreg_hash_exists_iff)
next
  case (Suc k)
  have "(hash + 1) + of_nat j \<in> nr_hash ` set reg" if "j < k" for j
    using Suc.prems(1) [rule_format, of "Suc j"] that by (simp add: ac_simps)
  then have "\<forall>j<k. (hash + 1) + of_nat j \<in> nr_hash ` set reg" by blast
  moreover have "(hash + 1) + of_nat k \<notin> nr_hash ` set reg" using Suc.prems(2) by (simp add: ac_simps)
  ultimately have "nreg_free_hash reg (hash + 1) = Some (hash + 1 + of_nat k)" by (rule Suc.IH)
  moreover have "hash \<in> nr_hash ` set reg" using Suc.prems(1) by (auto dest!: spec [of _ 0])
  ultimately show ?case by (subst nreg_free_hash.simps) (simp add: nreg_hash_exists_iff ac_simps)
qed

lemma nreg_free_hash_ends:
  assumes "length reg < 2 ^ 32"
  shows "\<exists>h. nreg_free_hash reg hash = Some h \<and> h \<notin> nr_hash ` set reg"
proof -
  have "\<exists>k. hash + of_nat k \<notin> nr_hash ` set reg"
  proof (rule ccontr)
    assume all: "\<not> ?thesis"
    have "x \<in> nr_hash ` set reg" for x
    proof -
      have "hash + of_nat (unat (x - hash)) = x" by simp
      then show ?thesis using all by metis
    qed
    then have "(UNIV :: u32 set) \<subseteq> nr_hash ` set reg" by auto
    then have "card (UNIV :: u32 set) \<le> card (nr_hash ` set reg)" by (rule card_mono [rotated]) simp
    also have "\<dots> \<le> length reg" using card_image_le [of "set reg" nr_hash] card_length [of reg] by simp
    finally show False using assms by (simp add: card_word)
  qed
  then obtain k where k: "hash + of_nat k \<notin> nr_hash ` set reg" "\<forall>j<k. hash + of_nat j \<in> nr_hash ` set reg"
    using exists_least_iff [of "\<lambda>k. hash + of_nat k \<notin> nr_hash ` set reg"] by blast
  from nreg_free_hash_steps [OF k(2,1)] k(1) show ?thesis by blast
qed

lemma nreg_find_Some: "nreg_find reg name = Some node \<Longrightarrow> nr_name node = name \<and> node \<in> set reg"
  by (auto simp: nreg_find_def find_Some_iff)

lemma nreg_find_None: "nreg_find reg name = None \<longleftrightarrow> name \<notin> nr_name ` set reg"
  by (auto simp: nreg_find_def find_None_iff)

lemma nreg_find_append: "nreg_find (reg @ [node]) name =
    (case nreg_find reg name of Some n \<Rightarrow> Some n | None \<Rightarrow> if nr_name node = name then Some node else None)"
  by (induction reg) (auto simp: nreg_find_def)

abbreviation mem_all :: memory_ok where
  "mem_all \<equiv> \<lparr>mo_malloc = True, mo_strdup = True, mo_tsearch = True\<rparr>"

lemma nreg_get_hash_ok:
  assumes "nreg_ok reg" "length reg < 2 ^ 32"
  shows "\<exists>i reg' node. nreg_get_hash mem_all name reg = Some (i, reg') \<and> nreg_ok reg' \<and> nreg_find reg' name = Some node \<and> nr_hash node = i \<and>
    (\<forall>n. n \<noteq> name \<longrightarrow> nreg_find reg' n = nreg_find reg n) \<and> (\<forall>node'. nreg_find reg name = Some node' \<longrightarrow> node' = node \<and> reg' = reg)"
proof (cases "nreg_find reg name")
  case None
  obtain h where h: "nreg_calc_hash reg name = Some h" "h \<notin> nr_hash ` set reg"
    using nreg_free_hash_ends [OF assms(2)] by (auto simp: nreg_calc_hash_def)
  have "nreg_ok (reg @ [\<lparr>nr_name = name, nr_hash = h\<rparr>])" using assms(1) h(2) None by (auto simp: nreg_ok_def nreg_find_None)
  then show ?thesis using None h(1) by (auto simp: nreg_get_hash_def nreg_find_append split: option.split)
qed (use assms in \<open>simp add: nreg_get_hash_def\<close>)

lemma nreg_ids_differ:
  assumes "nreg_ok reg" "nreg_find reg n = Some a" "nreg_find reg n' = Some b" "nr_hash a = nr_hash b"
  shows "n = n'"
  using assms nreg_find_Some [OF assms(2)] nreg_find_Some [OF assms(3)] by (auto simp: nreg_ok_def distinct_map dest: inj_onD)

section \<open>Lookup after store\<close>

lemma find_map_key: "(\<And>x. P x \<Longrightarrow> Q (f x)) \<Longrightarrow> (\<And>x. \<not> P x \<Longrightarrow> f x = x) \<Longrightarrow> (\<And>x. P x \<longleftrightarrow> Q x) \<Longrightarrow>
    find Q (map f xs) = map_option f (find Q xs)"
  by (induction xs) auto

lemma find_map_other: "(\<And>x. P x \<Longrightarrow> \<not> Q x \<and> \<not> Q (f x)) \<Longrightarrow> (\<And>x. \<not> P x \<Longrightarrow> f x = x) \<Longrightarrow> find Q (map f xs) = find Q xs"
proof (induction xs)
  case (Cons x xs)
  then show ?case by (cases "P x") simp_all
qed simp

lemma find_append: "find P (xs @ ys) = (case find P xs of Some x \<Rightarrow> Some x | None \<Rightarrow> find P ys)"
  by (induction xs) auto

lemma fdreg_get_store:
  assumes "mo_malloc mem" "mo_tsearch mem"
  shows "map_option fdn_type (fdreg_get_fd fd' (fdreg_store_fd mem fd name type mode reg)) =
    (if fd' = fd then Some type else map_option fdn_type (fdreg_get_fd fd' reg))"
proof (cases "find (\<lambda>node. fdn_fd node = fd) reg")
  case None
  then show ?thesis using assms by (auto simp: fdreg_store_fd_def fdreg_get_fd_def find_append split: option.split)
next
  case (Some n)
  let ?node = "\<lparr>fdn_type = type, fdn_name = (if mo_strdup mem then Some name else None), fdn_fd = fd, fdn_mode = mode\<rparr>"
  let ?f = "\<lambda>n. if fdn_fd n = fd then ?node else n"
  have n: "fdn_fd n = fd" using Some by (auto simp: find_Some_iff)
  have "find (\<lambda>node. fdn_fd node = fd) (map ?f reg) = map_option ?f (find (\<lambda>node. fdn_fd node = fd) reg)"
    by (rule find_map_key [of "\<lambda>node. fdn_fd node = fd"]) simp_all
  moreover have "find (\<lambda>node. fdn_fd node = fd') (map ?f reg) = find (\<lambda>node. fdn_fd node = fd') reg" if "fd' \<noteq> fd"
    using that by (intro find_map_other [of "\<lambda>node. fdn_fd node = fd"]) auto
  ultimately show ?thesis using Some n by (auto simp: fdreg_store_fd_def fdreg_get_fd_def)
qed

lemma addr_get_store:
  assumes "mo_malloc mem" "mo_tsearch mem"
  shows "map_option an_fd (addr_get a' (addr_store mem a fd reg)) = (if a' = a then Some fd else map_option an_fd (addr_get a' reg))"
proof (cases "find (\<lambda>node. an_addr node = a) reg")
  case None
  then show ?thesis using assms by (auto simp: addr_store_def addr_get_def find_append split: option.split)
next
  case (Some n)
  let ?f = "\<lambda>n. if an_addr n = a then n\<lparr>an_fd := fd\<rparr> else n"
  have n: "an_addr n = a" using Some by (auto simp: find_Some_iff)
  have "find (\<lambda>node. an_addr node = a) (map ?f reg) = map_option ?f (find (\<lambda>node. an_addr node = a) reg)"
    by (rule find_map_key [of "\<lambda>node. an_addr node = a"]) simp_all
  moreover have "find (\<lambda>node. an_addr node = a') (map ?f reg) = find (\<lambda>node. an_addr node = a') reg" if "a' \<noteq> a"
    using that by (intro find_map_other [of "\<lambda>node. an_addr node = a"]) auto
  ultimately show ?thesis using Some n by (auto simp: addr_store_def addr_get_def)
qed

end
