(* ===== verification/Shm_Objects.thy ===== *)
theory Shm_Objects
  imports Shm_Posix
begin

text \<open>
  The reports of the POSIX shared memory module describe the objects the process has created, its
  descriptors of shared memory objects and its mappings.  The world also records how a descriptor was
  opened last, and the identifiers given to names.
\<close>

section \<open>The world\<close>

record posix_world =
  pw_names :: "nreg_node list"
  pw_objects :: "cstring set"
  pw_kinds :: "int \<rightharpoonup> fd_kind"
  pw_open :: "int set"
  pw_maps :: "pointer_t \<rightharpoonup> int \<times> fd_kind option \<times> u64"

definition name_known :: "cstring \<Rightarrow> nreg_node list \<Rightarrow> nreg_node list" where
  "name_known name reg = (case nreg_get_hash mem_all name reg of Some (i, reg') \<Rightarrow> reg' | None \<Rightarrow> reg)"

definition name_id :: "nreg_node list \<Rightarrow> cstring \<Rightarrow> u32" where
  "name_id reg name = nr_hash (the (nreg_find reg name))"

definition open_world :: "int \<Rightarrow> posix_world \<Rightarrow> posix_world" where
  "open_world rc w = (if rc < 0 then w else w\<lparr>pw_kinds := (pw_kinds w)(rc \<mapsto> FD_FILE)\<rparr>)"

definition map_world :: "u64 \<Rightarrow> int \<Rightarrow> pointer_t \<Rightarrow> posix_world \<Rightarrow> posix_world" where
  "map_world n fd rc w = (if rc = - 1 then w else w\<lparr>pw_maps := (pw_maps w)(rc \<mapsto> (fd, pw_kinds w fd, n))\<rparr>)"

fun posix_after :: "posix_world \<Rightarrow> posix_op \<Rightarrow> posix_world" where
  "posix_after w (Shm_open name oflag mode mem mem' rc) =
     (if rc < 0 then w
      else if oflag AND O_CREAT \<noteq> 0
      then w\<lparr>pw_objects := insert name (pw_objects w), pw_names := name_known name (pw_names w),
             pw_kinds := (pw_kinds w)(rc \<mapsto> FD_POSIX), pw_open := insert rc (pw_open w)\<rparr>
      else w\<lparr>pw_kinds := (pw_kinds w)(rc \<mapsto> FD_POSIX), pw_open := insert rc (pw_open w)\<rparr>)"
| "posix_after w (Shm_unlink name mem rc) =
     (if rc < 0 then w else w\<lparr>pw_objects := pw_objects w - {name}, pw_names := name_known name (pw_names w)\<rparr>)"
| "posix_after w (Posix_open p flags mem rc) = open_world rc w"
| "posix_after w (Posix_open64 p flags mem rc) = open_world rc w"
| "posix_after w (Posix_creat p mem rc) = open_world rc w"
| "posix_after w (Mmap n prot flags fd offset mem rc) = map_world n fd rc w"
| "posix_after w (Mmap64 n prot flags fd offset mem rc) = map_world n fd rc w"
| "posix_after w (Munmap a n rc) = (if rc < 0 then w else w\<lparr>pw_maps := (pw_maps w)(a := None)\<rparr>)"
| "posix_after w (Posix_close fd rc) = (if rc < 0 then w else w\<lparr>pw_open := pw_open w - {fd}\<rparr>)"

text \<open>
  The documented results: a descriptor and an address are new when they are handed out.  The program
  creates an object only when it does not exist, unmaps whole mappings, and has not opened another kind of object under
  the descriptor of a mapping before it unmaps it.
\<close>

definition new_fd :: "memory_ok \<Rightarrow> int \<Rightarrow> posix_world \<Rightarrow> bool" where
  "new_fd mem rc w \<longleftrightarrow> rc \<ge> 0 \<longrightarrow> mem = mem_all \<and> rc < 2 ^ 31 \<and> rc \<notin> pw_open w"

definition new_name :: "memory_ok \<Rightarrow> posix_world \<Rightarrow> bool" where
  "new_name mem w \<longleftrightarrow> mem = mem_all \<and> length (pw_names w) < 2 ^ 32"

definition new_map :: "memory_ok \<Rightarrow> pointer_t \<Rightarrow> posix_world \<Rightarrow> bool" where
  "new_map mem rc w \<longleftrightarrow> rc \<noteq> - 1 \<longrightarrow> mem = mem_all \<and> rc \<notin> dom (pw_maps w)"

fun posix_legal :: "posix_world \<Rightarrow> posix_op \<Rightarrow> bool" where
  "posix_legal w (Shm_open name oflag mode mem mem' rc) \<longleftrightarrow>
     new_fd mem rc w \<and> (rc \<ge> 0 \<and> oflag AND O_CREAT \<noteq> 0 \<longrightarrow> new_name mem' w \<and> name \<notin> pw_objects w)"
| "posix_legal w (Shm_unlink name mem rc) \<longleftrightarrow> rc \<ge> 0 \<longrightarrow> new_name mem w"
| "posix_legal w (Posix_open p flags mem rc) \<longleftrightarrow> new_fd mem rc w"
| "posix_legal w (Posix_open64 p flags mem rc) \<longleftrightarrow> new_fd mem rc w"
| "posix_legal w (Posix_creat p mem rc) \<longleftrightarrow> new_fd mem rc w"
| "posix_legal w (Mmap n prot flags fd offset mem rc) \<longleftrightarrow> new_map mem rc w"
| "posix_legal w (Mmap64 n prot flags fd offset mem rc) \<longleftrightarrow> new_map mem rc w"
| "posix_legal w (Munmap a n rc) \<longleftrightarrow> rc \<ge> 0 \<longrightarrow> (\<exists>fd kind. pw_maps w a = Some (fd, kind, n) \<and> pw_kinds w fd = kind)"
| "posix_legal w (Posix_close fd rc) \<longleftrightarrow> rc \<ge> 0 \<longrightarrow> 0 \<le> fd \<and> fd < 2 ^ 31"

definition object_key :: "posix_module \<Rightarrow> posix_world \<Rightarrow> cstring \<Rightarrow> res_key" where
  "object_key m w name = (pm_pshmobj m, ucast (name_id (pw_names w) name))"

definition fd_key :: "posix_module \<Rightarrow> int \<Rightarrow> res_key" where
  "fd_key m fd = (pm_pshmfd m, word_of_int fd)"

definition map_key :: "posix_module \<Rightarrow> posix_world \<Rightarrow> pointer_t \<Rightarrow> res_key" where
  "map_key m w a = (mapping_type m (fst (snd (the (pw_maps w a)))), a)"

definition posix_keys :: "posix_module \<Rightarrow> posix_world \<Rightarrow> res_key set" where
  "posix_keys m w = object_key m w ` pw_objects w \<union> fd_key m ` pw_open w \<union> map_key m w ` dom (pw_maps w)"

definition posix_types :: "posix_module \<Rightarrow> u32 list" where
  "posix_types m = [pm_pshmmap m, pm_fshmmap m, pm_shmmap m, pm_pshmobj m, pm_pshmfd m]"

definition posix_rel :: "posix_module \<Rightarrow> posix_module \<Rightarrow> posix_world \<Rightarrow> bool" where
  "posix_rel m0 m w \<longleftrightarrow> posix_types m = posix_types m0 \<and> distinct (posix_types m0) \<and>
     nreg_ok (pm_names m) \<and> pm_names m = pw_names w \<and> (\<forall>name\<in>pw_objects w. nreg_find (pw_names w) name \<noteq> None) \<and>
     (\<forall>fd. map_option fdn_type (fdreg_get_fd fd (pm_fds m)) = pw_kinds w fd) \<and>
     (\<forall>fd\<in>pw_open w. pw_kinds w fd = Some FD_POSIX \<and> 0 \<le> fd \<and> fd < 2 ^ 31) \<and>
     (\<forall>a fd kind n. pw_maps w a = Some (fd, kind, n) \<longrightarrow> map_option an_fd (addr_get a (pm_addrs m)) = Some fd)"

section \<open>The contract\<close>

definition posix_step_ok :: "posix_module \<Rightarrow> posix_module \<Rightarrow> posix_world \<Rightarrow> posix_op \<Rightarrow> bool" where
  "posix_step_ok m0 m w x \<longleftrightarrow> (\<exists>cs m'. posix_trace_on x m = Some (cs, m') \<and> posix_rel m0 m' (posix_after w x) \<and>
     moves (posix_keys m0 w) cs (posix_keys m0 (posix_after w x)) \<and> fst ` mcall_key ` set cs \<subseteq> set (posix_types m0))"

lemma posix_relD:
  assumes "posix_rel m0 m w"
  shows "pm_pshmmap m = pm_pshmmap m0" "pm_fshmmap m = pm_fshmmap m0" "pm_shmmap m = pm_shmmap m0" "pm_pshmobj m = pm_pshmobj m0"
    "pm_pshmfd m = pm_pshmfd m0" "mapping_type m = mapping_type m0"
proof -
  show "pm_pshmmap m = pm_pshmmap m0" "pm_fshmmap m = pm_fshmmap m0" "pm_shmmap m = pm_shmmap m0" "pm_pshmobj m = pm_pshmobj m0"
    "pm_pshmfd m = pm_pshmfd m0"
    using assms by (simp_all add: posix_rel_def posix_types_def)
  then show "mapping_type m = mapping_type m0" by (auto simp: mapping_type_def split: option.split)
qed

lemma mapping_type_cases: "mapping_type m kind \<in> {pm_pshmmap m, pm_fshmmap m, pm_shmmap m}"
  by (auto simp: mapping_type_def split: option.split)

lemma key_kinds:
  assumes "distinct (posix_types m0)"
  shows "object_key m0 w n \<noteq> fd_key m0 fd" "object_key m0 w n \<noteq> map_key m0 w' a" "fd_key m0 fd \<noteq> map_key m0 w' a"
  using assms mapping_type_cases [of m0 "fst (snd (the (pw_maps w' a)))"]
  by (auto simp: object_key_def fd_key_def map_key_def posix_types_def)

lemma fd_key_inj: "0 \<le> i \<Longrightarrow> i < 2 ^ 31 \<Longrightarrow> 0 \<le> j \<Longrightarrow> j < 2 ^ 31 \<Longrightarrow> fd_key m i = fd_key m j \<Longrightarrow> i = j"
  using seg_word_inj [of i j] by (simp add: fd_key_def)

lemma object_key_inj:
  assumes "nreg_ok (pw_names w)" "nreg_find (pw_names w) n \<noteq> None" "nreg_find (pw_names w) n' \<noteq> None" "object_key m w n = object_key m w n'"
  shows "n = n'"
proof -
  obtain a b where "nreg_find (pw_names w) n = Some a" "nreg_find (pw_names w) n' = Some b" using assms(2,3) by auto
  then show ?thesis using nreg_ids_differ [OF assms(1)] assms(4) by (auto simp: object_key_def name_id_def dest: ucast64_inj)
qed

text \<open>A name gets an identifier that differs from those of all other names.\<close>

lemma name_known:
  assumes "nreg_ok reg" "length reg < 2 ^ 32"
  shows "nreg_get_hash mem_all name reg = Some (name_id (name_known name reg) name, name_known name reg)"
    "nreg_ok (name_known name reg)" "nreg_find (name_known name reg) name \<noteq> None"
    "nreg_find reg n \<noteq> None \<Longrightarrow> nreg_find (name_known name reg) n = nreg_find reg n"
proof -
  obtain i reg' node where r: "nreg_get_hash mem_all name reg = Some (i, reg')" "nreg_ok reg'" "nreg_find reg' name = Some node" "nr_hash node = i"
    "\<forall>n. n \<noteq> name \<longrightarrow> nreg_find reg' n = nreg_find reg n" "\<forall>node'. nreg_find reg name = Some node' \<longrightarrow> node' = node \<and> reg' = reg"
    using nreg_get_hash_ok [OF assms, of name] by auto
  have k: "name_known name reg = reg'" using r(1) by (simp add: name_known_def)
  show "nreg_get_hash mem_all name reg = Some (name_id (name_known name reg) name, name_known name reg)"
    "nreg_ok (name_known name reg)" "nreg_find (name_known name reg) name \<noteq> None"
    using r(1-4) by (simp_all add: k name_id_def)
  show "nreg_find (name_known name reg) n = nreg_find reg n" if "nreg_find reg n \<noteq> None"
    using r(3,5,6) that by (cases "n = name") (auto simp: k)
qed

lemma object_keys_known:
  assumes "posix_rel m0 m w" "length (pw_names w) < 2 ^ 32" "pw_names w' = name_known name (pw_names w)" "n \<in> pw_objects w"
  shows "object_key m0 w' n = object_key m0 w n"
proof -
  have "nreg_ok (pw_names w)" "nreg_find (pw_names w) n \<noteq> None" using assms(1,4) by (auto simp: posix_rel_def)
  from name_known(4) [OF this(1) assms(2) this(2)] show ?thesis by (simp add: object_key_def name_id_def assms(3))
qed

lemma key_worlds [simp]:
  "object_key m (w\<lparr>pw_kinds := k\<rparr>) = object_key m w" "object_key m (w\<lparr>pw_open := F\<rparr>) = object_key m w"
  "object_key m (w\<lparr>pw_objects := N\<rparr>) = object_key m w" "object_key m (w\<lparr>pw_maps := M\<rparr>) = object_key m w"
  "map_key m (w\<lparr>pw_kinds := k\<rparr>) = map_key m w" "map_key m (w\<lparr>pw_open := F\<rparr>) = map_key m w"
  "map_key m (w\<lparr>pw_objects := N\<rparr>) = map_key m w" "map_key m (w\<lparr>pw_names := R\<rparr>) = map_key m w"
  by (auto simp: object_key_def map_key_def)

lemma keys_of:
  assumes "posix_rel m0 m w"
  shows "0 \<le> fd \<Longrightarrow> fd < 2 ^ 31 \<Longrightarrow> fd_key m0 fd \<in> posix_keys m0 w \<longleftrightarrow> fd \<in> pw_open w"
    "nreg_find (pw_names w) n \<noteq> None \<Longrightarrow> object_key m0 w n \<in> posix_keys m0 w \<longleftrightarrow> n \<in> pw_objects w"
    "a \<notin> dom (pw_maps w) \<Longrightarrow> (mapping_type m0 kind, a) \<notin> posix_keys m0 w"
proof -
  note d = key_kinds [of m0]
  have dist: "distinct (posix_types m0)" and inv: "\<forall>fd\<in>pw_open w. 0 \<le> fd \<and> fd < 2 ^ 31" "\<forall>n\<in>pw_objects w. nreg_find (pw_names w) n \<noteq> None" "nreg_ok (pw_names w)"
    using assms by (auto simp: posix_rel_def)
  show "fd_key m0 fd \<in> posix_keys m0 w \<longleftrightarrow> fd \<in> pw_open w" if "0 \<le> fd" "fd < 2 ^ 31"
  proof -
    have "fd_key m0 fd \<notin> object_key m0 w ` pw_objects w" "fd_key m0 fd \<notin> map_key m0 w ` dom (pw_maps w)"
      using d(1,3) [OF dist] by (metis imageE)+
    moreover have "fd_key m0 fd \<in> fd_key m0 ` pw_open w \<longleftrightarrow> fd \<in> pw_open w" using fd_key_inj [OF that] inv(1) by blast
    ultimately show ?thesis by (simp add: posix_keys_def)
  qed
  show "object_key m0 w n \<in> posix_keys m0 w \<longleftrightarrow> n \<in> pw_objects w" if "nreg_find (pw_names w) n \<noteq> None"
  proof -
    have "object_key m0 w n \<notin> fd_key m0 ` pw_open w" "object_key m0 w n \<notin> map_key m0 w ` dom (pw_maps w)"
      using d(1,2) [OF dist] by blast+
    moreover have "object_key m0 w n \<in> object_key m0 w ` pw_objects w \<longleftrightarrow> n \<in> pw_objects w"
      using object_key_inj [OF inv(3) that] inv(2) by blast
    ultimately show ?thesis by (simp add: posix_keys_def)
  qed
  have t: "mapping_type m0 kind \<notin> {pm_pshmobj m0, pm_pshmfd m0}" using dist mapping_type_cases [of m0 kind] by (auto simp: posix_types_def)
  show "(mapping_type m0 kind, a) \<notin> posix_keys m0 w" if "a \<notin> dom (pw_maps w)"
    using that t by (auto simp: posix_keys_def object_key_def fd_key_def map_key_def)
qed

lemma posix_types_mem: "pm_pshmobj m \<in> set (posix_types m)" "pm_pshmfd m \<in> set (posix_types m)" "mapping_type m kind \<in> set (posix_types m)"
  using mapping_type_cases [of m kind] by (auto simp: posix_types_def)

text \<open>A new descriptor of a shared memory object.\<close>

lemma shm_fd_step:
  assumes "posix_rel m0 m w" "0 \<le> rc" "rc < 2 ^ 31" "rc \<notin> pw_open w" "mcall_type c = FTYPE_ALLOC" "mcall_key c = fd_key m0 rc"
  shows "posix_rel m0 (m\<lparr>pm_fds := fdreg_store_fd mem_all rc name FD_POSIX oflag (pm_fds m)\<rparr>)
      (w\<lparr>pw_kinds := (pw_kinds w)(rc \<mapsto> FD_POSIX), pw_open := insert rc (pw_open w)\<rparr>)"
    "moves (posix_keys m0 w) [c] (posix_keys m0 (w\<lparr>pw_kinds := (pw_kinds w)(rc \<mapsto> FD_POSIX), pw_open := insert rc (pw_open w)\<rparr>))"
proof -
  let ?w = "w\<lparr>pw_kinds := (pw_kinds w)(rc \<mapsto> FD_POSIX), pw_open := insert rc (pw_open w)\<rparr>"
  show "posix_rel m0 (m\<lparr>pm_fds := fdreg_store_fd mem_all rc name FD_POSIX oflag (pm_fds m)\<rparr>) ?w"
    using assms(1-3) by (auto simp: posix_rel_def fdreg_get_store posix_types_def)
  have "posix_keys m0 ?w = insert (mcall_key c) (posix_keys m0 w)" using assms(6) by (auto simp: posix_keys_def)
  moreover have "mcall_key c \<notin> posix_keys m0 w" using keys_of(1) [OF assms(1-3)] assms(4,6) by simp
  ultimately show "moves (posix_keys m0 w) [c] (posix_keys m0 ?w)" using moves_alloc [OF assms(5)] by simp
qed

text \<open>A new object, and its removal.\<close>

lemma known_world:
  assumes "posix_rel m0 m w" "length (pw_names w) < 2 ^ 32" "N \<subseteq> insert name (pw_objects w)"
  shows "posix_rel m0 (m\<lparr>pm_names := name_known name (pw_names w)\<rparr>) (w\<lparr>pw_objects := N, pw_names := name_known name (pw_names w)\<rparr>)"
    "nreg_get_hash mem_all name (pm_names m) = Some (name_id (name_known name (pw_names w)) name, name_known name (pw_names w))"
    "posix_keys m0 (w\<lparr>pw_names := name_known name (pw_names w)\<rparr>) = posix_keys m0 w"
proof -
  have r: "nreg_ok (pw_names w)" "pm_names m = pw_names w" "\<forall>n\<in>pw_objects w. nreg_find (pw_names w) n \<noteq> None" using assms(1) by (auto simp: posix_rel_def)
  note k = name_known [OF r(1) assms(2), where name = name]
  have "nreg_find (name_known name (pw_names w)) n \<noteq> None" if "n \<in> N" for n
  proof (cases "n = name")
    case False
    then have n: "nreg_find (pw_names w) n \<noteq> None" using that assms(3) r(3) by blast
    show ?thesis using k(4) [OF n] n by simp
  qed (use k(3) in simp)
  then show "posix_rel m0 (m\<lparr>pm_names := name_known name (pw_names w)\<rparr>) (w\<lparr>pw_objects := N, pw_names := name_known name (pw_names w)\<rparr>)"
    using assms(1) k(2) by (simp add: posix_rel_def posix_types_def)
  show "nreg_get_hash mem_all name (pm_names m) = Some (name_id (name_known name (pw_names w)) name, name_known name (pw_names w))"
    using k(1) r(2) by simp
  have "object_key m0 (w\<lparr>pw_names := name_known name (pw_names w)\<rparr>) ` pw_objects w = object_key m0 w ` pw_objects w"
    using object_keys_known [OF assms(1,2)] by (intro image_cong) auto
  then show "posix_keys m0 (w\<lparr>pw_names := name_known name (pw_names w)\<rparr>) = posix_keys m0 w" by (simp add: posix_keys_def)
qed

lemma world_swap: "w\<lparr>pw_names := R, pw_objects := N\<rparr> = w\<lparr>pw_objects := N, pw_names := R\<rparr>" for w :: posix_world
  by simp

lemma object_moves:
  assumes "posix_rel m0 m w" "length (pw_names w) < 2 ^ 32" "w' = w\<lparr>pw_names := name_known name (pw_names w)\<rparr>" "mcall_key c = object_key m0 w' name"
  shows "mcall_type c = FTYPE_ALLOC \<Longrightarrow> name \<notin> pw_objects w \<Longrightarrow> moves (posix_keys m0 w) [c] (posix_keys m0 (w'\<lparr>pw_objects := insert name (pw_objects w)\<rparr>))"
    "mcall_type c = FTYPE_FREE \<Longrightarrow> moves (posix_keys m0 w) [c] (posix_keys m0 (w'\<lparr>pw_objects := pw_objects w - {name}\<rparr>))"
proof -
  have rel: "posix_rel m0 (m\<lparr>pm_names := name_known name (pw_names w)\<rparr>) w'"
    using known_world(1) [OF assms(1,2), of "pw_objects w" name] assms(3) by auto
  have keys: "posix_keys m0 w' = posix_keys m0 w" using known_world(3) [OF assms(1,2)] assms(3) by blast
  have found: "nreg_find (pw_names w') name \<noteq> None" 
    using name_known(3) [OF _ assms(2), where name = name] assms(1,3) by (auto simp: posix_rel_def)
  have obj: "pw_objects w' = pw_objects w" by (simp add: assms(3))
  show "moves (posix_keys m0 w) [c] (posix_keys m0 (w'\<lparr>pw_objects := insert name (pw_objects w)\<rparr>))"
    if "mcall_type c = FTYPE_ALLOC" "name \<notin> pw_objects w"
  proof -
    have "mcall_key c \<notin> posix_keys m0 w" using keys_of(2) [OF rel found] assms(4) keys obj that(2) by simp
    moreover have "posix_keys m0 (w'\<lparr>pw_objects := insert name (pw_objects w)\<rparr>) = insert (mcall_key c) (posix_keys m0 w)"
      unfolding keys [symmetric] assms(4) by (auto simp: posix_keys_def obj)
    ultimately show ?thesis using moves_alloc [OF that(1)] by simp
  qed
  have inj: "inj_on (object_key m0 w') (insert name (pw_objects w'))"
    using object_key_inj rel found by (intro inj_onI) (auto simp: posix_rel_def)
  have dist: "distinct (posix_types m0)" using rel by (simp add: posix_rel_def)
  have "object_key m0 w' ` (pw_objects w - {name}) = object_key m0 w' ` pw_objects w - {object_key m0 w' name}"
    using inj unfolding obj by (auto dest: inj_onD)
  moreover have notin: "object_key m0 w' name \<notin> fd_key m0 ` pw_open w'" "object_key m0 w' name \<notin> map_key m0 w' ` dom (pw_maps w')"
    using key_kinds(1,2) [OF dist] by blast+
  ultimately have "posix_keys m0 (w'\<lparr>pw_objects := pw_objects w - {name}\<rparr>) = posix_keys m0 w' - {object_key m0 w' name}"
    using notin by (simp add: posix_keys_def obj Un_Diff Diff_insert0)
  then show "mcall_type c = FTYPE_FREE \<Longrightarrow> moves (posix_keys m0 w) [c] (posix_keys m0 (w'\<lparr>pw_objects := pw_objects w - {name}\<rparr>))"
    using moves_free [of c "posix_keys m0 w"] keys assms(4) by simp
qed

lemma posix_step_shm_open:
  assumes rel: "posix_rel m0 m w" and legal: "posix_legal w (Shm_open name oflag mode mem mem' rc)"
  shows "posix_step_ok m0 m w (Shm_open name oflag mode mem mem' rc)"
proof (cases "rc < 0")
  case False
  let ?args = "Some [shm_arg ''name'' name, arg16 ''oflag'' (format_0x (unat oflag)), arg16 ''mode'' (format_0x (unat mode)), (None, None)]"
  let ?c = "shm_call (pm_pshmfd m) FTYPE_ALLOC ''shm_open'' 1 (word_of_int rc) ?args"
  let ?f = "\<lambda>m. m\<lparr>pm_fds := fdreg_store_fd mem rc name FD_POSIX oflag (pm_fds m)\<rparr>"
  let ?v = "\<lambda>w. w\<lparr>pw_kinds := (pw_kinds w)(rc \<mapsto> FD_POSIX), pw_open := insert rc (pw_open w)\<rparr>"
  note ids = posix_relD [OF rel]
  have rc: "mem = mem_all" "0 \<le> rc" "rc < 2 ^ 31" "rc \<notin> pw_open w" using legal False by (auto simp: new_fd_def)
  have c: "mcall_type ?c = FTYPE_ALLOC" "mcall_key ?c = fd_key m0 rc" using ids by (simp_all add: fd_key_def)
  show ?thesis
  proof (cases "oflag AND O_CREAT \<noteq> 0")
    case True
    let ?R = "name_known name (pw_names w)" and ?m = "m\<lparr>pm_names := name_known name (pw_names w)\<rparr>"
    let ?w = "w\<lparr>pw_objects := insert name (pw_objects w), pw_names := ?R\<rparr>"
    let ?d = "shm_call (pm_pshmobj m) FTYPE_ALLOC ''shm_open'' 1 (ucast (name_id ?R name)) ?args"
    have new: "mem' = mem_all" "length (pw_names w) < 2 ^ 32" "name \<notin> pw_objects w" using legal True False by (auto simp: new_name_def)
    note k = known_world [OF rel new(2), of "insert name (pw_objects w)" name, OF subset_refl]
    have "mcall_key ?d = object_key m0 (w\<lparr>pw_names := ?R\<rparr>) name" using ids by (simp add: object_key_def)
    from object_moves(1) [OF rel new(2) refl this _ new(3)] have d: "moves (posix_keys m0 w) [?d] (posix_keys m0 ?w)" unfolding world_swap by simp
    have open': "rc \<notin> pw_open ?w" using rc(4) by simp
    note fd = shm_fd_step [OF k(1) rc(2,3) open' c]
    have "posix_rel m0 (?f ?m) (posix_after w (Shm_open name oflag mode mem mem' rc))" using fd(1) rc(1) True False by simp
    moreover have "moves (posix_keys m0 w) ([?d] @ [?c]) (posix_keys m0 (posix_after w (Shm_open name oflag mode mem mem' rc)))"
      using moves_append [OF d fd(2)] True False by simp
    moreover have "posix_trace_on (Shm_open name oflag mode mem mem' rc) m = Some ([?d] @ [?c], ?f ?m)"
      using True False k(2) new(1) by (simp add: trace_shm_open_def Let_def)
    moreover have "fst ` mcall_key ` set ([?d] @ [?c]) \<subseteq> set (posix_types m0)" using posix_types_mem [of m0] ids by simp
    ultimately show ?thesis unfolding posix_step_ok_def by blast
  next
    case no: False
    note fd = shm_fd_step [OF rel rc(2-4) c]
    have "posix_trace_on (Shm_open name oflag mode mem mem' rc) m = Some ([?c], ?f m)" using False no by (simp add: trace_shm_open_def)
    then show ?thesis unfolding posix_step_ok_def
      using False no fd rc(1) posix_types_mem [of m0] ids by (intro exI [of _ "[?c]"] exI [of _ "?f m"]) simp
  qed
qed (use rel in \<open>auto simp: posix_step_ok_def trace_shm_open_def moves_none\<close>)

lemma posix_step_shm_unlink:
  assumes rel: "posix_rel m0 m w" and legal: "posix_legal w (Shm_unlink name mem rc)"
  shows "posix_step_ok m0 m w (Shm_unlink name mem rc)"
proof (cases "rc < 0")
  case False
  let ?R = "name_known name (pw_names w)"
  let ?w = "w\<lparr>pw_objects := pw_objects w - {name}, pw_names := ?R\<rparr>"
  let ?d = "shm_call (pm_pshmobj m) FTYPE_FREE ''shm_unlink'' 0 (ucast (name_id ?R name)) (Some [shm_arg ''name'' name, (None, None)])"
  note ids = posix_relD [OF rel]
  have new: "mem = mem_all" "length (pw_names w) < 2 ^ 32" using legal False by (auto simp: new_name_def)
  have k: "posix_rel m0 (m\<lparr>pm_names := ?R\<rparr>) ?w" "nreg_get_hash mem_all name (pm_names m) = Some (name_id ?R name, ?R)"
    using known_world [OF rel new(2), of "pw_objects w - {name}" name] by blast+
  have "mcall_key ?d = object_key m0 (w\<lparr>pw_names := ?R\<rparr>) name" using ids by (simp add: object_key_def)
  from object_moves(2) [OF rel new(2) refl this] have d: "moves (posix_keys m0 w) [?d] (posix_keys m0 ?w)" unfolding world_swap by simp
  have "posix_trace_on (Shm_unlink name mem rc) m = Some ([?d], m\<lparr>pm_names := ?R\<rparr>)" using False k(2) new(1) by (simp add: trace_shm_unlink_def)
  then show ?thesis unfolding posix_step_ok_def
    using False k(1) d posix_types_mem [of m0] ids by (intro exI [of _ "[?d]"] exI [of _ "m\<lparr>pm_names := ?R\<rparr>"]) simp
qed (use rel in \<open>auto simp: posix_step_ok_def trace_shm_unlink_def moves_none\<close>)

lemma open_world_rel:
  assumes "posix_rel m0 m w" "new_fd mem rc w"
  shows "posix_rel m0 (if rc \<ge> 0 then m\<lparr>pm_fds := fdreg_store_fd mem rc p FD_FILE flags (pm_fds m)\<rparr> else m) (open_world rc w)"
    "posix_keys m0 (open_world rc w) = posix_keys m0 w"
  using assms by (auto simp: posix_rel_def open_world_def new_fd_def fdreg_get_store posix_types_def posix_keys_def)

lemma posix_step_mmap:
  assumes rel: "posix_rel m0 m w" and legal: "new_map mem rc w"
  shows "\<exists>cs m'. trace_mmap name n prot flags fd offset mem rc m = Some (cs, m') \<and> posix_rel m0 m' (map_world n fd rc w) \<and>
    moves (posix_keys m0 w) cs (posix_keys m0 (map_world n fd rc w)) \<and> fst ` mcall_key ` set cs \<subseteq> set (posix_types m0)"
proof (cases "rc = - 1")
  case False
  let ?m = "m\<lparr>pm_addrs := addr_store mem rc fd (pm_addrs m)\<rparr>" and ?w = "w\<lparr>pw_maps := (pw_maps w)(rc \<mapsto> (fd, pw_kinds w fd, n))\<rparr>"
  have new: "mem = mem_all" "rc \<notin> dom (pw_maps w)" using legal False by (auto simp: new_map_def)
  have kind: "map_option fdn_type (fdreg_get_fd fd (pm_fds m)) = pw_kinds w fd" using rel by (simp add: posix_rel_def)
  obtain args where tr: "trace_mmap name n prot flags fd offset mem rc m =
      Some ([shm_call (mapping_type ?m (pw_kinds w fd)) FTYPE_ALLOC name (ucast n) rc args], ?m)"
    using False by (simp add: trace_mmap_def trace_mmap_common_def Let_def kind)
  let ?c = "shm_call (mapping_type ?m (pw_kinds w fd)) FTYPE_ALLOC name (ucast n) rc args"
  have "mapping_type ?m = mapping_type m" by (intro ext) (simp add: mapping_type_def split: option.split)
  then have c: "mcall_key ?c = (mapping_type m0 (pw_kinds w fd), rc)" using posix_relD(6) [OF rel] by simp
  have "posix_rel m0 ?m ?w" using rel new by (auto simp: posix_rel_def posix_types_def addr_get_store split: if_splits)
  moreover have "map_key m0 ?w ` dom (pw_maps w) = map_key m0 w ` dom (pw_maps w)"
    by (rule image_cong [OF refl]) (use new(2) in \<open>auto simp: map_key_def\<close>)
  then have "map_key m0 ?w ` dom (pw_maps ?w) = insert (mcall_key ?c) (map_key m0 w ` dom (pw_maps w))"
    unfolding c by (simp add: map_key_def)
  then have "posix_keys m0 ?w = insert (mcall_key ?c) (posix_keys m0 w)" by (simp add: posix_keys_def)
  then have "moves (posix_keys m0 w) [?c] (posix_keys m0 ?w)"
    using moves_alloc [of ?c "posix_keys m0 w"] keys_of(3) [OF rel new(2)] c by simp
  moreover have "map_world n fd rc w = ?w" using False by (simp add: map_world_def)
  moreover have "fst ` mcall_key ` set [?c] \<subseteq> set (posix_types m0)" using c posix_types_mem by simp
  ultimately show ?thesis using tr by auto
qed (use rel in \<open>simp add: trace_mmap_def map_world_def moves_none\<close>)

lemma posix_step_munmap:
  assumes rel: "posix_rel m0 m w" and legal: "posix_legal w (Munmap a n rc)"
  shows "posix_step_ok m0 m w (Munmap a n rc)"
proof (cases "rc < 0")
  case False
  let ?w = "w\<lparr>pw_maps := (pw_maps w)(a := None)\<rparr>"
  from legal False obtain fd where a: "pw_maps w a = Some (fd, pw_kinds w fd, n)" by auto
  have kind: "map_option fdn_type (fdreg_get_fd fd (pm_fds m)) = pw_kinds w fd" "map_option an_fd (addr_get a (pm_addrs m)) = Some fd"
    using rel a by (simp_all add: posix_rel_def)
  let ?c = "shm_call (mapping_type m (pw_kinds w fd)) FTYPE_FREE ''munmap'' 0 a (Some [arg16 ''length'' (format_0x (unat n)), (None, None)])"
  have tr: "posix_trace_on (Munmap a n rc) m = Some ([?c], m)"
    using False kind by (auto simp: trace_munmap_def)
  have c: "mcall_key ?c = map_key m0 w a" using posix_relD(6) [OF rel] a by (simp add: map_key_def)
  have dist: "distinct (posix_types m0)" using rel by (simp add: posix_rel_def)
  have "map_key m0 w a \<notin> object_key m0 w ` pw_objects w" "map_key m0 w a \<notin> fd_key m0 ` pw_open w"
    using key_kinds(2,3) [OF dist] by (metis imageE)+
  moreover have "map_key m0 ?w ` dom (pw_maps ?w) = map_key m0 w ` dom (pw_maps w) - {map_key m0 w a}"
    by (auto simp: map_key_def image_iff)
  ultimately have "posix_keys m0 ?w = posix_keys m0 w - {mcall_key ?c}"
    unfolding c by (simp add: posix_keys_def Un_Diff Diff_insert0)
  then have "moves (posix_keys m0 w) [?c] (posix_keys m0 ?w)" using moves_free [of ?c "posix_keys m0 w"] by simp
  moreover have "posix_rel m0 m ?w" using rel by (auto simp: posix_rel_def)
  moreover have "fst ` mcall_key ` set [?c] \<subseteq> set (posix_types m0)" using c posix_types_mem by (simp add: map_key_def)
  ultimately show ?thesis using tr False unfolding posix_step_ok_def by (intro exI [of _ "[?c]"] exI [of _ m]) simp
qed (use rel in \<open>auto simp: posix_step_ok_def trace_munmap_def moves_none\<close>)

lemma posix_step_close:
  assumes rel: "posix_rel m0 m w" and legal: "posix_legal w (Posix_close fd rc)"
  shows "posix_step_ok m0 m w (Posix_close fd rc)"
proof (cases "rc < 0")
  case False
  let ?w = "w\<lparr>pw_open := pw_open w - {fd}\<rparr>" and ?c = "shm_call (pm_pshmfd m) FTYPE_FREE ''close'' 0 (word_of_int fd) None"
  let ?cs = "if pw_kinds w fd = Some FD_POSIX then [?c] else []"
  have kind: "map_option fdn_type (fdreg_get_fd fd (pm_fds m)) = pw_kinds w fd" using rel by (simp add: posix_rel_def)
  then have tr: "posix_trace_on (Posix_close fd rc) m = Some (?cs, m)"
    using False by (auto simp: posix_close_def split: option.split)
  have rel': "posix_rel m0 m ?w" using rel by (auto simp: posix_rel_def)
  have inv: "\<forall>fd\<in>pw_open w. pw_kinds w fd = Some FD_POSIX \<and> 0 \<le> fd \<and> fd < 2 ^ 31" "distinct (posix_types m0)"
    using rel by (simp_all add: posix_rel_def)
  have c: "mcall_key ?c = fd_key m0 fd" using posix_relD [OF rel] by (simp add: fd_key_def)
  have "fd_key m0 fd \<notin> object_key m0 w ` pw_objects w" "fd_key m0 fd \<notin> map_key m0 w ` dom (pw_maps w)"
    using key_kinds(1,3) [OF inv(2)] by (metis imageE)+
  moreover have "fd_key m0 ` (pw_open w - {fd}) = fd_key m0 ` pw_open w - {fd_key m0 fd}"
    using inv(1) legal False fd_key_inj [of fd _ m0] by auto
  ultimately have keys: "posix_keys m0 ?w = posix_keys m0 w - {mcall_key ?c}"
    unfolding c by (simp add: posix_keys_def Un_Diff Diff_insert0)
  have "moves (posix_keys m0 w) ?cs (posix_keys m0 ?w)"
  proof (cases "pw_kinds w fd = Some FD_POSIX")
    case True
    then show ?thesis unfolding keys using moves_free [of ?c "posix_keys m0 w"] by simp
  next
    case no: False
    then have "?w = w" using inv(1) by auto
    then show ?thesis using no moves_none [of "posix_keys m0 w"] by simp
  qed
  then show ?thesis using tr rel' False c posix_types_mem [of m0]
    unfolding posix_step_ok_def by (intro exI [of _ ?cs] exI [of _ m]) (auto simp: fd_key_def)
qed (use rel in \<open>auto simp: posix_step_ok_def posix_close_def moves_none\<close>)

lemma posix_step: "posix_rel m0 m w \<Longrightarrow> posix_legal w x \<Longrightarrow> posix_step_ok m0 m w x"
proof (cases x)
  case (Posix_open p flags mem rc)
  then show "posix_rel m0 m w \<Longrightarrow> posix_legal w x \<Longrightarrow> ?thesis"
    using open_world_rel [of m0 m w mem rc] moves_none by (simp add: posix_step_ok_def posix_open_def)
next
  case (Posix_open64 p flags mem rc)
  then show "posix_rel m0 m w \<Longrightarrow> posix_legal w x \<Longrightarrow> ?thesis"
    using open_world_rel [of m0 m w mem rc] moves_none by (simp add: posix_step_ok_def posix_open_def)
next
  case (Posix_creat p mem rc)
  then show "posix_rel m0 m w \<Longrightarrow> posix_legal w x \<Longrightarrow> ?thesis"
    using open_world_rel [of m0 m w mem rc] moves_none by (simp add: posix_step_ok_def posix_creat_def)
next
  case (Mmap n prot flags fd offset mem rc)
  then show "posix_rel m0 m w \<Longrightarrow> posix_legal w x \<Longrightarrow> ?thesis"
    using posix_step_mmap [of m0 m w mem rc] by (simp add: posix_step_ok_def)
next
  case (Mmap64 n prot flags fd offset mem rc)
  then show "posix_rel m0 m w \<Longrightarrow> posix_legal w x \<Longrightarrow> ?thesis"
    using posix_step_mmap [of m0 m w mem rc] by (simp add: posix_step_ok_def)
qed (simp_all only: posix_step_shm_open posix_step_shm_unlink posix_step_munmap posix_step_close)

interpretation posix: resource_module posix_trace_on posix_after posix_legal "posix_rel m0" "posix_keys m0" "set (posix_types m0)" for m0
  by unfold_locales (rule posix_step [unfolded posix_step_ok_def])

text \<open>The start: no names, descriptors or addresses are known.\<close>

definition posix_none :: posix_world where
  "posix_none = \<lparr>pw_names = [], pw_objects = {}, pw_kinds = Map.empty, pw_open = {}, pw_maps = Map.empty\<rparr>"

definition posix_fresh :: "posix_module \<Rightarrow> bool" where
  "posix_fresh m \<longleftrightarrow> pm_names m = [] \<and> pm_fds m = [] \<and> pm_addrs m = [] \<and> distinct (posix_types m)"

lemma posix_start: "posix_fresh m \<Longrightarrow> posix_rel m m posix_none" "posix_keys m posix_none = {}"
  by (simp_all add: posix_fresh_def posix_rel_def posix_none_def nreg_ok_def fdreg_get_fd_def posix_keys_def)

end
