(* ===== verification/Posix_Entries.thy ===== *)
theory Posix_Entries
  imports Module_Entries Shm_Objects
begin

text \<open>The entry points of the POSIX shared memory module with its initialisation.\<close>

definition shmposix_desc :: module_desc where
  "shmposix_desc = \<lparr>dd_emu = False, dd_name = str ''shmposix'', dd_symcount = 9,
     dd_resources = [module_res ''pshmmap'' ''posix shared memory mapping'' 0, module_res ''fshmmap'' ''file mapping'' 0,
       module_res ''shmmap'' ''generic memory mapping'' 0, module_res ''pshmobj'' ''posix shared memory object'' 0,
       module_res ''pshmfd'' ''opened posix shared memory object'' 0]\<rparr>"

definition shmposix_initialize ::
    "pointer_t list \<Rightarrow> main_init \<Rightarrow> dispatch \<Rightarrow> tracer \<Rightarrow> posix_module \<Rightarrow> (posix_module \<times> dispatch \<times> tracer) option" where
  "shmposix_initialize syms main_init d s m = do {
     (d, s) \<leftarrow> trace_initialize shmposix_desc syms main_init d s;
     Some (case di_res d of
             [i, j, k, l, n] \<Rightarrow> m\<lparr>pm_pshmmap := i, pm_fshmmap := j, pm_shmmap := k, pm_pshmobj := l, pm_pshmfd := n\<rparr>
           | _ \<Rightarrow> m, d, s) }"

text \<open>The functions used by the search of backtraces go to the original function while the backtrace is locked.\<close>

fun uses_lock :: "posix_op \<Rightarrow> bool" where
  "uses_lock (Posix_open p flags mem rc) = True"
| "uses_lock (Posix_open64 p flags mem rc) = True"
| "uses_lock (Posix_close fd rc) = True"
| "uses_lock _ = False"

definition shmposix_call ::
    "pointer_t list \<Rightarrow> main_init \<Rightarrow> bool \<Rightarrow> posix_op \<Rightarrow> dispatch \<Rightarrow> tracer \<Rightarrow> posix_module \<Rightarrow>
     (mcall list \<times> posix_module \<times> dispatch \<times> tracer) option" where
  "shmposix_call syms main_init lock x d s m =
     (if lock \<and> uses_lock x
      then (if di_mode d = MODULE_UNINITIALIZED then None else Some ([], m, d, s))
      else if di_rt d = Trace_init then do {
        (m, d, s) \<leftarrow> shmposix_initialize syms main_init d s m;
        (cs, m) \<leftarrow> (if di_init_rt d = Trace_on then posix_trace_on x m else Some ([], m));
        Some (cs, m, d, s) }
      else do {
        (cs, m) \<leftarrow> (if di_rt d = Trace_on then posix_trace_on x m else Some ([], m));
        Some (cs, m, d, s) })"

interpretation posix_entries: entry_point shmposix_desc "\<lambda>syms main_init. shmposix_call syms main_init False x" for x
proof
  fix syms main_init d s m cs m' d' s'
  assume "shmposix_call syms main_init False x d s m = Some (cs, m', d', s')"
  then show "\<exists>t. dispatch_call shmposix_desc syms main_init d s = Some (t, d', s') \<and> (t \<noteq> Trace_on \<longrightarrow> cs = [])"
    by (auto simp: shmposix_call_def shmposix_initialize_def dispatch_call_def bind_eq_Some_conv split: if_splits)
qed

end
