(* ===== verification/Text_Scan.thy ===== *)
theory Text_Scan
  imports Text_Format Trace_Library
begin

text \<open>
  The functions of the C library that the readers of the text format use: \<open>sscanf\<close>, \<open>strchr\<close> and
  \<open>strrchr\<close>, on strings without their terminating zero.
\<close>

section \<open>Characters\<close>

definition is_hex :: "byte \<Rightarrow> bool" where
  "is_hex c \<longleftrightarrow> is_digit c \<or> 97 \<le> c \<and> c \<le> 102 \<or> 65 \<le> c \<and> c \<le> 70"

definition char_value :: "byte \<Rightarrow> nat" where
  "char_value c = (if c \<le> 57 then unat c - 48 else if c < 97 then unat c - 55 else unat c - 87)"

definition digits_to_nat :: "nat \<Rightarrow> cstring \<Rightarrow> nat" where
  "digits_to_nat b ds = foldl (\<lambda>v c. v * b + char_value c) 0 ds"

section \<open>Directives\<close>

text \<open>
  White space in a format, literal characters, and conversions.  The conversions to strings have the
  size of the buffer they store to; a longer text is \<open>None\<close>.
\<close>

datatype directive = White | Lit byte | Conv_d | Conv_x | Conv_lx | Conv_s nat | Conv_set "byte \<Rightarrow> bool" nat | Conv_c

datatype scanned = S_Int int | S_Hex u64 | S_Str cstring | S_Chr byte

definition lits :: "string \<Rightarrow> directive list" where
  "lits s = map (\<lambda>c. if is_space c then White else Lit c) (str s)"

fun read_sign :: "cstring \<Rightarrow> bool \<times> cstring" where
  "read_sign (c # t) = (if c = 45 then (True, t) else if c = 43 then (False, t) else (False, c # t))"
| "read_sign [] = (False, [])"

fun read_prefix :: "cstring \<Rightarrow> cstring" where
  "read_prefix (z # x # h # t) = (if z = 48 \<and> (x = 120 \<or> x = 88) \<and> is_hex h then h # t else z # x # h # t)"
| "read_prefix t = t"

text \<open>Numbers saturate as in \<open>strtol\<close> and \<open>strtoul\<close> and are stored with the width of the argument.\<close>

definition clamp_long :: "int \<Rightarrow> int" where
  "clamp_long v = max (- (2 ^ 63)) (min (2 ^ 63 - 1) v)"

definition clamp_ulong :: "nat \<Rightarrow> u64" where
  "clamp_ulong v = of_nat (min (2 ^ 64 - 1) v)"

definition read_d :: "cstring \<Rightarrow> (int \<times> cstring) option" where
  "read_d t = (let (neg, t) = read_sign t; ds = takeWhile is_digit t; v = int (digits_to_nat 10 ds)
     in if ds = [] then None
        else Some (sint (word_of_int (clamp_long (if neg then - v else v)) :: u32), dropWhile is_digit t))"

definition read_hex :: "cstring \<Rightarrow> (u64 \<times> cstring) option" where
  "read_hex t = (let (neg, t) = read_sign t; t = read_prefix t; ds = takeWhile is_hex t; v = clamp_ulong (digits_to_nat 16 ds)
     in if ds = [] then None else Some (if neg then - v else v, dropWhile is_hex t))"

text \<open>The values that were stored, and whether the scanning ended at the end of the text.\<close>

fun store :: "scanned \<Rightarrow> (scanned list \<times> bool) option \<Rightarrow> (scanned list \<times> bool) option" where
  "store v (Some (vs, e)) = Some (v # vs, e)"
| "store v None = None"

fun scan :: "directive list \<Rightarrow> cstring \<Rightarrow> (scanned list \<times> bool) option" where
  "scan [] t = Some ([], False)"
| "scan (White # fs) t = scan fs (dropWhile is_space t)"
| "scan (Lit c # fs) t = (if t = [] then Some ([], True) else if hd t = c then scan fs (tl t) else Some ([], False))"
| "scan (Conv_d # fs) t = (let t = dropWhile is_space t
     in case read_d t of None \<Rightarrow> Some ([], t = []) | Some (v, t) \<Rightarrow> store (S_Int v) (scan fs t))"
| "scan (Conv_x # fs) t = (let t = dropWhile is_space t
     in case read_hex t of None \<Rightarrow> Some ([], t = []) | Some (v, t) \<Rightarrow> store (S_Hex (ucast (ucast v :: u32))) (scan fs t))"
| "scan (Conv_lx # fs) t = (let t = dropWhile is_space t
     in case read_hex t of None \<Rightarrow> Some ([], t = []) | Some (v, t) \<Rightarrow> store (S_Hex v) (scan fs t))"
| "scan (Conv_s n # fs) t = (let t = dropWhile is_space t; w = takeWhile (\<lambda>c. \<not> is_space c) t
     in if w = [] then Some ([], True) else if n \<le> length w then None
        else store (S_Str w) (scan fs (dropWhile (\<lambda>c. \<not> is_space c) t)))"
| "scan (Conv_set f n # fs) t = (let w = takeWhile f t
     in if w = [] then Some ([], t = []) else if n \<le> length w then None else store (S_Str w) (scan fs (dropWhile f t)))"
| "scan (Conv_c # fs) t = (case t of [] \<Rightarrow> Some ([], True) | c # t \<Rightarrow> store (S_Chr c) (scan fs t))"

text \<open>The result is the number of stored values, or -1 at the end of the text.\<close>

definition sscanf :: "directive list \<Rightarrow> cstring \<Rightarrow> (int \<times> scanned list) option" where
  "sscanf fs t = map_option (\<lambda>(vs, e). (if vs = [] \<and> e then -1 else int (length vs), vs)) (scan fs t)"

section \<open>Searching\<close>

definition strchr :: "byte \<Rightarrow> cstring \<Rightarrow> cstring option" where
  "strchr c t = (if c \<in> set t then Some (dropWhile (\<lambda>x. x \<noteq> c) t) else None)"

definition strrchr :: "byte \<Rightarrow> cstring \<Rightarrow> nat option" where
  "strrchr c t = (if c \<in> set t then Some (length t - 1 - length (takeWhile (\<lambda>x. x \<noteq> c) (rev t))) else None)"

section \<open>Reading back what was printed\<close>

text \<open>A text that does not start with a character of a class.\<close>

abbreviation stops :: "(byte \<Rightarrow> bool) \<Rightarrow> cstring \<Rightarrow> bool" where
  "stops f t \<equiv> (t = [] \<or> \<not> f (hd t))"

lemma takeWhile_stops: "\<forall>c\<in>set w. f c \<Longrightarrow> stops f t \<Longrightarrow> takeWhile f (w @ t) = w"
  by (cases t) (auto simp: takeWhile_append2)

lemma dropWhile_stops: "\<forall>c\<in>set w. f c \<Longrightarrow> stops f t \<Longrightarrow> dropWhile f (w @ t) = t"
  by (cases t) auto

lemma dropWhile_none: "stops f t \<Longrightarrow> dropWhile f t = t"
  by (cases t) auto

lemma digit_char_cases: "d < 16 \<Longrightarrow> unat (digit_char d) = (if d < 10 then 48 + d else 87 + d)"
  by (simp add: digit_char_def unat_of_nat del: of_nat_add)

lemma digit_char_class:
  assumes "d < 16"
  shows "is_hex (digit_char d)" "d < 10 \<Longrightarrow> is_digit (digit_char d)" "\<not> is_space (digit_char d)" "char_value (digit_char d) = d"
    "digit_char d \<noteq> 120" "digit_char d \<noteq> 88" "digit_char d \<noteq> 45" "digit_char d \<noteq> 43"
proof -
  note u = digit_char_cases [OF assms]
  show "is_hex (digit_char d)" "d < 10 \<Longrightarrow> is_digit (digit_char d)" "char_value (digit_char d) = d"
    using assms by (auto simp: is_hex_def is_digit_def char_value_def word_le_nat_alt word_less_nat_alt u)
  have "unat (digit_char d) \<ge> 48 \<and> unat (digit_char d) \<le> 102 \<and> unat (digit_char d) \<noteq> 88" using assms u by auto
  then show "\<not> is_space (digit_char d)" "digit_char d \<noteq> 120" "digit_char d \<noteq> 88" "digit_char d \<noteq> 45" "digit_char d \<noteq> 43"
    by (auto simp: is_space_def word_le_nat_alt)
qed

lemma digits_below: "2 \<le> b \<Longrightarrow> b \<le> 16 \<Longrightarrow> \<forall>c\<in>set (digits b n). \<exists>d<b. c = digit_char d"
proof (induction b n rule: digits.induct)
  case (1 b n)
  have "n mod b < b" using "1.prems" by simp
  then have m: "\<exists>d<b. digit_char (n mod b) = digit_char d" by blast
  show ?case
  proof (cases "n < b")
    case True
    with m show ?thesis by (subst digits.simps) simp
  next
    case False
    with 1 have "\<forall>c\<in>set (digits b (n div b)). \<exists>d<b. c = digit_char d" by simp
    with m False "1.prems" show ?thesis by (subst digits.simps) simp
  qed
qed

lemma digits_nonempty: "digits b n \<noteq> []"
  by (subst digits.simps) simp

lemma digits_to_nat_append: "digits_to_nat b (ds @ [c]) = digits_to_nat b ds * b + char_value c"
  by (simp add: digits_to_nat_def)

lemma digits_to_nat_digits: "2 \<le> b \<Longrightarrow> b \<le> 16 \<Longrightarrow> digits_to_nat b (digits b n) = n"
proof (induction b n rule: digits.induct)
  case (1 b n)
  have m: "n mod b < 16" using "1.prems" mod_less_divisor [of b n] by linarith
  show ?case
  proof (cases "n < b")
    case True
    then show ?thesis using "1.prems" digit_char_class(4) [of n] by (subst digits.simps) (simp add: digits_to_nat_def)
  next
    case False
    then have "digits_to_nat b (digits b (n div b)) = n div b" using 1 by simp
    with False "1.prems" show ?thesis by (subst digits.simps) (simp add: digits_to_nat_append digit_char_class(4) [OF m])
  qed
qed

lemma digits_to_nat_zeros: "digits_to_nat b (replicate k 48 @ ds) = digits_to_nat b ds"
proof -
  have "foldl (\<lambda>v c. v * b + char_value c) 0 (replicate k 48) = 0" by (induction k) (auto simp: char_value_def)
  then show ?thesis by (simp add: digits_to_nat_def)
qed

text \<open>What the texts of numbers consist of.\<close>

lemma format_chars:
  "c \<in> set (format_u n) \<Longrightarrow> is_digit c" "c \<in> set (format_x n) \<Longrightarrow> is_hex c \<and> c \<noteq> 120 \<and> c \<noteq> 88"
  using digits_below [of 10 n] digits_below [of 16 n] digit_char_class
  by (force simp: format_u_def format_x_def)+

lemma format_d_chars: "c \<in> set (format_d i) \<Longrightarrow> is_digit c \<or> c = 45"
  by (auto simp: format_d_def str_def dest: format_chars split: if_splits)

lemma digit_not: "is_digit c \<Longrightarrow> \<not> is_space c \<and> is_hex c \<and> c \<notin> {10, 32, 40, 41, 43, 45, 60, 62, 64, 91}"
  by (auto simp: is_digit_def is_space_def is_hex_def word_le_nat_alt)

lemma hex_not: "is_hex c \<Longrightarrow> \<not> is_space c \<and> c \<notin> {10, 32, 40, 41, 43, 45, 60, 62, 64, 91}"
  by (auto simp: is_digit_def is_space_def is_hex_def word_le_nat_alt)

lemma read_sign_none: "w \<noteq> [] \<Longrightarrow> hd w \<noteq> 45 \<Longrightarrow> hd w \<noteq> 43 \<Longrightarrow> read_sign (w @ t) = (False, w @ t)"
  by (cases w) auto

lemma sint_in_range: "- (2 ^ 31) \<le> i \<Longrightarrow> i < 2 ^ 31 \<Longrightarrow> sint (word_of_int i :: u32) = i"
  by (simp add: sint_sbintrunc' signed_take_bit_int_eq_self)

lemma read_d_digits:
  assumes "w \<noteq> []" "\<forall>c\<in>set w. is_digit c" "digits_to_nat 10 w = n" "n < 2 ^ 31" "stops is_digit t"
  shows "read_d (w @ t) = Some (int n, t)"
proof -
  have "hd w \<noteq> 45 \<and> hd w \<noteq> 43" using assms(1,2) digit_not [of "hd w"] by auto
  then have s: "read_sign (w @ t) = (False, w @ t)" using assms(1) by (intro read_sign_none) auto
  have "sint (word_of_int (int n) :: u32) = int n"
    using assms(4) by (intro sint_in_range) auto
  moreover have "clamp_long (int n) = int n" using assms(4) by (simp add: clamp_long_def)
  ultimately show ?thesis using assms s takeWhile_stops [OF assms(2,5)] dropWhile_stops [OF assms(2,5)]
    by (simp add: read_d_def Let_def del: of_int_of_nat_eq)
qed

lemma read_d_format:
  assumes "- (2 ^ 31) \<le> i" "i < 2 ^ 31" "stops is_digit t"
  shows "read_d (format_d i @ t) = Some (i, t)"
proof (cases "i < 0")
  case False
  then show ?thesis using assms read_d_digits [of "format_u (nat i)" "nat i" t] format_chars(1)
    by (auto simp: format_d_def format_u_def digits_nonempty digits_to_nat_digits)
next
  case True
  let ?w = "format_u (nat (- i))"
  have w: "\<forall>c\<in>set ?w. is_digit c" "digits_to_nat 10 ?w = nat (- i)" "?w \<noteq> []"
    using format_chars(1) by (auto simp: format_u_def digits_to_nat_digits digits_nonempty)
  have "sint (word_of_int i :: u32) = i"
    using assms(1,2) by (rule sint_in_range)
  moreover have "clamp_long i = i" using assms True by (simp add: clamp_long_def)
  ultimately show ?thesis using True w takeWhile_stops [OF w(1) assms(3)] dropWhile_stops [OF w(1) assms(3)]
    by (simp add: read_d_def format_d_def str_def)
qed

lemma read_prefix_none:
  assumes "w \<noteq> []" "\<forall>c\<in>set w. c \<noteq> 120 \<and> c \<noteq> 88" "stops (\<lambda>c. c = 120 \<or> c = 88) t"
  shows "read_prefix (w @ t) = w @ t"
proof (cases "w @ t" rule: read_prefix.cases)
  case (1 z x h r)
  then have "x \<noteq> 120 \<and> x \<noteq> 88" using assms by (cases w; cases "tl w"; cases t) auto
  with 1 show ?thesis by simp
qed auto

lemma read_hex_format:
  assumes "n < 2 ^ 64" "stops is_hex t" "stops (\<lambda>c. c = 120 \<or> c = 88) t"
  shows "read_hex (format_x n @ t) = Some (of_nat n, t)"
proof -
  let ?w = "format_x n"
  have w: "\<forall>c\<in>set ?w. is_hex c" "\<forall>c\<in>set ?w. c \<noteq> 120 \<and> c \<noteq> 88" "digits_to_nat 16 ?w = n" "?w \<noteq> []"
    using format_chars(2) by (auto simp: format_x_def digits_to_nat_digits digits_nonempty)
  have "hd ?w \<noteq> 45 \<and> hd ?w \<noteq> 43" using w(1,4) hex_not [of "hd ?w"] by auto
  then have s: "read_sign (?w @ t) = (False, ?w @ t)" using w(4) by (intro read_sign_none) auto
  have "clamp_ulong n = of_nat n" using assms(1) by (simp add: clamp_ulong_def)
  then show ?thesis using s w read_prefix_none [OF w(4,2) assms(3)] takeWhile_stops [OF w(1) assms(2)] dropWhile_stops [OF w(1) assms(2)]
    by (simp add: read_hex_def Let_def)
qed

lemma format_no_space:
  "dropWhile is_space (format_d i @ t) = format_d i @ t" "dropWhile is_space (format_x n @ t) = format_x n @ t"
proof -
  have d: "format_d i \<noteq> []" by (simp add: format_d_def str_def format_u_def digits_nonempty)
  have "\<not> is_space (hd (format_d i))" using format_d_chars [of "hd (format_d i)" i] digit_not d by (auto simp: is_space_def)
  then show "dropWhile is_space (format_d i @ t) = format_d i @ t" using d by (intro dropWhile_none) auto
  have x: "format_x n \<noteq> []" by (simp add: format_x_def digits_nonempty)
  have "\<not> is_space (hd (format_x n))" using format_chars(2) [of "hd (format_x n)" n] hex_not x by auto
  then show "dropWhile is_space (format_x n @ t) = format_x n @ t" using x by (intro dropWhile_none) auto
qed

text \<open>The conversions read back what the corresponding formats print.\<close>

lemma scan_d:
  "- (2 ^ 31) \<le> i \<Longrightarrow> i < 2 ^ 31 \<Longrightarrow> stops is_digit t \<Longrightarrow> scan (Conv_d # fs) (format_d i @ t) = store (S_Int i) (scan fs t)"
  by (simp add: format_no_space read_d_format scan.simps)

lemma scan_lx:
  "n < 2 ^ 64 \<Longrightarrow> stops is_hex t \<Longrightarrow> stops (\<lambda>c. c = 120 \<or> c = 88) t \<Longrightarrow>
    scan (Conv_lx # fs) (format_x n @ t) = store (S_Hex (of_nat n)) (scan fs t)"
  by (simp add: format_no_space read_hex_format scan.simps)

lemma scan_x:
  assumes "n < 2 ^ 32" "stops is_hex t" "stops (\<lambda>c. c = 120 \<or> c = 88) t"
  shows "scan (Conv_x # fs) (format_x n @ t) = store (S_Hex (of_nat n)) (scan fs t)"
proof -
  have "unat (ucast (ucast (of_nat n :: u64) :: u32) :: u64) = unat (of_nat n :: u64)"
    using assms(1) by (simp add: unsigned_ucast_eq unsigned_take_bit_eq unat_of_nat take_bit_nat_eq_self)
  then have "(ucast (ucast (of_nat n :: u64) :: u32) :: u64) = of_nat n" by (rule unsigned_word_eqI)
  moreover have "n < 2 ^ 64" using assms(1) by simp
  ultimately show ?thesis using assms(2,3) by (simp add: format_no_space read_hex_format)
qed

lemma scan_s:
  "w \<noteq> [] \<Longrightarrow> \<forall>c\<in>set w. \<not> is_space c \<Longrightarrow> length w < k \<Longrightarrow> stops (\<lambda>c. \<not> is_space c) t \<Longrightarrow>
    scan (Conv_s k # fs) (w @ t) = store (S_Str w) (scan fs t)"
  using takeWhile_stops [of w "\<lambda>c. \<not> is_space c" t] dropWhile_stops [of w "\<lambda>c. \<not> is_space c" t]
  by (cases w) simp_all

lemma scan_set:
  "w \<noteq> [] \<Longrightarrow> \<forall>c\<in>set w. f c \<Longrightarrow> length w < k \<Longrightarrow> stops f t \<Longrightarrow> scan (Conv_set f k # fs) (w @ t) = store (S_Str w) (scan fs t)"
  using takeWhile_stops [of w f t] dropWhile_stops [of w f t] by simp

declare scan.simps(4-8) [simp del]

lemma strchr_first: "c \<notin> set xs \<Longrightarrow> strchr c (xs @ c # ys) = Some (c # ys)"
  by (simp add: strchr_def) (metis (mono_tags, lifting) dropWhile.simps(2) dropWhile_append2)

lemma strrchr_last: "c \<notin> set ys \<Longrightarrow> strrchr c (xs @ c # ys) = Some (length xs)"
  by (simp add: strrchr_def takeWhile_append)

end
