(* ===== verification/Text_Records.thy ===== *)
theory Text_Records
  imports Text_Scan Call_Filter
begin

text \<open>
  The records of the text format: the printers of src/library/sp\_rtrace\_formatter.c and the parsers of
  src/library/sp\_rtrace\_parser.c.  A printer gives the line it writes; \<open>None\<close> stands for a text that does
  not fit into the buffer of the function, a null pointer or a wrong pointer.
\<close>

section \<open>Printing\<close>

text \<open>\<open>PATH_MAX\<close>, the size of the buffers for a line.\<close>

definition LINE_MAX :: nat where "LINE_MAX = 4096"

definition fit :: "nat \<Rightarrow> cstring \<Rightarrow> cstring option" where
  "fit n t = (if length t \<le> n then Some t else None)"

definition format_0d :: "nat \<Rightarrow> nat \<Rightarrow> cstring" where
  "format_0d w n = replicate (w - length (format_u n)) 48 @ format_u n"

definition format_p :: "u64 \<Rightarrow> cstring" where
  "format_p a = str ''0x'' @ format_x (unat a)"

definition sp_rtrace_print_mmap :: "sp_rtrace_mmap \<Rightarrow> cstring" where
  "sp_rtrace_print_mmap m = str '': '' @ mm_module m @ str '' => '' @ format_p (mm_from m) @ str ''-'' @ format_p (mm_to m) @ [10]"

definition print_timestamp :: "u32 \<Rightarrow> cstring" where
  "print_timestamp ts =
     (if ts = 0 then []
      else let t = unat ts; hours = t div 3600000; t = t mod 3600000; minutes = t div 60000; t = t mod 60000
           in str ''['' @ format_0d 2 hours @ str '':'' @ format_0d 2 minutes @ str '':'' @
              format_0d 2 (t div 1000) @ str ''.'' @ format_0d 3 (t mod 1000) @ str ''] '')"

text \<open>
  The name of the resource that is printed with a call; \<open>res\<close> is the store of the resource records.
\<close>

definition call_res_name :: "(ptr \<rightharpoonup> rd_resource) \<Rightarrow> sp_rtrace_fcall \<Rightarrow> cstring option option" where
  "call_res_name res call =
     (case fc_res_type call of
        RFIELD_REF p \<Rightarrow>
          (if p = NULL then Some None
           else case res p of None \<Rightarrow> None | Some r \<Rightarrow> Some (if rr_hide r then None else Some (rs_type (rr_data r))))
      | RFIELD_NAME w \<Rightarrow> Some (Some w)
      | _ \<Rightarrow> Some None)"

definition print_call_data :: "sp_rtrace_fcall \<Rightarrow> cstring" where
  "print_call_data call =
     (if fc_type call = FTYPE_ALLOC
      then str ''('' @ format_d (sint (fc_res_size call)) @ str '') = '' @ format_p (fc_res_id call)
      else str ''('' @ format_p (fc_res_id call) @ str '')'')"

text \<open>\<open>now\<close> is the time of day in milliseconds, when the clock can be read.\<close>

definition print_call_time :: "u32 option \<Rightarrow> sp_rtrace_fcall \<Rightarrow> u32" where
  "print_call_time now call =
     (if fc_timestamp call = -1 then (case now of None \<Rightarrow> -1 | Some t \<Rightarrow> t) else fc_timestamp call)"

definition sp_rtrace_print_call :: "u32 option \<Rightarrow> (ptr \<rightharpoonup> rd_resource) \<Rightarrow> sp_rtrace_fcall \<Rightarrow> cstring option" where
  "sp_rtrace_print_call now res call = do {
     name \<leftarrow> fc_name call;
     res_name \<leftarrow> call_res_name res call;
     fit 2048
       (format_d (fc_index call) @ str ''. '' @
        (if fc_context call = 0 then [] else str ''@'' @ format_x (unat (fc_context call)) @ str '' '') @
        print_timestamp (print_call_time now call) @ name @
        (case res_name of None \<Rightarrow> [] | Some w \<Rightarrow> str ''<'' @ w @ str ''>'') @
        print_call_data call @ [10]) }"

definition sp_rtrace_print_trace_step :: "pointer_t \<Rightarrow> cstring option \<Rightarrow> cstring" where
  "sp_rtrace_print_trace_step addr resolved =
     str [CHR 0x09] @ format_p addr @ (case resolved of None \<Rightarrow> [] | Some name \<Rightarrow> 32 # name) @ [10]"

text \<open>The frames are printed one line each, then an empty line ends the backtrace.\<close>

definition print_frame :: "rd_ftrace \<Rightarrow> nat \<Rightarrow> cstring option" where
  "print_frame trace i =
     (if length (ft_frames trace) \<le> i then None
      else case ft_names trace of
             None \<Rightarrow> fit LINE_MAX (sp_rtrace_print_trace_step (ft_frames trace ! i) None)
           | Some names \<Rightarrow> (if length names \<le> i then None
                            else fit LINE_MAX (sp_rtrace_print_trace_step (ft_frames trace ! i) (names ! i))))"

fun print_frames :: "rd_ftrace \<Rightarrow> nat list \<Rightarrow> cstring option" where
  "print_frames trace [] = Some [10]"
| "print_frames trace (i # is) = do { t \<leftarrow> print_frame trace i; ts \<leftarrow> print_frames trace is; Some (t @ ts) }"

definition sp_rtrace_print_trace :: "rd_ftrace \<Rightarrow> cstring option" where
  "sp_rtrace_print_trace trace = print_frames trace [0..<nat (sint (ucast (ft_nframes trace) :: u32))]"

definition sp_rtrace_print_context :: "sp_rtrace_context \<Rightarrow> cstring" where
  "sp_rtrace_print_context c = str ''@ '' @ format_x (unat (ucast (cx_id c) :: u32)) @ str '' : '' @ cx_name c @ [10]"

definition sp_rtrace_resource_flags_text :: "cstring list" where
  "sp_rtrace_resource_flags_text = [str ''refcount'']"

text \<open>The flags up to \<open>SP_RTRACE_RESOURCE_LAST_FLAG\<close>.\<close>

definition flag_numbers :: "nat list" where
  "flag_numbers = takeWhile (\<lambda>n. push_bit n 1 \<le> RESOURCE_REFCOUNT) [0..<32]"

definition print_resource_flags :: "u32 \<Rightarrow> cstring" where
  "print_resource_flags flags =
     (if flags = 0 then []
      else str '' ['' @ concat (map (\<lambda>n. (if n = 0 then [] else [124]) @ sp_rtrace_resource_flags_text ! n) flag_numbers) @ str '']'')"

definition sp_rtrace_print_resource :: "sp_rtrace_resource \<Rightarrow> cstring option" where
  "sp_rtrace_print_resource r =
     (let k = sint (ucast (rs_id r) :: u32) - 1
      in if k < 0 \<or> 32 \<le> k then None
         else fit (LINE_MAX - 1)
           (str ''<'' @ format_x (unat (push_bit (nat k) 1 :: u32)) @ str ''> : '' @ rs_type r @ str '' ('' @ rs_desc r @ str '')'' @
            print_resource_flags (rs_flags r) @ [10]))"

definition sp_rtrace_print_args :: "sp_rtrace_farg list \<Rightarrow> cstring" where
  "sp_rtrace_print_args args =
     concat (map (\<lambda>a. str (CHR 0x09 # ''$'') @ fa_name a @ str '' = '' @ fa_value a @ [10]) args)"

definition sp_rtrace_print_attachment :: "sp_rtrace_attachment \<Rightarrow> cstring" where
  "sp_rtrace_print_attachment f = str ''& '' @ at_name f @ str '' : '' @ at_path f @ [10]"

section \<open>Parsing\<close>

datatype 'a parsed = PARSE_FAIL | PARSE_OK 'a | PARSE_IGNORE

definition RECORD_MMAP :: u32 where "RECORD_MMAP = 1"
definition RECORD_COMMENT :: u32 where "RECORD_COMMENT = 2"
definition RECORD_CALL :: u32 where "RECORD_CALL = 4"
definition RECORD_TRACE :: u32 where "RECORD_TRACE = 8"
definition RECORD_ARG :: u32 where "RECORD_ARG = 16"
definition RECORD_CONTEXT :: u32 where "RECORD_CONTEXT = 32"
definition RECORD_RESOURCE :: u32 where "RECORD_RESOURCE = 64"
definition RECORD_ATTACHMENT :: u32 where "RECORD_ATTACHMENT = 128"
definition RECORD_ALL :: u32 where "RECORD_ALL = 0xFFFF"

lemmas record_masks = RECORD_MMAP_def RECORD_COMMENT_def RECORD_CALL_def RECORD_TRACE_def RECORD_ARG_def RECORD_CONTEXT_def
  RECORD_RESOURCE_def RECORD_ATTACHMENT_def RECORD_ALL_def

text \<open>The next step of a parser, unless it has failed.\<close>

fun and_then :: "'a parsed option \<Rightarrow> ('a \<Rightarrow> 'b parsed option) \<Rightarrow> 'b parsed option" where
  "and_then (Some (PARSE_OK x)) f = f x"
| "and_then (Some PARSE_FAIL) f = Some PARSE_FAIL"
| "and_then (Some PARSE_IGNORE) f = Some PARSE_IGNORE"
| "and_then None f = None"

definition masked :: "u32 \<Rightarrow> u32 \<Rightarrow> 'a \<Rightarrow> 'a parsed" where
  "masked parse_record_mask kind x = (if parse_record_mask AND kind = 0 then PARSE_IGNORE else PARSE_OK x)"

text \<open>The text after the next occurrence of a character.\<close>

definition skip_field :: "byte \<Rightarrow> cstring \<Rightarrow> cstring parsed option" where
  "skip_field c t = Some (case strchr c t of None \<Rightarrow> PARSE_FAIL | Some r \<Rightarrow> PARSE_OK (tl r))"

definition parse_backtrace :: "u32 \<Rightarrow> cstring \<Rightarrow> (pointer_t \<times> cstring option) parsed option" where
  "parse_backtrace m line =
     (if line = [] \<or> hd line \<noteq> 9 then Some PARSE_FAIL
      else do {
        (n, vs) \<leftarrow> sscanf (lits (CHR 0x09 # ''0x'') @ [Conv_lx, White, Conv_set (\<lambda>c. c \<noteq> 10) LINE_MAX]) line;
        Some (case vs of
                [S_Hex addr] \<Rightarrow> masked m RECORD_TRACE (addr, None)
              | [S_Hex addr, S_Str name] \<Rightarrow> masked m RECORD_TRACE (addr, Some name)
              | _ \<Rightarrow> PARSE_FAIL) })"

definition parse_call_index :: "cstring \<Rightarrow> (int \<times> cstring) parsed option" where
  "parse_call_index ptr = do {
     (n, vs) \<leftarrow> sscanf [Conv_d, Conv_c] ptr;
     case vs of
       [S_Int idx, S_Chr delim] \<Rightarrow>
         (if delim \<noteq> 46 then Some PARSE_FAIL else and_then (skip_field 32 ptr) (\<lambda>ptr. Some (PARSE_OK (idx, ptr))))
     | _ \<Rightarrow> Some PARSE_FAIL }"

definition parse_call_context :: "cstring \<Rightarrow> (u32 \<times> cstring) parsed option" where
  "parse_call_context ptr = do {
     (n, vs) \<leftarrow> sscanf (lits ''@'' @ [Conv_x]) ptr;
     case vs of
       [S_Hex c] \<Rightarrow> do {
         ptr \<leftarrow> strchr 64 ptr;
         and_then (skip_field 32 ptr) (\<lambda>ptr. Some (PARSE_OK (ucast c, ptr))) }
     | _ \<Rightarrow> Some (PARSE_OK (0, ptr)) }"

definition parse_call_timestamp :: "cstring \<Rightarrow> (u32 \<times> cstring) parsed option" where
  "parse_call_timestamp ptr = do {
     (n, vs) \<leftarrow> sscanf (lits ''['' @ [Conv_d] @ lits '':'' @ [Conv_d] @ lits '':'' @ [Conv_d] @ lits ''.'' @ [Conv_d] @ lits '']'') ptr;
     case vs of
       [S_Int hours, S_Int minutes, S_Int seconds, S_Int mseconds] \<Rightarrow>
         and_then (skip_field 32 ptr) (\<lambda>ptr. Some (PARSE_OK
           (word_of_int (hours * 60 * 60 * 1000 + minutes * 60 * 1000 + seconds * 1000 + mseconds), ptr)))
     | _ \<Rightarrow> Some (PARSE_OK (0, ptr)) }"

text \<open>
  The name of the function ends at the last parenthesis, or at the resource in front of it.  The text follows
  a space, which is the character in front of a parenthesis at its start.  A name that does not fit into the
  buffer of 512 bytes is \<open>None\<close>, as is a name that ends with \<open>>\<close> with no \<open><\<close> in it.
\<close>

definition parse_call_name :: "cstring \<Rightarrow> (cstring \<times> cstring) parsed option" where
  "parse_call_name ptr =
     (case strrchr 40 ptr of
        None \<Rightarrow> Some PARSE_FAIL
      | Some n \<Rightarrow> do {
          k \<leftarrow> (if (if n = 0 then 32 else ptr ! (n - 1)) = 62 then strrchr 60 ptr else Some n);
          if 512 \<le> k then None else Some (PARSE_OK (take k ptr, drop k ptr)) })"

definition parse_call_resource :: "cstring \<Rightarrow> (res_field \<times> cstring) parsed option" where
  "parse_call_resource ptr =
     (if ptr \<noteq> [] \<and> hd ptr = 60 then do {
        (n, vs) \<leftarrow> sscanf (lits ''<'' @ [Conv_set (\<lambda>c. c \<noteq> 62) 512] @ lits ''>'') ptr;
        if n = 0 then Some PARSE_FAIL
        else (case strchr 40 ptr of
                None \<Rightarrow> Some PARSE_FAIL
              | Some ptr \<Rightarrow> (case vs of [S_Str w] \<Rightarrow> Some (PARSE_OK (RFIELD_NAME w, ptr)) | _ \<Rightarrow> None)) }
      else Some (PARSE_OK (RFIELD_UNDEF, ptr)))"

definition parse_call_data :: "cstring \<Rightarrow> (u32 \<times> u32 \<times> pointer_t) parsed option" where
  "parse_call_data ptr = do {
     (n, vs) \<leftarrow> sscanf (lits ''('' @ [Conv_d] @ lits '') = 0x'' @ [Conv_lx]) ptr;
     case vs of
       [S_Int res_size, S_Hex res_id] \<Rightarrow> Some (PARSE_OK (FTYPE_ALLOC, word_of_int res_size, res_id))
     | _ \<Rightarrow> do {
         (n, vs) \<leftarrow> sscanf (lits ''(0x'' @ [Conv_lx] @ lits '')'') ptr;
         Some (case vs of [S_Hex res_id] \<Rightarrow> PARSE_OK (FTYPE_FREE, 0, res_id) | _ \<Rightarrow> PARSE_FAIL) } }"

definition parse_function_call :: "u32 \<Rightarrow> cstring \<Rightarrow> sp_rtrace_fcall parsed option" where
  "parse_function_call m line =
     and_then (parse_call_index line) (\<lambda>(idx, ptr).
     and_then (parse_call_context ptr) (\<lambda>(context, ptr).
     and_then (parse_call_timestamp ptr) (\<lambda>(timestamp, ptr).
     and_then (parse_call_name ptr) (\<lambda>(name, ptr).
     and_then (parse_call_resource ptr) (\<lambda>(res_type, ptr).
     and_then (parse_call_data ptr) (\<lambda>(function_type, res_size, res_id).
       Some (masked m RECORD_CALL
         \<lparr>fc_index = idx, fc_type = function_type, fc_context = context, fc_timestamp = timestamp, fc_name = Some name,
          fc_res_type = res_type, fc_res_id = res_id, fc_res_size = res_size\<rparr>)))))))"

definition parse_arguments :: "u32 \<Rightarrow> cstring \<Rightarrow> sp_rtrace_farg parsed option" where
  "parse_arguments m line =
     (if line = [] \<or> hd line \<noteq> 9 then Some PARSE_FAIL
      else do {
        (n, vs) \<leftarrow> sscanf (lits (CHR 0x09 # ''$'') @ [Conv_s 128] @ lits '' = '' @ [Conv_s LINE_MAX]) line;
        Some (case vs of
                [S_Str name, S_Str val] \<Rightarrow> masked m RECORD_ARG \<lparr>fa_name = name, fa_value = val\<rparr>
              | _ \<Rightarrow> PARSE_FAIL) })"

definition parse_memory_mapping :: "u32 \<Rightarrow> cstring \<Rightarrow> sp_rtrace_mmap parsed option" where
  "parse_memory_mapping m line = do {
     (n, vs) \<leftarrow> sscanf (lits '': '' @ [Conv_s LINE_MAX] @ lits '' => 0x'' @ [Conv_lx] @ lits ''-0x'' @ [Conv_lx]) line;
     Some (case vs of
             [S_Str module, S_Hex from, S_Hex to] \<Rightarrow> masked m RECORD_MMAP \<lparr>mm_from = from, mm_to = to, mm_module = module\<rparr>
           | _ \<Rightarrow> PARSE_FAIL) }"

definition parse_context_registry :: "u32 \<Rightarrow> cstring \<Rightarrow> sp_rtrace_context parsed option" where
  "parse_context_registry m line = do {
     (n, vs) \<leftarrow> sscanf (lits ''@ '' @ [Conv_x] @ lits '' : '' @ [Conv_set (\<lambda>c. c \<noteq> 10) 512]) line;
     Some (case vs of
             [S_Hex i, S_Str name] \<Rightarrow> masked m RECORD_CONTEXT \<lparr>cx_id = i, cx_name = name\<rparr>
           | _ \<Rightarrow> PARSE_FAIL) }"

definition parse_resource_flags :: "cstring \<Rightarrow> u32" where
  "parse_resource_flags text =
     fold (\<lambda>n flags. if strstr text (sp_rtrace_resource_flags_text ! n) then flags OR push_bit n 1 else flags) flag_numbers 0"

text \<open>The number of the lowest bit, from 1; 0 for 0.\<close>

definition ffs :: "u32 \<Rightarrow> u64" where
  "ffs w = (case find (bit w) [0..<32] of None \<Rightarrow> 0 | Some n \<Rightarrow> of_nat (n + 1))"

definition parse_resource_registry :: "u32 \<Rightarrow> cstring \<Rightarrow> sp_rtrace_resource parsed option" where
  "parse_resource_registry m line = do {
     (n, vs) \<leftarrow> sscanf (lits ''<'' @ [Conv_x] @ lits ''> : '' @ [Conv_set (\<lambda>c. c \<noteq> 32) 512] @ lits '' ('' @
       [Conv_set (\<lambda>c. c \<noteq> 41) 512] @ lits '') ['' @ [Conv_set (\<lambda>c. c \<noteq> 93) 1024] @ lits '']'') line;
     Some (case vs of
             [S_Hex i, S_Str type, S_Str desc] \<Rightarrow>
               masked m RECORD_CONTEXT \<lparr>rs_id = ffs (ucast i), rs_type = type, rs_desc = desc, rs_flags = 0\<rparr>
           | [S_Hex i, S_Str type, S_Str desc, S_Str flags] \<Rightarrow>
               masked m RECORD_CONTEXT \<lparr>rs_id = ffs (ucast i), rs_type = type, rs_desc = desc, rs_flags = parse_resource_flags flags\<rparr>
           | _ \<Rightarrow> PARSE_FAIL) }"

definition parse_file_attachment :: "u32 \<Rightarrow> cstring \<Rightarrow> sp_rtrace_attachment parsed option" where
  "parse_file_attachment m line = do {
     (n, vs) \<leftarrow> sscanf (lits ''& '' @ [Conv_s 512] @ lits '' : '' @ [Conv_s LINE_MAX]) line;
     Some (case vs of
             [S_Str name, S_Str path] \<Rightarrow> masked m RECORD_ATTACHMENT \<lparr>at_name = name, at_path = path\<rparr>
           | _ \<Rightarrow> PARSE_FAIL) }"

datatype sp_rtrace_record =
  Rec_None | Rec_Mmap sp_rtrace_mmap | Rec_Comment | Rec_Call sp_rtrace_fcall | Rec_Trace pointer_t "cstring option"
| Rec_Arg sp_rtrace_farg | Rec_Context sp_rtrace_context | Rec_Resource sp_rtrace_resource | Rec_Attachment sp_rtrace_attachment

text \<open>The first parser that does not fail decides.\<close>

fun or_else :: "('a \<Rightarrow> sp_rtrace_record) \<Rightarrow> 'a parsed option \<Rightarrow> sp_rtrace_record option \<Rightarrow> sp_rtrace_record option" where
  "or_else f None k = None"
| "or_else f (Some PARSE_FAIL) k = k"
| "or_else f (Some (PARSE_OK x)) k = Some (f x)"
| "or_else f (Some PARSE_IGNORE) k = Some Rec_None"

definition sp_rtrace_parser_parse_record :: "u32 \<Rightarrow> cstring \<Rightarrow> sp_rtrace_record option" where
  "sp_rtrace_parser_parse_record m text =
     or_else (\<lambda>(a, n). Rec_Trace a n) (parse_backtrace m text) (
     or_else Rec_Call (parse_function_call m text) (
     or_else Rec_Arg (parse_arguments m text) (
     or_else Rec_Mmap (parse_memory_mapping m text) (
     or_else Rec_Context (parse_context_registry m text) (
     or_else Rec_Resource (parse_resource_registry m text) (
     or_else Rec_Attachment (parse_file_attachment m text) (
       Some (if m AND RECORD_COMMENT = 0 then Rec_None else Rec_Comment))))))))"

section \<open>The header\<close>

definition header_fields :: "cstring list" where
  "header_fields = map str [''version'', ''arch'', ''timestamp'', ''process'', ''pid'', ''filter'', ''backtrace depth'', ''origin'']"

definition HEADER_MAX :: nat where "HEADER_MAX = 8"
definition HEADER_VERSION :: nat where "HEADER_VERSION = 0"
definition HEADER_ARCH :: nat where "HEADER_ARCH = 1"
definition HEADER_TIMESTAMP :: nat where "HEADER_TIMESTAMP = 2"
definition HEADER_PROCESS :: nat where "HEADER_PROCESS = 3"
definition HEADER_PID :: nat where "HEADER_PID = 4"
definition HEADER_FILTER :: nat where "HEADER_FILTER = 5"
definition HEADER_BACKTRACE_DEPTH :: nat where "HEADER_BACKTRACE_DEPTH = 6"
definition HEADER_ORIGIN :: nat where "HEADER_ORIGIN = 7"

type_synonym header = "cstring option list"

text \<open>\<open>now\<close> is the text of the current time.  The two bytes after the text must fit into the buffer.\<close>

definition header_value :: "cstring \<Rightarrow> header \<Rightarrow> nat \<Rightarrow> cstring option" where
  "header_value now header i =
     (if i = HEADER_TIMESTAMP then Some (case header ! i of None \<Rightarrow> now | Some v \<Rightarrow> v)
      else if i = HEADER_VERSION then Some (str ''2.0'') else header ! i)"

definition print_field :: "nat \<Rightarrow> cstring option \<Rightarrow> cstring" where
  "print_field i v = (case v of None \<Rightarrow> [] | Some v \<Rightarrow> header_fields ! i @ str ''='' @ v @ str '', '')"

definition sp_rtrace_print_header :: "cstring \<Rightarrow> header \<Rightarrow> cstring option" where
  "sp_rtrace_print_header now header =
     fit (LINE_MAX - 1) (concat (map (\<lambda>i. print_field i (header_value now header i)) [0..<HEADER_MAX]) @ [10])"

definition header_store :: "cstring \<Rightarrow> cstring \<Rightarrow> header \<Rightarrow> header" where
  "header_store key v header =
     (case find (\<lambda>i. key = header_fields ! i) [0..<HEADER_MAX] of None \<Rightarrow> header | Some i \<Rightarrow> header[i := Some v])"

lemma strchr_shorter: "strchr c t = Some r \<Longrightarrow> length r \<le> length t \<and> r \<noteq> []"
  by (auto simp: strchr_def length_dropWhile_le dropWhile_eq_Nil_conv split: if_splits)

function parse_fields :: "cstring \<Rightarrow> header \<Rightarrow> header option" where
  "parse_fields ptr header =
     (case sscanf ([Conv_set (\<lambda>c. c \<noteq> 61) 256] @ lits ''='' @ [Conv_set (\<lambda>c. c \<noteq> 44) LINE_MAX]) ptr of
        None \<Rightarrow> None
      | Some (n, [S_Str key, S_Str v]) \<Rightarrow>
          (case strchr 44 ptr of
             None \<Rightarrow> Some (header_store key v header)
           | Some r \<Rightarrow> parse_fields (dropWhile (\<lambda>c. c = 32) (tl r)) (header_store key v header))
      | _ \<Rightarrow> Some header)"
  by pat_completeness auto

termination
proof (relation "measure (length \<circ> fst)")
  fix ptr r :: cstring and header key v
  assume "strchr 44 ptr = Some r"
  from strchr_shorter [OF this] have "length (tl r) < length ptr" by (cases r) auto
  moreover have "length (dropWhile (\<lambda>c. c = 32) (tl r)) \<le> length (tl r)" by (rule length_dropWhile_le)
  ultimately show "((dropWhile (\<lambda>c. c = 32) (tl r), header_store key v header), ptr, header) \<in> measure (length \<circ> fst)" by simp
qed auto

declare parse_fields.simps [simp del]

definition sp_rtrace_parser_parse_header :: "cstring \<Rightarrow> header option" where
  "sp_rtrace_parser_parse_header text = parse_fields text (replicate HEADER_MAX None)"

end
