(* ===== verification/Text_Roundtrip.thy ===== *)
theory Text_Roundtrip
  imports Text_Records
begin

text \<open>What the parsers of the text format read from the lines that the printers write.\<close>

section \<open>Evaluation of formats\<close>

lemmas text_eval = lits_def str_def is_space_def is_digit_def is_hex_def format_p_def

lemma unat_u64 [simp]: "unat (w :: u64) < 18446744073709551616"
  using unsigned_less [where 'a = nat, of w] by simp

lemma unat_u32 [simp]: "unat (w :: u32) < 4294967296"
  using unsigned_less [where 'a = nat, of w] by simp

lemma sint_u32 [simp]: "- 2147483648 \<le> sint (w :: u32)" "sint (w :: u32) < 2147483648"
  using sint_ge [of w] sint_lt [of w] by simp_all

lemma scan_set_end: "scan (Conv_set f k # fs) [] = Some ([], True)"
  by (simp add: scan.simps(8))

lemmas scan_back = scan_d [simplified] scan_lx [simplified] scan_x [simplified] scan_s scan_set scan_set_end

text \<open>A word: what \<open>%s\<close> reads.\<close>

definition is_word :: "nat \<Rightarrow> cstring \<Rightarrow> bool" where
  "is_word n w \<longleftrightarrow> w \<noteq> [] \<and> length w < n \<and> list_all (\<lambda>c. \<not> is_space c) w"

lemma word_no_space: "is_word n w \<Longrightarrow> dropWhile is_space (w @ t) = w @ t"
  by (cases w) (auto simp: is_word_def)

lemma scan_s_word: "is_word k w \<Longrightarrow> stops (\<lambda>c. \<not> is_space c) t \<Longrightarrow> scan (Conv_s k # fs) (w @ t) = store (S_Str w) (scan fs t)"
  by (rule scan_s) (auto simp: is_word_def list_all_iff)

section \<open>Mappings, contexts, arguments, attachments\<close>

lemma mmap_roundtrip:
  "is_word LINE_MAX (mm_module mm) \<Longrightarrow> parse_memory_mapping m (sp_rtrace_print_mmap mm) = Some (masked m RECORD_MMAP mm)"
  by (cases mm) (simp add: parse_memory_mapping_def sp_rtrace_print_mmap_def sscanf_def text_eval scan_s_word scan_back word_no_space)

text \<open>A text up to the end of the line, without leading space.\<close>

definition is_line :: "nat \<Rightarrow> cstring \<Rightarrow> bool" where
  "is_line n w \<longleftrightarrow> w \<noteq> [] \<and> length w < n \<and> \<not> is_space (hd w) \<and> list_all (\<lambda>c. c \<noteq> 10) w"

lemma line_no_space: "is_line n w \<Longrightarrow> dropWhile is_space (w @ t) = w @ t"
  by (cases w) (auto simp: is_line_def)

lemma scan_line: "is_line k w \<Longrightarrow> scan (Conv_set (\<lambda>c. c \<noteq> 10) k # fs) (w @ 10 # t) = store (S_Str w) (scan fs (10 # t))"
  by (rule scan_set) (auto simp: is_line_def list_all_iff)

lemma ucast_low: "(w :: u64) < 4294967296 \<Longrightarrow> ucast (ucast w :: u32) = w"
proof -
  assume "w < 4294967296"
  then have "unat w < 2 ^ 32" by (simp add: word_less_nat_alt)
  then have "unat (ucast (ucast w :: u32) :: u64) = unat w" by (simp add: unsigned_ucast_eq unsigned_take_bit_eq take_bit_nat_eq_self)
  then show ?thesis by (rule unsigned_word_eqI)
qed

lemma context_roundtrip:
  "is_line 512 (cx_name c) \<Longrightarrow> cx_id c < 4294967296 \<Longrightarrow>
     parse_context_registry m (sp_rtrace_print_context c) = Some (masked m RECORD_CONTEXT c)"
  by (cases c) (simp add: parse_context_registry_def sp_rtrace_print_context_def sscanf_def text_eval scan_line scan_back
      line_no_space format_no_space ucast_low)

lemma arg_roundtrip:
  "is_word 128 (fa_name a) \<Longrightarrow> is_word LINE_MAX (fa_value a) \<Longrightarrow>
     parse_arguments m (sp_rtrace_print_args [a]) = Some (masked m RECORD_ARG a)"
  by (cases a) (simp add: parse_arguments_def sp_rtrace_print_args_def sscanf_def text_eval scan_s_word word_no_space)

lemma attachment_roundtrip:
  "is_word 512 (at_name f) \<Longrightarrow> is_word LINE_MAX (at_path f) \<Longrightarrow>
     parse_file_attachment m (sp_rtrace_print_attachment f) = Some (masked m RECORD_ATTACHMENT f)"
  by (cases f) (simp add: parse_file_attachment_def sp_rtrace_print_attachment_def sscanf_def text_eval scan_s_word word_no_space)

lemma frame_roundtrip:
  "(case name of None \<Rightarrow> True | Some w \<Rightarrow> is_line LINE_MAX w) \<Longrightarrow>
     parse_backtrace m (sp_rtrace_print_trace_step addr name) = Some (masked m RECORD_TRACE (addr, name))"
  by (cases name) (simp_all add: parse_backtrace_def sp_rtrace_print_trace_step_def sscanf_def text_eval scan_line scan_back
      line_no_space)

section \<open>Resources\<close>

definition resource_ok :: "sp_rtrace_resource \<Rightarrow> bool" where
  "resource_ok r \<longleftrightarrow> rs_type r \<noteq> [] \<and> length (rs_type r) < 512 \<and> \<not> is_space (hd (rs_type r)) \<and> list_all (\<lambda>c. c \<noteq> 32) (rs_type r) \<and>
     rs_desc r \<noteq> [] \<and> length (rs_desc r) < 512 \<and> list_all (\<lambda>c. c \<noteq> 41) (rs_desc r) \<and>
     0 < rs_id r \<and> rs_id r \<le> 32 \<and> rs_flags r \<le> 1"

lemma ffs_push_bit: "n < 32 \<Longrightarrow> ffs (push_bit n 1) = of_nat (n + 1)"
proof -
  assume n: "n < 32"
  have "find (bit (push_bit n 1 :: u32)) [0..<32] = Some n"
    unfolding find_Some_iff using n by (intro exI [of _ n]) (auto simp: bit_simps)
  then show ?thesis by (simp add: ffs_def)
qed

lemma flag_numbers_eq: "flag_numbers = [0]"
  by (simp add: flag_numbers_def RESOURCE_REFCOUNT_def upt_rec [of _ "numeral _"] word_le_nat_alt)

lemma flags_roundtrip: "(f :: u32) \<le> 1 \<Longrightarrow> f = 0 \<or> f = 1"
  by (simp add: word_le_nat_alt word_unat_eq_iff) linarith

lemma resource_shift: "0 < (i :: u64) \<Longrightarrow> i \<le> 32 \<Longrightarrow> \<exists>n<32. sint (ucast i :: u32) - 1 = int n \<and> i = of_nat (n + 1)"
proof -
  assume i: "0 < i" "i \<le> 32"
  define n where "n = unat i - 1"
  have u: "unat i = n + 1" "n < 32" using i by (auto simp: n_def word_le_nat_alt word_less_nat_alt)
  have "i = of_nat (n + 1)" using u by (metis of_nat_unat ucast_id)
  moreover have "(ucast i :: u32) = word_of_int (int (n + 1))" using u(1) by (simp add: ucast_eq uint_nat del: of_nat_add)
  then have "sint (ucast i :: u32) = int (n + 1)" using u(2) by (simp only:) (rule sint_in_range, simp_all)
  ultimately show ?thesis using u(2) by auto
qed

lemma ucast_back [simp]: "ucast (ucast (w :: u32) :: u64) = w"
  by (rule bit_word_eqI) (simp add: bit_simps)

lemma refcount_scanned:
  "scan [Conv_set (\<lambda>c. c \<noteq> 93) 1024, Lit 93] (str ''refcount'' @ 93 # t) = Some ([S_Str (str ''refcount'')], False)"
  by (simp add: scan.simps str_def)

lemma refcount_flag: "parse_resource_flags (str ''refcount'') = 1"
  by (simp add: parse_resource_flags_def flag_numbers_eq sp_rtrace_resource_flags_text_def strstr_def str_def upt_rec [of _ "numeral _"])

lemma resource_roundtrip:
  assumes ok: "resource_ok r" and t: "sp_rtrace_print_resource r = Some t"
  shows "parse_resource_registry m t = Some (masked m RECORD_CONTEXT r)"
proof -
  obtain i ty de fl where r: "r = \<lparr>rs_id = i, rs_type = ty, rs_desc = de, rs_flags = fl\<rparr>" by (cases r) auto
  have ty: "ty \<noteq> []" "length ty < 512" "\<forall>c\<in>set ty. c \<noteq> 32" "\<not> is_space (hd ty)"
    and de: "de \<noteq> []" "length de < 512" "\<forall>c\<in>set de. c \<noteq> 41"
    using ok by (auto simp: resource_ok_def r list_all_iff)
  obtain n where n: "n < 32" "sint (ucast i :: u32) - 1 = int n" "i = of_nat (n + 1)"
    using resource_shift [of i] ok by (auto simp: resource_ok_def r)
  have drop_ty: "\<And>t. dropWhile is_space (ty @ t) = ty @ t" using ty by (intro dropWhile_none) auto
  from ok have "fl = 0 \<or> fl = 1" by (intro flags_roundtrip) (simp add: resource_ok_def r)
  moreover have "t = 60 # format_x (unat (push_bit n 1 :: u32)) @ 62 # 32 # 58 # 32 # ty @ 32 # 40 # de @ 41 # print_resource_flags fl @ [10]"
    using t n(1) by (simp add: sp_rtrace_print_resource_def r n(2) fit_def str_def split: if_splits)
  ultimately show ?thesis using ty de ffs_push_bit [OF n(1)] n(3)
    by (elim disjE) (simp_all add: parse_resource_registry_def print_resource_flags_def flag_numbers_eq r sscanf_def scan_back drop_ty
        refcount_scanned [unfolded str_def, simplified] refcount_flag [unfolded str_def, simplified] sp_rtrace_resource_flags_text_def text_eval)
qed

section \<open>Function calls\<close>

lemma skip_field_first: "c \<notin> set xs \<Longrightarrow> skip_field c (xs @ c # ys) = Some (PARSE_OK ys)"
  by (simp add: skip_field_def strchr_first)

lemma format_d_not: "c \<in> set (format_d i) \<Longrightarrow> c \<noteq> 32 \<and> c \<noteq> 40 \<and> c \<noteq> 60"
  by (drule format_d_chars) (auto dest: digit_not)

lemma format_x_not: "c \<in> set (format_x n) \<Longrightarrow> c \<noteq> 32 \<and> c \<noteq> 40 \<and> c \<noteq> 60"
  using format_chars(2) [of c n] hex_not [of c] by auto

lemma format_not_in:
  "32 \<notin> set (format_d i)" "40 \<notin> set (format_d i)" "60 \<notin> set (format_d i)"
  "32 \<notin> set (format_x n)" "40 \<notin> set (format_x n)" "60 \<notin> set (format_x n)"
  using format_d_not format_x_not by blast+

lemma index_roundtrip:
  "- (2 ^ 31) \<le> i \<Longrightarrow> i < 2 ^ 31 \<Longrightarrow> parse_call_index (format_d i @ 46 # 32 # t) = Some (PARSE_OK (i, t))"
  using skip_field_first [of 32 "format_d i @ [46]" t]
  by (simp add: parse_call_index_def sscanf_def scan_back is_digit_def format_not_in)

lemma context_absent: "stops (\<lambda>c. c = 64) t \<Longrightarrow> parse_call_context t = Some (PARSE_OK (0, t))"
  by (cases t) (auto simp: parse_call_context_def sscanf_def text_eval)

lemma context_present: "parse_call_context (64 # format_x (unat c) @ 32 # t) = Some (PARSE_OK (c, t))"
  using skip_field_first [of 32 "64 # format_x (unat c)" t]
  by (simp add: parse_call_context_def sscanf_def scan_back text_eval format_not_in strchr_def)

lemma format_0d_scan:
  assumes "n < 2 ^ 31" "stops is_digit t"
  shows "scan (Conv_d # fs) (format_0d w n @ t) = store (S_Int (int n)) (scan fs t)"
proof -
  let ?w = "format_0d w n"
  have c: "\<forall>c\<in>set ?w. is_digit c" using format_chars(1) [of _ n] by (auto simp: format_0d_def is_digit_def)
  have ne: "?w \<noteq> []" by (simp add: format_0d_def format_u_def digits_nonempty)
  have "digits_to_nat 10 ?w = n" by (simp add: format_0d_def digits_to_nat_zeros format_u_def digits_to_nat_digits)
  then have r: "read_d (?w @ t) = Some (int n, t)" using ne c assms by (intro read_d_digits)
  have "\<not> is_space (hd (?w @ t))" using ne c digit_not [of "hd ?w"] by auto
  then have "dropWhile is_space (?w @ t) = ?w @ t" using ne by (intro dropWhile_none) auto
  with r show ?thesis by (simp add: scan.simps)
qed

lemma format_0d_not: "32 \<notin> set (format_0d w n)"
  using format_chars(1) [of 32 n] by (auto simp: format_0d_def is_digit_def)

lemma timestamp_absent: "stops (\<lambda>c. c = 91) t \<Longrightarrow> parse_call_timestamp t = Some (PARSE_OK (0, t))"
  by (cases t) (auto simp: parse_call_timestamp_def sscanf_def text_eval)

lemma time_parts:
  fixes t :: nat
  shows "t div 3600000 * 60 * 60 * 1000 + t mod 3600000 div 60000 * 60 * 1000 + t mod 3600000 mod 60000 div 1000 * 1000 +
    t mod 3600000 mod 60000 mod 1000 = t"
proof -
  define a where "a = t mod 3600000"
  define b where "b = a mod 60000"
  have "t = t div 3600000 * 3600000 + a" "a = a div 60000 * 60000 + b" "b = b div 1000 * 1000 + b mod 1000"
    by (simp_all add: a_def b_def)
  then show ?thesis unfolding a_def [symmetric] b_def [symmetric] by linarith
qed

lemma timestamp_present:
  assumes "ts \<noteq> 0"
  shows "parse_call_timestamp (print_timestamp ts @ t) = Some (PARSE_OK (ts, t))"
proof -
  let ?h = "unat ts div 3600000" and ?m = "unat ts mod 3600000 div 60000"
    and ?s = "unat ts mod 3600000 mod 60000 div 1000" and ?u = "unat ts mod 3600000 mod 60000 mod 1000"
  let ?text = "91 # format_0d 2 ?h @ 58 # format_0d 2 ?m @ 58 # format_0d 2 ?s @ 46 # format_0d 3 ?u @ [93]"
  have eq: "print_timestamp ts @ t = ?text @ 32 # t" using assms by (simp add: print_timestamp_def Let_def str_def)
  have b: "?h < 2147483648" "?m < 2147483648" "?s < 2147483648" "?u < 2147483648"
    by (simp_all add: less_mult_imp_div_less less_trans [OF unat_u32] less_trans [OF mod_less_divisor])
  have v: "word_of_int (int ?h * 60 * 60 * 1000 + int ?m * 60 * 1000 + int ?s * 1000 + int ?u) = ts"
  proof -
    have "int ?h * 60 * 60 * 1000 + int ?m * 60 * 1000 + int ?s * 1000 + int ?u = int (unat ts)"
      using arg_cong [OF time_parts [of "unat ts"], of int] by (simp only: of_nat_add of_nat_mult of_nat_numeral)
    then show ?thesis by (simp only: word_of_int_nat) simp
  qed
  have skip: "skip_field 32 (?text @ 32 # t) = Some (PARSE_OK t)"
    by (rule skip_field_first) (simp add: format_0d_not)
  show ?thesis unfolding eq parse_call_timestamp_def
    using b skip v by (simp add: sscanf_def text_eval format_0d_scan)
qed

text \<open>The parameters of a call.\<close>

lemma data_roundtrip:
  assumes "fc_type call = FTYPE_ALLOC \<or> fc_type call = FTYPE_FREE \<and> fc_res_size call = 0"
  shows "parse_call_data (print_call_data call @ 10 # t) = Some (PARSE_OK (fc_type call, fc_res_size call, fc_res_id call))"
proof (cases "fc_type call = FTYPE_ALLOC")
  case True
  then show ?thesis by (simp add: parse_call_data_def print_call_data_def sscanf_def scan_back text_eval)
next
  case False
  have "scan [Conv_d, Lit 41, White, Lit 61, White, Lit 48, Lit 120, Conv_lx] (48 # 120 # format_x (unat (fc_res_id call)) @ 41 # 10 # t)
      = Some ([S_Int 0], False)"
    using scan_d [of 0 "120 # format_x (unat (fc_res_id call)) @ 41 # 10 # t"]
    by (simp add: is_digit_def format_d_def format_u_def digits.simps digit_char_def)
  then show ?thesis using False assms by (auto simp: parse_call_data_def print_call_data_def sscanf_def scan_back text_eval)
qed

lemma data_shape: "\<exists>d. print_call_data call = 40 # d \<and> 40 \<notin> set d \<and> 60 \<notin> set d"
  by (auto simp: print_call_data_def format_p_def str_def format_not_in)

text \<open>
  Names that can be read back: short, not starting like a context or a timestamp, and not ending like a resource when
  no resource follows.  The name of a resource has no bracket or parenthesis.
\<close>

definition call_text_ok :: "cstring \<Rightarrow> cstring option \<Rightarrow> bool" where
  "call_text_ok name res_name \<longleftrightarrow> length name < 512 \<and> (name = [] \<or> hd name \<noteq> 64 \<and> hd name \<noteq> 91) \<and>
     (case res_name of
        None \<Rightarrow> name = [] \<or> last name \<noteq> 62
      | Some w \<Rightarrow> w \<noteq> [] \<and> length w < 512 \<and> list_all (\<lambda>c. c \<noteq> 40 \<and> c \<noteq> 60 \<and> c \<noteq> 62) w)"

definition print_res_name :: "cstring option \<Rightarrow> cstring" where
  "print_res_name res_name = (case res_name of None \<Rightarrow> [] | Some w \<Rightarrow> str ''<'' @ w @ str ''>'')"

lemma name_roundtrip:
  assumes ok: "call_text_ok name res_name" and d: "40 \<notin> set d" "60 \<notin> set d"
  shows "parse_call_name (name @ print_res_name res_name @ 40 # d) = Some (PARSE_OK (name, print_res_name res_name @ 40 # d))"
proof (cases res_name)
  case None
  have "strrchr 40 (name @ 40 # d) = Some (length name)" using d(1) by (rule strrchr_last)
  moreover have "name \<noteq> [] \<Longrightarrow> (name @ 40 # d) ! (length name - 1) = last name" by (simp add: nth_append last_conv_nth)
  ultimately show ?thesis using ok None by (auto simp: parse_call_name_def call_text_ok_def print_res_name_def)
next
  case (Some w)
  then have w: "60 \<notin> set w" using ok by (auto simp: call_text_ok_def list_all_iff)
  let ?x = "name @ 60 # w @ [62]"
  have "strrchr 40 (?x @ 40 # d) = Some (length ?x)" using d(1) by (rule strrchr_last)
  moreover have "(?x @ 40 # d) ! (length ?x - 1) = 62" by (simp add: nth_append)
  moreover have "strrchr 60 (name @ 60 # (w @ 62 # 40 # d)) = Some (length name)" using d(2) w by (intro strrchr_last) auto
  ultimately show ?thesis using ok Some by (simp add: parse_call_name_def call_text_ok_def print_res_name_def str_def)
qed

lemma resource_name_roundtrip:
  assumes ok: "call_text_ok name res_name"
  shows "parse_call_resource (print_res_name res_name @ 40 # d) =
    Some (PARSE_OK (case res_name of None \<Rightarrow> RFIELD_UNDEF | Some w \<Rightarrow> RFIELD_NAME w, 40 # d))"
proof (cases res_name)
  case None
  then show ?thesis by (simp add: parse_call_resource_def print_res_name_def)
next
  case (Some w)
  then have w: "w \<noteq> []" "length w < 512" "\<forall>c\<in>set w. c \<noteq> 62" "40 \<notin> set (60 # w @ [62])"
    using ok by (auto simp: call_text_ok_def list_all_iff)
  have "strchr 40 ((60 # w @ [62]) @ 40 # d) = Some (40 # d)" using w(4) by (rule strchr_first)
  then show ?thesis using w Some by (simp add: parse_call_resource_def print_res_name_def sscanf_def text_eval scan_set)
qed

definition fcall_ok :: "sp_rtrace_fcall \<Rightarrow> bool" where
  "fcall_ok call \<longleftrightarrow> - (2 ^ 31) \<le> fc_index call \<and> fc_index call < 2 ^ 31 \<and> fc_timestamp call < 2 ^ 31 \<and>
     (fc_type call = FTYPE_ALLOC \<or> fc_type call = FTYPE_FREE \<and> fc_res_size call = 0)"

text \<open>What the reader makes of the resource of a call: the name that was printed.\<close>

definition named_res :: "cstring option \<Rightarrow> res_field" where
  "named_res res_name = (case res_name of None \<Rightarrow> RFIELD_UNDEF | Some w \<Rightarrow> RFIELD_NAME w)"

lemma fcall_roundtrip:
  assumes ok: "fcall_ok call" and name: "fc_name call = Some name" and res: "call_res_name res call = Some res_name"
    and nm: "call_text_ok name res_name" and t: "sp_rtrace_print_call now res call = Some t"
  shows "parse_function_call m t = Some (masked m RECORD_CALL (call\<lparr>fc_res_type := named_res res_name\<rparr>))"
proof -
  obtain d where d: "print_call_data call = 40 # d" "40 \<notin> set d" "60 \<notin> set d" using data_shape by blast
  let ?d = "40 # d @ [10]"
  let ?n = "name @ print_res_name res_name @ ?d"
  have ts: "print_call_time now call = fc_timestamp call"
    using ok by (auto simp: print_call_time_def fcall_ok_def)
  have t_eq: "t = format_d (fc_index call) @ 46 # 32 #
      ((if fc_context call = 0 then [] else 64 # format_x (unat (fc_context call)) @ [32]) @ print_timestamp (fc_timestamp call) @ ?n)"
    using t name res d by (simp add: sp_rtrace_print_call_def fit_def str_def print_res_name_def ts split: if_splits)
  have hd_n: "stops (\<lambda>c. c = 64 \<or> c = 91) ?n"
    using nm by (cases name) (auto simp: call_text_ok_def print_res_name_def str_def split: option.splits)
  have hd_t: "stops (\<lambda>c. c = 64) (print_timestamp (fc_timestamp call) @ ?n)"
    using hd_n by (auto simp: print_timestamp_def Let_def str_def)
  have time: "parse_call_timestamp (print_timestamp (fc_timestamp call) @ ?n) = Some (PARSE_OK (fc_timestamp call, ?n))"
  proof (cases "fc_timestamp call = 0")
    case True
    then show ?thesis using hd_n timestamp_absent [of ?n] by (simp add: print_timestamp_def)
  qed (rule timestamp_present)
  have ctx: "parse_call_context ((if fc_context call = 0 then [] else 64 # format_x (unat (fc_context call)) @ [32]) @
      print_timestamp (fc_timestamp call) @ ?n) = Some (PARSE_OK (fc_context call, print_timestamp (fc_timestamp call) @ ?n))"
    using context_absent [OF hd_t] context_present by simp
  have name_res: "parse_call_name ?n = Some (PARSE_OK (name, print_res_name res_name @ ?d))"
    "parse_call_resource (print_res_name res_name @ ?d) = Some (PARSE_OK (named_res res_name, ?d))"
    using name_roundtrip [OF nm, of "d @ [10]"] resource_name_roundtrip [OF nm, of "d @ [10]"] d by (simp_all add: named_res_def)
  have data: "parse_call_data ?d = Some (PARSE_OK (fc_type call, fc_res_size call, fc_res_id call))"
    using data_roundtrip [of call "[]"] ok d by (simp add: fcall_ok_def)
  have index: "parse_call_index t = Some (PARSE_OK (fc_index call,
      (if fc_context call = 0 then [] else 64 # format_x (unat (fc_context call)) @ [32]) @ print_timestamp (fc_timestamp call) @ ?n))"
    using ok unfolding t_eq by (intro index_roundtrip) (simp_all add: fcall_ok_def)
  have "parse_function_call m t = Some (masked m RECORD_CALL
      \<lparr>fc_index = fc_index call, fc_type = fc_type call, fc_context = fc_context call, fc_timestamp = fc_timestamp call,
       fc_name = Some name, fc_res_type = named_res res_name, fc_res_id = fc_res_id call, fc_res_size = fc_res_size call\<rparr>)"
    by (simp only: parse_function_call_def index ctx time name_res data and_then.simps case_prod_conv)
  then show ?thesis using name by (cases call) simp
qed

section \<open>The kind of a record\<close>

text \<open>A line that does not start like a number is not a call.\<close>

lemma not_a_call:
  assumes "dropWhile is_space line = c # t" "\<not> is_digit c" "c \<noteq> 43" "c \<noteq> 45"
  shows "parse_function_call m line = Some PARSE_FAIL"
proof -
  have "read_d (c # t) = None" using assms by (simp add: read_d_def)
  then show ?thesis using assms(1) by (simp add: parse_function_call_def parse_call_index_def sscanf_def scan.simps)
qed

lemmas parse_record_eval = sp_rtrace_parser_parse_record_def parse_backtrace_def parse_arguments_def parse_memory_mapping_def
  parse_context_registry_def parse_resource_registry_def parse_file_attachment_def sscanf_def text_eval

text \<open>With the mask of a record set, the whole parser gives that record.\<close>

lemma record_mmap:
  assumes "is_word LINE_MAX (mm_module mm)" "m AND RECORD_MMAP \<noteq> 0"
  shows "sp_rtrace_parser_parse_record m (sp_rtrace_print_mmap mm) = Some (Rec_Mmap mm)"
proof -
  obtain t where t: "sp_rtrace_print_mmap mm = 58 # t" by (simp add: sp_rtrace_print_mmap_def str_def)
  have "parse_function_call m (58 # t) = Some PARSE_FAIL" by (rule not_a_call) (auto simp: is_space_def is_digit_def)
  then show ?thesis using mmap_roundtrip [OF assms(1), of m] assms(2)
    by (simp add: t sp_rtrace_parser_parse_record_def parse_backtrace_def parse_arguments_def masked_def)
qed

lemma record_context:
  assumes "is_line 512 (cx_name c)" "cx_id c < 4294967296" "m AND RECORD_CONTEXT \<noteq> 0"
  shows "sp_rtrace_parser_parse_record m (sp_rtrace_print_context c) = Some (Rec_Context c)"
proof -
  obtain t where t: "sp_rtrace_print_context c = 64 # t" by (simp add: sp_rtrace_print_context_def str_def)
  have "parse_function_call m (64 # t) = Some PARSE_FAIL" by (rule not_a_call) (auto simp: is_space_def is_digit_def)
  then show ?thesis using context_roundtrip [OF assms(1,2), of m] assms(3)
    by (simp add: t sp_rtrace_parser_parse_record_def parse_backtrace_def parse_arguments_def parse_memory_mapping_def sscanf_def
        text_eval masked_def)
qed

lemma record_resource:
  assumes "resource_ok r" "sp_rtrace_print_resource r = Some t" "m AND RECORD_CONTEXT \<noteq> 0"
  shows "sp_rtrace_parser_parse_record m t = Some (Rec_Resource r)"
proof -
  obtain u where t: "t = 60 # u"
    using assms(2) by (auto simp: sp_rtrace_print_resource_def fit_def str_def Let_def split: if_splits)
  have "parse_function_call m (60 # u) = Some PARSE_FAIL" by (rule not_a_call) (auto simp: is_space_def is_digit_def)
  then show ?thesis using resource_roundtrip [OF assms(1,2), of m] assms(3)
    by (simp add: t sp_rtrace_parser_parse_record_def parse_backtrace_def parse_arguments_def parse_memory_mapping_def
        parse_context_registry_def sscanf_def text_eval masked_def)
qed

lemma record_attachment:
  assumes "is_word 512 (at_name f)" "is_word LINE_MAX (at_path f)" "m AND RECORD_ATTACHMENT \<noteq> 0"
  shows "sp_rtrace_parser_parse_record m (sp_rtrace_print_attachment f) = Some (Rec_Attachment f)"
proof -
  obtain t where t: "sp_rtrace_print_attachment f = 38 # t" by (simp add: sp_rtrace_print_attachment_def str_def)
  have "parse_function_call m (38 # t) = Some PARSE_FAIL" by (rule not_a_call) (auto simp: is_space_def is_digit_def)
  then show ?thesis using attachment_roundtrip [OF assms(1,2), of m] assms(3)
    by (simp add: t sp_rtrace_parser_parse_record_def parse_backtrace_def parse_arguments_def parse_memory_mapping_def
        parse_context_registry_def parse_resource_registry_def sscanf_def text_eval masked_def)
qed

lemma record_frame:
  assumes "case name of None \<Rightarrow> True | Some w \<Rightarrow> is_line LINE_MAX w" "m AND RECORD_TRACE \<noteq> 0"
  shows "sp_rtrace_parser_parse_record m (sp_rtrace_print_trace_step addr name) = Some (Rec_Trace addr name)"
  using frame_roundtrip [OF assms(1), of m addr] assms(2) by (simp add: sp_rtrace_parser_parse_record_def masked_def)

lemma record_arg:
  assumes "is_word 128 (fa_name a)" "is_word LINE_MAX (fa_value a)" "m AND RECORD_ARG \<noteq> 0"
  shows "sp_rtrace_parser_parse_record m (sp_rtrace_print_args [a]) = Some (Rec_Arg a)"
proof -
  obtain t where t: "sp_rtrace_print_args [a] = 9 # 36 # t" by (simp add: sp_rtrace_print_args_def str_def)
  have "parse_function_call m (9 # 36 # t) = Some PARSE_FAIL" by (rule not_a_call) (auto simp: is_space_def is_digit_def)
  then show ?thesis using arg_roundtrip [OF assms(1,2), of m] assms(3)
    by (simp add: t sp_rtrace_parser_parse_record_def parse_backtrace_def sscanf_def text_eval masked_def)
qed

lemma record_call:
  assumes "fcall_ok call" "fc_name call = Some name" "call_res_name res call = Some res_name" "call_text_ok name res_name"
    "sp_rtrace_print_call now res call = Some t" "m AND RECORD_CALL \<noteq> 0"
  shows "sp_rtrace_parser_parse_record m t = Some (Rec_Call (call\<lparr>fc_res_type := named_res res_name\<rparr>))"
proof -
  obtain u where "t = format_d (fc_index call) @ u"
    using assms(2,3,5) by (auto simp: sp_rtrace_print_call_def fit_def split: if_splits)
  moreover have "format_d (fc_index call) \<noteq> []" by (simp add: format_d_def str_def format_u_def digits_nonempty)
  ultimately have "hd t \<noteq> 9" using format_d_chars [of "hd t" "fc_index call"] by (auto simp: is_digit_def)
  then show ?thesis using fcall_roundtrip [OF assms(1-5), of m] assms(6)
    by (simp add: sp_rtrace_parser_parse_record_def parse_backtrace_def masked_def)
qed

lemma record_comment:
  assumes "m AND RECORD_COMMENT \<noteq> 0"
  shows "sp_rtrace_parser_parse_record m (35 # t) = Some Rec_Comment"
proof -
  have "parse_function_call m (35 # t) = Some PARSE_FAIL" by (rule not_a_call) (auto simp: is_space_def is_digit_def)
  then show ?thesis using assms by (simp add: parse_record_eval)
qed

section \<open>The header\<close>

definition field_ok :: "cstring \<Rightarrow> bool" where
  "field_ok v \<longleftrightarrow> v \<noteq> [] \<and> length v < LINE_MAX \<and> list_all (\<lambda>c. c \<noteq> 44) v"

lemma field_cases: "i < HEADER_MAX \<Longrightarrow> i \<in> {0, 1, 2, 3, 4, 5, 6, 7}"
  by (auto simp: HEADER_MAX_def)

lemma header_fields_distinct: "distinct header_fields" "length header_fields = HEADER_MAX"
  by (simp_all add: header_fields_def HEADER_MAX_def str_def)

lemma header_store_field: "i < HEADER_MAX \<Longrightarrow> header_store (header_fields ! i) v h = h[i := Some v]"
proof -
  assume i: "i < HEADER_MAX"
  have "find (\<lambda>j. header_fields ! i = header_fields ! j) [0..<HEADER_MAX] = Some i"
    unfolding find_Some_iff using i header_fields_distinct by (intro exI [of _ i]) (auto simp: nth_eq_iff_index_eq)
  then show ?thesis by (simp add: header_store_def)
qed

lemma field_name:
  "i < HEADER_MAX \<Longrightarrow> header_fields ! i \<noteq> [] \<and> length (header_fields ! i) < 256 \<and> hd (header_fields ! i) \<noteq> 32 \<and>
     (\<forall>c\<in>set (header_fields ! i). c \<noteq> 61) \<and> 44 \<notin> set (header_fields ! i)"
  by (drule field_cases) (elim insertE; simp add: header_fields_def str_def)

lemma parse_field:
  assumes i: "i < HEADER_MAX" and v: "field_ok v" and r: "stops (\<lambda>c. c = 32) r"
  shows "parse_fields (print_field i (Some v) @ r) h = parse_fields r (h[i := Some v])"
proof -
  let ?k = "header_fields ! i"
  have v': "v \<noteq> []" "length v < LINE_MAX" "\<forall>c\<in>set v. c \<noteq> 44" using v by (auto simp: field_ok_def list_all_iff)
  have eq: "print_field i (Some v) @ r = ?k @ 61 # v @ 44 # 32 # r" by (simp add: print_field_def str_def)
  have "strchr 44 ((?k @ 61 # v) @ 44 # 32 # r) = Some (44 # 32 # r)"
    using field_name [OF i] v' by (intro strchr_first) auto
  moreover have "dropWhile (\<lambda>c. c = 32) r = r" using r by (rule dropWhile_none)
  ultimately show ?thesis unfolding eq using field_name [OF i] v' header_store_field [OF i]
    by (subst parse_fields.simps) (simp add: sscanf_def text_eval scan_set)
qed

lemma parse_fields_end: "parse_fields [10] h = Some h"
  by (subst parse_fields.simps) (simp add: sscanf_def text_eval scan_set [of "[10]" _ _ "[]", simplified])

definition set_fields :: "(nat \<Rightarrow> cstring option) \<Rightarrow> nat list \<Rightarrow> header \<Rightarrow> header" where
  "set_fields f is h = fold (\<lambda>i h. case f i of None \<Rightarrow> h | Some v \<Rightarrow> h[i := Some v]) is h"

lemma length_set_fields [simp]: "length (set_fields f is h) = length h"
  by (induction "is" arbitrary: h) (auto simp: set_fields_def split: option.splits)

lemma nth_set_fields: "j < length h \<Longrightarrow> set_fields f is h ! j = (if j \<in> set is \<and> f j \<noteq> None then f j else h ! j)"
proof (induction "is" arbitrary: h)
  case (Cons i "is")
  then show ?case by (cases "i = j") (auto simp: set_fields_def split: option.splits)
qed (simp add: set_fields_def)

lemma fields_start: "list_all (\<lambda>i. i < HEADER_MAX) is \<Longrightarrow> stops (\<lambda>c. c = 32) (concat (map (\<lambda>i. print_field i (f i)) is) @ [10])"
  by (induction "is") (auto simp: print_field_def split: option.splits dest: field_name)

lemma parse_all_fields:
  "list_all (\<lambda>i. i < HEADER_MAX \<and> (\<forall>v. f i = Some v \<longrightarrow> field_ok v)) is \<Longrightarrow>
     parse_fields (concat (map (\<lambda>i. print_field i (f i)) is) @ [10]) h = Some (set_fields f is h)"
proof (induction "is" arbitrary: h)
  case (Cons i "is")
  have r: "stops (\<lambda>c. c = 32) (concat (map (\<lambda>i. print_field i (f i)) is) @ [10])"
    using Cons.prems by (intro fields_start) (auto simp: list_all_iff)
  show ?case
  proof (cases "f i")
    case None
    then show ?thesis using Cons by (simp add: print_field_def set_fields_def)
  next
    case (Some v)
    then show ?thesis using Cons parse_field [of i v _ h, OF _ _ r] by (simp add: set_fields_def)
  qed
qed (simp add: parse_fields_end set_fields_def)

lemma header_roundtrip:
  assumes "\<And>i v. i < HEADER_MAX \<Longrightarrow> header_value now header i = Some v \<Longrightarrow> field_ok v" "sp_rtrace_print_header now header = Some t"
  shows "sp_rtrace_parser_parse_header t = Some (map (header_value now header) [0..<HEADER_MAX])"
proof -
  have "t = concat (map (\<lambda>i. print_field i (header_value now header i)) [0..<HEADER_MAX]) @ [10]"
    using assms(2) by (simp add: sp_rtrace_print_header_def fit_def split: if_splits)
  moreover have "set_fields (header_value now header) [0..<HEADER_MAX] (replicate HEADER_MAX None) =
      map (header_value now header) [0..<HEADER_MAX]"
    by (rule nth_equalityI) (auto simp: nth_set_fields)
  ultimately show ?thesis using assms(1) parse_all_fields [of "header_value now header" "[0..<HEADER_MAX]"]
    by (simp add: sp_rtrace_parser_parse_header_def list_all_iff)
qed

section \<open>The contract of a record\<close>

text \<open>
  A kind of record: what is printed for a value that fits the format is read back, when the mask of the
  parser selects the kind, and ignored otherwise.
\<close>

locale text_record =
  fixes prt :: "'a \<Rightarrow> cstring option" and prs :: "u32 \<Rightarrow> cstring \<Rightarrow> 'a parsed option" and ok :: "'a \<Rightarrow> bool" and kind :: u32
  assumes roundtrip: "ok x \<Longrightarrow> prt x = Some t \<Longrightarrow> prs m t = Some (masked m kind x)"
begin

lemma read_back: "ok x \<Longrightarrow> prt x = Some t \<Longrightarrow> m AND kind \<noteq> 0 \<Longrightarrow> prs m t = Some (PARSE_OK x)"
  by (simp add: roundtrip masked_def)

lemma ignored: "ok x \<Longrightarrow> prt x = Some t \<Longrightarrow> m AND kind = 0 \<Longrightarrow> prs m t = Some PARSE_IGNORE"
  by (simp add: roundtrip masked_def)

text \<open>Different values have different lines.\<close>

lemma print_inj:
  assumes "ok x" "ok y" "prt x = Some t" "prt y = Some t" "kind \<noteq> 0"
  shows "x = y"
  using read_back [OF assms(1,3), of kind] read_back [OF assms(2,4), of kind] assms(5) by simp

end

interpretation mmaps: text_record "\<lambda>x. Some (sp_rtrace_print_mmap x)" parse_memory_mapping "\<lambda>x. is_word LINE_MAX (mm_module x)" RECORD_MMAP
  by unfold_locales (auto simp: mmap_roundtrip)

interpretation contexts: text_record "\<lambda>x. Some (sp_rtrace_print_context x)" parse_context_registry
  "\<lambda>x. is_line 512 (cx_name x) \<and> cx_id x < 4294967296" RECORD_CONTEXT
  by unfold_locales (auto simp: context_roundtrip)

interpretation arguments: text_record "\<lambda>x. Some (sp_rtrace_print_args [x])" parse_arguments
  "\<lambda>x. is_word 128 (fa_name x) \<and> is_word LINE_MAX (fa_value x)" RECORD_ARG
  by unfold_locales (auto simp: arg_roundtrip)

interpretation attachments: text_record "\<lambda>x. Some (sp_rtrace_print_attachment x)" parse_file_attachment
  "\<lambda>x. is_word 512 (at_name x) \<and> is_word LINE_MAX (at_path x)" RECORD_ATTACHMENT
  by unfold_locales (auto simp: attachment_roundtrip)

interpretation frames: text_record "\<lambda>(a, n). Some (sp_rtrace_print_trace_step a n)" parse_backtrace
  "\<lambda>(a, n). case n of None \<Rightarrow> True | Some w \<Rightarrow> is_line LINE_MAX w" RECORD_TRACE
  by unfold_locales (auto simp: frame_roundtrip)

text \<open>The resource registry has its own mask, but the parser tests the mask of the contexts.\<close>

interpretation resources: text_record sp_rtrace_print_resource parse_resource_registry resource_ok RECORD_CONTEXT
  by unfold_locales (rule resource_roundtrip)

text \<open>Calls whose resource is given by name, or that have none.\<close>

interpretation calls: text_record "sp_rtrace_print_call now res" parse_function_call
  "\<lambda>x. fcall_ok x \<and> (\<exists>name rn. fc_name x = Some name \<and> call_text_ok name rn \<and> fc_res_type x = named_res rn)" RECORD_CALL for now res
proof
  fix x t m
  assume ok: "fcall_ok x \<and> (\<exists>name rn. fc_name x = Some name \<and> call_text_ok name rn \<and> fc_res_type x = named_res rn)"
    and t: "sp_rtrace_print_call now res x = Some t"
  then obtain name rn where n: "fcall_ok x" "fc_name x = Some name" "call_text_ok name rn" "fc_res_type x = named_res rn" by blast
  then have "call_res_name res x = Some rn" by (auto simp: call_res_name_def named_res_def split: option.splits)
  from fcall_roundtrip [OF n(1,2) this n(3) t, of m] n(4) show "parse_function_call m t = Some (masked m RECORD_CALL x)"
    by (cases x) simp
qed

end
