(* ===== verification/Text_Reader.thy ===== *)
theory Text_Reader
  imports Text_Roundtrip Parse_Refine
begin

text \<open>
  The reader of text traces, src/rtrace-postproc/parse\_text.c: the header, then one record per line.  The
  loop can be ended by a signal; the text is then the lines that were read before it.
\<close>

section \<open>Lines\<close>

definition LINE_SIZE :: nat where "LINE_SIZE = 4096"

text \<open>\<open>fgets\<close> with a buffer of \<open>n\<close> bytes: a line with its end, or the part of it that fits.\<close>

definition fgets :: "nat \<Rightarrow> byte list \<Rightarrow> (byte list \<times> byte list) option" where
  "fgets n f =
     (if f = [] then None
      else let k = min (n - 1) (Suc (length (takeWhile (\<lambda>c. c \<noteq> 10) f))) in Some (take k f, drop k f))"

function text_lines :: "byte list \<Rightarrow> cstring list" where
  "text_lines f = (case fgets LINE_SIZE f of None \<Rightarrow> [] | Some (line, f) \<Rightarrow> cstr line # text_lines f)"
  by pat_completeness auto
termination
  by (relation "measure length") (auto simp: fgets_def LINE_SIZE_def Let_def split: if_splits)

declare text_lines.simps [simp del]

section \<open>The header\<close>

text \<open>The handshake and process records that are made from the header; their strings can be null.\<close>

record text_header =
  th_vmajor :: byte
  th_vminor :: byte
  th_arch :: "cstring option"
  th_sec :: int
  th_name :: "cstring option"
  th_origin :: "cstring option"
  th_pid :: int
  th_depth :: int

text \<open>\<open>mktime\<close> depends on the time zone: it maps year, month, day, hour, minute and second.\<close>

definition header_time :: "(int list \<Rightarrow> int) \<Rightarrow> cstring option \<Rightarrow> int option" where
  "header_time mktime fld =
     (case fld of
        None \<Rightarrow> Some 0
      | Some v \<Rightarrow> do {
          (n, vs) \<leftarrow> sscanf ([Conv_d] @ lits ''.'' @ [Conv_d] @ lits ''.'' @ [Conv_d] @ lits '' '' @
            [Conv_d] @ lits '':'' @ [Conv_d] @ lits '':'' @ [Conv_d]) v;
          Some (case vs of
                  [S_Int year, S_Int mon, S_Int mday, S_Int hour, S_Int mn, S_Int sec] \<Rightarrow>
                    mktime [year - 1900, mon - 1, mday, hour, mn, sec]
                | _ \<Rightarrow> 0) })"

definition header_version :: "cstring option \<Rightarrow> (byte \<times> byte) option" where
  "header_version fld =
     (case fld of
        None \<Rightarrow> Some (0, 0)
      | Some v \<Rightarrow> do {
          (n, vs) \<leftarrow> sscanf ([Conv_d] @ lits ''.'' @ [Conv_d]) v;
          Some (case vs of [S_Int vmajor, S_Int vminor] \<Rightarrow> (word_of_int vmajor, word_of_int vminor) | _ \<Rightarrow> (0, 0)) })"

definition parse_header :: "(int list \<Rightarrow> int) \<Rightarrow> rd \<Rightarrow> cstring \<Rightarrow> (text_header \<times> rd) option" where
  "parse_header mktime rd line = do {
     header \<leftarrow> sp_rtrace_parser_parse_header line;
     (vmajor, vminor) \<leftarrow> header_version (header ! HEADER_VERSION);
     sec \<leftarrow> header_time mktime (header ! HEADER_TIMESTAMP);
     Some (\<lparr>th_vmajor = vmajor, th_vminor = vminor, th_arch = header ! HEADER_ARCH, th_sec = sec,
            th_name = header ! HEADER_PROCESS, th_origin = header ! HEADER_ORIGIN,
            th_pid = (case header ! HEADER_PID of None \<Rightarrow> 0 | Some v \<Rightarrow> atoi v),
            th_depth = (case header ! HEADER_BACKTRACE_DEPTH of None \<Rightarrow> -1 | Some v \<Rightarrow> atoi v)\<rparr>,
           (case header ! HEADER_FILTER of None \<Rightarrow> rd | Some v \<Rightarrow> rd\<lparr>rd_filter := header_get_filter (Some v)\<rparr>)) }"

section \<open>Records\<close>

text \<open>
  The state of the loop: the trace data, the references to the calls that wait for their backtrace, the
  frames and arguments that were read for them, and the number of the last call.  \<open>tr_junk\<close> is the
  unspecified contents of new context records, which the reader does not set.
\<close>

record text_reader =
  tr_rd :: rd
  tr_heap :: rheap
  tr_last :: "ptr list"
  tr_bt :: "(pointer_t \<times> cstring option) list"
  tr_args :: "sp_rtrace_farg list"
  tr_comment :: int
  tr_junk :: sp_rtrace_context

definition text_ftrace :: "(pointer_t \<times> cstring option) list \<Rightarrow> rd_ftrace" where
  "text_ftrace bt =
     \<lparr>ft_bucket = None, ft_ref_count = 0, ft_nframes = of_nat (length bt), ft_frames = map fst bt,
      ft_names = (if list_ex (\<lambda>(a, n). n \<noteq> None) bt then Some (map snd bt) else None), ft_calls = []\<rparr>"

definition store_backtrace :: "text_reader \<Rightarrow> (pointer_t \<times> cstring option) list \<Rightarrow> text_reader option" where
  "store_backtrace s bt = (let h = tr_heap s; t = rh_next h in do {
     (rd, h) \<leftarrow> rd_fcalls_set_ftrace (tr_rd s) (h\<lparr>rh_next := t + 1, rh_ftraces := (rh_ftraces h)(t \<mapsto> text_ftrace bt)\<rparr>) (tr_last s) t;
     Some (s\<lparr>tr_rd := rd, tr_heap := h, tr_last := []\<rparr>) })"

text \<open>The arguments belong to the last of the waiting calls.\<close>

definition store_call_arguments :: "text_reader \<Rightarrow> text_reader option" where
  "store_call_arguments s = (let h = tr_heap s in do {
     guard (tr_last s \<noteq> []);
     c \<leftarrow> rh_refs h (last (tr_last s));
     call \<leftarrow> rh_fcalls h c;
     Some (s\<lparr>tr_heap := h\<lparr>rh_fcalls := (rh_fcalls h)(c \<mapsto> call\<lparr>call_args := Some (tr_args s)\<rparr>)\<rparr>, tr_args := []\<rparr>) })"

definition flush_args :: "text_reader \<Rightarrow> text_reader option" where
  "flush_args s = (if tr_args s = [] then Some s else store_call_arguments s)"

definition compare_resource :: "rheap \<Rightarrow> cstring \<Rightarrow> ptr \<Rightarrow> int option" where
  "compare_resource h type r = map_option (\<lambda>r. if rs_type (rr_data r) = type then 0 else 1) (rh_resources h r)"

text \<open>The resource of a call: the one with the name in the record, or else the first one.\<close>

definition call_resource :: "text_reader \<Rightarrow> res_field \<Rightarrow> res_field option" where
  "call_resource s f =
     (case f of
        RFIELD_NAME w \<Rightarrow> map_option (\<lambda>r. RFIELD_REF (case r of None \<Rightarrow> NULL | Some r \<Rightarrow> r))
                           (seq_find (compare_resource (tr_heap s) w) (rd_resources (tr_rd s)))
      | _ \<Rightarrow> Some (RFIELD_REF (case rd_resources (tr_rd s) of [] \<Rightarrow> NULL | r # rs \<Rightarrow> r)))"

definition add_call :: "text_reader \<Rightarrow> sp_rtrace_fcall \<Rightarrow> text_reader option" where
  "add_call s fc = (let h = tr_heap s; c = rh_next h; r = c + 1 in do {
     res \<leftarrow> call_resource s (fc_res_type fc);
     Some (s\<lparr>tr_rd := (tr_rd s)\<lparr>rd_calls := rd_calls (tr_rd s) @ [c]\<rparr>,
       tr_heap := h\<lparr>rh_next := c + 2,
         rh_fcalls := (rh_fcalls h)(c \<mapsto> \<lparr>call_data = fc\<lparr>fc_res_type := res\<rparr>, call_trace = NULL, call_ref = NULL, call_args = None\<rparr>),
         rh_refs := (rh_refs h)(r \<mapsto> c)\<rparr>,
       tr_last := tr_last s @ [r], tr_comment := fc_index fc\<rparr>) })"

definition add_resource :: "text_reader \<Rightarrow> sp_rtrace_resource \<Rightarrow> text_reader option" where
  "add_resource s res = (let h = tr_heap s; r = rh_next h in do {
     old \<leftarrow> seq_find (compare_resource h (rs_type res)) (rd_resources (tr_rd s));
     Some (case old of
             Some x \<Rightarrow> s
           | None \<Rightarrow> s\<lparr>tr_rd := (tr_rd s)\<lparr>rd_resources := rd_resources (tr_rd s) @ [r]\<rparr>,
               tr_heap := h\<lparr>rh_next := r + 1, rh_resources := (rh_resources h)(r \<mapsto> \<lparr>rr_data = res, rr_hide = False\<rparr>)\<rparr>\<rparr>) })"

text \<open>Calls for which no backtrace was found get an empty one.\<close>

definition no_backtrace :: "text_reader \<Rightarrow> text_reader option" where
  "no_backtrace s =
     (case tr_last s of
        [] \<Rightarrow> Some s
      | r # rs \<Rightarrow> do {
          c \<leftarrow> rh_refs (tr_heap s) r;
          call \<leftarrow> rh_fcalls (tr_heap s) c;
          if call_trace call = NULL then store_backtrace s [] else Some s })"

definition add_record :: "text_reader \<Rightarrow> cstring \<Rightarrow> sp_rtrace_record \<Rightarrow> text_reader option" where
  "add_record s line rec = (let rd = tr_rd s in
     case rec of
       Rec_Mmap m \<Rightarrow> Some (s\<lparr>tr_rd := rd\<lparr>rd_mmaps := rd_mmaps rd @ [m]\<rparr>\<rparr>)
     | Rec_Context c \<Rightarrow> Some (s\<lparr>tr_rd := rd\<lparr>rd_contexts := rd_contexts rd @ [tr_junk s]\<rparr>\<rparr>)
     | Rec_Resource r \<Rightarrow> add_resource s r
     | Rec_Attachment f \<Rightarrow> Some (s\<lparr>tr_rd := rd\<lparr>rd_files := rd_files rd @ [f]\<rparr>\<rparr>)
     | Rec_Comment \<Rightarrow> Some (s\<lparr>tr_rd := rd\<lparr>rd_comments := rd_comments rd @ [\<lparr>cm_index = tr_comment s, cm_text = line\<rparr>]\<rparr>\<rparr>)
     | _ \<Rightarrow> Some s)"

text \<open>What an end of the frames of a backtrace does: a record of another kind, or an empty line.\<close>

definition end_backtrace :: "text_reader \<Rightarrow> cstring \<Rightarrow> text_reader option" where
  "end_backtrace s line = do {
     s \<leftarrow> flush_args s;
     if (tr_bt s \<noteq> [] \<or> take 1 line = [10]) \<and> tr_last s \<noteq> []
     then map_option (\<lambda>s. s\<lparr>tr_bt := []\<rparr>) (store_backtrace s (tr_bt s))
     else Some s }"

definition read_record :: "text_reader \<Rightarrow> cstring \<Rightarrow> sp_rtrace_record \<Rightarrow> text_reader option" where
  "read_record s line rec =
     (case rec of
        Rec_Trace a n \<Rightarrow> Some (if tr_last s = [] then s else s\<lparr>tr_bt := tr_bt s @ [(a, n)]\<rparr>)
      | Rec_Arg a \<Rightarrow> Some (if tr_last s = [] then s else s\<lparr>tr_args := tr_args s @ [a]\<rparr>)
      | _ \<Rightarrow> do {
          s \<leftarrow> end_backtrace s line;
          if take 1 line = [10] then Some s
          else (case rec of
                  Rec_Call c \<Rightarrow> add_call s c
                | _ \<Rightarrow> do { s \<leftarrow> no_backtrace s; add_record s line rec }) })"

definition text_step :: "u32 \<Rightarrow> text_reader \<Rightarrow> cstring \<Rightarrow> text_reader option" where
  "text_step m s line =
     (if take 2 line = str ''# '' then Some s
      else do { rec \<leftarrow> sp_rtrace_parser_parse_record m line; read_record s line rec })"

fun text_loop :: "u32 \<Rightarrow> text_reader \<Rightarrow> cstring list \<Rightarrow> text_reader option" where
  "text_loop m s [] = Some s"
| "text_loop m s (line # ls) = do { s \<leftarrow> text_step m s line; text_loop m s ls }"

text \<open>The calls are ordered by their time, then by their number.\<close>

definition compare_calls :: "sp_rtrace_fcall \<Rightarrow> sp_rtrace_fcall \<Rightarrow> int" where
  "compare_calls c d =
     (if fc_timestamp c = fc_timestamp d then sint (word_of_int (fc_index c - fc_index d) :: u32)
      else sint (fc_timestamp c - fc_timestamp d))"

definition sort_calls :: "rd \<Rightarrow> rheap \<Rightarrow> rd option" where
  "sort_calls rd h =
     (if list_all (\<lambda>c. rh_fcalls h c \<noteq> None) (rd_calls rd)
      then let fc = (\<lambda>c. call_data (the (rh_fcalls h c)))
           in Some (rd\<lparr>rd_calls := msort_cmp (\<lambda>c d. compare_calls (fc c) (fc d)) (rd_calls rd)\<rparr>)
      else None)"

definition text_end :: "text_reader \<Rightarrow> text_reader option" where
  "text_end s = do {
     s \<leftarrow> flush_args s;
     s \<leftarrow> (if tr_last s = [] then Some s else store_backtrace s (tr_bt s));
     rd \<leftarrow> sort_calls (tr_rd s) (tr_heap s);
     Some (s\<lparr>tr_rd := rd\<rparr>) }"

definition text_init :: "sp_rtrace_context \<Rightarrow> rd \<Rightarrow> rheap \<Rightarrow> text_reader" where
  "text_init junk rd h =
     \<lparr>tr_rd = rd, tr_heap = h, tr_last = [], tr_bt = [], tr_args = [], tr_comment = 0, tr_junk = junk\<rparr>"

text \<open>An empty file leaves the trace data as they are.\<close>

definition read_text_data ::
    "u32 \<Rightarrow> (int list \<Rightarrow> int) \<Rightarrow> sp_rtrace_context \<Rightarrow> rd \<Rightarrow> rheap \<Rightarrow> byte list \<Rightarrow> (text_header option \<times> rd \<times> rheap) option" where
  "read_text_data m mktime junk rd h file =
     (case text_lines file of
        [] \<Rightarrow> Some (None, rd, h)
      | line # ls \<Rightarrow> do {
          (header, rd) \<leftarrow> parse_header mktime rd line;
          s \<leftarrow> text_loop m (text_init junk rd h) ls;
          s \<leftarrow> text_end s;
          Some (Some header, tr_rd s, tr_heap s) })"

end
