(* ===== verification/Text_Refine.thy ===== *)
theory Text_Refine
  imports Text_Reader
begin

text \<open>
  The reader of text traces keeps the invariant of the trace data and refines a specification on lists
  of calls.
\<close>

section \<open>Attaching a backtrace to several calls\<close>

text \<open>What linking calls with a backtrace leaves alone.\<close>

abbreviation call_content :: "rd_fcall \<Rightarrow> sp_rtrace_fcall \<times> sp_rtrace_farg list option" where
  "call_content c \<equiv> (call_data c, call_args c)"

abbreviation trace_content :: "rd_ftrace \<Rightarrow> pointer_t list \<times> bool \<times> int" where
  "trace_content r \<equiv> (ft_used r, ft_wf r, bt_hash r)"

lemma store_fcall_trace_frame:
  assumes "store_fcall_trace h r t = Some h'"
  shows "rh_refs h' = rh_refs h \<and> rh_resources h' = rh_resources h \<and> rh_next h' = rh_next h \<and>
    map_option call_content (rh_fcalls h' c) = map_option call_content (rh_fcalls h c) \<and>
    map_option trace_content (rh_ftraces h' u) = map_option trace_content (rh_ftraces h u)"
  using assms by (auto simp: store_fcall_trace_def Option.bind_eq_Some_conv)

lemma store_fcall_traces_frame:
  "store_fcall_traces h xs t = Some h' \<Longrightarrow> rh_refs h' = rh_refs h \<and> rh_resources h' = rh_resources h \<and> rh_next h' = rh_next h \<and>
    map_option call_content (rh_fcalls h' c) = map_option call_content (rh_fcalls h c) \<and>
    map_option trace_content (rh_ftraces h' u) = map_option trace_content (rh_ftraces h u)"
proof (induction xs arbitrary: h)
  case (Cons x xs)
  then obtain h1 where "store_fcall_trace h x t = Some h1" "store_fcall_traces h1 xs t = Some h'"
    by (auto simp: Option.bind_eq_Some_conv)
  with Cons.IH [of h1] store_fcall_trace_frame [of h x t h1 c u] show ?case by simp
qed simp

lemma rd_unique_content:
  assumes "rd_unique rd h" "\<And>u. map_option trace_content (rh_ftraces h' u) = map_option trace_content (rh_ftraces h u)"
  shows "rd_unique rd h'"
proof -
  have "map_option ft_used (rh_ftraces h' u) = map_option ft_used (rh_ftraces h u)" for u
    using arg_cong [OF assms(2) [of u], of "map_option fst"] by (simp add: option.map_comp comp_def)
  moreover have "\<exists>r. rh_ftraces h' u = Some r \<and> ft_wf r \<and> b = nat (bt_hash r)"
    if "\<exists>r. rh_ftraces h u = Some r \<and> ft_wf r \<and> b = nat (bt_hash r)" for u b
    using that assms(2) [of u] by (cases "rh_ftraces h' u") auto
  ultimately show ?thesis using assms(1) by (simp add: rd_unique_def)
qed

lemma set_ftrace_all:
  assumes inv: "rd_inv rd h" "rd_unique rd h" and t: "rh_ftraces h t = Some tr" "new_ftrace tr" "t \<noteq> NULL"
      "\<forall>b. t \<notin> set (a_bucket (rd_ftraces rd) b)"
    and xs: "pending_refs rd h xs" "xs \<noteq> []"
  shows "\<exists>rd' h'. rd_fcalls_set_ftrace rd h xs t = Some (rd', h') \<and> rd_inv rd' h' \<and> rd_unique rd' h' \<and>
    rd' = rd\<lparr>rd_ftraces := rd_ftraces rd'\<rparr> \<and> rh_resources h' = rh_resources h \<and>
    (\<forall>c. map_option call_content (rh_fcalls h' c) = map_option call_content (rh_fcalls h c)) \<and>
    (\<forall>c\<in>set (rd_calls rd). call_frames h' c =
       (if c \<in> (\<lambda>x. the (rh_refs h x)) ` set xs then Some (ft_used tr) else call_frames h c))"
proof -
  obtain x rd1 h1 where i: "intern_ftrace rd h t = Some (x, rd1, h1)" "interned rd h t tr x rd1 h1"
    using intern_ftrace_ok [OF inv t] by blast
  then obtain b r where x: "x \<in> set (a_bucket (rd_ftraces rd1) b)" "rh_ftraces h1 x = Some r" "ft_used r = ft_used tr"
      and inv1: "inv_calls rd1 h1" "inv_traces {x} rd1 h1" "inv_fresh h1" "rd_unique rd1 h1"
      and same: "rd1 = rd\<lparr>rd_ftraces := rd_ftraces rd1\<rparr>" "rh_fcalls h1 = rh_fcalls h" "rh_refs h1 = rh_refs h" "rh_resources h1 = rh_resources h"
      and others: "\<And>b u. u \<in> set (a_bucket (rd_ftraces rd) b) \<Longrightarrow> rh_ftraces h1 u = rh_ftraces h u"
    unfolding interned_def by blast
  have calls: "rd_calls rd1 = rd_calls rd" by (subst same(1)) simp
  have "pending_refs rd1 h1 xs" using xs(1) calls same by (simp add: pending_refs_def)
  note linked = store_fcall_traces_ok [OF inv1(1-3) this x(1,2), unfolded if_not_P [OF xs(2)] Diff_cancel]
  obtain h' tr' where s: "store_fcall_traces h1 xs x = Some h'" "inv_calls rd1 h'" "inv_traces {} rd1 h'" "inv_fresh h'"
      "rh_ftraces h' x = Some tr'" "ft_used tr' = ft_used r"
      "\<forall>y\<in>set xs. \<exists>c call. rh_refs h1 y = Some c \<and> rh_fcalls h' c = Some call \<and> call_trace call = x"
      "\<forall>d. d \<notin> (\<lambda>x. the (rh_refs h1 x)) ` set xs \<longrightarrow> rh_fcalls h' d = rh_fcalls h1 d"
    using linked by (elim exE conjE) (rule that)
  have frame: "rh_resources h' = rh_resources h1" "map_option call_content (rh_fcalls h' c) = map_option call_content (rh_fcalls h1 c)"
      "map_option trace_content (rh_ftraces h' u) = map_option trace_content (rh_ftraces h1 u)" for c u
    using store_fcall_traces_frame [OF s(1), of c u] by blast+
  have uniq: "rd_unique rd1 h'" using inv1(4) frame(3) by (rule rd_unique_content)
  have pend: "call_frames h' c = Some (ft_used tr)" if "c \<in> (\<lambda>x. the (rh_refs h x)) ` set xs" for c
  proof -
    from that obtain y where "y \<in> set xs" "c = the (rh_refs h y)" by blast
    with s(7) same obtain call where "rh_fcalls h' c = Some call" "call_trace call = x" by fastforce
    then show ?thesis using s(5,6) x(3) by (simp add: call_frames_def)
  qed
  have rest: "call_frames h' c = call_frames h c" if c: "c \<in> set (rd_calls rd)" "c \<notin> (\<lambda>x. the (rh_refs h x)) ` set xs" for c
  proof -
    have ic: "inv_calls rd h" "inv_fresh h" using inv(1) by (auto simp: rd_inv_def)
    obtain call where call: "rh_fcalls h c = Some call" "call_ok rd h c call" using inv_callsD [OF ic(1) c(1)] by blast
    have fc: "rh_fcalls h' c = Some call" using s(8) c(2) call(1) same by simp
    show ?thesis
    proof (cases "call_trace call = NULL")
      case True
      then show ?thesis using fc call(1) fresh_next(8) [OF ic(2)] fresh_next(8) [OF s(4)] by (simp add: call_frames_def)
    next
      case False
      then obtain u where u: "u = call_trace call" "rh_ftraces h1 u = rh_ftraces h u" using call(2) others by (auto simp: call_ok_def)
      have "map_option ft_used (rh_ftraces h' u) = map_option ft_used (rh_ftraces h1 u)"
        using arg_cong [OF frame(3) [of u], of "map_option fst"]
        by (simp add: option.map_comp comp_def)
      then show ?thesis using fc call(1) u by (cases "rh_ftraces h u") (auto simp: call_frames_def)
    qed
  qed
  have "rd_fcalls_set_ftrace rd h xs t = Some (rd1, h') \<and> rd_inv rd1 h' \<and> rd_unique rd1 h' \<and>
    rd1 = rd\<lparr>rd_ftraces := rd_ftraces rd1\<rparr> \<and> rh_resources h' = rh_resources h \<and>
    (\<forall>c. map_option call_content (rh_fcalls h' c) = map_option call_content (rh_fcalls h c)) \<and>
    (\<forall>c\<in>set (rd_calls rd). call_frames h' c =
       (if c \<in> (\<lambda>x. the (rh_refs h x)) ` set xs then Some (ft_used tr) else call_frames h c))"
    using i(1) s(1-4) uniq same(1) pend rest frame(1,2) unfolding same(2-4) by (simp add: rd_fcalls_set_ftrace_def rd_inv_def)
  then show ?thesis by blast
qed

section \<open>The specification\<close>

text \<open>
  Calls with their backtrace, calls that wait for it, the frames and arguments read for them, and the other
  records.
\<close>

record atext =
  xt_done :: "acall list"
  xt_open :: "acall list"
  xt_frames :: "pointer_t list"
  xt_args :: "sp_rtrace_farg list"
  xt_resources :: "sp_rtrace_resource list"
  xt_mmaps :: "sp_rtrace_mmap list"
  xt_files :: "sp_rtrace_attachment list"

definition close_calls :: "pointer_t list \<Rightarrow> atext \<Rightarrow> atext" where
  "close_calls fs a = a\<lparr>xt_done := xt_done a @ map (\<lambda>c. c\<lparr>ac_frames := Some fs\<rparr>) (xt_open a), xt_open := []\<rparr>"

definition close_args :: "atext \<Rightarrow> atext" where
  "close_args a =
     (if xt_args a = [] then a
      else a\<lparr>xt_open := update_last (\<lambda>c. c\<lparr>ac_args := Some (xt_args a)\<rparr>) (xt_open a), xt_args := []\<rparr>)"

definition close_frames :: "bool \<Rightarrow> atext \<Rightarrow> atext" where
  "close_frames blank a =
     (let a = close_args a
      in if (xt_frames a \<noteq> [] \<or> blank) \<and> xt_open a \<noteq> [] then (close_calls (xt_frames a) a)\<lparr>xt_frames := []\<rparr> else a)"

definition spec_resource :: "sp_rtrace_resource list \<Rightarrow> res_field \<Rightarrow> sp_rtrace_resource option" where
  "spec_resource rs f =
     (case f of
        RFIELD_NAME w \<Rightarrow> find (\<lambda>r. rs_type r = w) rs
      | _ \<Rightarrow> (case rs of [] \<Rightarrow> None | r # _ \<Rightarrow> Some r))"

fun add_other :: "sp_rtrace_record \<Rightarrow> atext \<Rightarrow> atext" where
  "add_other (Rec_Mmap m) a = a\<lparr>xt_mmaps := xt_mmaps a @ [m]\<rparr>"
| "add_other (Rec_Attachment f) a = a\<lparr>xt_files := xt_files a @ [f]\<rparr>"
| "add_other (Rec_Resource r) a =
     (if find (\<lambda>x. rs_type x = rs_type r) (xt_resources a) = None then a\<lparr>xt_resources := xt_resources a @ [r]\<rparr> else a)"
| "add_other _ a = a"

definition text_add :: "bool \<Rightarrow> sp_rtrace_record \<Rightarrow> atext \<Rightarrow> atext" where
  "text_add blank rec a =
     (case rec of
        Rec_Trace f n \<Rightarrow> if xt_open a = [] then a else a\<lparr>xt_frames := xt_frames a @ [f]\<rparr>
      | Rec_Arg g \<Rightarrow> if xt_open a = [] then a else a\<lparr>xt_args := xt_args a @ [g]\<rparr>
      | _ \<Rightarrow>
          (let a = close_frames blank a
           in if blank then a
              else case rec of
                Rec_Call c \<Rightarrow> a\<lparr>xt_open := xt_open a @ [\<lparr>ac_data = c\<lparr>fc_res_type := RFIELD_UNDEF\<rparr>,
                  ac_resource = spec_resource (xt_resources a) (fc_res_type c), ac_args = None, ac_frames = None\<rparr>]\<rparr>
              | _ \<Rightarrow> add_other rec (if xt_open a = [] then a else close_calls [] a)))"

section \<open>The invariant\<close>

definition waiting :: "text_reader \<Rightarrow> ptr list" where
  "waiting s = map (\<lambda>x. the (rh_refs (tr_heap s) x)) (tr_last s)"

definition text_inv :: "text_reader \<Rightarrow> bool" where
  "text_inv s \<longleftrightarrow> (let rd = tr_rd s; h = tr_heap s in
     rd_inv rd h \<and> rd_unique rd h \<and> pending_refs rd h (tr_last s) \<and>
     (\<exists>cs. rd_calls rd = cs @ waiting s) \<and>
     distinct (rd_resources rd) \<and> set (rd_resources rd) = dom (rh_resources h) \<and>
     (\<forall>c\<in>set (rd_calls rd). call_res_ok h c) \<and> (tr_last s = [] \<longrightarrow> tr_bt s = [] \<and> tr_args s = []))"

definition text_abs :: "text_reader \<Rightarrow> atext" where
  "text_abs s = (let rd = tr_rd s; h = tr_heap s; n = length (rd_calls rd) - length (tr_last s) in
     \<lparr>xt_done = map (call_abs h) (take n (rd_calls rd)), xt_open = map (call_abs h) (drop n (rd_calls rd)),
      xt_frames = map fst (tr_bt s), xt_args = tr_args s,
      xt_resources = map (\<lambda>r. rr_data (the (rh_resources h r))) (rd_resources rd),
      xt_mmaps = rd_mmaps rd, xt_files = rd_files rd\<rparr>)"

text \<open>The same with the waiting calls named.\<close>

lemma text_abs_eq:
  assumes "rd_calls (tr_rd s) = cs @ waiting s"
  shows "text_abs s = \<lparr>xt_done = map (call_abs (tr_heap s)) cs, xt_open = map (call_abs (tr_heap s)) (waiting s),
      xt_frames = map fst (tr_bt s), xt_args = tr_args s,
      xt_resources = map (\<lambda>r. rr_data (the (rh_resources (tr_heap s) r))) (rd_resources (tr_rd s)),
      xt_mmaps = rd_mmaps (tr_rd s), xt_files = rd_files (tr_rd s)\<rparr>"
  using assms by (simp add: text_abs_def Let_def waiting_def)

lemma waiting_empty [simp]: "waiting s = [] \<longleftrightarrow> tr_last s = []"
  by (simp add: waiting_def)

lemma text_invD:
  assumes "text_inv s"
  obtains cs where "rd_inv (tr_rd s) (tr_heap s)" "rd_unique (tr_rd s) (tr_heap s)" "pending_refs (tr_rd s) (tr_heap s) (tr_last s)"
    "rd_calls (tr_rd s) = cs @ waiting s" "distinct (rd_resources (tr_rd s))"
    "set (rd_resources (tr_rd s)) = dom (rh_resources (tr_heap s))" "\<forall>c\<in>set (rd_calls (tr_rd s)). call_res_ok (tr_heap s) c"
    "tr_last s = [] \<longrightarrow> tr_bt s = [] \<and> tr_args s = []" "inv_fresh (tr_heap s)" "inv_calls (tr_rd s) (tr_heap s)"
  using assms by (auto simp: text_inv_def Let_def rd_inv_def)

section \<open>Steps\<close>

definition text_refines :: "text_reader option \<Rightarrow> atext \<Rightarrow> bool" where
  "text_refines r a \<longleftrightarrow> (\<exists>s. r = Some s \<and> text_inv s \<and> text_abs s = a)"

lemma call_abs_content:
  assumes "map_option call_content (rh_fcalls h' c) = map_option call_content (rh_fcalls h c)" "rh_fcalls h c \<noteq> None"
    "rh_resources h' = rh_resources h"
  shows "call_abs h' c = (call_abs h c)\<lparr>ac_frames := call_frames h' c\<rparr>"
  using assms by (auto simp: call_abs_def Let_def)

lemma call_res_ok_content:
  assumes "map_option call_content (rh_fcalls h' c) = map_option call_content (rh_fcalls h c)" "call_res_ok h c"
    "rh_resources h' = rh_resources h"
  shows "call_res_ok h' c"
  using assms by (auto simp: call_res_ok_def)

lemma store_backtrace_refines:
  assumes inv: "text_inv s" and last: "tr_last s \<noteq> []" and small: "length bt < 2 ^ 31"
  shows "\<exists>s'. store_backtrace s bt = Some s' \<and> text_inv (s'\<lparr>tr_bt := [], tr_args := []\<rparr>) \<and> tr_bt s' = tr_bt s \<and> tr_args s' = tr_args s \<and>
    tr_last s' = [] \<and> text_abs s' = close_calls (map fst bt) (text_abs s)"
proof -
  let ?rd = "tr_rd s" and ?h = "tr_heap s"
  let ?t = "rh_next ?h"
  define h1 where "h1 = ?h\<lparr>rh_next := ?t + 1, rh_ftraces := (rh_ftraces ?h)(?t \<mapsto> text_ftrace bt)\<rparr>"
  obtain cs where i: "rd_inv ?rd ?h" "rd_unique ?rd ?h" "pending_refs ?rd ?h (tr_last s)" "rd_calls ?rd = cs @ waiting s"
    "distinct (rd_resources ?rd)" "set (rd_resources ?rd) = dom (rh_resources ?h)" "\<forall>c\<in>set (rd_calls ?rd). call_res_ok ?h c"
    "inv_fresh ?h" "inv_calls ?rd ?h" using inv by (rule text_invD)
  have nf: "unat (of_nat (length bt) :: u64) = length bt" using small by (simp add: unat_of_nat)
  have new: "new_ftrace (text_ftrace bt)" "ft_used (text_ftrace bt) = map fst bt"
    using nf by (simp_all add: new_ftrace_def ft_wf_def ft_used_def text_ftrace_def)
  have inv1: "rd_inv ?rd h1" "rd_unique ?rd h1" "\<forall>b. ?t \<notin> set (a_bucket (rd_ftraces ?rd) b)"
    using inv_add_ftrace [OF i(1,2)] by (auto simp: h1_def)
  have fr: "call_frames h1 c = call_frames ?h c" if "c \<in> set (rd_calls ?rd)" for c
    unfolding h1_def using i(1) that by (rule call_frames_add_ftrace)
  have pend: "pending_refs ?rd h1 (tr_last s)" using i(3) by (simp add: pending_refs_def h1_def)
  have "rh_ftraces h1 ?t = Some (text_ftrace bt)" by (simp add: h1_def)
  from set_ftrace_all [OF inv1(1,2) this new(1) fresh_next(1) [OF i(8)] inv1(3) pend last]
  obtain rd2 h2 where s: "rd_fcalls_set_ftrace ?rd h1 (tr_last s) ?t = Some (rd2, h2)" "rd_inv rd2 h2" "rd_unique rd2 h2"
      "rd2 = ?rd\<lparr>rd_ftraces := rd_ftraces rd2\<rparr>" "rh_resources h2 = rh_resources h1"
      "\<And>c. map_option call_content (rh_fcalls h2 c) = map_option call_content (rh_fcalls h1 c)"
      "\<And>c. c \<in> set (rd_calls ?rd) \<Longrightarrow> call_frames h2 c =
         (if c \<in> set (waiting s) then Some (map fst bt) else call_frames h1 c)"
    unfolding new(2) by (auto simp: waiting_def h1_def)
  obtain tb where rd2: "rd2 = ?rd\<lparr>rd_ftraces := tb\<rparr>" using s(4) by blast
  let ?s = "s\<lparr>tr_rd := rd2, tr_heap := h2, tr_last := []\<rparr>"
  have st: "store_backtrace s bt = Some ?s" using s(1) by (simp add: store_backtrace_def Let_def h1_def)
  have content: "map_option call_content (rh_fcalls h2 c) = map_option call_content (rh_fcalls ?h c)" "rh_resources h2 = rh_resources ?h" for c
    using s(5,6) by (simp_all add: h1_def)
  have abs: "call_abs h2 c = (if c \<in> set (waiting s) then (call_abs ?h c)\<lparr>ac_frames := Some (map fst bt)\<rparr> else call_abs ?h c)"
    if c: "c \<in> set (rd_calls ?rd)" for c
  proof -
    have "rh_fcalls ?h c \<noteq> None" using i(9) c by (auto simp: inv_calls_def)
    from call_abs_content [OF content(1) this content(2)] s(7) [OF c] fr [OF c]
    show ?thesis by (auto simp: call_abs_def Let_def)
  qed
  have disj: "c \<notin> set (waiting s)" if "c \<in> set cs" for c using i(4,9) that by (auto simp: inv_calls_def)
  have none: "waiting ?s = []" by simp
  have w: "rd_calls (tr_rd ?s) = (cs @ waiting s) @ waiting ?s" unfolding none by (simp add: rd2 i(4))
  have "text_abs ?s = close_calls (map fst bt) (text_abs s)"
    unfolding text_abs_eq [OF w] text_abs_eq [OF i(4)] none using i(4) abs disj content(2)
    by (simp add: rd2 close_calls_def)
  moreover have "text_inv (?s\<lparr>tr_bt := [], tr_args := []\<rparr>)"
    using s(2,3) i(5-7) rd2 content call_res_ok_content [OF content(1) _ content(2)]
    by (simp add: text_inv_def Let_def waiting_def pending_refs_def)
  ultimately show ?thesis using st by simp
qed

lemma flush_args_refines:
  assumes inv: "text_inv s"
  shows "\<exists>s'. flush_args s = Some s' \<and> text_inv s' \<and> text_abs s' = close_args (text_abs s) \<and> tr_last s' = tr_last s \<and> tr_bt s' = tr_bt s"
proof (cases "tr_args s = []")
  case True
  then show ?thesis using inv by (simp add: flush_args_def close_args_def text_abs_def Let_def)
next
  case False
  let ?rd = "tr_rd s" and ?h = "tr_heap s"
  obtain cs where i: "rd_inv ?rd ?h" "rd_unique ?rd ?h" "pending_refs ?rd ?h (tr_last s)" "rd_calls ?rd = cs @ waiting s"
    "distinct (rd_resources ?rd)" "set (rd_resources ?rd) = dom (rh_resources ?h)" "\<forall>c\<in>set (rd_calls ?rd). call_res_ok ?h c"
    "tr_last s = [] \<longrightarrow> tr_bt s = [] \<and> tr_args s = []" "inv_fresh ?h" "inv_calls ?rd ?h" using inv by (rule text_invD)
  have last: "tr_last s \<noteq> []" using i(8) False by blast
  then have "last (tr_last s) \<in> set (tr_last s)" by simp
  then obtain c call where c: "rh_refs ?h (last (tr_last s)) = Some c" "rh_fcalls ?h c = Some call" "call_trace call = NULL"
    using i(3) unfolding pending_refs_def by blast
  have cl: "c = last (waiting s)" using c(1) last by (simp add: waiting_def last_map)
  let ?h' = "?h\<lparr>rh_fcalls := (rh_fcalls ?h)(c \<mapsto> call\<lparr>call_args := Some (tr_args s)\<rparr>)\<rparr>"
  let ?s = "s\<lparr>tr_heap := ?h', tr_args := []\<rparr>"
  have st: "flush_args s = Some ?s" using False last c by (simp add: flush_args_def store_call_arguments_def Let_def)
  have wait: "waiting ?s = waiting s" by (simp add: waiting_def)
  have w: "rd_calls (tr_rd ?s) = cs @ waiting ?s" unfolding wait by (simp add: i(4))
  have frames: "call_frames ?h' d = call_frames ?h d" for d using c(2) by (simp add: call_frames_def)
  have dist: "distinct (cs @ waiting s)" using i(4,10) by (simp add: inv_calls_def)
  have ne: "waiting s \<noteq> []" using last by simp
  have "map (call_abs ?h') (waiting s) = update_last (\<lambda>c. c\<lparr>ac_args := Some (tr_args s)\<rparr>) (map (call_abs ?h) (waiting s))"
    using dist ne frames c(2) cl by (intro update_last_map) (auto simp: call_abs_def Let_def)
  moreover have "map (call_abs ?h') cs = map (call_abs ?h) cs"
    using dist ne frames cl by (auto simp: call_abs_def Let_def)
  ultimately have "text_abs ?s = close_args (text_abs s)"
    unfolding text_abs_eq [OF w] text_abs_eq [OF i(4)] wait using False by (simp add: close_args_def)
  moreover have "rd_inv ?rd ?h'" using i(1) c(2) by (rule inv_set_args)
  moreover have "call_res_ok ?h' d" if "call_res_ok ?h d" for d using that c(2) unfolding call_res_ok_def by auto
  moreover have "pending_refs ?rd ?h' (tr_last s)" using i(3) c(2,3) unfolding pending_refs_def by fastforce
  moreover have "rd_unique ?rd ?h'" using i(2) by (simp add: rd_unique_def)
  ultimately have "text_abs ?s = close_args (text_abs s)" "text_inv ?s"
    using i(4-7) last by (auto simp: text_inv_def Let_def wait)
  then show ?thesis using st by simp
qed

lemma end_backtrace_refines:
  assumes "text_inv s" "length (tr_bt s) < 2 ^ 31"
  shows "text_refines (end_backtrace s line) (close_frames (take 1 line = [10]) (text_abs s))"
proof -
  obtain s1 where s1: "flush_args s = Some s1" "text_inv s1" "text_abs s1 = close_args (text_abs s)" "tr_last s1 = tr_last s"
      "tr_bt s1 = tr_bt s" using flush_args_refines [OF assms(1)] by blast
  obtain cs where i: "rd_calls (tr_rd s1) = cs @ waiting s1" "tr_last s1 = [] \<longrightarrow> tr_bt s1 = [] \<and> tr_args s1 = []"
    using s1(2) by (rule text_invD)
  have args: "tr_args s1 = []" using s1(3) by (auto simp: text_abs_def close_args_def Let_def split: if_splits)
  note abs = text_abs_eq [OF i(1)]
  show ?thesis
  proof (cases "(tr_bt s1 \<noteq> [] \<or> take 1 line = [10]) \<and> tr_last s1 \<noteq> []")
    case True
    then obtain s2 where s2: "store_backtrace s1 (tr_bt s1) = Some s2" "text_inv (s2\<lparr>tr_bt := [], tr_args := []\<rparr>)" "tr_args s2 = tr_args s1"
        "text_abs s2 = close_calls (map fst (tr_bt s1)) (text_abs s1)"
      using store_backtrace_refines [OF s1(2), of "tr_bt s1"] assms(2) s1(5) by auto
    have eq: "s2\<lparr>tr_bt := [], tr_args := []\<rparr> = s2\<lparr>tr_bt := []\<rparr>" using s2(3) args by (cases s2) simp
    have "text_abs (s2\<lparr>tr_bt := []\<rparr>) = (text_abs s2)\<lparr>xt_frames := []\<rparr>" by (simp add: text_abs_def Let_def)
    then have "text_abs (s2\<lparr>tr_bt := []\<rparr>) = close_frames (take 1 line = [10]) (text_abs s)"
      using True s2(4) abs by (auto simp: close_frames_def Let_def s1(3) [symmetric])
    then show ?thesis using True s1(1) s2(1,2) unfolding eq text_refines_def end_backtrace_def by auto
  next
    case False
    then have "text_abs s1 = close_frames (take 1 line = [10]) (text_abs s)"
      using abs by (auto simp: close_frames_def Let_def s1(3) [symmetric])
    then show ?thesis using False s1(1,2) unfolding text_refines_def end_backtrace_def by auto
  qed
qed

lemma find_map_type: "find P (map f xs) = map_option f (find (\<lambda>x. P (f x)) xs)"
  by (induction xs) auto

lemma find_in: "find P xs = Some x \<Longrightarrow> x \<in> set xs"
  by (auto simp: find_Some_iff)

lemma seq_find_resource:
  assumes "set rs \<subseteq> dom (rh_resources h)"
  shows "seq_find (compare_resource h w) rs = Some (find (\<lambda>r. rs_type (rr_data (the (rh_resources h r))) = w) rs)"
proof -
  have "\<forall>r\<in>set rs. compare_resource h w r = Some (if rs_type (rr_data (the (rh_resources h r))) = w then 0 else 1)"
  proof
    fix r assume "r \<in> set rs"
    then obtain z where "rh_resources h r = Some z" using assms by blast
    then show "compare_resource h w r = Some (if rs_type (rr_data (the (rh_resources h r))) = w then 0 else 1)"
      by (simp add: compare_resource_def)
  qed
  from seq_find_total [OF this] show ?thesis by (simp add: if_distrib cong: if_cong)
qed

lemma call_resource_refines:
  assumes inv: "text_inv s"
  shows "\<exists>p. call_resource s f = Some (RFIELD_REF p) \<and> (p = NULL \<or> rh_resources (tr_heap s) p \<noteq> None) \<and>
    map_option rr_data (rh_resources (tr_heap s) p) = spec_resource (xt_resources (text_abs s)) f"
proof -
  let ?h = "tr_heap s" and ?rs = "rd_resources (tr_rd s)"
  have rs: "set ?rs = dom (rh_resources ?h)" and null: "rh_resources ?h NULL = None"
    using inv by (auto simp: text_inv_def Let_def rd_inv_def fresh_next)
  have xr: "xt_resources (text_abs s) = map (\<lambda>r. rr_data (the (rh_resources ?h r))) ?rs" by (simp add: text_abs_def Let_def)
  have some: "rh_resources ?h r \<noteq> None" if "r \<in> set ?rs" for r using that rs by auto
  have first: ?thesis if "\<forall>w. f \<noteq> RFIELD_NAME w"
  proof -
    have "call_resource s f = Some (RFIELD_REF (case ?rs of [] \<Rightarrow> NULL | r # rs \<Rightarrow> r))"
      "spec_resource (xt_resources (text_abs s)) f = (case xt_resources (text_abs s) of [] \<Rightarrow> None | r # _ \<Rightarrow> Some r)"
      using that by (auto simp: call_resource_def spec_resource_def split: res_field.split)
    then show ?thesis using null some xr by (cases ?rs) fastforce+
  qed
  show ?thesis
  proof (cases f)
    case (RFIELD_NAME w)
    let ?r = "find (\<lambda>r. rs_type (rr_data (the (rh_resources ?h r))) = w) ?rs"
    have "call_resource s f = Some (RFIELD_REF (case ?r of None \<Rightarrow> NULL | Some r \<Rightarrow> r))"
      using seq_find_resource [of ?rs ?h w] rs by (simp add: call_resource_def RFIELD_NAME)
    moreover have "spec_resource (xt_resources (text_abs s)) f = map_option (\<lambda>r. rr_data (the (rh_resources ?h r))) ?r"
      by (simp add: spec_resource_def RFIELD_NAME xr find_map_type)
    ultimately show ?thesis using null some find_in by (cases ?r) fastforce+
  qed (use first in simp_all)
qed

lemma inv_add_ref:
  assumes "rd_inv rd h"
  shows "rd_inv rd (h\<lparr>rh_next := rh_next h + 1, rh_refs := (rh_refs h)(rh_next h \<mapsto> c)\<rparr>)" (is "rd_inv rd ?h")
proof -
  let ?r = "rh_next h"
  have f: "inv_fresh h" "inv_calls rd h" "inv_traces {} rd h" using assms by (auto simp: rd_inv_def)
  have r: "rh_refs h ?r = None" using fresh_next [OF f(1)] by auto
  have "inv_calls rd ?h" using f(2) r unfolding inv_calls_def call_ok_def by fastforce
  moreover have "ref_ok rd ?h t y" if "ref_ok rd h t y" for t y using that r unfolding ref_ok_def by auto
  then have "inv_traces {} rd ?h" using f(3) unfolding inv_traces_def trace_ok_def by fastforce
  moreover have "inv_fresh ?h" using f(1) by (auto simp: inv_fresh_def)
  ultimately show ?thesis by (simp add: rd_inv_def)
qed

lemma add_call_refines:
  assumes inv: "text_inv s"
  shows "text_refines (add_call s fc) ((text_abs s)\<lparr>xt_open := xt_open (text_abs s) @ [\<lparr>ac_data = fc\<lparr>fc_res_type := RFIELD_UNDEF\<rparr>,
    ac_resource = spec_resource (xt_resources (text_abs s)) (fc_res_type fc), ac_args = None, ac_frames = None\<rparr>]\<rparr>)"
proof -
  let ?rd = "tr_rd s" and ?h = "tr_heap s"
  let ?c = "rh_next ?h"
  obtain cs where i: "rd_inv ?rd ?h" "rd_unique ?rd ?h" "pending_refs ?rd ?h (tr_last s)" "rd_calls ?rd = cs @ waiting s"
    "distinct (rd_resources ?rd)" "set (rd_resources ?rd) = dom (rh_resources ?h)" "\<forall>c\<in>set (rd_calls ?rd). call_res_ok ?h c"
    "inv_fresh ?h" "inv_calls ?rd ?h" using inv by (rule text_invD)
  note fr = fresh_next [OF i(8)]
  obtain p where p: "call_resource s (fc_res_type fc) = Some (RFIELD_REF p)" "p = NULL \<or> rh_resources ?h p \<noteq> None"
    "map_option rr_data (rh_resources ?h p) = spec_resource (xt_resources (text_abs s)) (fc_res_type fc)"
    using call_resource_refines [OF inv] by blast
  define call where "call = \<lparr>call_data = fc\<lparr>fc_res_type := RFIELD_REF p\<rparr>, call_trace = NULL, call_ref = NULL, call_args = None\<rparr>"
  define h' where "h' = ?h\<lparr>rh_next := ?c + 2, rh_fcalls := (rh_fcalls ?h)(?c \<mapsto> call), rh_refs := (rh_refs ?h)(?c + 1 \<mapsto> ?c)\<rparr>"
  let ?rd' = "?rd\<lparr>rd_calls := rd_calls ?rd @ [?c]\<rparr>"
  let ?s = "s\<lparr>tr_rd := ?rd', tr_heap := h', tr_last := tr_last s @ [?c + 1], tr_comment := fc_index fc\<rparr>"
  have st: "add_call s fc = Some ?s" using p(1) by (simp add: add_call_def Let_def h'_def call_def)
  have nc: "?c \<notin> set (rd_calls ?rd)" using i(9) fr(2) by (auto simp: inv_calls_def)
  have next1: "rh_refs ?h (?c + 1) = None" using i(8) by (auto simp: inv_fresh_def)
  have inv': "rd_inv ?rd' h'"
  proof -
    let ?g = "?h\<lparr>rh_next := ?c + 1, rh_fcalls := (rh_fcalls ?h)(?c \<mapsto> call)\<rparr>"
    have "h' = ?g\<lparr>rh_next := rh_next ?g + 1, rh_refs := (rh_refs ?g)(rh_next ?g \<mapsto> ?c)\<rparr>" by (cases ?h) (simp add: h'_def)
    then show ?thesis using inv_add_ref [OF inv_add_call [OF i(1), of call], of ?c] by (simp only: call_def rd_fcall.simps)
  qed
  have fc: "rh_fcalls h' d = rh_fcalls ?h d" "call_frames h' d = call_frames ?h d" if "d \<in> set (rd_calls ?rd)" for d
    using that nc by (auto simp: h'_def call_frames_def)
  have last: "x \<noteq> ?c + 1" if "x \<in> set (tr_last s)" for x using that i(3) next1 by (auto simp: pending_refs_def)
  have wait: "waiting ?s = waiting s @ [?c]" using last by (simp add: waiting_def h'_def cong: map_cong)
  have w: "rd_calls (tr_rd ?s) = cs @ waiting ?s" unfolding wait by (simp add: i(4))
  have abs: "call_abs h' d = call_abs ?h d" if "d \<in> set (rd_calls ?rd)" for d
    using fc [OF that] by (simp add: call_abs_def h'_def)
  have "rh_ftraces h' NULL = None" using fr by (simp add: h'_def)
  then have new: "call_abs h' ?c = \<lparr>ac_data = fc\<lparr>fc_res_type := RFIELD_UNDEF\<rparr>,
      ac_resource = spec_resource (xt_resources (text_abs s)) (fc_res_type fc), ac_args = None, ac_frames = None\<rparr>"
    using p(3) by (simp add: call_abs_def call_frames_def h'_def call_def)
  have res: "rh_resources h' = rh_resources ?h" by (simp add: h'_def)
  have a: "text_abs ?s = (text_abs s)\<lparr>xt_open := xt_open (text_abs s) @ [call_abs h' ?c]\<rparr>"
    unfolding text_abs_eq [OF w] text_abs_eq [OF i(4)] wait using abs i(4) by (simp add: res)
  have pend: "pending_refs ?rd' h' (tr_last s @ [?c + 1])"
  proof -
    have "map (\<lambda>x. the (rh_refs h' x)) (tr_last s @ [?c + 1]) = waiting s @ [?c]" using wait by (simp add: waiting_def)
    moreover have "distinct (waiting s @ [?c])" using i(4,9) nc by (simp add: inv_calls_def)
    moreover have "\<exists>d call. rh_refs h' x = Some d \<and> d \<in> set (rd_calls ?rd') \<and> rh_fcalls h' d = Some call \<and> call_trace call = NULL"
      if x: "x \<in> set (tr_last s)" for x
    proof -
      obtain d dc where d: "rh_refs ?h x = Some d" "d \<in> set (rd_calls ?rd)" "rh_fcalls ?h d = Some dc" "call_trace dc = NULL"
        using i(3) x unfolding pending_refs_def by blast
      then show ?thesis using fc(1) [OF d(2)] last [OF x] by (simp add: h'_def)
    qed
    moreover have "rh_refs h' (?c + 1) = Some ?c" "rh_fcalls h' ?c = Some call" "call_trace call = NULL" by (simp_all add: h'_def call_def)
    ultimately show ?thesis using i(3) unfolding pending_refs_def by auto
  qed
  have "call_res_ok h' d" if "d \<in> set (rd_calls ?rd')" for d
    using that i(7) fc(1) p(2) res by (cases "d = ?c") (auto simp: call_res_ok_def h'_def call_def)
  moreover have "rd_unique ?rd' h'" using i(2) by (simp add: rd_unique_def h'_def)
  ultimately have "text_inv ?s" using inv' pend i(5,6) w res by (auto simp: text_inv_def Let_def)
  then show ?thesis unfolding text_refines_def new [symmetric] using st a by blast
qed

lemma add_resource_refines:
  assumes inv: "text_inv s" and last: "tr_last s = []"
  shows "text_refines (add_resource s res) (add_other (Rec_Resource res) (text_abs s))"
proof -
  let ?rd = "tr_rd s" and ?h = "tr_heap s"
  let ?r = "rh_next ?h"
  let ?old = "find (\<lambda>r. rs_type (rr_data (the (rh_resources ?h r))) = rs_type res) (rd_resources ?rd)"
  obtain cs where i: "rd_inv ?rd ?h" "rd_unique ?rd ?h" "pending_refs ?rd ?h (tr_last s)" "rd_calls ?rd = cs @ waiting s"
    "distinct (rd_resources ?rd)" "set (rd_resources ?rd) = dom (rh_resources ?h)" "\<forall>c\<in>set (rd_calls ?rd). call_res_ok ?h c"
    "tr_last s = [] \<longrightarrow> tr_bt s = [] \<and> tr_args s = []" "inv_fresh ?h" using inv by (rule text_invD)
  note fr = fresh_next [OF i(9)]
  have old: "find (\<lambda>x. rs_type x = rs_type res) (xt_resources (text_abs s)) = None \<longleftrightarrow> ?old = None"
    by (simp add: text_abs_def Let_def find_map_type)
  have sq: "seq_find (compare_resource ?h (rs_type res)) (rd_resources ?rd) = Some ?old"
    using i(6) by (intro seq_find_resource) simp
  show ?thesis
  proof (cases ?old)
    case (Some x)
    then have "find (\<lambda>x. rs_type x = rs_type res) (xt_resources (text_abs s)) \<noteq> None" using old by simp
    then show ?thesis using Some inv sq by (auto simp: add_resource_def Let_def text_refines_def)
  next
    case None
    let ?h' = "?h\<lparr>rh_next := ?r + 1, rh_resources := (rh_resources ?h)(?r \<mapsto> \<lparr>rr_data = res, rr_hide = False\<rparr>)\<rparr>"
    let ?s = "s\<lparr>tr_rd := ?rd\<lparr>rd_resources := rd_resources ?rd @ [?r]\<rparr>, tr_heap := ?h'\<rparr>"
    have st: "add_resource s res = Some ?s" using sq None by (simp add: add_resource_def Let_def)
    have nr: "?r \<notin> set (rd_resources ?rd)" using i(6) fr by auto
    have wait: "waiting ?s = waiting s" by (simp add: waiting_def)
    have w: "rd_calls (tr_rd ?s) = cs @ waiting ?s" unfolding wait by (simp add: i(4))
    have ca: "call_abs ?h' c = call_abs ?h c \<and> call_res_ok ?h' c" if c: "c \<in> set (rd_calls ?rd)" for c
    proof -
      obtain call q where q: "rh_fcalls ?h c = Some call" "fc_res_type (call_data call) = RFIELD_REF q"
          "q = NULL \<or> rh_resources ?h q \<noteq> None" using i(7) c by (auto simp: call_res_ok_def)
      then have "q \<noteq> ?r" using fr by auto
      then show ?thesis using q by (auto simp: call_abs_def Let_def call_res_ok_def)
    qed
    have "text_abs ?s = (text_abs s)\<lparr>xt_resources := xt_resources (text_abs s) @ [res]\<rparr>"
      unfolding text_abs_eq [OF w] text_abs_eq [OF i(4)] wait using ca i(4) nr by (auto cong: map_cong)
    then have a: "text_abs ?s = add_other (Rec_Resource res) (text_abs s)" using None old by simp
    have "rd_unique (?rd\<lparr>rd_resources := rd_resources ?rd @ [?r]\<rparr>) ?h'" using i(2) by (simp add: rd_unique_def)
    moreover have "pending_refs (?rd\<lparr>rd_resources := rd_resources ?rd @ [?r]\<rparr>) ?h' (tr_last s)" by (simp add: last pending_refs_def)
    ultimately have "text_inv ?s"
      using inv_add_resource [OF i(1)] i(4-6,8) ca nr wait by (auto simp: text_inv_def Let_def)
    then show ?thesis unfolding text_refines_def using st a by blast
  qed
qed

lemma no_backtrace_refines:
  assumes inv: "text_inv s" and bt: "tr_bt s = []" "tr_args s = []"
  shows "\<exists>s'. no_backtrace s = Some s' \<and> text_inv s' \<and> tr_last s' = [] \<and> tr_bt s' = [] \<and> tr_args s' = [] \<and>
    text_abs s' = (if xt_open (text_abs s) = [] then text_abs s else close_calls [] (text_abs s))"
proof -
  obtain cs where i: "pending_refs (tr_rd s) (tr_heap s) (tr_last s)" "rd_calls (tr_rd s) = cs @ waiting s" using inv by (rule text_invD)
  have op: "xt_open (text_abs s) = [] \<longleftrightarrow> tr_last s = []" unfolding text_abs_eq [OF i(2)] by simp
  show ?thesis
  proof (cases "tr_last s")
    case Nil
    then show ?thesis using inv bt op by (simp add: no_backtrace_def)
  next
    case (Cons r rs)
    then obtain c call where c: "rh_refs (tr_heap s) r = Some c" "rh_fcalls (tr_heap s) c = Some call" "call_trace call = NULL"
      using i(1) by (auto simp: pending_refs_def)
    obtain s' where s': "store_backtrace s [] = Some s'" "text_inv (s'\<lparr>tr_bt := [], tr_args := []\<rparr>)" "tr_bt s' = []" "tr_args s' = []"
        "tr_last s' = []" "text_abs s' = close_calls [] (text_abs s)"
      using store_backtrace_refines [OF inv, of "[]"] Cons bt by auto
    have "s'\<lparr>tr_bt := [], tr_args := []\<rparr> = s'" using s'(3,4) by (cases s') simp
    then have "text_inv s'" using s'(2) by simp
    then show ?thesis using s' c Cons op by (simp add: no_backtrace_def)
  qed
qed

lemma text_inv_other:
  assumes "text_inv s"
  shows "text_inv (s\<lparr>tr_rd := (tr_rd s)\<lparr>rd_mmaps := a\<rparr>\<rparr>)" "text_inv (s\<lparr>tr_rd := (tr_rd s)\<lparr>rd_contexts := b\<rparr>\<rparr>)"
    "text_inv (s\<lparr>tr_rd := (tr_rd s)\<lparr>rd_files := e\<rparr>\<rparr>)" "text_inv (s\<lparr>tr_rd := (tr_rd s)\<lparr>rd_comments := f\<rparr>\<rparr>)"
  using assms by (simp_all add: text_inv_def Let_def rd_inv_def waiting_def pending_refs_def inv_calls_def inv_traces_def call_ok_def
      trace_ok_def ref_ok_def rd_unique_def)

lemma add_record_refines:
  assumes "text_inv s" "tr_last s = []" "\<And>c. rec \<noteq> Rec_Call c"
  shows "text_refines (add_record s line rec) (add_other rec (text_abs s))"
  using assms add_resource_refines [OF assms(1,2)] text_inv_other [OF assms(1)]
  by (cases rec) (auto simp: add_record_def text_refines_def text_abs_def Let_def)

theorem read_record_refines:
  assumes inv: "text_inv s" and small: "length (tr_bt s) < 2 ^ 31"
  shows "text_refines (read_record s line rec) (text_add (take 1 line = [10]) rec (text_abs s))"
proof -
  obtain s1 where s1: "end_backtrace s line = Some s1" "text_inv s1" "text_abs s1 = close_frames (take 1 line = [10]) (text_abs s)"
    using end_backtrace_refines [OF assms] by (auto simp: text_refines_def)
  obtain cs where i: "rd_calls (tr_rd s) = cs @ waiting s" using inv by (rule text_invD)
  have op: "xt_open (text_abs s) = [] \<longleftrightarrow> tr_last s = []" unfolding text_abs_eq [OF i] by simp
  show ?thesis
  proof (cases "(\<exists>f n. rec = Rec_Trace f n) \<or> (\<exists>g. rec = Rec_Arg g)")
    case True
    then show ?thesis using inv op
      by (auto simp: read_record_def text_add_def text_refines_def text_inv_def text_abs_def Let_def waiting_def)
  next
    case False
    have rr: "read_record s line rec =
        (if take 1 line = [10] then Some s1
         else case rec of Rec_Call c \<Rightarrow> add_call s1 c | _ \<Rightarrow> do { s \<leftarrow> no_backtrace s1; add_record s line rec })"
      using False unfolding read_record_def s1(1) by (cases rec) auto
    have ta: "text_add (take 1 line = [10]) rec (text_abs s) =
        (if take 1 line = [10] then text_abs s1
         else case rec of
           Rec_Call c \<Rightarrow> (text_abs s1)\<lparr>xt_open := xt_open (text_abs s1) @ [\<lparr>ac_data = c\<lparr>fc_res_type := RFIELD_UNDEF\<rparr>,
             ac_resource = spec_resource (xt_resources (text_abs s1)) (fc_res_type c), ac_args = None, ac_frames = None\<rparr>]\<rparr>
         | _ \<Rightarrow> add_other rec (if xt_open (text_abs s1) = [] then text_abs s1 else close_calls [] (text_abs s1)))"
      using False unfolding text_add_def s1(3) Let_def by (cases rec) auto
    show ?thesis
    proof (cases "take 1 line = [10]")
      case True
      then show ?thesis using rr ta s1(2) by (simp add: text_refines_def)
    next
      case blank: False
      show ?thesis
      proof (cases "\<exists>c. rec = Rec_Call c")
        case True
        then show ?thesis using blank rr ta add_call_refines [OF s1(2)] by auto
      next
        case other: False
        have bt: "tr_bt s1 = []" "tr_args s1 = []"
        proof -
          have "xt_args (text_abs s1) = []" "xt_frames (text_abs s1) = [] \<or> xt_open (text_abs s1) = []"
            using s1(3) by (auto simp: close_frames_def close_args_def close_calls_def Let_def)
          then show "tr_bt s1 = []" "tr_args s1 = []"
            using s1(2) by (auto simp: text_abs_def Let_def text_inv_def waiting_def)
        qed
        obtain s2 where s2: "no_backtrace s1 = Some s2" "text_inv s2" "tr_last s2 = []"
            "text_abs s2 = (if xt_open (text_abs s1) = [] then text_abs s1 else close_calls [] (text_abs s1))"
          using no_backtrace_refines [OF s1(2) bt] by blast
        have "read_record s line rec = add_record s2 line rec" using rr blank other s2(1) by (cases rec) auto
        moreover have "text_add (take 1 line = [10]) rec (text_abs s) = add_other rec (text_abs s2)"
          using ta blank other s2(4) by (cases rec) auto
        ultimately show ?thesis using add_record_refines [OF s2(2,3), of rec line] other by auto
      qed
    qed
  qed
qed

section \<open>The whole file\<close>

definition line_add :: "u32 \<Rightarrow> cstring \<Rightarrow> atext \<Rightarrow> atext" where
  "line_add m line a =
     (if take 2 line = str ''# '' then a
      else case sp_rtrace_parser_parse_record m line of None \<Rightarrow> a | Some rec \<Rightarrow> text_add (take 1 line = [10]) rec a)"

text \<open>A line that fits into the buffers of the parser.\<close>

definition line_ok :: "u32 \<Rightarrow> cstring \<Rightarrow> bool" where
  "line_ok m line \<longleftrightarrow> take 2 line = str ''# '' \<or> sp_rtrace_parser_parse_record m line \<noteq> None"

lemma line_add_frames: "length (xt_frames (line_add m line a)) \<le> Suc (length (xt_frames a))"
proof -
  have o: "xt_frames (add_other r b) = xt_frames b" for r b by (cases "(r, b)" rule: add_other.cases) auto
  have "length (xt_frames (close_frames bl a)) \<le> length (xt_frames a)" for bl
    by (simp add: close_frames_def close_args_def Let_def)
  moreover have "xt_frames (close_calls fs b) = xt_frames b" for fs b by (simp add: close_calls_def)
  ultimately show ?thesis
    by (auto simp: line_add_def text_add_def Let_def o le_Suc_eq split: option.split sp_rtrace_record.split)
qed

lemma length_frames: "length (xt_frames (text_abs s)) = length (tr_bt s)"
  by (simp add: text_abs_def Let_def)

theorem text_loop_refines:
  "text_inv s \<Longrightarrow> list_all (line_ok m) ls \<Longrightarrow> length (tr_bt s) + length ls \<le> 2 ^ 31 \<Longrightarrow>
     text_refines (text_loop m s ls) (fold (line_add m) ls (text_abs s))"
proof (induction ls arbitrary: s)
  case (Cons line ls)
  have "text_refines (text_step m s line) (line_add m line (text_abs s))"
    using Cons.prems read_record_refines [OF Cons.prems(1)]
    by (auto simp: text_step_def line_add_def line_ok_def text_refines_def split: option.split)
  then obtain s1 where s1: "text_step m s line = Some s1" "text_inv s1" "text_abs s1 = line_add m line (text_abs s)"
    by (auto simp: text_refines_def)
  have "length (tr_bt s1) \<le> Suc (length (tr_bt s))"
    using line_add_frames [of m line "text_abs s"] by (simp add: length_frames flip: s1(3))
  with Cons.IH [OF s1(2)] Cons.prems s1(1,3) show ?case by simp
qed (simp add: text_refines_def)

text \<open>The calls at the end of the file, ordered by time.\<close>

definition call_order :: "acall \<Rightarrow> acall \<Rightarrow> int" where
  "call_order c d = compare_calls (ac_data c) (ac_data d)"

definition text_calls :: "atext \<Rightarrow> acall list" where
  "text_calls a = (let a = close_args a in msort_cmp call_order (xt_done (close_calls (xt_frames a) a)))"

lemma merge_cmp_map: "merge_cmp cmp (map f xs) (map f ys) = map f (merge_cmp (\<lambda>a b. cmp (f a) (f b)) xs ys)"
  by (induction "\<lambda>a b. cmp (f a) (f b)" xs ys rule: merge_cmp.induct) auto

lemma msort_cmp_map: "msort_cmp cmp (map f xs) = map f (msort_cmp (\<lambda>a b. cmp (f a) (f b)) xs)"
proof (induction "\<lambda>a b. cmp (f a) (f b)" xs rule: msort_cmp.induct)
  case (1 xs)
  then show ?case
    by (subst (1 2) msort_cmp.simps) (simp add: Let_def merge_cmp_map take_map drop_map)
qed

lemma sort_calls_ok:
  assumes "rd_inv rd h" "rd_unique rd h"
  shows "\<exists>rd'. sort_calls rd h = Some rd' \<and> rd_inv rd' h \<and> rd_unique rd' h \<and> rd' = rd\<lparr>rd_calls := rd_calls rd'\<rparr> \<and>
    set (rd_calls rd') = set (rd_calls rd) \<and> map (call_abs h) (rd_calls rd') = msort_cmp call_order (map (call_abs h) (rd_calls rd))"
proof -
  let ?fc = "\<lambda>c. call_data (the (rh_fcalls h c))"
  let ?cs = "msort_cmp (\<lambda>c d. compare_calls (?fc c) (?fc d)) (rd_calls rd)"
  let ?rd = "rd\<lparr>rd_calls := ?cs\<rparr>"
  have "list_all (\<lambda>c. rh_fcalls h c \<noteq> None) (rd_calls rd)" using assms(1) by (auto simp: rd_inv_def inv_calls_def list_all_iff)
  then have st: "sort_calls rd h = Some ?rd" by (simp add: sort_calls_def Let_def)
  have "rd_inv ?rd h" using assms(1)
    by (simp add: rd_inv_def inv_calls_def inv_traces_def call_ok_def trace_ok_def ref_ok_def)
  moreover have "rd_unique ?rd h" using assms(2) by (simp add: rd_unique_def)
  moreover have "compare_calls (?fc c) (?fc d) = call_order (call_abs h c) (call_abs h d)" for c d
    by (simp add: call_order_def compare_calls_def call_abs_def Let_def)
  then have "map (call_abs h) ?cs = msort_cmp call_order (map (call_abs h) (rd_calls rd))" by (simp add: msort_cmp_map)
  ultimately have "sort_calls rd h = Some ?rd \<and> rd_inv ?rd h \<and> rd_unique ?rd h \<and> ?rd = rd\<lparr>rd_calls := rd_calls ?rd\<rparr> \<and>
      set (rd_calls ?rd) = set (rd_calls rd) \<and> map (call_abs h) (rd_calls ?rd) = msort_cmp call_order (map (call_abs h) (rd_calls rd))"
    using st by simp
  then show ?thesis by blast
qed

text \<open>The records of the trace data that do not belong to calls.\<close>

definition same_records :: "atext \<Rightarrow> rd \<Rightarrow> rheap \<Rightarrow> bool" where
  "same_records a rd h \<longleftrightarrow> rd_mmaps rd = xt_mmaps a \<and> rd_files rd = xt_files a \<and>
     map (\<lambda>r. rr_data (the (rh_resources h r))) (rd_resources rd) = xt_resources a"

theorem text_end_refines:
  assumes inv: "text_inv s" and small: "length (tr_bt s) < 2 ^ 31"
  shows "\<exists>s'. text_end s = Some s' \<and> rd_inv (tr_rd s') (tr_heap s') \<and> rd_unique (tr_rd s') (tr_heap s') \<and>
    map (call_abs (tr_heap s')) (rd_calls (tr_rd s')) = text_calls (text_abs s) \<and> same_records (text_abs s) (tr_rd s') (tr_heap s')"
proof -
  obtain s1 where s1: "flush_args s = Some s1" "text_inv s1" "text_abs s1 = close_args (text_abs s)" "tr_last s1 = tr_last s"
      "tr_bt s1 = tr_bt s" using flush_args_refines [OF inv] by blast
  obtain cs where i: "rd_calls (tr_rd s1) = cs @ waiting s1" "tr_last s1 = [] \<longrightarrow> tr_bt s1 = [] \<and> tr_args s1 = []"
    using s1(2) by (rule text_invD)
  have "\<exists>s2. (if tr_last s1 = [] then Some s1 else store_backtrace s1 (tr_bt s1)) = Some s2 \<and> text_inv (s2\<lparr>tr_bt := [], tr_args := []\<rparr>) \<and>
      tr_last s2 = [] \<and> text_abs s2 = close_calls (xt_frames (text_abs s1)) (text_abs s1)"
  proof (cases "tr_last s1 = []")
    case True
    then have "s1\<lparr>tr_bt := [], tr_args := []\<rparr> = s1" using i(2) by (cases s1) simp
    then show ?thesis using True s1(2) by (simp add: text_abs_def Let_def close_calls_def)
  next
    case False
    then show ?thesis using store_backtrace_refines [OF s1(2), of "tr_bt s1"] small s1(5) by (auto simp: text_abs_def Let_def)
  qed
  then obtain s2 where s2: "(if tr_last s1 = [] then Some s1 else store_backtrace s1 (tr_bt s1)) = Some s2"
      "text_inv (s2\<lparr>tr_bt := [], tr_args := []\<rparr>)" "tr_last s2 = []" "text_abs s2 = close_calls (xt_frames (text_abs s1)) (text_abs s1)"
    by blast
  have inv2: "rd_inv (tr_rd s2) (tr_heap s2)" "rd_unique (tr_rd s2) (tr_heap s2)"
    using s2(2) by (auto simp: text_inv_def Let_def)
  obtain rd where rd: "sort_calls (tr_rd s2) (tr_heap s2) = Some rd" "rd_inv rd (tr_heap s2)" "rd_unique rd (tr_heap s2)"
      "rd = (tr_rd s2)\<lparr>rd_calls := rd_calls rd\<rparr>"
      "map (call_abs (tr_heap s2)) (rd_calls rd) = msort_cmp call_order (map (call_abs (tr_heap s2)) (rd_calls (tr_rd s2)))"
    using sort_calls_ok [OF inv2] by blast
  have "map (call_abs (tr_heap s2)) (rd_calls (tr_rd s2)) = xt_done (text_abs s2)" using s2(3) by (simp add: text_abs_def Let_def)
  then have calls: "map (call_abs (tr_heap s2)) (rd_calls rd) = text_calls (text_abs s)"
    using rd(5) s2(4) s1(3) by (simp add: text_calls_def Let_def)
  obtain cs' where "rd = (tr_rd s2)\<lparr>rd_calls := cs'\<rparr>" using rd(4) by blast
  then have "rd_mmaps rd = xt_mmaps (text_abs s2) \<and> rd_files rd = xt_files (text_abs s2) \<and>
      map (\<lambda>r. rr_data (the (rh_resources (tr_heap s2) r))) (rd_resources rd) = xt_resources (text_abs s2)"
    by (simp add: text_abs_def Let_def)
  then have same: "same_records (text_abs s) rd (tr_heap s2)"
    using s2(4) s1(3) by (simp add: same_records_def close_calls_def close_args_def)
  have "text_end s = Some (s2\<lparr>tr_rd := rd\<rparr>)" using s1(1) s2(1) rd(1) by (simp add: text_end_def)
  then show ?thesis using rd(2,3) calls same by simp
qed

definition empty_text :: atext where
  "empty_text = \<lparr>xt_done = [], xt_open = [], xt_frames = [], xt_args = [], xt_resources = [], xt_mmaps = [], xt_files = []\<rparr>"

lemma text_init_ok:
  "text_inv (text_init junk (rd_create\<lparr>rd_filter := f\<rparr>) rheap_init)" "text_abs (text_init junk (rd_create\<lparr>rd_filter := f\<rparr>) rheap_init) = empty_text"
proof -
  have "rd_inv (rd_create\<lparr>rd_filter := f\<rparr>) rheap_init" using rd_create_inv
    by (simp add: rd_inv_def inv_calls_def inv_traces_def call_ok_def trace_ok_def ref_ok_def)
  moreover have "rd_unique (rd_create\<lparr>rd_filter := f\<rparr>) rheap_init" using rd_create_unique by (simp add: rd_unique_def)
  ultimately show "text_inv (text_init junk (rd_create\<lparr>rd_filter := f\<rparr>) rheap_init)"
    by (simp add: text_inv_def Let_def text_init_def waiting_def pending_refs_def rd_create_def rheap_init_def)
  show "text_abs (text_init junk (rd_create\<lparr>rd_filter := f\<rparr>) rheap_init) = empty_text"
    by (simp add: text_abs_def Let_def text_init_def empty_text_def rd_create_def)
qed

theorem read_text_refines:
  assumes "text_lines file = line # ls" "parse_header mktime rd_create line = Some (header, rd)" "list_all (line_ok m) ls"
    "length ls < 2 ^ 31"
  shows "\<exists>rd' h'. read_text_data m mktime junk rd_create rheap_init file = Some (Some header, rd', h') \<and> rd_inv rd' h' \<and> rd_unique rd' h' \<and>
    map (call_abs h') (rd_calls rd') = text_calls (fold (line_add m) ls empty_text) \<and>
    same_records (fold (line_add m) ls empty_text) rd' h'"
proof -
  obtain f where rd: "rd = rd_create\<lparr>rd_filter := f\<rparr>"
  proof
    show "rd = rd_create\<lparr>rd_filter := rd_filter rd\<rparr>"
      using assms(2) by (auto simp: parse_header_def Option.bind_eq_Some_conv split: option.splits)
  qed
  let ?s = "text_init junk rd rheap_init"
  have bt: "tr_bt ?s = []" by (simp add: text_init_def)
  obtain s where s: "text_loop m ?s ls = Some s" "text_inv s" "text_abs s = fold (line_add m) ls empty_text"
    using text_loop_refines [of ?s m ls] text_init_ok [of junk f] assms(3,4) bt by (auto simp: text_refines_def rd)
  have "length (xt_frames (fold (line_add m) ls a)) \<le> length ls + length (xt_frames a)" for a
  proof (induction ls arbitrary: a)
    case (Cons l ls)
    then show ?case using line_add_frames [of m l a] by (simp add: le_trans [OF Cons.IH])
  qed simp
  from this [of empty_text] have "length (tr_bt s) \<le> length ls"
    unfolding s(3) [symmetric] length_frames by (simp add: empty_text_def)
  then have "length (tr_bt s) < 2 ^ 31" using assms(4) by simp
  from text_end_refines [OF s(2) this] obtain s' where "text_end s = Some s'" "rd_inv (tr_rd s') (tr_heap s')" "rd_unique (tr_rd s') (tr_heap s')"
    "map (call_abs (tr_heap s')) (rd_calls (tr_rd s')) = text_calls (text_abs s)" "same_records (text_abs s) (tr_rd s') (tr_heap s')"
    by blast
  then show ?thesis using assms(1,2) s(1,3) by (simp add: read_text_data_def)
qed

end
