(* ===== verification/Text_Writer.thy ===== *)
theory Text_Writer
  imports Text_Reader
begin

text \<open>
  The writer of text traces, src/rtrace-postproc/writer.c, and the order of the backtraces in compressed
  reports, src/rtrace-postproc/leaks\_sort.c.  The functions give the text they write; an error of the file
  system ends the program and is not modelled.
\<close>

section \<open>The order of backtraces\<close>

text \<open>The counters are of type \<open>int\<close>; sums and differences wrap.\<close>

record ftrace_ref =
  fr_ref :: ptr
  fr_leak_count :: u32
  fr_leak_size :: u32

definition count_leaks :: "rheap \<Rightarrow> ptr \<Rightarrow> ftrace_ref \<Rightarrow> ftrace_ref option" where
  "count_leaks h node trace_ref = do {
     c \<leftarrow> rh_refs h node;
     call \<leftarrow> rh_fcalls h c;
     Some (trace_ref\<lparr>fr_leak_count := fr_leak_count trace_ref + 1,
       fr_leak_size := fr_leak_size trace_ref + fc_res_size (call_data call)\<rparr>) }"

definition sort_leak :: "rheap \<Rightarrow> ptr \<Rightarrow> ftrace_ref list \<Rightarrow> ftrace_ref list option" where
  "sort_leak h t refs = do {
     trace \<leftarrow> rh_ftraces h t;
     ref \<leftarrow> fold_opt (count_leaks h) (ft_calls trace) \<lparr>fr_ref = t, fr_leak_count = 0, fr_leak_size = 0\<rparr>;
     Some (refs @ [ref]) }"

definition leaks_compare_by_size_asc :: "ftrace_ref \<Rightarrow> ftrace_ref \<Rightarrow> int" where
  "leaks_compare_by_size_asc tref1 tref2 = sint (fr_leak_size tref1 - fr_leak_size tref2)"

definition leaks_compare_by_size_desc :: "ftrace_ref \<Rightarrow> ftrace_ref \<Rightarrow> int" where
  "leaks_compare_by_size_desc tref1 tref2 = sint (fr_leak_size tref2 - fr_leak_size tref1)"

definition leaks_compare_by_count_asc :: "ftrace_ref \<Rightarrow> ftrace_ref \<Rightarrow> int" where
  "leaks_compare_by_count_asc tref1 tref2 = sint (fr_leak_count tref1 - fr_leak_count tref2)"

definition leaks_compare_by_count_desc :: "ftrace_ref \<Rightarrow> ftrace_ref \<Rightarrow> int" where
  "leaks_compare_by_count_desc tref1 tref2 = sint (fr_leak_count tref2 - fr_leak_count tref1)"

definition leaks_sort :: "rd \<Rightarrow> rheap \<Rightarrow> (ftrace_ref \<Rightarrow> ftrace_ref \<Rightarrow> int) \<Rightarrow> ftrace_ref list option" where
  "leaks_sort rd h compare = do {
     refs \<leftarrow> fold_opt (sort_leak h) (a_nodes (rd_ftraces rd)) [];
     Some (msort_cmp compare refs) }"

section \<open>Comments\<close>

text \<open>
  The text of a comment is used as a format without arguments: a conversion other than \<open>%%\<close> reads
  arguments that do not exist.
\<close>

fun print_plain :: "cstring \<Rightarrow> cstring option" where
  "print_plain [] = Some []"
| "print_plain (c # t) =
     (if c \<noteq> 37 then map_option ((#) c) (print_plain t)
      else case t of d # u \<Rightarrow> if d = 37 then map_option ((#) 37) (print_plain u) else None | [] \<Rightarrow> None)"

text \<open>The comments in front of a call: those with a smaller number.\<close>

fun write_comments :: "int \<Rightarrow> rd_comment list \<Rightarrow> (cstring \<times> rd_comment list) option" where
  "write_comments idx [] = Some ([], [])"
| "write_comments idx (c # cs) =
     (if cm_index c < idx then do { t \<leftarrow> print_plain (cm_text c); (ts, cs) \<leftarrow> write_comments idx cs; Some (t @ ts, cs) }
      else Some ([], c # cs))"

section \<open>Calls\<close>

text \<open>The text written so far and the comments that follow.\<close>

record fmt_data =
  fm_text :: cstring
  fm_comments :: "rd_comment list"

definition write_compressed_function_call :: "u32 option \<Rightarrow> rheap \<Rightarrow> ptr \<Rightarrow> fmt_data \<Rightarrow> fmt_data option" where
  "write_compressed_function_call now h c fmt = do {
     call \<leftarrow> rh_fcalls h c;
     (comments, rest) \<leftarrow> write_comments (fc_index (call_data call)) (fm_comments fmt);
     line \<leftarrow> sp_rtrace_print_call now (rh_resources h) (call_data call);
     Some \<lparr>fm_text = fm_text fmt @ comments @ line @
         (case call_args call of None \<Rightarrow> [] | Some args \<Rightarrow> sp_rtrace_print_args args), fm_comments = rest\<rparr> }"

definition write_function_call :: "u32 option \<Rightarrow> rheap \<Rightarrow> ptr \<Rightarrow> fmt_data \<Rightarrow> fmt_data option" where
  "write_function_call now h c fmt = do {
     call \<leftarrow> rh_fcalls h c;
     (comments, rest) \<leftarrow> write_comments (fc_index (call_data call)) (fm_comments fmt);
     line \<leftarrow> sp_rtrace_print_call now (rh_resources h) (call_data call);
     trace \<leftarrow> (if call_trace call = NULL then Some []
               else do { trace \<leftarrow> rh_ftraces h (call_trace call); sp_rtrace_print_trace trace });
     Some \<lparr>fm_text = fm_text fmt @ comments @ line @
         (case call_args call of None \<Rightarrow> [] | Some args \<Rightarrow> sp_rtrace_print_args args) @ trace, fm_comments = rest\<rparr> }"

definition write_compressed_backtrace :: "u32 option \<Rightarrow> rheap \<Rightarrow> ftrace_ref \<Rightarrow> fmt_data \<Rightarrow> fmt_data option" where
  "write_compressed_backtrace now h ref fmt = do {
     trace \<leftarrow> rh_ftraces h (fr_ref ref);
     fmt \<leftarrow> fold_opt (\<lambda>r fmt. do { c \<leftarrow> rh_refs h r; write_compressed_function_call now h c fmt }) (ft_calls trace) fmt;
     lines \<leftarrow> sp_rtrace_print_trace trace;
     Some (fmt\<lparr>fm_text := fm_text fmt @ str ''# allocation summary: '' @ format_d (sint (fr_leak_count ref)) @
       str '' block(s) with total size '' @ format_d (sint (fr_leak_size ref)) @ [10] @ lines\<rparr>) }"

text \<open>\<open>compare\<close> is the order that was chosen with an option.  In the end all remaining comments are written.\<close>

definition write_trace_calls ::
    "bool \<Rightarrow> (ftrace_ref \<Rightarrow> ftrace_ref \<Rightarrow> int) \<Rightarrow> u32 option \<Rightarrow> rd \<Rightarrow> rheap \<Rightarrow> fmt_data \<Rightarrow> fmt_data option" where
  "write_trace_calls compress compare now rd h fmt = do {
     fmt \<leftarrow>
       (if compress then do {
          leaks \<leftarrow> leaks_sort rd h compare;
          fold_opt (write_compressed_backtrace now h) leaks fmt }
        else fold_opt (write_function_call now h) (rd_calls rd) fmt);
     (comments, rest) \<leftarrow> write_comments (2 ^ 63 - 1) (fm_comments fmt);
     Some \<lparr>fm_text = fm_text fmt @ comments, fm_comments = rest\<rparr> }"

section \<open>The leak summary\<close>

text \<open>The number of slots for resources is 32.  The lowest bit of the resource id selects the slot that is printed.\<close>

definition write_leaks :: "leak_data list \<Rightarrow> rd_resource \<Rightarrow> cstring option" where
  "write_leaks leaks res =
     (let idx = unat (ffs (ucast (rs_id (rr_data res)))) in
      if idx = 0 \<or> length leaks < idx then None
      else Some (str ''# Resource - '' @ rs_type (rr_data res) @ str '' ('' @ rs_desc (rr_data res) @ str ''):'' @ [10] @
        str ''# '' @ format_d (lk_count (leaks ! (idx - 1))) @ str '' block(s) leaked with total size of '' @
        format_d (sint (ucast (lk_total_size (leaks ! (idx - 1))) :: u32)) @ str '' bytes'' @ [10]))"

definition write_leak_summary :: "rd \<Rightarrow> rheap \<Rightarrow> fmt_data \<Rightarrow> fmt_data option" where
  "write_leak_summary rd h fmt = do {
     leaks \<leftarrow> fold_opt (filter_sum_leaks h) (rd_calls rd) (replicate 32 \<lparr>lk_count = 0, lk_total_size = 0\<rparr>);
     fold_opt (\<lambda>r fmt. do {
         res \<leftarrow> rh_resources h r;
         t \<leftarrow> write_leaks leaks res;
         Some (fmt\<lparr>fm_text := fm_text fmt @ t\<rparr>) })
       (rd_resources rd) fmt }"

section \<open>The environment\<close>

definition write_minfo :: "rd_minfo \<Rightarrow> cstring" where
  "write_minfo minfo = str ''## tracing module: ['' @ format_x (unat (mi_id minfo)) @ str ''] '' @ mi_name minfo @ str '' ('' @
     format_u (unat (mi_vmajor minfo)) @ str ''.'' @ format_u (unat (mi_vminor minfo)) @ str '')'' @ [10]"

definition heap_texts :: "cstring list" where
  "heap_texts = map str [''non-mapped space allocated from system'', ''count of free chunks'', ''count of freed fastbin blocks'',
     ''count of mapped regions'', ''space in mapped regions'', ''maximum total allocated space'',
     ''space available in freed fastbin blocks'', ''total allocated space, both normal and mmapped'', ''total free space'',
     ''space ideally releasable via malloc_trim'']"

definition write_heap_information :: "rd_hinfo \<Rightarrow> cstring" where
  "write_heap_information hinfo = str ''## heap status information:'' @ [10] @
     concat (map (\<lambda>(name, p). str ''##   '' @ str name @ str '' '' @ format_p p @ [10])
       [(''heap bottom'', hi_heap_bottom hinfo), (''heap top'', hi_heap_top hinfo), (''lowest block'', hi_lowest_block hinfo),
        (''highest block'', hi_highest_block hinfo)]) @
     concat (map (\<lambda>(name, v). str ''##   '' @ name @ str '' '' @ format_d (sint v) @ [10]) (zip heap_texts (hi_stats hinfo)))"

fun write_resources :: "rheap \<Rightarrow> ptr list \<Rightarrow> cstring option" where
  "write_resources h [] = Some []"
| "write_resources h (r # rs) = do {
     res \<leftarrow> rh_resources h r;
     t \<leftarrow> sp_rtrace_print_resource (rr_data res);
     ts \<leftarrow> write_resources h rs;
     Some (t @ ts) }"

text \<open>The broken-down local time: year since 1900, month from 0, day, hour, minute, second.\<close>

type_synonym tm = "int \<times> int \<times> int \<times> nat \<times> nat \<times> nat"

definition format_time :: "tm \<Rightarrow> cstring" where
  "format_time tm = (case tm of (year, mon, mday, hour, mn, sec) \<Rightarrow>
     format_d (year + 1900) @ str ''.'' @ format_d (mon + 1) @ str ''.'' @ format_d mday @ str '' '' @
     format_0d 2 hour @ str '':'' @ format_0d 2 mn @ str '':'' @ format_0d 2 sec)"

definition report_header :: "postproc_options \<Rightarrow> (int \<Rightarrow> tm) \<Rightarrow> text_header \<Rightarrow> rd \<Rightarrow> header option" where
  "report_header opt localtime info rd = do {
     spid \<leftarrow> fit 7 (format_d (th_pid info));
     let filter_mask = rd_filter rd AND FILTER_MASK_RESET;
     let filter_mask = (if opt_compress opt then filter_mask OR FILTER_MASK_COMPRESS else filter_mask);
     let filter_mask = (if opt_filter_leaks opt then filter_mask OR FILTER_MASK_LEAKS else filter_mask);
     Some [None, th_arch info, Some (format_time (localtime (th_sec info))), th_name info, Some spid, header_set_filter filter_mask,
       (if th_depth info = -1 then None else Some (format_d (th_depth info))), th_origin info] }"

definition write_trace_environment ::
    "postproc_options \<Rightarrow> (int \<Rightarrow> tm) \<Rightarrow> cstring \<Rightarrow> text_header \<Rightarrow> rd \<Rightarrow> rheap \<Rightarrow> fmt_data \<Rightarrow> fmt_data option" where
  "write_trace_environment opt localtime now info rd h fmt = do {
     header \<leftarrow> report_header opt localtime info rd;
     head_line \<leftarrow> sp_rtrace_print_header now header;
     resources \<leftarrow> write_resources h (rd_resources rd);
     Some (fmt\<lparr>fm_text := fm_text fmt @ head_line @
       concat (map sp_rtrace_print_attachment (rd_files rd)) @
       (case rd_hinfo rd of None \<Rightarrow> [] | Some hinfo \<Rightarrow> write_heap_information hinfo) @
       concat (map write_minfo (rd_minfo rd)) @
       concat (map sp_rtrace_print_context (rd_contexts rd)) @
       resources @
       concat (map sp_rtrace_print_mmap (rd_mmaps rd))\<rparr>) }"

text \<open>The report: environment, calls, and the summary when only leaks are reported.\<close>

definition write_report ::
    "postproc_options \<Rightarrow> (ftrace_ref \<Rightarrow> ftrace_ref \<Rightarrow> int) \<Rightarrow> (int \<Rightarrow> tm) \<Rightarrow> cstring \<Rightarrow> u32 option \<Rightarrow> text_header \<Rightarrow> rd \<Rightarrow> rheap \<Rightarrow> cstring option" where
  "write_report opt compare localtime now clock info rd h = do {
     fmt \<leftarrow> write_trace_environment opt localtime now info rd h \<lparr>fm_text = [], fm_comments = rd_comments rd\<rparr>;
     fmt \<leftarrow> write_trace_calls (opt_compress opt) compare clock rd h fmt;
     fmt \<leftarrow> (if opt_filter_leaks opt then write_leak_summary rd h fmt else Some fmt);
     Some (fm_text fmt) }"

section \<open>The sorted backtraces\<close>

text \<open>What is counted for a backtrace: its calls and the sum of their sizes.\<close>

definition trace_sizes :: "rheap \<Rightarrow> ptr \<Rightarrow> u32 list" where
  "trace_sizes h t = map (\<lambda>r. fc_res_size (call_data (the (rh_fcalls h (the (rh_refs h r)))))) (ft_calls (the (rh_ftraces h t)))"

definition trace_summary :: "rheap \<Rightarrow> ptr \<Rightarrow> ftrace_ref" where
  "trace_summary h t = \<lparr>fr_ref = t, fr_leak_count = of_nat (length (trace_sizes h t)), fr_leak_size = sum_list (trace_sizes h t)\<rparr>"

lemma fold_count_leaks:
  assumes "\<forall>r\<in>set rs. \<exists>c call. rh_refs h r = Some c \<and> rh_fcalls h c = Some call"
  shows "fold_opt (count_leaks h) rs f = Some (f\<lparr>fr_leak_count := fr_leak_count f + of_nat (length rs),
    fr_leak_size := fr_leak_size f + sum_list (map (\<lambda>r. fc_res_size (call_data (the (rh_fcalls h (the (rh_refs h r)))))) rs)\<rparr>)"
  using assms by (induction rs arbitrary: f) (fastforce simp: count_leaks_def algebra_simps)+

lemma fold_sort_leak:
  assumes "\<forall>t\<in>set ts. \<exists>r. rh_ftraces h t = Some r \<and> (\<forall>x\<in>set (ft_calls r). \<exists>c call. rh_refs h x = Some c \<and> rh_fcalls h c = Some call)"
  shows "fold_opt (sort_leak h) ts ys = Some (ys @ map (trace_summary h) ts)"
  using assms
proof (induction ts arbitrary: ys)
  case (Cons t ts)
  then obtain r where r: "rh_ftraces h t = Some r" "\<forall>x\<in>set (ft_calls r). \<exists>c call. rh_refs h x = Some c \<and> rh_fcalls h c = Some call"
    by auto
  then have "sort_leak h t ys = Some (ys @ [trace_summary h t])"
    by (simp add: sort_leak_def fold_count_leaks trace_summary_def trace_sizes_def)
  then show ?case using Cons by simp
qed simp

theorem leaks_sort_ok:
  assumes "rd_inv rd h"
  shows "leaks_sort rd h compare = Some (msort_cmp compare (map (trace_summary h) (a_nodes (rd_ftraces rd))))"
proof -
  have it: "inv_traces {} rd h" using assms by (simp add: rd_inv_def)
  have "\<exists>r. rh_ftraces h t = Some r \<and> (\<forall>x\<in>set (ft_calls r). \<exists>c call. rh_refs h x = Some c \<and> rh_fcalls h c = Some call)"
    if t: "t \<in> set (a_nodes (rd_ftraces rd))" for t
  proof -
    obtain b where "t \<in> set (a_bucket (rd_ftraces rd) b)" using t by (auto simp: mem_a_nodes)
    then obtain r where "rh_ftraces h t = Some r" "trace_ok rd h t r" using inv_tracesD [OF it] by blast
    then show ?thesis unfolding trace_ok_def ref_ok_def by blast
  qed
  then show ?thesis by (simp add: leaks_sort_def fold_sort_leak)
qed

text \<open>Only the values of the comparison on the elements of the list matter.\<close>

lemma merge_cmp_cong:
  "(\<And>a b. a \<in> set xs \<union> set ys \<Longrightarrow> b \<in> set xs \<union> set ys \<Longrightarrow> f a b = g a b) \<Longrightarrow> merge_cmp f xs ys = merge_cmp g xs ys"
  by (induction f xs ys rule: merge_cmp.induct) auto

lemma msort_cmp_cong:
  "(\<And>a b. a \<in> set xs \<Longrightarrow> b \<in> set xs \<Longrightarrow> f a b = g a b) \<Longrightarrow> msort_cmp f xs = msort_cmp g xs"
proof (induction f xs rule: msort_cmp.induct)
  case (1 f xs)
  let ?l = "take (length xs div 2) xs" and ?r = "drop (length xs div 2) xs"
  have sub: "a \<in> set xs" if "a \<in> set ?l \<or> a \<in> set ?r" for a using that by (auto dest: in_set_takeD in_set_dropD)
  show ?case
  proof (cases "length xs \<le> 1")
    case False
    then have "msort_cmp f ?l = msort_cmp g ?l" "msort_cmp f ?r = msort_cmp g ?r" using 1 sub by auto
    moreover have "merge_cmp f (msort_cmp g ?l) (msort_cmp g ?r) = merge_cmp g (msort_cmp g ?l) (msort_cmp g ?r)"
      using "1.prems" sub by (intro merge_cmp_cong) simp
    ultimately show ?thesis by (subst (1 2) msort_cmp.simps) (simp add: Let_def)
  qed (simp add: msort_cmp.simps)
qed

text \<open>Differences of moderate numbers do not wrap.\<close>

lemma sint_diff_small:
  fixes a b :: u32
  assumes "\<bar>sint a\<bar> < 2 ^ 30" "\<bar>sint b\<bar> < 2 ^ 30"
  shows "sint (a - b) = sint a - sint b"
proof -
  have "a - b = word_of_int (sint a - sint b)" by simp
  moreover have "- (2 ^ 31) \<le> sint a - sint b" "sint a - sint b < 2 ^ 31" using assms by auto
  ultimately show ?thesis by (simp only: sint_in_range)
qed

lemma msort_by_key:
  fixes key :: "'a \<Rightarrow> u32"
  assumes "\<forall>x\<in>set xs. \<bar>sint (key x)\<bar> < 2 ^ 30"
  shows "sorted_cmp (\<lambda>a b. sint (key a) - sint (key b)) (msort_cmp (\<lambda>a b. sint (key a - key b)) xs)"
    "sorted_cmp (\<lambda>a b. sint (key b) - sint (key a)) (msort_cmp (\<lambda>a b. sint (key b - key a)) xs)"
proof -
  have up: "msort_cmp (\<lambda>a b. sint (key a - key b)) xs = msort_cmp (\<lambda>a b. sint (key a) - sint (key b)) xs"
    and down: "msort_cmp (\<lambda>a b. sint (key b - key a)) xs = msort_cmp (\<lambda>a b. sint (key b) - sint (key a)) xs"
    using assms by (auto intro!: msort_cmp_cong sint_diff_small)
  show "sorted_cmp (\<lambda>a b. sint (key a) - sint (key b)) (msort_cmp (\<lambda>a b. sint (key a - key b)) xs)"
    unfolding up by (rule sorted_msort_cmp) (auto simp: cmp_antisym_def cmp_trans_def)
  show "sorted_cmp (\<lambda>a b. sint (key b) - sint (key a)) (msort_cmp (\<lambda>a b. sint (key b - key a)) xs)"
    unfolding down by (rule sorted_msort_cmp) (auto simp: cmp_antisym_def cmp_trans_def)
qed

end
