(* ===== verification/Text_Cycle.thy ===== *)
theory Text_Cycle
  imports Text_Refine Text_Writer
begin

text \<open>
  Reading a report that was written by the post-processor: the lines of the report, what each of them adds,
  and the whole file.
\<close>

section \<open>Lines of a file\<close>

definition file_line :: "cstring \<Rightarrow> bool" where
  "file_line l \<longleftrightarrow> l \<noteq> [] \<and> last l = 10 \<and> list_all (\<lambda>c. c \<noteq> 10 \<and> c \<noteq> 0) (butlast l) \<and> length l < LINE_SIZE"

lemma text_lines_Cons: "file_line l \<Longrightarrow> text_lines (l @ f) = l # text_lines f"
proof -
  assume l: "file_line l"
  define b where "b = butlast l"
  have b: "l = b @ [10]" "\<forall>c\<in>set b. c \<noteq> 10 \<and> c \<noteq> 0" "length b + 1 < LINE_SIZE"
    using l append_butlast_last_id [of l] by (auto simp: file_line_def list_all_iff b_def)
  have tw: "takeWhile (\<lambda>c. c \<noteq> 10) (l @ f) = b" unfolding b(1) using takeWhile_stops [of b "\<lambda>c. c \<noteq> 10" "10 # f"] b(2) by simp
  have cs: "cstr l = l" unfolding cstr_def b(1) using b(2) by (intro takeWhile_eq_all_conv [THEN iffD2]) auto
  have k: "min (LINE_SIZE - 1) (Suc (length b)) = length l" using b(1,3) by simp
  have "fgets LINE_SIZE (l @ f) = Some (l, f)" unfolding fgets_def Let_def tw k using b(1) by simp
  then show ?thesis by (subst text_lines.simps) (simp add: cs)
qed

lemma text_lines_concat: "list_all file_line ls \<Longrightarrow> text_lines (concat ls) = ls"
  by (induction ls) (simp_all add: text_lines_Cons, simp add: text_lines.simps fgets_def)

section \<open>The lines of a call\<close>

definition frame_name :: "rd_ftrace \<Rightarrow> nat \<Rightarrow> cstring option" where
  "frame_name tr i = (case ft_names tr of None \<Rightarrow> None | Some names \<Rightarrow> names ! i)"

definition frame_line :: "rd_ftrace \<Rightarrow> nat \<Rightarrow> cstring" where
  "frame_line tr i = sp_rtrace_print_trace_step (ft_frames tr ! i) (frame_name tr i)"

definition call_fargs :: "rd_fcall \<Rightarrow> sp_rtrace_farg list" where
  "call_fargs call = (case call_args call of None \<Rightarrow> [] | Some args \<Rightarrow> args)"

definition call_lines :: "u32 option \<Rightarrow> rheap \<Rightarrow> ptr \<Rightarrow> cstring list" where
  "call_lines clock h c =
     (let call = the (rh_fcalls h c); tr = the (rh_ftraces h (call_trace call))
      in [the (sp_rtrace_print_call clock (rh_resources h) (call_data call))] @
         map (\<lambda>a. sp_rtrace_print_args [a]) (call_fargs call) @
         map (frame_line tr) [0..<nat (sint (ucast (ft_nframes tr) :: u32))] @ [[10]])"

lemma print_frames_lines:
  "print_frames tr is = Some t \<Longrightarrow> t = concat (map (frame_line tr) is) @ [10] \<and>
     (\<forall>i\<in>set is. i < length (ft_frames tr) \<and> (\<forall>names. ft_names tr = Some names \<longrightarrow> i < length names))"
proof (induction "is" arbitrary: t)
  case (Cons i "is")
  then obtain u v where u: "print_frame tr i = Some u" "print_frames tr is = Some v" "t = u @ v"
    by (auto simp: Option.bind_eq_Some_conv)
  then have "u = frame_line tr i \<and> i < length (ft_frames tr) \<and> (\<forall>names. ft_names tr = Some names \<longrightarrow> i < length names)"
    by (auto simp: print_frame_def frame_line_def frame_name_def fit_def split: if_splits option.splits)
  with Cons.IH [OF u(2)] u(3) show ?case by simp
qed simp

lemma args_lines: "sp_rtrace_print_args args = concat (map (\<lambda>a. sp_rtrace_print_args [a]) args)"
  by (simp add: sp_rtrace_print_args_def)

lemma write_call_lines:
  assumes "write_function_call clock h c fmt = Some fmt'" "fm_comments fmt = []"
    "rh_fcalls h c = Some call" "call_trace call \<noteq> NULL"
  shows "fm_text fmt' = fm_text fmt @ concat (call_lines clock h c) \<and> fm_comments fmt' = [] \<and>
    sp_rtrace_print_call clock (rh_resources h) (call_data call) \<noteq> None \<and>
    (\<exists>tr t. rh_ftraces h (call_trace call) = Some tr \<and> sp_rtrace_print_trace tr = Some t)"
proof -
  obtain line tr t where w: "sp_rtrace_print_call clock (rh_resources h) (call_data call) = Some line"
      "rh_ftraces h (call_trace call) = Some tr" "sp_rtrace_print_trace tr = Some t"
      "fmt' = \<lparr>fm_text = fm_text fmt @ line @ (case call_args call of None \<Rightarrow> [] | Some args \<Rightarrow> sp_rtrace_print_args args) @ t, fm_comments = []\<rparr>"
    using assms by (auto simp: write_function_call_def Option.bind_eq_Some_conv)
  have "(case call_args call of None \<Rightarrow> [] | Some args \<Rightarrow> sp_rtrace_print_args args) = concat (map (\<lambda>a. sp_rtrace_print_args [a]) (call_fargs call))"
    by (cases "call_args call") (simp_all add: call_fargs_def args_lines [symmetric])
  moreover have "t = concat (map (frame_line tr) [0..<nat (sint (ucast (ft_nframes tr) :: u32))]) @ [10]"
    using print_frames_lines w(3) by (auto simp: sp_rtrace_print_trace_def)
  ultimately show ?thesis using w assms(3) by (simp add: call_lines_def Let_def)
qed

text \<open>Calls whose texts can be read back; \<open>rs\<close> are the resources the reader knows.\<close>

definition name_ok :: "cstring option \<Rightarrow> bool" where
  "name_ok n = (case n of None \<Rightarrow> True | Some w \<Rightarrow> is_line LINE_MAX w)"

definition trace_writable :: "rd_ftrace \<Rightarrow> bool" where
  "trace_writable tr \<longleftrightarrow> ft_wf tr \<and> ft_nframes tr < 2 ^ 31 \<and>
     (case ft_names tr of None \<Rightarrow> True | Some names \<Rightarrow> list_all name_ok names)"

definition args_writable :: "sp_rtrace_farg list option \<Rightarrow> bool" where
  "args_writable args =
     (case args of None \<Rightarrow> True
      | Some as \<Rightarrow> as \<noteq> [] \<and> list_all (\<lambda>a. is_word 128 (fa_name a) \<and> is_word LINE_MAX (fa_value a)) as)"

definition call_writable :: "rheap \<Rightarrow> sp_rtrace_resource list \<Rightarrow> ptr \<Rightarrow> bool" where
  "call_writable h rs c =
     (case rh_fcalls h c of None \<Rightarrow> False
      | Some call \<Rightarrow> call_trace call \<noteq> NULL \<and> args_writable (call_args call) \<and> fcall_ok (call_data call) \<and>
          (case rh_ftraces h (call_trace call) of None \<Rightarrow> False | Some tr \<Rightarrow> trace_writable tr) \<and>
          (case fc_name (call_data call) of None \<Rightarrow> False
           | Some name \<Rightarrow> (case call_res_name (rh_resources h) (call_data call) of None \<Rightarrow> False
               | Some rn \<Rightarrow> call_text_ok name rn \<and> spec_resource rs (named_res rn) = ac_resource (call_abs h c))))"

section \<open>What the lines add\<close>

definition idle :: "atext \<Rightarrow> bool" where
  "idle a \<longleftrightarrow> xt_open a = [] \<and> xt_frames a = [] \<and> xt_args a = []"

lemma close_idle: "idle a \<Longrightarrow> close_frames b a = a"
  by (simp add: idle_def close_frames_def close_args_def)

lemma line_add_arg:
  assumes "is_word 128 (fa_name g)" "is_word LINE_MAX (fa_value g)" "xt_open a \<noteq> []"
  shows "line_add RECORD_ALL (sp_rtrace_print_args [g]) a = a\<lparr>xt_args := xt_args a @ [g]\<rparr>"
proof -
  have "take 2 (sp_rtrace_print_args [g]) \<noteq> str ''# ''" by (simp add: sp_rtrace_print_args_def str_def)
  then show ?thesis using record_arg [OF assms(1,2), of RECORD_ALL] assms(3)
    by (simp add: line_add_def text_add_def record_masks)
qed

lemma line_add_frame:
  assumes "name_ok n" "xt_open a \<noteq> []"
  shows "line_add RECORD_ALL (sp_rtrace_print_trace_step f n) a = a\<lparr>xt_frames := xt_frames a @ [f]\<rparr>"
proof -
  have "take 2 (sp_rtrace_print_trace_step f n) \<noteq> str ''# ''" by (simp add: sp_rtrace_print_trace_step_def str_def)
  then show ?thesis using record_frame [of n RECORD_ALL f] assms
    by (simp add: line_add_def text_add_def record_masks name_ok_def)
qed

lemma fold_args:
  "list_all (\<lambda>g. is_word 128 (fa_name g) \<and> is_word LINE_MAX (fa_value g)) gs \<Longrightarrow> xt_open a \<noteq> [] \<Longrightarrow>
    fold (line_add RECORD_ALL) (map (\<lambda>g. sp_rtrace_print_args [g]) gs) a = a\<lparr>xt_args := xt_args a @ gs\<rparr>"
  by (induction gs arbitrary: a) (simp_all add: line_add_arg)

lemma fold_frames:
  "\<forall>i\<in>set is. name_ok (frame_name tr i) \<Longrightarrow> xt_open a \<noteq> [] \<Longrightarrow>
    fold (line_add RECORD_ALL) (map (frame_line tr) is) a = a\<lparr>xt_frames := xt_frames a @ map ((!) (ft_frames tr)) is\<rparr>"
  by (induction "is" arbitrary: a) (simp_all add: line_add_frame frame_line_def)

lemma blank_record: "sp_rtrace_parser_parse_record RECORD_ALL [10] = Some Rec_Comment"
  by (simp add: parse_record_eval parse_function_call_def parse_call_index_def scan.simps read_d_def record_masks)

lemma line_add_blank: "line_add RECORD_ALL [10] a = close_frames True a"
  by (simp add: line_add_def blank_record text_add_def str_def)

lemma sint_small: "k < 2 ^ 31 \<Longrightarrow> sint (word_of_int (int k) :: u32) = int k"
  by (rule sint_in_range) simp_all

lemma nframes_used:
  assumes "trace_writable tr"
  shows "map ((!) (ft_frames tr)) [0..<nat (sint (ucast (ft_nframes tr) :: u32))] = ft_used tr"
proof -
  let ?n = "unat (ft_nframes tr)"
  have n: "?n < 2 ^ 31" "?n \<le> length (ft_frames tr)" using assms by (auto simp: trace_writable_def ft_wf_def word_less_nat_alt)
  have "(ucast (ft_nframes tr) :: u32) = word_of_int (int ?n)" by (simp only: ucast_eq uint_nat)
  then have "sint (ucast (ft_nframes tr) :: u32) = int ?n" using sint_small [OF n(1)] by simp
  then show ?thesis unfolding ft_used_def using n(2) by (intro nth_equalityI) simp_all
qed

lemma frame_names_ok:
  assumes "trace_writable tr" "\<forall>names. ft_names tr = Some names \<longrightarrow> i < length names"
  shows "name_ok (frame_name tr i)"
  using assms by (cases "ft_names tr") (auto simp: trace_writable_def frame_name_def name_ok_def [of None] list_all_length)

lemma call_line_kind:
  assumes "sp_rtrace_print_call clock res call = Some t"
  shows "take 2 t \<noteq> str ''# '' \<and> take 1 t \<noteq> [10]"
proof -
  obtain u where t: "t = format_d (fc_index call) @ u"
    using assms by (auto simp: sp_rtrace_print_call_def fit_def Option.bind_eq_Some_conv split: if_splits)
  have ne: "format_d (fc_index call) \<noteq> []" by (simp add: format_d_def str_def format_u_def digits_nonempty)
  then obtain c v where "format_d (fc_index call) = c # v" by (cases "format_d (fc_index call)") auto
  moreover from this have "is_digit c \<or> c = 45" using format_d_chars [of c "fc_index call"] by simp
  ultimately show ?thesis by (auto simp: t str_def is_digit_def)
qed

theorem fold_call_lines:
  assumes ok: "call_writable h (xt_resources a) c" and a: "idle a"
    and call: "rh_fcalls h c = Some call" "sp_rtrace_print_call clock (rh_resources h) (call_data call) = Some line"
    and tr: "rh_ftraces h (call_trace call) = Some tr" "sp_rtrace_print_trace tr = Some t"
  shows "fold (line_add RECORD_ALL) (call_lines clock h c) a = a\<lparr>xt_done := xt_done a @ [call_abs h c]\<rparr>"
proof -
  obtain name rn where ok': "fcall_ok (call_data call)" "fc_name (call_data call) = Some name" "trace_writable tr" "args_writable (call_args call)"
      "call_res_name (rh_resources h) (call_data call) = Some rn" "call_text_ok name rn"
      "spec_resource (xt_resources a) (named_res rn) = ac_resource (call_abs h c)"
    using ok call(1) tr(1) by (auto simp: call_writable_def split: option.splits)
  let ?d = "(call_data call)\<lparr>fc_res_type := RFIELD_UNDEF\<rparr>" and ?is = "[0..<nat (sint (ucast (ft_nframes tr) :: u32))]"
  let ?x = "\<lparr>ac_data = ?d, ac_resource = ac_resource (call_abs h c), ac_args = None, ac_frames = None\<rparr>"
  have rec: "sp_rtrace_parser_parse_record RECORD_ALL line = Some (Rec_Call ((call_data call)\<lparr>fc_res_type := named_res rn\<rparr>))"
    using record_call [OF ok'(1,2,5,6) call(2)] by (simp add: record_masks)
  have first: "line_add RECORD_ALL line a = a\<lparr>xt_open := [?x]\<rparr>"
    using call_line_kind [OF call(2)] rec a ok'(7) by (simp add: line_add_def text_add_def close_idle idle_def)
  have "list_all (\<lambda>g. is_word 128 (fa_name g) \<and> is_word LINE_MAX (fa_value g)) (call_fargs call)"
    using ok'(4) by (auto simp: args_writable_def call_fargs_def split: option.splits)
  then have args: "fold (line_add RECORD_ALL) (map (\<lambda>g. sp_rtrace_print_args [g]) (call_fargs call)) (a\<lparr>xt_open := [?x]\<rparr>) =
      a\<lparr>xt_open := [?x], xt_args := call_fargs call\<rparr>"
    using a by (simp add: fold_args idle_def)
  have "\<forall>i\<in>set ?is. name_ok (frame_name tr i)"
    using print_frames_lines [of tr ?is t] tr(2) frame_names_ok [OF ok'(3)] by (auto simp: sp_rtrace_print_trace_def)
  then have frames: "fold (line_add RECORD_ALL) (map (frame_line tr) ?is) (a\<lparr>xt_open := [?x], xt_args := call_fargs call\<rparr>) =
      a\<lparr>xt_open := [?x], xt_args := call_fargs call, xt_frames := ft_used tr\<rparr>"
    using a nframes_used [OF ok'(3)] by (simp add: fold_frames idle_def)
  have "call_args call = (if call_fargs call = [] then None else Some (call_fargs call))"
    using ok'(4) by (auto simp: args_writable_def call_fargs_def split: option.splits)
  then have abs: "?x\<lparr>ac_args := (if call_fargs call = [] then None else Some (call_fargs call)), ac_frames := Some (ft_used tr)\<rparr> = call_abs h c"
    using call(1) tr(1) by (simp add: call_abs_def call_frames_def Let_def)
  have "close_frames True (a\<lparr>xt_open := [?x], xt_args := call_fargs call, xt_frames := ft_used tr\<rparr>) =
      a\<lparr>xt_done := xt_done a @ [?x\<lparr>ac_args := (if call_fargs call = [] then None else Some (call_fargs call)), ac_frames := Some (ft_used tr)\<rparr>]\<rparr>"
    using a by (cases a) (auto simp: close_frames_def close_args_def close_calls_def Let_def update_last_def idle_def)
  then show ?thesis unfolding abs using first args frames by (simp add: call_lines_def Let_def call tr(1) line_add_blank)
qed

section \<open>The lines of the environment\<close>

definition heap_lines :: "rd_hinfo \<Rightarrow> cstring list" where
  "heap_lines hinfo = [str ''## heap status information:'' @ [10]] @
     map (\<lambda>(name, p). str ''##   '' @ str name @ str '' '' @ format_p p @ [10])
       [(''heap bottom'', hi_heap_bottom hinfo), (''heap top'', hi_heap_top hinfo), (''lowest block'', hi_lowest_block hinfo),
        (''highest block'', hi_highest_block hinfo)] @
     map (\<lambda>(name, v). str ''##   '' @ name @ str '' '' @ format_d (sint v) @ [10]) (zip heap_texts (hi_stats hinfo))"

lemma heap_lines_text: "write_heap_information hinfo = concat (heap_lines hinfo)"
  by (simp add: write_heap_information_def heap_lines_def)

definition comment_lines :: "rd \<Rightarrow> cstring list" where
  "comment_lines rd = (case rd_hinfo rd of None \<Rightarrow> [] | Some hinfo \<Rightarrow> heap_lines hinfo) @ map write_minfo (rd_minfo rd)"

definition resource_line :: "rheap \<Rightarrow> ptr \<Rightarrow> cstring" where
  "resource_line h r = the (sp_rtrace_print_resource (rr_data (the (rh_resources h r))))"

definition environment_lines :: "rd \<Rightarrow> rheap \<Rightarrow> cstring list" where
  "environment_lines rd h = map sp_rtrace_print_attachment (rd_files rd) @ comment_lines rd @
     map sp_rtrace_print_context (rd_contexts rd) @ map (resource_line h) (rd_resources rd) @ map sp_rtrace_print_mmap (rd_mmaps rd)"

lemma write_resources_lines:
  "write_resources h rs = Some t \<Longrightarrow> t = concat (map (resource_line h) rs) \<and>
     (\<forall>r\<in>set rs. \<exists>res. rh_resources h r = Some res \<and> sp_rtrace_print_resource (rr_data res) \<noteq> None)"
  by (induction rs arbitrary: t) (auto simp: Option.bind_eq_Some_conv resource_line_def)

lemma environment_text:
  assumes "write_trace_environment opt localtime now info rd h fmt = Some fmt'"
  shows "\<exists>header line. report_header opt localtime info rd = Some header \<and> sp_rtrace_print_header now header = Some line \<and>
    fm_text fmt' = fm_text fmt @ line @ concat (environment_lines rd h) \<and> fm_comments fmt' = fm_comments fmt \<and>
    (\<forall>r\<in>set (rd_resources rd). \<exists>res. rh_resources h r = Some res \<and> sp_rtrace_print_resource (rr_data res) \<noteq> None)"
proof -
  obtain header line rst where w: "report_header opt localtime info rd = Some header" "sp_rtrace_print_header now header = Some line"
      "write_resources h (rd_resources rd) = Some rst"
    and f: "fmt' = fmt\<lparr>fm_text := fm_text fmt @ line @ concat (map sp_rtrace_print_attachment (rd_files rd)) @
       (case rd_hinfo rd of None \<Rightarrow> [] | Some hinfo \<Rightarrow> write_heap_information hinfo) @ concat (map write_minfo (rd_minfo rd)) @
       concat (map sp_rtrace_print_context (rd_contexts rd)) @ rst @ concat (map sp_rtrace_print_mmap (rd_mmaps rd))\<rparr>"
    using assms by (auto simp: write_trace_environment_def Option.bind_eq_Some_conv)
  from f write_resources_lines [OF w(3)] have "fm_text fmt' = fm_text fmt @ line @ concat (environment_lines rd h)"
    by (cases "rd_hinfo rd") (simp_all add: environment_lines_def comment_lines_def heap_lines_text)
  then show ?thesis using w f write_resources_lines [OF w(3)] by simp
qed

definition environment_ok :: "rd \<Rightarrow> rheap \<Rightarrow> bool" where
  "environment_ok rd h \<longleftrightarrow>
     list_all (\<lambda>f. is_word 512 (at_name f) \<and> is_word LINE_MAX (at_path f)) (rd_files rd) \<and>
     list_all (\<lambda>c. is_line 512 (cx_name c) \<and> cx_id c < 4294967296) (rd_contexts rd) \<and>
     list_all (\<lambda>r. resource_ok (rr_data (the (rh_resources h r)))) (rd_resources rd) \<and>
     distinct (map (\<lambda>r. rs_type (rr_data (the (rh_resources h r)))) (rd_resources rd)) \<and>
     list_all (\<lambda>m. is_word LINE_MAX (mm_module m)) (rd_mmaps rd)"

lemma idle_other [simp]: "idle (add_other rec a) = idle a"
  by (cases "(rec, a)" rule: add_other.cases) (auto simp: idle_def)

lemma line_add_other:
  assumes "sp_rtrace_parser_parse_record RECORD_ALL line = Some rec" "take 2 line \<noteq> str ''# ''" "take 1 line \<noteq> [10]" "idle a"
    "\<And>c. rec \<noteq> Rec_Call c" "\<And>f n. rec \<noteq> Rec_Trace f n" "\<And>g. rec \<noteq> Rec_Arg g"
  shows "line_add RECORD_ALL line a = add_other rec a"
proof -
  have "xt_open a = []" using assms(4) by (simp add: idle_def)
  then show ?thesis using assms by (cases rec) (auto simp: line_add_def text_add_def close_idle)
qed

lemma line_add_comment: "idle a \<Longrightarrow> line_add RECORD_ALL (35 # 35 # t) a = a"
  using line_add_other [of "35 # 35 # t" Rec_Comment a] record_comment [of RECORD_ALL "35 # t"]
  by (simp add: str_def record_masks)

lemma line_add_attachment:
  "is_word 512 (at_name f) \<Longrightarrow> is_word LINE_MAX (at_path f) \<Longrightarrow> idle a \<Longrightarrow>
    line_add RECORD_ALL (sp_rtrace_print_attachment f) a = a\<lparr>xt_files := xt_files a @ [f]\<rparr>"
  using line_add_other [of "sp_rtrace_print_attachment f" "Rec_Attachment f" a] record_attachment [of f RECORD_ALL]
  by (simp add: str_def record_masks sp_rtrace_print_attachment_def)

lemma line_add_context:
  "is_line 512 (cx_name c) \<Longrightarrow> cx_id c < 4294967296 \<Longrightarrow> idle a \<Longrightarrow> line_add RECORD_ALL (sp_rtrace_print_context c) a = a"
  using line_add_other [of "sp_rtrace_print_context c" "Rec_Context c" a] record_context [of c RECORD_ALL]
  by (simp add: str_def record_masks sp_rtrace_print_context_def)

lemma line_add_mmap:
  "is_word LINE_MAX (mm_module m) \<Longrightarrow> idle a \<Longrightarrow> line_add RECORD_ALL (sp_rtrace_print_mmap m) a = a\<lparr>xt_mmaps := xt_mmaps a @ [m]\<rparr>"
  using line_add_other [of "sp_rtrace_print_mmap m" "Rec_Mmap m" a] record_mmap [of m RECORD_ALL]
  by (simp add: str_def record_masks sp_rtrace_print_mmap_def)

lemma line_add_resource:
  assumes "resource_ok r" "sp_rtrace_print_resource r = Some t" "idle a" "rs_type r \<notin> set (map rs_type (xt_resources a))"
  shows "line_add RECORD_ALL t a = a\<lparr>xt_resources := xt_resources a @ [r]\<rparr>"
proof -
  have "take 2 t \<noteq> str ''# ''" "take 1 t \<noteq> [10]"
    using assms(2) by (auto simp: sp_rtrace_print_resource_def fit_def str_def Let_def split: if_splits)
  moreover have "find (\<lambda>x. rs_type x = rs_type r) (xt_resources a) = None" unfolding find_None_iff using assms(4) by (metis image_eqI list.set_map)
  ultimately show ?thesis
    using line_add_other [of t "Rec_Resource r" a] record_resource [OF assms(1,2), of RECORD_ALL] assms(3) by (simp add: record_masks)
qed

lemma fold_same: "(\<And>x. x \<in> set xs \<Longrightarrow> f x a = a) \<Longrightarrow> fold f xs a = a"
  by (induction xs) auto

lemma comment_lines_kind: "l \<in> set (comment_lines rd) \<Longrightarrow> \<exists>t. l = 35 # 35 # t"
  by (auto simp: comment_lines_def heap_lines_def write_minfo_def str_def split: option.splits)

lemma fold_attachments:
  "list_all (\<lambda>f. is_word 512 (at_name f) \<and> is_word LINE_MAX (at_path f)) fs \<Longrightarrow> idle a \<Longrightarrow>
    fold (line_add RECORD_ALL) (map sp_rtrace_print_attachment fs) a = a\<lparr>xt_files := xt_files a @ fs\<rparr>"
  by (induction fs arbitrary: a) (simp_all add: line_add_attachment idle_def)

lemma fold_mmaps:
  "list_all (\<lambda>m. is_word LINE_MAX (mm_module m)) ms \<Longrightarrow> idle a \<Longrightarrow>
    fold (line_add RECORD_ALL) (map sp_rtrace_print_mmap ms) a = a\<lparr>xt_mmaps := xt_mmaps a @ ms\<rparr>"
  by (induction ms arbitrary: a) (simp_all add: line_add_mmap idle_def)

lemma fold_resources:
  fixes h :: rheap
  defines "res \<equiv> \<lambda>r. rr_data (the (rh_resources h r))"
  assumes "list_all (\<lambda>r. resource_ok (res r)) rs" "\<forall>r\<in>set rs. sp_rtrace_print_resource (res r) \<noteq> None" "idle a"
    "distinct (map rs_type (xt_resources a) @ map (\<lambda>r. rs_type (res r)) rs)"
  shows "fold (line_add RECORD_ALL) (map (resource_line h) rs) a = a\<lparr>xt_resources := xt_resources a @ map res rs\<rparr>"
  using assms(2-)
proof (induction rs arbitrary: a)
  case (Cons r rs)
  have "line_add RECORD_ALL (resource_line h r) a = a\<lparr>xt_resources := xt_resources a @ [res r]\<rparr>"
    using Cons.prems by (intro line_add_resource) (auto simp: resource_line_def res_def)
  moreover have "idle (a\<lparr>xt_resources := xt_resources a @ [res r]\<rparr>)" using Cons.prems(3) by (simp add: idle_def)
  ultimately show ?case using Cons.IH [of "a\<lparr>xt_resources := xt_resources a @ [res r]\<rparr>"] Cons.prems by simp
qed simp

definition environment_text_abs :: "rd \<Rightarrow> rheap \<Rightarrow> atext" where
  "environment_text_abs rd h = empty_text\<lparr>xt_files := rd_files rd, xt_mmaps := rd_mmaps rd,
     xt_resources := map (\<lambda>r. rr_data (the (rh_resources h r))) (rd_resources rd)\<rparr>"

theorem fold_environment:
  assumes ok: "environment_ok rd h" and res: "\<forall>r\<in>set (rd_resources rd). sp_rtrace_print_resource (rr_data (the (rh_resources h r))) \<noteq> None"
  shows "fold (line_add RECORD_ALL) (environment_lines rd h) empty_text = environment_text_abs rd h"
proof -
  let ?L = "line_add RECORD_ALL"
  have e: "idle empty_text" "xt_files empty_text = []" "xt_resources empty_text = []" "xt_mmaps empty_text = []"
    by (simp_all add: empty_text_def idle_def)
  let ?a = "empty_text\<lparr>xt_files := rd_files rd\<rparr>" and ?rs = "map (\<lambda>r. rr_data (the (rh_resources h r))) (rd_resources rd)"
  have "fold ?L (map sp_rtrace_print_attachment (rd_files rd)) empty_text = ?a"
    using ok e by (simp add: fold_attachments environment_ok_def)
  moreover have i: "idle ?a" using e by (simp add: idle_def)
  moreover have "fold ?L (comment_lines rd) ?a = ?a"
    using i line_add_comment by (intro fold_same) (auto dest!: comment_lines_kind)
  moreover have "fold ?L (map sp_rtrace_print_context (rd_contexts rd)) ?a = ?a"
    using ok i by (intro fold_same) (auto simp: environment_ok_def list_all_iff line_add_context)
  moreover have "fold ?L (map (resource_line h) (rd_resources rd)) ?a = ?a\<lparr>xt_resources := ?rs\<rparr>"
    using ok res i e fold_resources [of h "rd_resources rd" ?a] by (simp add: environment_ok_def)
  moreover have "idle (?a\<lparr>xt_resources := ?rs\<rparr>)" using e by (simp add: idle_def)
  then have "fold ?L (map sp_rtrace_print_mmap (rd_mmaps rd)) (?a\<lparr>xt_resources := ?rs\<rparr>) = ?a\<lparr>xt_resources := ?rs, xt_mmaps := rd_mmaps rd\<rparr>"
    using ok e by (simp add: environment_ok_def fold_mmaps)
  ultimately show ?thesis by (simp add: environment_lines_def environment_text_abs_def)
qed

section \<open>The whole report\<close>

text \<open>Scanning numbers never overruns a buffer.\<close>

definition no_text :: "directive \<Rightarrow> bool" where
  "no_text d = (case d of Conv_s n \<Rightarrow> False | Conv_set f n \<Rightarrow> False | _ \<Rightarrow> True)"

lemma scan_total: "list_all no_text fs \<Longrightarrow> \<exists>r. scan fs t = Some r"
proof (induction fs arbitrary: t)
  case (Cons d fs)
  have ih: "\<exists>r. scan fs t = Some r" for t using Cons by simp
  have st: "\<exists>r. store v (scan fs t) = Some r" for v t
  proof -
    obtain vs e where "scan fs t = Some (vs, e)" using ih by (metis surj_pair)
    then show ?thesis by simp
  qed
  show ?case using Cons.prems st ih
    by (cases d) (auto simp: scan.simps no_text_def Let_def split: option.split list.split)
qed auto

lemma sscanf_total: "list_all no_text fs \<Longrightarrow> \<exists>n vs. sscanf fs t = Some (n, vs)"
  using scan_total [of fs t] by (auto simp: sscanf_def)

lemma header_reads: "\<exists>v. header_version f = Some v" "\<exists>v. header_time mktime f = Some v"
proof -
  have "list_all no_text ([Conv_d] @ lits ''.'' @ [Conv_d])" "list_all no_text ([Conv_d] @ lits ''.'' @ [Conv_d] @ lits ''.'' @
      [Conv_d] @ lits '' '' @ [Conv_d] @ lits '':'' @ [Conv_d] @ lits '':'' @ [Conv_d])"
    by (simp_all add: lits_def str_def is_space_def no_text_def)
  note r = this [THEN sscanf_total]
  show "\<exists>v. header_version f = Some v"
  proof (cases f)
    case (Some v)
    then show ?thesis unfolding header_version_def using r(1) [of v] by (elim exE) simp
  qed (simp add: header_version_def)
  show "\<exists>v. header_time mktime f = Some v"
  proof (cases f)
    case (Some v)
    then show ?thesis unfolding header_time_def using r(2) [of v] by (elim exE) simp
  qed (simp add: header_time_def)
qed

definition header_ok :: "header \<Rightarrow> bool" where
  "header_ok header = list_all (\<lambda>f. case f of None \<Rightarrow> True | Some v \<Rightarrow> field_ok v) header"

lemma report_header_fields:
  assumes "report_header opt localtime info rd = Some header"
  shows "length header = HEADER_MAX" "header ! HEADER_ARCH = th_arch info" "header ! HEADER_PROCESS = th_name info"
    "header ! HEADER_ORIGIN = th_origin info" "header ! HEADER_TIMESTAMP \<noteq> None"
  using assms by (auto simp: report_header_def Option.bind_eq_Some_conv HEADER_MAX_def HEADER_ARCH_def HEADER_PROCESS_def HEADER_ORIGIN_def
      HEADER_TIMESTAMP_def Let_def)

lemma read_header:
  assumes h: "report_header opt localtime info rd = Some header" "sp_rtrace_print_header now header = Some line" "header_ok header"
  shows "\<exists>hd rd'. parse_header mktime rd_create line = Some (hd, rd') \<and> th_arch hd = th_arch info \<and> th_name hd = th_name info \<and>
    th_origin hd = th_origin info"
proof -
  note f = report_header_fields [OF h(1)]
  have ok: "field_ok v" if "i < HEADER_MAX" "header_value now header i = Some v" for i v
  proof (cases "i = HEADER_VERSION")
    case True
    then show ?thesis using that(2) by (auto simp: header_value_def HEADER_VERSION_def HEADER_TIMESTAMP_def field_ok_def str_def LINE_MAX_def)
  next
    case False
    then have "header ! i = Some v" using that f(5) by (auto simp: header_value_def split: if_splits option.splits)
    moreover have "header ! i \<in> set header" using that(1) f(1) by simp
    ultimately show ?thesis using h(3) by (auto simp: header_ok_def list_all_iff split: option.splits)
  qed
  let ?h = "map (header_value now header) [0..<HEADER_MAX]"
  have p: "sp_rtrace_parser_parse_header line = Some ?h" using ok h(2) by (intro header_roundtrip) auto
  obtain v1 v2 where v: "header_version (?h ! HEADER_VERSION) = Some (v1, v2)" using header_reads(1) by (metis surj_pair)
  obtain ts where t: "header_time mktime (?h ! HEADER_TIMESTAMP) = Some ts" using header_reads(2) by blast
  have n: "?h ! HEADER_ARCH = th_arch info" "?h ! HEADER_PROCESS = th_name info" "?h ! HEADER_ORIGIN = th_origin info"
    using f(2-4) by (simp_all add: HEADER_ARCH_def HEADER_PROCESS_def HEADER_ORIGIN_def HEADER_MAX_def header_value_def HEADER_TIMESTAMP_def
        HEADER_VERSION_def)
  show ?thesis unfolding parse_header_def p using v t n by simp
qed

definition report_lines :: "u32 option \<Rightarrow> rd \<Rightarrow> rheap \<Rightarrow> cstring list" where
  "report_lines clock rd h = environment_lines rd h @ concat (map (call_lines clock h) (rd_calls rd))"

lemma write_calls_lines:
  assumes "fold_opt (write_function_call clock h) cs fmt = Some fmt'" "fm_comments fmt = []" "\<forall>c\<in>set cs. call_writable h rs c"
  shows "fm_text fmt' = fm_text fmt @ concat (concat (map (call_lines clock h) cs)) \<and> fm_comments fmt' = [] \<and>
    (\<forall>c\<in>set cs. \<exists>call line tr t. rh_fcalls h c = Some call \<and> sp_rtrace_print_call clock (rh_resources h) (call_data call) = Some line \<and>
       rh_ftraces h (call_trace call) = Some tr \<and> sp_rtrace_print_trace tr = Some t)"
  using assms
proof (induction cs arbitrary: fmt)
  case (Cons c cs)
  obtain call where call: "rh_fcalls h c = Some call" "call_trace call \<noteq> NULL"
    using Cons.prems(3) by (auto simp: call_writable_def split: option.splits)
  obtain fmt1 where fmt1: "write_function_call clock h c fmt = Some fmt1" "fold_opt (write_function_call clock h) cs fmt1 = Some fmt'"
    using Cons.prems(1) by (auto simp: Option.bind_eq_Some_conv)
  from write_call_lines [OF fmt1(1) Cons.prems(2) call] have w: "fm_text fmt1 = fm_text fmt @ concat (call_lines clock h c)"
      "fm_comments fmt1 = []" "\<exists>line tr t. sp_rtrace_print_call clock (rh_resources h) (call_data call) = Some line \<and>
      rh_ftraces h (call_trace call) = Some tr \<and> sp_rtrace_print_trace tr = Some t" by auto
  from Cons.IH [OF fmt1(2) w(2)] Cons.prems(3) w(1,3) call(1) show ?case by auto
qed simp

lemma fold_calls:
  assumes "\<forall>c\<in>set cs. call_writable h (xt_resources a) c \<and>
      (\<exists>call line tr t. rh_fcalls h c = Some call \<and> sp_rtrace_print_call clock (rh_resources h) (call_data call) = Some line \<and>
       rh_ftraces h (call_trace call) = Some tr \<and> sp_rtrace_print_trace tr = Some t)" "idle a"
  shows "fold (line_add RECORD_ALL) (concat (map (call_lines clock h) cs)) a = a\<lparr>xt_done := xt_done a @ map (call_abs h) cs\<rparr>"
  using assms
proof (induction cs arbitrary: a)
  case (Cons c cs)
  obtain call line tr t where c: "call_writable h (xt_resources a) c" "rh_fcalls h c = Some call"
      "sp_rtrace_print_call clock (rh_resources h) (call_data call) = Some line" "rh_ftraces h (call_trace call) = Some tr"
      "sp_rtrace_print_trace tr = Some t" using Cons.prems(1) by auto
  have "fold (line_add RECORD_ALL) (call_lines clock h c) a = a\<lparr>xt_done := xt_done a @ [call_abs h c]\<rparr>"
    using fold_call_lines [OF c(1) Cons.prems(2) c(2-5)] .
  moreover have "idle (a\<lparr>xt_done := xt_done a @ [call_abs h c]\<rparr>)" using Cons.prems(2) by (simp add: idle_def)
  ultimately show ?case using Cons.IH [of "a\<lparr>xt_done := xt_done a @ [call_abs h c]\<rparr>"] Cons.prems(1) by simp
qed simp

text \<open>Every line of a report fits into the buffers of the parser.\<close>

lemma call_lines_ok:
  assumes ok: "call_writable h rs c"
    and call: "rh_fcalls h c = Some call" "sp_rtrace_print_call clock (rh_resources h) (call_data call) = Some line"
    and tr: "rh_ftraces h (call_trace call) = Some tr" "sp_rtrace_print_trace tr = Some t"
  shows "list_all (line_ok RECORD_ALL) (call_lines clock h c)"
proof -
  obtain name rn where ok': "fcall_ok (call_data call)" "fc_name (call_data call) = Some name" "trace_writable tr" "args_writable (call_args call)"
      "call_res_name (rh_resources h) (call_data call) = Some rn" "call_text_ok name rn"
    using ok call(1) tr(1) by (auto simp: call_writable_def split: option.splits)
  let ?is = "[0..<nat (sint (ucast (ft_nframes tr) :: u32))]"
  have "line_ok RECORD_ALL line" using record_call [OF ok'(1,2,5,6) call(2)] by (simp add: line_ok_def record_masks)
  moreover have "line_ok RECORD_ALL (sp_rtrace_print_args [g])" if "g \<in> set (call_fargs call)" for g
    using that ok'(4) record_arg [of g RECORD_ALL]
    by (auto simp: line_ok_def record_masks args_writable_def call_fargs_def list_all_iff split: option.splits)
  moreover have "line_ok RECORD_ALL (frame_line tr i)" if "i \<in> set ?is" for i
  proof -
    have "name_ok (frame_name tr i)"
      using print_frames_lines [of tr ?is t] tr(2) frame_names_ok [OF ok'(3)] that by (auto simp: sp_rtrace_print_trace_def)
    then show ?thesis using record_frame [of "frame_name tr i" RECORD_ALL "ft_frames tr ! i"]
      by (simp add: line_ok_def record_masks frame_line_def name_ok_def)
  qed
  moreover have "line_ok RECORD_ALL [10]" by (simp add: line_ok_def blank_record)
  ultimately show ?thesis using call tr(1) by (auto simp: call_lines_def Let_def list_all_iff)
qed

lemma environment_lines_ok:
  assumes ok: "environment_ok rd h" and res: "\<forall>r\<in>set (rd_resources rd). sp_rtrace_print_resource (rr_data (the (rh_resources h r))) \<noteq> None"
  shows "list_all (line_ok RECORD_ALL) (environment_lines rd h)"
proof -
  have "line_ok RECORD_ALL l" if "l \<in> set (comment_lines rd)" for l
    using comment_lines_kind [OF that] record_comment [of RECORD_ALL] by (auto simp: line_ok_def record_masks)
  moreover have "line_ok RECORD_ALL (resource_line h r)" if "r \<in> set (rd_resources rd)" for r
    using that ok res record_resource [of "rr_data (the (rh_resources h r))" "resource_line h r" RECORD_ALL]
    by (auto simp: line_ok_def record_masks environment_ok_def list_all_iff resource_line_def)
  ultimately show ?thesis using ok record_attachment [of _ RECORD_ALL] record_context [of _ RECORD_ALL] record_mmap [of _ RECORD_ALL]
    by (auto simp: environment_lines_def environment_ok_def list_all_iff line_ok_def record_masks)
qed

theorem report_cycle:
  assumes report: "write_report opt compare localtime now clock info rd h = Some text"
      "\<not> opt_compress opt" "\<not> opt_filter_leaks opt" "rd_comments rd = []"
    and ok: "environment_ok rd h" "\<forall>c\<in>set (rd_calls rd). call_writable h (map (\<lambda>r. rr_data (the (rh_resources h r))) (rd_resources rd)) c"
    and header: "report_header opt localtime info rd = Some header" "header_ok header"
      "\<forall>line. sp_rtrace_print_header now header = Some line \<longrightarrow> file_line line"
    and lines: "list_all file_line (report_lines clock rd h)" "length (report_lines clock rd h) < 2 ^ 31"
  shows "\<exists>hd rd' h'. read_text_data RECORD_ALL mktime junk rd_create rheap_init text = Some (Some hd, rd', h') \<and> rd_inv rd' h' \<and>
    map (call_abs h') (rd_calls rd') = msort_cmp call_order (map (call_abs h) (rd_calls rd)) \<and>
    rd_mmaps rd' = rd_mmaps rd \<and> rd_files rd' = rd_files rd \<and>
    map (\<lambda>r. rr_data (the (rh_resources h' r))) (rd_resources rd') = map (\<lambda>r. rr_data (the (rh_resources h r))) (rd_resources rd) \<and>
    th_arch hd = th_arch info \<and> th_name hd = th_name info \<and> th_origin hd = th_origin info"
proof -
  let ?e = "environment_text_abs rd h"
  obtain fmt1 fmt2 cs r where w: "write_trace_environment opt localtime now info rd h \<lparr>fm_text = [], fm_comments = []\<rparr> = Some fmt1"
      "fold_opt (write_function_call clock h) (rd_calls rd) fmt1 = Some fmt2"
      "write_comments (2 ^ 63 - 1) (fm_comments fmt2) = Some (cs, r)" "text = fm_text fmt2 @ cs"
    using report by (auto simp: write_report_def write_trace_calls_def Option.bind_eq_Some_conv)
  obtain line where l: "sp_rtrace_print_header now header = Some line" "fm_text fmt1 = line @ concat (environment_lines rd h)"
      "fm_comments fmt1 = []"
      "\<forall>r\<in>set (rd_resources rd). \<exists>res. rh_resources h r = Some res \<and> sp_rtrace_print_resource (rr_data res) \<noteq> None"
    using environment_text [OF w(1)] header(1) by auto
  then have res: "\<forall>r\<in>set (rd_resources rd). sp_rtrace_print_resource (rr_data (the (rh_resources h r))) \<noteq> None" by fastforce
  note c = write_calls_lines [OF w(2) l(3) ok(2)]
  have "text = fm_text fmt2" using w(3,4) c by simp
  then have t: "text = concat (line # report_lines clock rd h)" using c l(2) by (simp add: report_lines_def)
  have "text_lines text = line # report_lines clock rd h"
    unfolding t using lines(1) header(3) l(1) by (intro text_lines_concat) simp
  moreover obtain hd rd0 where hd: "parse_header mktime rd_create line = Some (hd, rd0)" "th_arch hd = th_arch info"
      "th_name hd = th_name info" "th_origin hd = th_origin info" using read_header [OF header(1) l(1) header(2)] by blast
  moreover have "list_all (line_ok RECORD_ALL) (report_lines clock rd h)"
    using environment_lines_ok [OF ok(1) res] c ok(2) call_lines_ok [of h _ _ _ clock]
    unfolding report_lines_def list_all_append by (fastforce simp: list_all_iff)
  ultimately obtain rd' h' where r: "read_text_data RECORD_ALL mktime junk rd_create rheap_init text = Some (Some hd, rd', h')" "rd_inv rd' h'"
      "map (call_abs h') (rd_calls rd') = text_calls (fold (line_add RECORD_ALL) (report_lines clock rd h) empty_text)"
      "same_records (fold (line_add RECORD_ALL) (report_lines clock rd h) empty_text) rd' h'"
    using read_text_refines [of "text" line "report_lines clock rd h" mktime hd rd0 RECORD_ALL junk] lines(2) by blast
  have i: "idle ?e" "xt_resources ?e = map (\<lambda>r. rr_data (the (rh_resources h r))) (rd_resources rd)" "xt_done ?e = []"
    by (simp_all add: environment_text_abs_def idle_def empty_text_def)
  have "fold (line_add RECORD_ALL) (concat (map (call_lines clock h) (rd_calls rd))) ?e = ?e\<lparr>xt_done := map (call_abs h) (rd_calls rd)\<rparr>"
    using fold_calls [of "rd_calls rd" h ?e clock] ok(2) c i by simp
  then have fold: "fold (line_add RECORD_ALL) (report_lines clock rd h) empty_text = ?e\<lparr>xt_done := map (call_abs h) (rd_calls rd)\<rparr>"
    using fold_environment [OF ok(1) res] by (simp add: report_lines_def)
  have "text_calls (?e\<lparr>xt_done := map (call_abs h) (rd_calls rd)\<rparr>) = msort_cmp call_order (map (call_abs h) (rd_calls rd))"
    using i by (simp add: text_calls_def close_args_def close_calls_def idle_def)
  moreover have "same_records (?e\<lparr>xt_done := map (call_abs h) (rd_calls rd)\<rparr>) rd' h'" using r(4) fold by simp
  ultimately show ?thesis using r hd fold by (auto simp: same_records_def environment_text_abs_def)
qed

end
