(* ===== verification/Filter_Laws.thy ===== *)
theory Filter_Laws
  imports Call_Filter
begin

text \<open>
  The filters that drop single calls share one contract: the callback decides by data that the
  removal of other calls does not change.  From the contract alone, the traversal keeps exactly
  the calls that pass, in order, and preserves the invariant of the trace data.
\<close>

section \<open>The contract of a filter callback\<close>

text \<open>The pass has removed calls and left everything else that later passes look at.\<close>

definition only_calls :: "rd \<Rightarrow> rheap \<Rightarrow> rd \<Rightarrow> rheap \<Rightarrow> bool" where
  "only_calls rd h rd' h' \<longleftrightarrow> rd_mmaps rd' = rd_mmaps rd \<and> rd_hinfo rd' = rd_hinfo rd \<and> set (rd_resources rd') \<subseteq> set (rd_resources rd) \<and>
     rh_resources h' = rh_resources h \<and> set (rd_calls rd') \<subseteq> set (rd_calls rd) \<and>
     (\<forall>c\<in>set (rd_calls rd'). rh_fcalls h' c = rh_fcalls h c \<and> call_frames h' c = call_frames h c)"

lemma only_calls_refl: "only_calls rd h rd h"
  by (simp add: only_calls_def)

lemma only_calls_trans: "only_calls rd h rd1 h1 \<Longrightarrow> only_calls rd1 h1 rd2 h2 \<Longrightarrow> only_calls rd h rd2 h2"
  by (auto simp: only_calls_def subset_iff)

lemma only_calls_removed:
  assumes "rd_inv rd h" "rd_inv rd' h'" "removed_call rd h c rd' h'"
  shows "only_calls rd h rd' h'"
proof -
  have eq: "rd' = rd\<lparr>rd_calls := remove1 c (rd_calls rd), rd_ftraces := rd_ftraces rd'\<rparr>" using assms(3) by (simp add: removed_call_def)
  have m: "rd_mmaps rd' = rd_mmaps rd" "rd_hinfo rd' = rd_hinfo rd" "rd_resources rd' = rd_resources rd" by (subst eq, simp)+
  have d: "distinct (rd_calls rd)" using assms(1) by (simp add: rd_inv_def inv_calls_def)
  have "d \<noteq> c \<and> d \<in> set (rd_calls rd)" if "d \<in> set (rd_calls rd')" for d
    using that removed_call_calls [OF assms(3)] d by (auto dest: notin_set_remove1)
  then show ?thesis using m assms(3) removed_call_frames [OF assms] by (auto simp: only_calls_def removed_call_def)
qed

locale call_predicate =
  fixes step :: "ptr \<Rightarrow> rd \<times> rheap \<Rightarrow> (rd \<times> rheap) option"
    and ready :: "rheap \<Rightarrow> ptr \<Rightarrow> bool"
    and keep :: "rheap \<Rightarrow> ptr \<Rightarrow> bool"
  assumes step_decides: "rd_inv rd h \<Longrightarrow> c \<in> set (rd_calls rd) \<Longrightarrow> ready h c \<Longrightarrow>
      step c (rd, h) = remove_if (\<not> keep h c) c (rd, h)"
    and stable: "rd_inv rd h \<Longrightarrow> rd_inv rd' h' \<Longrightarrow> removed_call rd h d rd' h' \<Longrightarrow> c \<in> set (rd_calls rd) \<Longrightarrow> c \<noteq> d \<Longrightarrow>
      keep h' c = keep h c \<and> ready h' c = ready h c"
begin

lemma fold_step:
  assumes "rd_inv rd h" "rd_calls rd = pre @ cs" "\<forall>c\<in>set cs. ready h c"
  shows "\<exists>rd' h'. fold_opt step cs (rd, h) = Some (rd', h') \<and> rd_inv rd' h' \<and>
    rd_calls rd' = pre @ filter (keep h) cs \<and> only_calls rd h rd' h'"
  using assms
proof (induction cs arbitrary: rd h pre)
  case (Cons c cs)
  have d: "distinct (pre @ c # cs)" using Cons.prems by (simp add: rd_inv_def inv_calls_def)
  have st: "step c (rd, h) = remove_if (\<not> keep h c) c (rd, h)"
    using Cons.prems by (intro step_decides) auto
  show ?case
  proof (cases "keep h c")
    case True
    then show ?thesis
      using Cons.IH [of rd h "pre @ [c]"] Cons.prems st by (simp add: remove_if_def)
  next
    case False
    obtain rd1 h1 where r: "rd_fcall_remove rd h c = Some (rd1, h1)" "rd_inv rd1 h1" "removed_call rd h c rd1 h1"
      using rd_fcall_remove_ok [of rd h c] Cons.prems by auto
    have calls: "rd_calls rd1 = pre @ cs" using removed_call_calls [OF r(3)] Cons.prems(2) d by (simp add: remove1_append)
    have ev: "keep h1 e = keep h e \<and> ready h1 e = ready h e" if "e \<in> set cs" for e
      using stable [OF Cons.prems(1) r(2,3), of e] Cons.prems(2) d that by auto
    have "filter (keep h1) cs = filter (keep h) cs" using ev by (auto cong: filter_cong)
    moreover obtain rd' h' where "fold_opt step cs (rd1, h1) = Some (rd', h')" "rd_inv rd' h'"
        "rd_calls rd' = pre @ filter (keep h1) cs" "only_calls rd1 h1 rd' h'"
      using Cons.IH [OF r(2) calls] Cons.prems(3) ev by auto
    moreover have "only_calls rd h rd1 h1" using only_calls_removed [OF Cons.prems(1) r(2,3)] .
    ultimately show ?thesis using st False r(1) only_calls_trans by (auto simp: remove_if_def)
  qed
qed (simp add: only_calls_refl)

lemma traversal:
  assumes "rd_inv rd h" "\<forall>c\<in>set (rd_calls rd). ready h c"
  shows "\<exists>rd' h'. fold_opt step (rd_calls rd) (rd, h) = Some (rd', h') \<and> rd_inv rd' h' \<and>
    rd_calls rd' = filter (keep h) (rd_calls rd) \<and> only_calls rd h rd' h'"
  using fold_step [OF assms(1), of "[]"] assms(2) by auto

end

section \<open>The filters fulfil it\<close>

lemma removed_call_data:
  assumes "removed_call rd h d rd' h'" "c \<noteq> d"
  shows "rh_fcalls h' c = rh_fcalls h c" "rh_resources h' = rh_resources h" "res_key h' c = res_key h c"
  using assms by (simp_all add: removed_call_def res_key_def)

definition context_passes :: "postproc_options \<Rightarrow> u32 \<Rightarrow> bool" where
  "context_passes opt ctx \<longleftrightarrow> (if opt_filter_context opt = 0 then ctx = 0 else ctx AND opt_filter_context opt \<noteq> 0)"

definition keep_context :: "postproc_options \<Rightarrow> rheap \<Rightarrow> ptr \<Rightarrow> bool" where
  "keep_context opt h c = context_passes opt (fc_context (call_data (the (rh_fcalls h c))))"

interpretation ctx: call_predicate "fcall_filter_context opt" "\<lambda>h c. True" "keep_context opt" for opt
proof
  fix rd h c assume "rd_inv rd h" "c \<in> set (rd_calls rd)"
  then obtain call where "rh_fcalls h c = Some call" by (auto simp: rd_inv_def elim: inv_callsD)
  then show "fcall_filter_context opt c (rd, h) = remove_if (\<not> keep_context opt h c) c (rd, h)"
    by (auto simp: fcall_filter_context_def keep_context_def context_passes_def remove_if_def)
next
  fix rd h rd' h' d c assume "removed_call rd h d rd' h'" "c \<noteq> d"
  then show "keep_context opt h' c = keep_context opt h c \<and> True = True"
    by (simp add: keep_context_def removed_call_data)
qed

definition keep_index :: "bool \<Rightarrow> int list \<Rightarrow> rheap \<Rightarrow> ptr \<Rightarrow> bool" where
  "keep_index incl ids h c \<longleftrightarrow> tfind (fc_index (call_data (the (rh_fcalls h c)))) ids = incl"

interpretation index: call_predicate "fcall_filter_index incl ids" "\<lambda>h c. True" "keep_index incl ids" for incl ids
proof
  fix rd h c assume "rd_inv rd h" "c \<in> set (rd_calls rd)"
  then obtain call where "rh_fcalls h c = Some call" by (auto simp: rd_inv_def elim: inv_callsD)
  then show "fcall_filter_index incl ids c (rd, h) = remove_if (\<not> keep_index incl ids h c) c (rd, h)"
    by (auto simp: fcall_filter_index_def keep_index_def remove_if_def Let_def)
next
  fix rd h rd' h' d c assume "removed_call rd h d rd' h'" "c \<noteq> d"
  then show "keep_index incl ids h' c = keep_index incl ids h c \<and> True = True"
    by (simp add: keep_index_def removed_call_data)
qed

text \<open>The resource filter needs a resource id between 1 and 32, or no resource type at all.\<close>

definition resource_ready :: "rheap \<Rightarrow> ptr \<Rightarrow> bool" where
  "resource_ready h c \<longleftrightarrow> (\<exists>p i. res_key h c = Some (p, i) \<and>
     (p = NULL \<or> (\<exists>r. rh_resources h p = Some r \<and> resource_bit (rs_id (rr_data r)) \<noteq> None)))"

definition keep_resource :: "postproc_options \<Rightarrow> rheap \<Rightarrow> ptr \<Rightarrow> bool" where
  "keep_resource opt h c \<longleftrightarrow> (let p = fst (the (res_key h c)) in
     p = NULL \<or> the (resource_bit (rs_id (rr_data (the (rh_resources h p))))) AND opt_filter_resource opt \<noteq> 0)"

interpretation res: call_predicate "fcall_filter_resource opt" resource_ready "keep_resource opt" for opt
proof
  fix rd h c assume "resource_ready h c"
  then show "fcall_filter_resource opt c (rd, h) = remove_if (\<not> keep_resource opt h c) c (rd, h)"
    by (auto simp: fcall_filter_resource_def keep_resource_def resource_ready_def remove_if_def)
next
  fix rd h rd' h' d c assume "removed_call rd h d rd' h'" "c \<noteq> d"
  then show "keep_resource opt h' c = keep_resource opt h c \<and> resource_ready h' c = resource_ready h c"
    by (simp add: keep_resource_def resource_ready_def removed_call_data)
qed

definition range_ready :: "rheap \<Rightarrow> ptr \<Rightarrow> bool" where
  "range_ready h c \<longleftrightarrow> call_frames h c \<noteq> None"

definition keep_range :: "call_address_filter \<Rightarrow> rheap \<Rightarrow> ptr \<Rightarrow> bool" where
  "keep_range f h c \<longleftrightarrow> (\<exists>a\<in>set (the (call_frames h c)). in_range f a)"

interpretation range: call_predicate "fcall_filter_range f" range_ready "keep_range f" for f
proof
  fix rd h c assume "range_ready h c"
  then show "fcall_filter_range f c (rd, h) = remove_if (\<not> keep_range f h c) c (rd, h)"
    by (auto simp: fcall_filter_range_def keep_range_def range_ready_def call_frames_def list_ex_iff bind_eq_Some_conv)
next
  fix rd h rd' h' d c
  assume "rd_inv rd h" "rd_inv rd' h'" "removed_call rd h d rd' h'" "c \<in> set (rd_calls rd)" "c \<noteq> d"
  then have "call_frames h' c = call_frames h c" by (rule removed_call_frames)
  then show "keep_range f h' c = keep_range f h c \<and> range_ready h' c = range_ready h c"
    by (simp add: keep_range_def range_ready_def)
qed

section \<open>Consequences\<close>

lemma context_mask_fold:
  "fold (context_filter_mask opt) cs (pre @ cs) = pre @ filter (\<lambda>c. cx_id c AND scast (opt_filter_context opt) \<noteq> 0) cs"
  if "\<forall>c\<in>set pre. cx_id c AND scast (opt_filter_context opt) \<noteq> 0"
  using that
proof (induction cs arbitrary: pre)
  case (Cons c cs)
  show ?case
  proof (cases "cx_id c AND scast (opt_filter_context opt) = 0")
    case True
    then have "c \<notin> set pre" using Cons.prems by auto
    then show ?thesis using Cons.IH [OF Cons.prems] True by (simp add: context_filter_mask_def remove1_append)
  next
    case False
    then show ?thesis using Cons.IH [of "pre @ [c]"] Cons.prems by (simp add: context_filter_mask_def)
  qed
qed simp

lemma filter_context_ok:
  assumes "rd_inv rd h"
  shows "\<exists>rd' h'. filter_context opt rd h = Some (rd', h') \<and> rd_inv rd' h' \<and>
    rd_calls rd' = filter (\<lambda>c. context_passes opt (fc_context (call_data (the (rh_fcalls h c))))) (rd_calls rd) \<and> only_calls rd h rd' h'"
proof -
  let ?rd = "rd\<lparr>rd_contexts := fold (context_filter_mask opt) (rd_contexts rd) (rd_contexts rd)\<rparr>"
  have "rd_inv ?rd h"
    using assms by (simp add: rd_inv_def inv_calls_def inv_traces_def call_ok_def trace_ok_def ref_ok_def)
  then show ?thesis
    using ctx.traversal [of ?rd h opt] by (auto simp: filter_context_def Let_def keep_context_def [abs_def] only_calls_def)
qed

lemma filter_resource_ok:
  assumes "rd_inv rd h" "\<forall>c\<in>set (rd_calls rd). resource_ready h c"
    "\<forall>p\<in>set (rd_resources rd). \<exists>r. rh_resources h p = Some r \<and> resource_bit (rs_id (rr_data r)) \<noteq> None"
    "distinct (rd_resources rd)"
  shows "\<exists>rd' h'. filter_resource opt rd h = Some (rd', h') \<and> rd_inv rd' h' \<and>
    rd_calls rd' = filter (keep_resource opt h) (rd_calls rd) \<and> only_calls rd h rd' h'"
proof -
  have "\<exists>ys. fold_opt (resource_filter_mask opt h) ps xs = Some ys \<and> set ys \<subseteq> set xs"
    if "\<forall>p\<in>set ps. p \<in> set xs \<and> (\<exists>r. rh_resources h p = Some r \<and> resource_bit (rs_id (rr_data r)) \<noteq> None)" "distinct ps" for ps xs
    using that
  proof (induction ps arbitrary: xs)
    case (Cons p ps)
    obtain r flag where r: "rh_resources h p = Some r" "resource_bit (rs_id (rr_data r)) = Some flag" using Cons.prems by auto
    have "\<forall>q\<in>set ps. q \<in> set (remove1 p xs)"
      using Cons.prems by (metis distinct.simps(2) in_set_remove1 list.set_intros(2))
    then show ?case using Cons.IH [of xs] Cons.IH [of "remove1 p xs"] Cons.prems r set_remove1_subset [of p xs]
      by (auto simp: resource_filter_mask_def seq_remove_def)
  qed simp
  then obtain ys where ys: "fold_opt (resource_filter_mask opt h) (rd_resources rd) (rd_resources rd) = Some ys" "set ys \<subseteq> set (rd_resources rd)"
    using assms(3,4) by blast
  have "rd_inv (rd\<lparr>rd_resources := ys\<rparr>) h"
    using assms(1) by (simp add: rd_inv_def inv_calls_def inv_traces_def call_ok_def trace_ok_def ref_ok_def)
  then show ?thesis
    using res.traversal [of "rd\<lparr>rd_resources := ys\<rparr>" h opt] assms(2) ys by (auto simp: filter_resource_def only_calls_def)
qed

end
