(* ===== verification/Postproc.thy ===== *)
theory Postproc
  imports Text_Cycle Filter_Laws Trace_Programs
begin

text \<open>
  The driver of the post-processor (sp\_rtrace\_postproc.c): the options of the command line, the
  choice between packets and text, the order of the passes and the report.
\<close>

section \<open>Options\<close>

text \<open>
  What \<open>getopt_long\<close> finds, one constructor for every case of the switch; the options with an
  argument carry it.
\<close>

datatype pp_arg =
    PA_help | PA_input cstring | PA_output cstring | PA_leaks | PA_compress | PA_resolve | PA_depth cstring | PA_sort cstring
  | PA_args | PA_context cstring | PA_resource cstring | PA_include cstring | PA_exclude cstring | PA_quiet | PA_unknown | PA_text
  | PA_range cstring

record pp_options =
  pp_input :: "cstring option"
  pp_output :: "cstring option"
  pp_leaks :: bool
  pp_compress :: bool
  pp_remove_args :: bool
  pp_resolve :: bool
  pp_context :: u32
  pp_compare :: "(ftrace_ref \<Rightarrow> ftrace_ref \<Rightarrow> int) option"
  pp_resource :: u32
  pp_depth :: u32
  pp_include :: "cstring option"
  pp_exclude :: "cstring option"
  pp_start :: u64
  pp_size :: u64
  pp_target :: "cstring option"
  pp_quiet :: bool

definition pp_default :: pp_options where
  "pp_default = \<lparr>pp_input = None, pp_output = None, pp_leaks = False, pp_compress = False, pp_remove_args = False, pp_resolve = False,
     pp_context = - 1, pp_compare = None, pp_resource = 0, pp_depth = - 1, pp_include = None, pp_exclude = None, pp_start = 0, pp_size = 0,
     pp_target = None, pp_quiet = False\<rparr>"

text \<open>\<open>Inl\<close> is the status the program exits with.\<close>

definition scan_mask :: "cstring \<Rightarrow> u32 option option" where
  "scan_mask optarg = do {
     (n, vs) \<leftarrow> sscanf [Conv_x] optarg;
     Some (case vs of [S_Hex v] \<Rightarrow> Some (ucast v) | _ \<Rightarrow> None) }"

definition sort_order :: "cstring \<Rightarrow> (ftrace_ref \<Rightarrow> ftrace_ref \<Rightarrow> int) option \<Rightarrow> (ftrace_ref \<Rightarrow> ftrace_ref \<Rightarrow> int) option" where
  "sort_order optarg old =
     (if optarg = str ''size'' then Some leaks_compare_by_size_desc
      else if optarg = str ''size-asc'' then Some leaks_compare_by_size_asc
      else if optarg = str ''count'' then Some leaks_compare_by_count_desc
      else if optarg = str ''count-asc'' then Some leaks_compare_by_count_asc
      else old)"

text \<open>A range in another format resets the bounds that were scanned, and keeps an earlier target.\<close>

definition range_option :: "cstring \<Rightarrow> pp_options \<Rightarrow> pp_options option" where
  "range_option optarg opt = do {
     (n, vs) \<leftarrow> sscanf ([Conv_set (\<lambda>c. c \<noteq> 58) 4096] @ lits '':'' @ [Conv_lx] @ lits ''+'' @ [Conv_lx]) optarg;
     Some (case vs of
             [S_Str target, S_Hex start, S_Hex n] \<Rightarrow> opt\<lparr>pp_target := Some target, pp_start := start, pp_size := n\<rparr>
           | _ \<Rightarrow> opt\<lparr>pp_start := 0, pp_size := 0\<rparr>) }"

fun parse_option :: "pp_arg \<Rightarrow> pp_options \<Rightarrow> (int + pp_options) option" where
  "parse_option PA_help opt = Some (Inl 0)"
| "parse_option (PA_input optarg) opt = Some (Inr (opt\<lparr>pp_input := Some optarg\<rparr>))"
| "parse_option (PA_output optarg) opt = Some (Inr (if optarg \<noteq> str ''stdout'' then opt\<lparr>pp_output := Some optarg\<rparr> else opt))"
| "parse_option PA_leaks opt = Some (Inr (opt\<lparr>pp_leaks := True\<rparr>))"
| "parse_option PA_compress opt = Some (Inr (opt\<lparr>pp_compress := True\<rparr>))"
| "parse_option PA_resolve opt = Some (Inr (opt\<lparr>pp_resolve := True\<rparr>))"
| "parse_option (PA_depth optarg) opt = Some (Inr (opt\<lparr>pp_depth := word_of_int (atoi optarg)\<rparr>))"
| "parse_option (PA_sort optarg) opt = Some (Inr (opt\<lparr>pp_compare := sort_order optarg (pp_compare opt)\<rparr>))"
| "parse_option PA_args opt = Some (Inr (opt\<lparr>pp_remove_args := True\<rparr>))"
| "parse_option (PA_context optarg) opt =
     map_option (\<lambda>r. case r of Some v \<Rightarrow> Inr (opt\<lparr>pp_context := v\<rparr>) | None \<Rightarrow> Inl (-1)) (scan_mask optarg)"
| "parse_option (PA_resource optarg) opt =
     map_option (\<lambda>r. case r of Some v \<Rightarrow> Inr (opt\<lparr>pp_resource := v\<rparr>) | None \<Rightarrow> Inl (-1)) (scan_mask optarg)"
| "parse_option (PA_include optarg) opt = Some (Inr (opt\<lparr>pp_exclude := None, pp_include := Some optarg\<rparr>))"
| "parse_option (PA_exclude optarg) opt =
     Some (Inr (if pp_include opt \<noteq> None then opt else opt\<lparr>pp_exclude := Some optarg\<rparr>))"
| "parse_option PA_quiet opt = Some (Inr (opt\<lparr>pp_quiet := True\<rparr>))"
| "parse_option PA_unknown opt = Some (Inl (-1))"
| "parse_option PA_text opt = Some (Inr opt)"
| "parse_option (PA_range optarg) opt = map_option Inr (range_option optarg opt)"

fun parse_options :: "pp_arg list \<Rightarrow> pp_options \<Rightarrow> (int + pp_options) option" where
  "parse_options [] opt = Some (Inr opt)"
| "parse_options (a # as) opt = do {
     r \<leftarrow> parse_option a opt;
     case r of Inl status \<Rightarrow> Some (Inl status) | Inr opt \<Rightarrow> parse_options as opt }"

definition validate_options :: "pp_options \<Rightarrow> int + pp_options" where
  "validate_options opt =
     (if pp_compress opt
      then Inr (if pp_compare opt = None then opt\<lparr>pp_compare := Some leaks_compare_by_size_asc\<rparr> else opt)
      else if pp_compare opt \<noteq> None then Inl (-1) else Inr opt)"

section \<open>Index files\<close>

text \<open>\<open>%li\<close> reads a number in the base that its prefix tells.\<close>

definition read_li :: "cstring \<Rightarrow> int option" where
  "read_li t = (
     let (neg, t) = read_sign (dropWhile is_space t);
         (base, ds) = (if read_prefix t \<noteq> t then (16, takeWhile is_hex (read_prefix t))
                       else if t \<noteq> [] \<and> hd t = 48 then (8, takeWhile (\<lambda>c. is_digit c \<and> c < 56) t)
                       else (10, takeWhile is_digit t));
         v = int (digits_to_nat base ds)
     in if ds = [] then None else Some (clamp_long (if neg then - v else v)))"

function index_lines :: "byte list \<Rightarrow> cstring list" where
  "index_lines f = (case fgets 128 f of None \<Rightarrow> [] | Some (line, f) \<Rightarrow> cstr line # index_lines f)"
  by pat_completeness auto
termination
  by (relation "measure length") (auto simp: fgets_def Let_def split: if_splits)

declare index_lines.simps [simp del]

definition filter_load_index_data :: "(cstring \<Rightarrow> byte list option) \<Rightarrow> cstring \<Rightarrow> int + int list" where
  "filter_load_index_data file filename =
     (case file filename of
        None \<Rightarrow> Inl (-1)
      | Some contents \<Rightarrow> Inr (List.map_filter read_li (index_lines contents)))"

section \<open>Passes\<close>

text \<open>The options the filters look at; the index files are loaded by the passes that use them.\<close>

definition pass_options :: "pp_options \<Rightarrow> postproc_options" where
  "pass_options opt = \<lparr>opt_filter_leaks = pp_leaks opt, opt_compress = pp_compress opt, opt_filter_context = pp_context opt,
     opt_filter_resource = pp_resource opt, opt_backtrace_depth = pp_depth opt, opt_include = None, opt_exclude = None,
     opt_range_start = pp_start opt, opt_range_size = pp_size opt, opt_range_target = pp_target opt\<rparr>"

type_synonym rtrace_state = "rd \<times> rheap"

definition index_pass ::
    "(int list \<Rightarrow> rd \<Rightarrow> rheap \<Rightarrow> rtrace_state option) \<Rightarrow> (cstring \<Rightarrow> byte list option) \<Rightarrow> cstring option \<Rightarrow> rtrace_state \<Rightarrow> (int + rtrace_state) option" where
  "index_pass pass file name s =
     (case name of
        None \<Rightarrow> Some (Inr s)
      | Some filename \<Rightarrow>
          (case filter_load_index_data file filename of
             Inl status \<Rightarrow> Some (Inl status)
           | Inr ids \<Rightarrow> map_option Inr (pass ids (fst s) (snd s))))"

definition first_passes :: "(cstring \<Rightarrow> byte list option) \<Rightarrow> pp_options \<Rightarrow> rtrace_state \<Rightarrow> rtrace_state option" where
  "first_passes file opt s = do {
     s \<leftarrow> (if pp_depth opt \<noteq> - 1 then filter_trim_backtraces (pass_options opt) (fst s) (snd s) else Some s);
     s \<leftarrow> (if pp_resource opt \<noteq> 0 then filter_resource (pass_options opt) (fst s) (snd s) else Some s);
     (case pp_target opt of
        None \<Rightarrow> Some s
      | Some target \<Rightarrow> map_option fst (filter_call_address_range (pass_options opt) target file (fst s) (snd s))) }"

definition last_passes :: "pp_options \<Rightarrow> rtrace_state \<Rightarrow> rtrace_state option" where
  "last_passes opt s = do {
     s \<leftarrow> (if pp_context opt \<noteq> - 1 then filter_context (pass_options opt) (fst s) (snd s) else Some s);
     s \<leftarrow> (if rd_hinfo (fst s) \<noteq> None then map_option (\<lambda>rd. (rd, snd s)) (filter_find_lowhigh_blocks (fst s) (snd s)) else Some s);
     s \<leftarrow> (if pp_leaks opt then filter_leaks (fst s) (snd s) else Some s);
     map_option (\<lambda>h. (fst s, h)) (filter_update_resource_visibility (fst s) (snd s)) }"

definition postproc_passes :: "(cstring \<Rightarrow> byte list option) \<Rightarrow> pp_options \<Rightarrow> rtrace_state \<Rightarrow> (int + rtrace_state) option" where
  "postproc_passes file opt s = do {
     s \<leftarrow> first_passes file opt s;
     r \<leftarrow> index_pass filter_include file (pp_include opt) s;
     case r of
       Inl status \<Rightarrow> Some (Inl status)
     | Inr s \<Rightarrow> do {
         r \<leftarrow> index_pass filter_exclude file (pp_exclude opt) s;
         case r of Inl status \<Rightarrow> Some (Inl status) | Inr s \<Rightarrow> map_option Inr (last_passes opt s) } }"

section \<open>The program\<close>

definition binary_header :: "rd \<Rightarrow> text_header option" where
  "binary_header rd = do {
     hs \<leftarrow> rd_hshake rd;
     info \<leftarrow> rd_pinfo rd;
     Some \<lparr>th_vmajor = hs_vmajor hs, th_vminor = hs_vminor hs, th_arch = Some (hs_arch hs), th_sec = uint (pi_sec info),
       th_name = Some (pi_name info), th_origin = Some (pi_trace_origin info), th_pid = sint (pi_pid info),
       th_depth = sint (pi_backtrace_depth info)\<rparr> }"

text \<open>The process record of a text header; a string that is not set is empty there.\<close>

definition text_pinfo :: "text_header \<Rightarrow> rd_pinfo" where
  "text_pinfo info = \<lparr>pi_pid = word_of_int (th_pid info), pi_backtrace_depth = word_of_int (th_depth info),
     pi_name = (case th_name info of Some n \<Rightarrow> n | None \<Rightarrow> []), pi_sec = word_of_int (th_sec info), pi_usec = 0,
     pi_trace_origin = (case th_origin info of Some n \<Rightarrow> n | None \<Rightarrow> [])\<rparr>"

record pp_env =
  pe_package :: cstring
  pe_junk :: u32
  pe_context :: sp_rtrace_context
  pe_mktime :: "int list \<Rightarrow> int"
  pe_localtime :: "int \<Rightarrow> tm"
  pe_now :: cstring
  pe_clock :: "u32 option"
  pe_cut :: "byte list \<Rightarrow> byte list list"
  pe_file :: "cstring \<Rightarrow> byte list option"
  pe_stdin :: "byte list"

text \<open>The first byte tells the kind of the input.  Only a log without a header has no process record.\<close>

definition read_input :: "pp_env \<Rightarrow> byte list \<Rightarrow> (int + text_header \<times> rtrace_state) option" where
  "read_input env input =
     (case input of
        [] \<Rightarrow> Some (Inl (-1))
      | proto_id # rest \<Rightarrow>
          if proto_id = HS_ID then do {
            r \<leftarrow> read_binary_data (pe_package env) (parser_init (pe_junk env)) (pe_cut env rest);
            Some (case r of
                    Inl e \<Rightarrow> Inl (-1)
                  | Inr p \<Rightarrow> (case binary_header (ps_rd p) of None \<Rightarrow> Inl (-1) | Some info \<Rightarrow> Inr (info, ps_rd p, ps_heap p))) }
          else do {
            (header, rd, h) \<leftarrow> read_text_data RECORD_ALL (pe_mktime env) (pe_context env) rd_create rheap_init input;
            Some (case header of None \<Rightarrow> Inl (-1) | Some info \<Rightarrow> Inr (info, rd\<lparr>rd_pinfo := Some (text_pinfo info)\<rparr>, h)) })"

definition postproc_process :: "pp_env \<Rightarrow> pp_options \<Rightarrow> byte list \<Rightarrow> (int + text_header \<times> rtrace_state) option" where
  "postproc_process env opt input = do {
     r \<leftarrow> read_input env input;
     case r of
       Inl status \<Rightarrow> Some (Inl status)
     | Inr (info, s) \<Rightarrow> do {
         r \<leftarrow> postproc_passes (pe_file env) opt s;
         Some (case r of
                 Inl status \<Rightarrow> Inl status
               | Inr s \<Rightarrow> Inr (if pp_depth opt \<noteq> - 1 then info\<lparr>th_depth := sint (pp_depth opt)\<rparr> else info, s)) } }"

text \<open>The whole program, up to the text that is written; \<open>extra\<close> tells that there are arguments that are no options.\<close>

definition postproc_main :: "pp_env \<Rightarrow> pp_arg list \<Rightarrow> bool \<Rightarrow> (int + cstring) option" where
  "postproc_main env args extra = do {
     r \<leftarrow> parse_options args pp_default;
     case r of
       Inl status \<Rightarrow> Some (Inl status)
     | Inr opt \<Rightarrow>
         if extra then Some (Inl (-1))
         else (case validate_options opt of
           Inl status \<Rightarrow> Some (Inl status)
         | Inr opt \<Rightarrow>
             (case (case pp_input opt of Some name \<Rightarrow> pe_file env name | None \<Rightarrow> Some (pe_stdin env)) of
                None \<Rightarrow> Some (Inl (-1))
              | Some input \<Rightarrow> do {
                  r \<leftarrow> postproc_process env opt input;
                  case r of
                    Inl status \<Rightarrow> Some (Inl status)
                  | Inr (info, rd, h) \<Rightarrow>
                      map_option Inr (write_report (pass_options opt) (the (pp_compare opt)) (pe_localtime env) (pe_now env) (pe_clock env)
                        info rd h) })) }"

section \<open>Trimming of the backtraces\<close>

lemma trim_keeps [simp]:
  "ft_bucket (trim_backtrace d r) = ft_bucket r" "ft_calls (trim_backtrace d r) = ft_calls r" "ft_ref_count (trim_backtrace d r) = ft_ref_count r"
  "trim_backtrace d (trim_backtrace d r) = trim_backtrace d r"
  by (simp_all add: trim_backtrace_def)

lemma trim_fold:
  assumes "\<forall>t\<in>set ts. rh_ftraces h t \<noteq> None"
  shows "fold_opt (\<lambda>t h. do { trace \<leftarrow> rh_ftraces h t; Some (h\<lparr>rh_ftraces := (rh_ftraces h)(t \<mapsto> trim_backtrace d trace)\<rparr>) }) ts h =
    Some (h\<lparr>rh_ftraces := \<lambda>t. if t \<in> set ts then map_option (trim_backtrace d) (rh_ftraces h t) else rh_ftraces h t\<rparr>)"
  using assms
proof (induction ts arbitrary: h)
  case (Cons t ts)
  then obtain r where r: "rh_ftraces h t = Some r" by auto
  let ?h = "h\<lparr>rh_ftraces := (rh_ftraces h)(t \<mapsto> trim_backtrace d r)\<rparr>"
  have "\<forall>t\<in>set ts. rh_ftraces ?h t \<noteq> None" using Cons.prems by simp
  note IH = Cons.IH [OF this]
  have "(\<lambda>u. if u \<in> set ts then map_option (trim_backtrace d) (rh_ftraces ?h u) else rh_ftraces ?h u) =
      (\<lambda>u. if u \<in> set (t # ts) then map_option (trim_backtrace d) (rh_ftraces h u) else rh_ftraces h u)"
    by (rule ext) (simp add: r)
  then show ?case using IH r by (simp del: fun_upd_apply)
qed simp

lemma trimmed_inv:
  assumes "rd_inv rd h" "\<forall>t r. ft_bucket (g t r) = ft_bucket r \<and> ft_calls (g t r) = ft_calls r \<and> ft_ref_count (g t r) = ft_ref_count r"
  shows "rd_inv (rd\<lparr>rd_pinfo := i\<rparr>) (h\<lparr>rh_ftraces := \<lambda>t. map_option (g t) (rh_ftraces h t)\<rparr>)"
proof -
  let ?h = "h\<lparr>rh_ftraces := \<lambda>t. map_option (g t) (rh_ftraces h t)\<rparr>" and ?rd = "rd\<lparr>rd_pinfo := i\<rparr>"
  have inv: "inv_calls rd h" "inv_traces {} rd h" "inv_fresh h" using assms(1) by (simp_all add: rd_inv_def)
  have "call_ok ?rd ?h c call" if "call_ok rd h c call" for c call
    using that assms(2) by (auto simp: call_ok_def)
  then have "inv_calls ?rd ?h" using inv(1) by (fastforce simp: inv_calls_def)
  moreover have ok: "trace_ok ?rd ?h t (g t r)" if "trace_ok rd h t r" for t r
    using that assms(2) by (simp add: trace_ok_def ref_ok_def)
  have "inv_traces {} ?rd ?h"
    unfolding inv_traces_def
  proof (intro conjI allI ballI)
    fix b t assume t: "t \<in> set (a_bucket (rd_ftraces ?rd) b)"
    then obtain r where r: "b < 65536" "t \<noteq> NULL" "rh_ftraces h t = Some r" "ft_bucket r = Some b" "trace_ok rd h t r" "ft_calls r \<noteq> []"
      using inv(2) by (auto simp: inv_traces_def)
    then show "b < 65536" "t \<noteq> NULL" by simp_all
    show "\<exists>r. rh_ftraces ?h t = Some r \<and> ft_bucket r = Some b \<and> trace_ok ?rd ?h t r \<and> (t \<in> {} \<or> ft_calls r \<noteq> [])"
      using r assms(2) ok by simp
  qed (use inv(2) in \<open>simp_all add: inv_traces_def\<close>)
  moreover have "inv_fresh ?h" using inv(3) by (auto simp: inv_fresh_def)
  ultimately show ?thesis by (simp add: rd_inv_def)
qed

lemma trim_used: "ft_used (trim_backtrace d r) = take (unat d) (ft_used r)"
proof -
  have "unat (ucast d :: u64) = unat d" by (simp add: unsigned_ucast_eq take_bit_nat_eq_self unsigned_less [where 'a = nat, of d, THEN less_trans])
  then show ?thesis by (auto simp: trim_backtrace_def ft_used_def word_less_nat_alt min_def)
qed

text \<open>The frames that are left of the backtrace of a call.\<close>

definition shown_frames :: "pp_options \<Rightarrow> rheap \<Rightarrow> ptr \<Rightarrow> pointer_t list" where
  "shown_frames opt h c = (if pp_depth opt \<noteq> - 1 then take (unat (pp_depth opt)) (the (call_frames h c)) else the (call_frames h c))"

lemma a_nodes_traces:
  assumes "rd_inv rd h"
  shows "\<forall>t\<in>set (a_nodes (rd_ftraces rd)). rh_ftraces h t \<noteq> None"
    "c \<in> set (rd_calls rd) \<Longrightarrow> rh_fcalls h c = Some call \<Longrightarrow> call_trace call \<noteq> NULL \<Longrightarrow> call_trace call \<in> set (a_nodes (rd_ftraces rd))"
proof -
  have sz: "a_size (rd_ftraces rd) = 65536" and inv: "inv_traces {} rd h" "inv_calls rd h" using assms by (auto simp: rd_inv_def inv_traces_def)
  show "\<forall>t\<in>set (a_nodes (rd_ftraces rd)). rh_ftraces h t \<noteq> None"
    using inv(1) by (fastforce simp: a_nodes_def inv_traces_def)
  show "call_trace call \<in> set (a_nodes (rd_ftraces rd))"
    if c: "c \<in> set (rd_calls rd)" "rh_fcalls h c = Some call" "call_trace call \<noteq> NULL"
  proof -
    have "call_ok rd h c call" using inv(2) c(1,2) by (auto elim: inv_callsD)
    then obtain b where b: "call_trace call \<in> set (a_bucket (rd_ftraces rd) b)" using c(3) by (auto simp: call_ok_def)
    then have "b < 65536" using inv(1) by (auto simp: inv_traces_def)
    then show ?thesis using b sz by (auto simp: a_nodes_def)
  qed
qed

text \<open>The passes keep what they do not remove.\<close>

definition same_data :: "pp_options \<Rightarrow> rtrace_state \<Rightarrow> rtrace_state \<Rightarrow> bool" where
  "same_data opt s s' \<longleftrightarrow> rd_mmaps (fst s') = rd_mmaps (fst s) \<and> (rd_hinfo (fst s') = None) = (rd_hinfo (fst s) = None) \<and>
     set (rd_resources (fst s')) \<subseteq> set (rd_resources (fst s)) \<and> rh_resources (snd s') = rh_resources (snd s) \<and>
     set (rd_calls (fst s')) \<subseteq> set (rd_calls (fst s)) \<and>
     (\<forall>c\<in>set (rd_calls (fst s')). rh_fcalls (snd s') c = rh_fcalls (snd s) c \<and>
        (call_frames (snd s) c \<noteq> None \<longrightarrow> call_frames (snd s') c = Some (shown_frames opt (snd s) c)))"

lemma trim_pass:
  assumes "rd_inv rd h" "pp_depth opt \<noteq> - 1 \<longrightarrow> rd_pinfo rd \<noteq> None"
  shows "\<exists>rd' h'. (if pp_depth opt \<noteq> - 1 then filter_trim_backtraces (pass_options opt) rd h else Some (rd, h)) = Some (rd', h') \<and>
    rd_inv rd' h' \<and> rd_calls rd' = rd_calls rd \<and> rd_resources rd' = rd_resources rd \<and> same_data opt (rd, h) (rd', h')"
proof (cases "pp_depth opt = - 1")
  case False
  let ?d = "pp_depth opt" and ?T = "set (a_nodes (rd_ftraces rd))"
  define g where "g t = (if t \<in> ?T then trim_backtrace ?d else id)" for t
  let ?h = "h\<lparr>rh_ftraces := \<lambda>t. map_option (g t) (rh_ftraces h t)\<rparr>"
  obtain i where i: "rd_pinfo rd = Some i" using assms(2) False by auto
  let ?rd = "rd\<lparr>rd_pinfo := Some (i\<lparr>pi_backtrace_depth := ?d\<rparr>)\<rparr>"
  have g: "\<forall>t r. ft_bucket (g t r) = ft_bucket r \<and> ft_calls (g t r) = ft_calls r \<and> ft_ref_count (g t r) = ft_ref_count r"
    by (simp add: g_def)
  have "(\<lambda>t. if t \<in> ?T then map_option (trim_backtrace ?d) (rh_ftraces h t) else rh_ftraces h t) = (\<lambda>t. map_option (g t) (rh_ftraces h t))"
    by (rule ext) (simp add: g_def option.map_id)
  with trim_fold [OF a_nodes_traces(1) [OF assms(1)], of ?d]
  have run: "filter_trim_backtraces (pass_options opt) rd h = Some (?rd, ?h)"
    using i by (simp add: filter_trim_backtraces_def pass_options_def Let_def)
  have inv: "rd_inv ?rd ?h" by (rule trimmed_inv [OF assms(1) g])
  have frames: "call_frames ?h c = Some (shown_frames opt h c)" if c: "c \<in> set (rd_calls rd)" "call_frames h c \<noteq> None" for c
  proof -
    obtain call r where r: "rh_fcalls h c = Some call" "rh_ftraces h (call_trace call) = Some r"
      using c(2) by (auto simp: call_frames_def bind_eq_Some_conv)
    have "rh_ftraces h NULL = None" using assms(1) by (simp add: rd_inv_def inv_fresh_def)
    then have "call_trace call \<noteq> NULL" using r(2) by (cases "call_trace call = NULL") simp_all
    from a_nodes_traces(2) [OF assms(1) c(1) r(1) this] show ?thesis
      using r False by (simp add: call_frames_def shown_frames_def g_def trim_used)
  qed
  then have "same_data opt (rd, h) (?rd, ?h)" by (simp add: same_data_def)
  then show ?thesis using False run inv by auto
qed (use assms in \<open>simp add: same_data_def shown_frames_def\<close>)

section \<open>What the passes select\<close>

definition index_list :: "(cstring \<Rightarrow> byte list option) \<Rightarrow> cstring \<Rightarrow> int list" where
  "index_list file name = (case filter_load_index_data file name of Inr ids \<Rightarrow> ids | Inl e \<Rightarrow> [])"

definition in_index :: "(cstring \<Rightarrow> byte list option) \<Rightarrow> cstring \<Rightarrow> rheap \<Rightarrow> ptr \<Rightarrow> bool" where
  "in_index file name h c = tfind (fc_index (call_data (the (rh_fcalls h c)))) (index_list file name)"

definition in_target :: "(cstring \<Rightarrow> byte list option) \<Rightarrow> pp_options \<Rightarrow> cstring \<Rightarrow> rtrace_state \<Rightarrow> ptr \<Rightarrow> bool" where
  "in_target file opt target s c =
     (let f = mmap_lookup_loop (pass_options opt) target file (rd_mmaps (fst s)) \<lparr>af_start = 0, af_size = 0\<rparr>
      in af_start f = 0 \<or> list_ex (in_range f) (shown_frames opt (snd s) c))"

definition selected :: "(cstring \<Rightarrow> byte list option) \<Rightarrow> pp_options \<Rightarrow> rtrace_state \<Rightarrow> ptr \<Rightarrow> bool" where
  "selected file opt s c \<longleftrightarrow>
     (pp_resource opt \<noteq> 0 \<longrightarrow> keep_resource (pass_options opt) (snd s) c) \<and>
     (case pp_target opt of Some target \<Rightarrow> in_target file opt target s c | None \<Rightarrow> True) \<and>
     (case pp_include opt of Some name \<Rightarrow> in_index file name (snd s) c | None \<Rightarrow> True) \<and>
     (case pp_exclude opt of Some name \<Rightarrow> \<not> in_index file name (snd s) c | None \<Rightarrow> True) \<and>
     (pp_context opt \<noteq> - 1 \<longrightarrow> context_passes (pass_options opt) (fc_context (call_data (the (rh_fcalls (snd s) c)))))"

text \<open>What the selected passes need: valid resource types, backtraces, index files.\<close>

definition passes_ready :: "(cstring \<Rightarrow> byte list option) \<Rightarrow> pp_options \<Rightarrow> rtrace_state \<Rightarrow> bool" where
  "passes_ready file opt s \<longleftrightarrow> rd_inv (fst s) (snd s) \<and> (pp_depth opt \<noteq> - 1 \<longrightarrow> rd_pinfo (fst s) \<noteq> None) \<and>
     (\<forall>p\<in>set (rd_resources (fst s)). rh_resources (snd s) p \<noteq> None) \<and>
     (pp_resource opt \<noteq> 0 \<longrightarrow> (\<forall>c\<in>set (rd_calls (fst s)). resource_ready (snd s) c) \<and> distinct (rd_resources (fst s)) \<and>
        (\<forall>p\<in>set (rd_resources (fst s)). \<exists>r. rh_resources (snd s) p = Some r \<and> resource_bit (rs_id (rr_data r)) \<noteq> None)) \<and>
     (pp_target opt \<noteq> None \<longrightarrow> (\<forall>c\<in>set (rd_calls (fst s)). call_frames (snd s) c \<noteq> None)) \<and>
     (\<forall>name. pp_include opt = Some name \<or> pp_exclude opt = Some name \<longrightarrow> file name \<noteq> None) \<and>
     (pp_leaks opt \<longrightarrow> (\<forall>c\<in>set (rd_calls (fst s)). call_typed (snd s) c) \<and> resource_ids_unique (snd s))"

definition passed :: "pp_options \<Rightarrow> rtrace_state \<Rightarrow> (ptr \<Rightarrow> bool) \<Rightarrow> rtrace_state \<Rightarrow> bool" where
  "passed opt s P s' \<longleftrightarrow> rd_inv (fst s') (snd s') \<and> same_data opt s s' \<and> rd_calls (fst s') = filter P (rd_calls (fst s))"

lemma same_data_only:
  assumes "same_data opt s (rd1, h1)" "only_calls rd1 h1 rd2 h2"
  shows "same_data opt s (rd2, h2)"
proof -
  have "rh_fcalls h2 c = rh_fcalls (snd s) c \<and> (call_frames (snd s) c \<noteq> None \<longrightarrow> call_frames h2 c = Some (shown_frames opt (snd s) c))"
    if c: "c \<in> set (rd_calls rd2)" for c
  proof -
    have "rh_fcalls h2 c = rh_fcalls h1 c" "call_frames h2 c = call_frames h1 c" "c \<in> set (rd_calls rd1)"
      using assms(2) c by (auto simp: only_calls_def)
    then show ?thesis using assms(1) by (simp add: same_data_def)
  qed
  moreover have "set (rd_calls rd2) \<subseteq> set (rd_calls (fst s))" "set (rd_resources rd2) \<subseteq> set (rd_resources (fst s))"
    using assms by (auto simp: same_data_def only_calls_def)
  ultimately show ?thesis using assms by (simp add: same_data_def only_calls_def)
qed

lemma passed_step:
  assumes "passed opt s P (rd1, h1)" "rd_inv rd2 h2" "only_calls rd1 h1 rd2 h2" "rd_calls rd2 = filter Q1 (rd_calls rd1)"
    "\<And>c. c \<in> set (rd_calls rd1) \<Longrightarrow> Q1 c = Q c"
  shows "passed opt s (\<lambda>c. P c \<and> Q c) (rd2, h2)"
proof -
  have "rd_calls rd2 = filter Q (rd_calls rd1)" using assms(4,5) by (auto cong: filter_cong)
  then have "rd_calls rd2 = filter (\<lambda>c. P c \<and> Q c) (rd_calls (fst s))" using assms(1) by (simp add: passed_def conj_commute)
  moreover have "same_data opt s (rd2, h2)" using same_data_only [OF _ assms(3)] assms(1) by (simp add: passed_def)
  ultimately show ?thesis using assms(2) by (simp add: passed_def)
qed

lemma passed_call:
  assumes "passed opt s P (rd1, h1)" "c \<in> set (rd_calls rd1)"
  shows "rh_fcalls h1 c = rh_fcalls (snd s) c" "rh_resources h1 = rh_resources (snd s)" "c \<in> set (rd_calls (fst s))" "res_key h1 c = res_key (snd s) c"
    "call_frames (snd s) c \<noteq> None \<Longrightarrow> call_frames h1 c = Some (shown_frames opt (snd s) c)"
  using assms by (auto simp: passed_def same_data_def res_key_def)

lemma resource_pass:
  assumes "passed opt s P (rd1, h1)" "rd_resources rd1 = rd_resources (fst s)" "passes_ready file opt s"
  shows "\<exists>s'. (if pp_resource opt \<noteq> 0 then filter_resource (pass_options opt) rd1 h1 else Some (rd1, h1)) = Some s' \<and>
    passed opt s (\<lambda>c. P c \<and> (pp_resource opt \<noteq> 0 \<longrightarrow> keep_resource (pass_options opt) (snd s) c)) s'"
proof (cases "pp_resource opt = 0")
  case False
  have res: "rh_resources h1 = rh_resources (snd s)" using assms(1) by (simp add: passed_def same_data_def)
  have "\<forall>c\<in>set (rd_calls rd1). resource_ready h1 c"
    using passed_call [OF assms(1)] assms(3) False by (auto simp: passes_ready_def resource_ready_def res)
  moreover have "\<forall>p\<in>set (rd_resources rd1). \<exists>r. rh_resources h1 p = Some r \<and> resource_bit (rs_id (rr_data r)) \<noteq> None" "distinct (rd_resources rd1)"
    using assms(2,3) False by (auto simp: passes_ready_def res)
  ultimately obtain rd2 h2 where r: "filter_resource (pass_options opt) rd1 h1 = Some (rd2, h2)" "rd_inv rd2 h2"
    "rd_calls rd2 = filter (keep_resource (pass_options opt) h1) (rd_calls rd1)" "only_calls rd1 h1 rd2 h2"
    using filter_resource_ok [of rd1 h1 "pass_options opt"] assms(1) by (auto simp: passed_def)
  have "passed opt s (\<lambda>c. P c \<and> (pp_resource opt \<noteq> 0 \<longrightarrow> keep_resource (pass_options opt) (snd s) c)) (rd2, h2)"
    by (rule passed_step [OF assms(1) r(2,4,3)]) (use False in \<open>simp add: keep_resource_def passed_call [OF assms(1)] res\<close>)
  then show ?thesis using r(1) False by auto
qed (use assms(1) in simp)

lemma range_pass:
  assumes "passed opt s P (rd1, h1)" "passes_ready file opt s"
  shows "\<exists>s'. (case pp_target opt of None \<Rightarrow> Some (rd1, h1)
      | Some target \<Rightarrow> map_option fst (filter_call_address_range (pass_options opt) target file rd1 h1)) = Some s' \<and>
    passed opt s (\<lambda>c. P c \<and> (case pp_target opt of Some target \<Rightarrow> in_target file opt target s c | None \<Rightarrow> True)) s'"
proof (cases "pp_target opt")
  case (Some target)
  let ?f = "mmap_lookup_loop (pass_options opt) target file (rd_mmaps (fst s)) \<lparr>af_start = 0, af_size = 0\<rparr>"
  have mm: "rd_mmaps rd1 = rd_mmaps (fst s)" using assms(1) by (simp add: passed_def same_data_def)
  show ?thesis
  proof (cases "af_start ?f = 0")
    case True
    then show ?thesis using assms(1) Some mm by (auto simp: filter_call_address_range_def in_target_def Let_def)
  next
    case False
    have fr: "call_frames h1 c = Some (shown_frames opt (snd s) c)" if "c \<in> set (rd_calls rd1)" for c
      using passed_call(3,5) [OF assms(1) that] assms(2) Some by (auto simp: passes_ready_def)
    then have "\<forall>c\<in>set (rd_calls rd1). range_ready h1 c" by (simp add: range_ready_def)
    then obtain rd2 h2 where r: "fold_opt (fcall_filter_range ?f) (rd_calls rd1) (rd1, h1) = Some (rd2, h2)" "rd_inv rd2 h2"
      "rd_calls rd2 = filter (keep_range ?f h1) (rd_calls rd1)" "only_calls rd1 h1 rd2 h2"
      using range.traversal [of rd1 h1 ?f] assms(1) by (auto simp: passed_def)
    have "passed opt s (\<lambda>c. P c \<and> in_target file opt target s c) (rd2, h2)"
      by (rule passed_step [OF assms(1) r(2,4,3)]) (use False in \<open>auto simp: keep_range_def fr in_target_def list_ex_iff\<close>)
    then show ?thesis using r(1) False Some mm by (simp add: filter_call_address_range_def Let_def)
  qed
qed (use assms(1) in simp)

lemma index_pass_ok:
  assumes "passed opt s P (rd1, h1)" "\<forall>name. fname = Some name \<longrightarrow> file name \<noteq> None"
    "pass = (\<lambda>ids rd h. fold_opt (fcall_filter_index incl ids) (rd_calls rd) (rd, h))"
  shows "\<exists>s'. index_pass pass file fname (rd1, h1) = Some (Inr s') \<and>
    passed opt s (\<lambda>c. P c \<and> (case fname of Some name \<Rightarrow> in_index file name (snd s) c = incl | None \<Rightarrow> True)) s'"
proof (cases fname)
  case (Some name)
  then obtain bs where "file name = Some bs" using assms(2) by auto
  then have ids: "filter_load_index_data file name = Inr (index_list file name)" by (simp add: index_list_def filter_load_index_data_def)
  obtain rd2 h2 where r: "fold_opt (fcall_filter_index incl (index_list file name)) (rd_calls rd1) (rd1, h1) = Some (rd2, h2)" "rd_inv rd2 h2"
    "rd_calls rd2 = filter (keep_index incl (index_list file name) h1) (rd_calls rd1)" "only_calls rd1 h1 rd2 h2"
    using index.traversal [of rd1 h1 incl "index_list file name"] assms(1) by (auto simp: passed_def)
  have "passed opt s (\<lambda>c. P c \<and> in_index file name (snd s) c = incl) (rd2, h2)"
    by (rule passed_step [OF assms(1) r(2,4,3)]) (simp add: keep_index_def in_index_def passed_call [OF assms(1)])
  then show ?thesis using r(1) Some ids assms(3) by (simp add: index_pass_def)
qed (use assms(1) in \<open>simp add: index_pass_def\<close>)

lemma context_pass:
  assumes "passed opt s P (rd1, h1)"
  shows "\<exists>s'. (if pp_context opt \<noteq> - 1 then filter_context (pass_options opt) rd1 h1 else Some (rd1, h1)) = Some s' \<and>
    passed opt s (\<lambda>c. P c \<and> (pp_context opt \<noteq> - 1 \<longrightarrow> context_passes (pass_options opt) (fc_context (call_data (the (rh_fcalls (snd s) c)))))) s'"
proof (cases "pp_context opt = - 1")
  case False
  let ?Q = "\<lambda>h c. context_passes (pass_options opt) (fc_context (call_data (the (rh_fcalls h c))))"
  obtain rd2 h2 where r: "filter_context (pass_options opt) rd1 h1 = Some (rd2, h2)" "rd_inv rd2 h2"
    "rd_calls rd2 = filter (?Q h1) (rd_calls rd1)" "only_calls rd1 h1 rd2 h2"
    using filter_context_ok [of rd1 h1 "pass_options opt"] assms(1) by (auto simp: passed_def)
  have "passed opt s (\<lambda>c. P c \<and> (pp_context opt \<noteq> - 1 \<longrightarrow> ?Q (snd s) c)) (rd2, h2)"
    by (rule passed_step [OF assms(1) r(2,4,3)]) (use False in \<open>simp add: passed_call [OF assms(1)]\<close>)
  then show ?thesis using r(1) False by auto
qed (use assms(1) in simp)

lemma lowhigh_pass:
  assumes "passed opt s P (rd1, h1)"
  shows "\<exists>s'. (if rd_hinfo rd1 \<noteq> None then map_option (\<lambda>rd. (rd, h1)) (filter_find_lowhigh_blocks rd1 h1) else Some (rd1, h1)) = Some s' \<and>
    passed opt s P s'"
proof (cases "rd_hinfo rd1")
  case (Some hi)
  have inv: "rd_inv rd1 h1" using assms by (simp add: passed_def)
  have "\<exists>hi'. fold_opt (fcall_find_lowhigh_blocks h1) cs hi = Some hi'" if "\<forall>c\<in>set cs. rh_fcalls h1 c \<noteq> None" for cs hi
    using that by (induction cs arbitrary: hi) (auto simp: fcall_find_lowhigh_blocks_def Let_def)
  moreover have "\<forall>c\<in>set (rd_calls rd1). rh_fcalls h1 c \<noteq> None" using inv by (auto simp: rd_inv_def elim: inv_callsD)
  ultimately obtain hi' where "fold_opt (fcall_find_lowhigh_blocks h1) (rd_calls rd1) (hi\<lparr>hi_lowest_block := - 1\<rparr>) = Some hi'" by blast
  then have "filter_find_lowhigh_blocks rd1 h1 = Some (rd1\<lparr>rd_hinfo := Some hi'\<rparr>)"
    using Some by (simp add: filter_find_lowhigh_blocks_def)
  moreover have "rd_inv (rd1\<lparr>rd_hinfo := Some hi'\<rparr>) h1"
    using inv by (simp add: rd_inv_def inv_calls_def inv_traces_def call_ok_def trace_ok_def ref_ok_def)
  ultimately show ?thesis using assms Some by (simp add: passed_def same_data_def)
qed (use assms in simp)

lemma bind_SomeE: "m \<bind> f = Some y \<Longrightarrow> (\<And>x. m = Some x \<Longrightarrow> f x = Some y \<Longrightarrow> R) \<Longrightarrow> R"
  by (cases m) auto

lemma remove_resources: "rd_fcall_remove rd h c = Some (rd', h') \<Longrightarrow> rd_resources rd' = rd_resources rd"
  unfolding rd_fcall_remove_def Let_def case_prod_beta by (auto elim!: bind_SomeE split: if_split_asm)

lemma remove_call_resources: "remove_call c s = Some t \<Longrightarrow> rd_resources (fst t) = rd_resources (fst s)"
  using remove_resources by (cases s) (auto simp: remove_call_def)

lemma remove_freed_resources:
  assumes "fcall_remove_freed c (rd, h, idx) = Some t"
  shows "rd_resources (fst t) = rd_resources rd"
  using assms unfolding fcall_remove_freed_def prod.case Let_def case_prod_beta
  by (auto elim!: bind_SomeE split: if_split_asm option.split_asm dest!: remove_call_resources)

lemma leaks_resources:
  assumes "filter_leaks rd h = Some (rd', h')"
  shows "rd_resources rd' = rd_resources rd"
proof -
  have "rd_resources (fst t) = rd_resources (fst s)" if "fold_opt fcall_remove_freed cs s = Some t" for cs s t
    using that
  proof (induction cs arbitrary: s)
    case (Cons c cs)
    then obtain s1 where "fcall_remove_freed c s = Some s1" "fold_opt fcall_remove_freed cs s1 = Some t" by (auto simp: bind_eq_Some_conv)
    then show ?case using Cons.IH [of s1] remove_freed_resources [of c "fst s" "fst (snd s)" "snd (snd s)" s1] by simp
  qed simp
  then show ?thesis using assms by (fastforce simp: filter_leaks_def bind_eq_Some_conv)
qed

lemma visibility_pass:
  assumes "rd_inv rd h" "\<forall>p\<in>set (rd_resources rd). rh_resources h p \<noteq> None"
  shows "\<exists>h'. filter_update_resource_visibility rd h = Some h' \<and> rd_inv rd h' \<and> rh_fcalls h' = rh_fcalls h"
proof (cases "\<exists>p. rd_resources rd = [p]")
  case True
  then obtain p r where p: "rd_resources rd = [p]" "rh_resources h p = Some r" using assms(2) by auto
  have "\<forall>q. q = NULL \<or> rh_next h \<le> q \<longrightarrow> rh_resources h q = None" using assms(1) by (simp add: rd_inv_def inv_fresh_def)
  then have "p \<noteq> NULL" "\<not> rh_next h \<le> p" using p(2) by (metis option.distinct(1))+
  then have "inv_fresh (h\<lparr>rh_resources := (rh_resources h)(p \<mapsto> x)\<rparr>)" for x
    using assms(1) by (auto simp: rd_inv_def inv_fresh_def)
  then have "rd_inv rd (h\<lparr>rh_resources := (rh_resources h)(p \<mapsto> x)\<rparr>)" for x
    using assms(1) by (simp add: rd_inv_def inv_calls_def inv_traces_def call_ok_def trace_ok_def ref_ok_def)
  then show ?thesis using p by (simp add: filter_update_resource_visibility_def)
next
  case False
  then have "filter_update_resource_visibility rd h = Some h"
    by (auto simp: filter_update_resource_visibility_def split: list.split)
  then show ?thesis using assms(1) by simp
qed

text \<open>The calls that are left, and their data.\<close>

definition left_calls :: "pp_options \<Rightarrow> rtrace_state \<Rightarrow> ptr list \<Rightarrow> ptr list" where
  "left_calls opt s cs = (if pp_leaks opt then survivors Map.empty (map (call_event (snd s)) cs) else cs)"

lemma call_event_cong: "rh_fcalls h' c = rh_fcalls h c \<Longrightarrow> rh_resources h' = rh_resources h \<Longrightarrow> call_event h' c = call_event h c"
  by (simp add: call_event_def res_key_def is_refcounted_def)

lemma leaks_pass:
  assumes "passed opt s P (rd1, h1)" "passes_ready file opt s"
  shows "\<exists>rd' h'. (if pp_leaks opt then filter_leaks rd1 h1 else Some (rd1, h1)) = Some (rd', h') \<and> rd_inv rd' h' \<and>
    rd_calls rd' = left_calls opt s (filter P (rd_calls (fst s))) \<and> set (rd_resources rd') \<subseteq> set (rd_resources (fst s)) \<and>
    rh_resources h' = rh_resources (snd s) \<and> (\<forall>c\<in>set (rd_calls rd'). rh_fcalls h' c = rh_fcalls (snd s) c)"
proof (cases "pp_leaks opt")
  case True
  have inv: "rd_inv rd1 h1" "rh_resources h1 = rh_resources (snd s)" "rd_calls rd1 = filter P (rd_calls (fst s))"
      "set (rd_resources rd1) \<subseteq> set (rd_resources (fst s))"
    using assms(1) by (simp_all add: passed_def same_data_def)
  have typed: "\<forall>c\<in>set (rd_calls rd1). call_typed h1 c" "resource_ids_unique h1"
    using assms(2) True passed_call [OF assms(1)] by (auto simp: passes_ready_def call_typed_def resource_ids_unique_def inv(2))
  obtain rd' h' where r: "filter_leaks rd1 h1 = Some (rd', h')" "rd_inv rd' h'"
      "rd_calls rd' = survivors Map.empty (map (call_event h1) (rd_calls rd1))" "same_calls h1 (set (rd_calls rd')) h'"
    using filter_leaks_survivors [OF inv(1) typed] by blast
  have ev: "map (call_event h1) (rd_calls rd1) = map (call_event (snd s)) (rd_calls rd1)"
    by (rule map_cong [OF refl]) (rule call_event_cong [OF passed_call(1,2) [OF assms(1)]])
  have sub: "set (rd_calls rd') \<subseteq> set (rd_calls rd1)"
    unfolding r(3) using survivors_sub [of Map.empty "map (call_event h1) (rd_calls rd1)"] by (auto simp: call_event_def)
  have "rh_fcalls h' c = rh_fcalls (snd s) c" if "c \<in> set (rd_calls rd')" for c
    using r(4) sub that passed_call(1) [OF assms(1)] by (auto simp: same_calls_def)
  moreover have "rd_calls rd' = left_calls opt s (filter P (rd_calls (fst s)))"
    using trans [OF r(3) arg_cong [OF ev, of "survivors Map.empty"]] True inv(3) by (simp add: left_calls_def)
  moreover have "rh_resources h' = rh_resources (snd s)" using r(4) inv(2) by (simp add: same_calls_def)
  ultimately show ?thesis using True r(1,2) inv(4) leaks_resources [OF r(1)] by simp
next
  case False
  then show ?thesis using assms(1) passed_call(1) [OF assms(1)] by (simp add: passed_def same_data_def left_calls_def)
qed

text \<open>
  The passes complete, keep the invariant, and leave the selected calls, of which only the leaks when they
  are asked for.
\<close>

theorem postproc_passes_ok:
  assumes "passes_ready file opt s"
  shows "\<exists>rd' h'. postproc_passes file opt s = Some (Inr (rd', h')) \<and> rd_inv rd' h' \<and>
    rd_calls rd' = left_calls opt s (filter (selected file opt s) (rd_calls (fst s))) \<and>
    (\<forall>c\<in>set (rd_calls rd'). rh_fcalls h' c = rh_fcalls (snd s) c)"
proof -
  obtain rd h where s: "s = (rd, h)" by (cases s)
  obtain rd0 h0 where t: "(if pp_depth opt \<noteq> - 1 then filter_trim_backtraces (pass_options opt) rd h else Some (rd, h)) = Some (rd0, h0)"
      "rd_inv rd0 h0" "rd_calls rd0 = rd_calls rd" "rd_resources rd0 = rd_resources rd" "same_data opt (rd, h) (rd0, h0)"
    using trim_pass [of rd h opt] assms by (auto simp: passes_ready_def s)
  have p0: "passed opt s (\<lambda>c. True) (rd0, h0)" using t by (simp add: passed_def s)
  let ?P1 = "\<lambda>c. True \<and> (pp_resource opt \<noteq> 0 \<longrightarrow> keep_resource (pass_options opt) (snd s) c)"
  let ?P2 = "\<lambda>c. ?P1 c \<and> (case pp_target opt of Some target \<Rightarrow> in_target file opt target s c | None \<Rightarrow> True)"
  let ?P3 = "\<lambda>c. ?P2 c \<and> (case pp_include opt of Some name \<Rightarrow> in_index file name (snd s) c = True | None \<Rightarrow> True)"
  let ?P4 = "\<lambda>c. ?P3 c \<and> (case pp_exclude opt of Some name \<Rightarrow> in_index file name (snd s) c = False | None \<Rightarrow> True)"
  have P5: "selected file opt s = (\<lambda>c. ?P4 c \<and> (pp_context opt \<noteq> - 1 \<longrightarrow>
      context_passes (pass_options opt) (fc_context (call_data (the (rh_fcalls (snd s) c))))))"
    by (rule ext) (simp add: selected_def conj_assoc split: option.split)
  have files: "\<forall>name. pp_include opt = Some name \<longrightarrow> file name \<noteq> None" "\<forall>name. pp_exclude opt = Some name \<longrightarrow> file name \<noteq> None"
    using assms by (auto simp: passes_ready_def)
  obtain rd1 h1 where s1: "(if pp_resource opt \<noteq> 0 then filter_resource (pass_options opt) rd0 h0 else Some (rd0, h0)) = Some (rd1, h1)"
      "passed opt s ?P1 (rd1, h1)" using resource_pass [OF p0 _ assms] t(4) s by fastforce
  obtain rd2 h2 where s2: "(case pp_target opt of None \<Rightarrow> Some (rd1, h1)
        | Some target \<Rightarrow> map_option fst (filter_call_address_range (pass_options opt) target file rd1 h1)) = Some (rd2, h2)"
      "passed opt s ?P2 (rd2, h2)" using range_pass [OF s1(2) assms] by fastforce
  obtain rd3 h3 where s3: "index_pass filter_include file (pp_include opt) (rd2, h2) = Some (Inr (rd3, h3))" "passed opt s ?P3 (rd3, h3)"
    using index_pass_ok [OF s2(2) files(1), of filter_include True] by (fastforce simp: filter_include_def [abs_def])
  obtain rd4 h4 where s4: "index_pass filter_exclude file (pp_exclude opt) (rd3, h3) = Some (Inr (rd4, h4))" "passed opt s ?P4 (rd4, h4)"
    using index_pass_ok [OF s3(2) files(2), of filter_exclude False] by (fastforce simp: filter_exclude_def [abs_def])
  obtain rd5 h5 where s5: "(if pp_context opt \<noteq> - 1 then filter_context (pass_options opt) rd4 h4 else Some (rd4, h4)) = Some (rd5, h5)"
      "passed opt s (selected file opt s) (rd5, h5)" using context_pass [OF s4(2)] unfolding P5 by fastforce
  obtain rd6 h6 where s6: "(if rd_hinfo rd5 \<noteq> None then map_option (\<lambda>rd. (rd, h5)) (filter_find_lowhigh_blocks rd5 h5) else Some (rd5, h5)) = Some (rd6, h6)"
      "passed opt s (selected file opt s) (rd6, h6)" using lowhigh_pass [OF s5(2)] by fastforce
  obtain rd' h' where l: "(if pp_leaks opt then filter_leaks rd6 h6 else Some (rd6, h6)) = Some (rd', h')" "rd_inv rd' h'"
      "rd_calls rd' = left_calls opt s (filter (selected file opt s) (rd_calls (fst s)))" "set (rd_resources rd') \<subseteq> set (rd_resources (fst s))"
      "rh_resources h' = rh_resources (snd s)" "\<forall>c\<in>set (rd_calls rd'). rh_fcalls h' c = rh_fcalls (snd s) c"
    using leaks_pass [OF s6(2) assms] by blast
  have "\<forall>p\<in>set (rd_resources rd'). rh_resources h' p \<noteq> None" using l(4,5) assms by (auto simp: passes_ready_def)
  then obtain h'' where v: "filter_update_resource_visibility rd' h' = Some h''" "rd_inv rd' h''" "rh_fcalls h'' = rh_fcalls h'"
    using visibility_pass [OF l(2)] by blast
  have "first_passes file opt s = Some (rd2, h2)" 
    by (simp only: first_passes_def s fst_conv snd_conv t(1) s1(1) s2(1) Option.bind.bind_lunit)
  moreover have "last_passes opt (rd4, h4) = Some (rd', h'')" 
    by (simp only: last_passes_def fst_conv snd_conv s5(1) s6(1) l(1) v(1) Option.bind.bind_lunit option.map)
  ultimately show ?thesis using l(3,6) s3(1) s4(1) v(2,3) by (simp add: postproc_passes_def)
qed

section \<open>What the options can be\<close>

lemma range_option_files: "range_option a opt = Some opt' \<Longrightarrow> pp_include opt' = pp_include opt \<and> pp_exclude opt' = pp_exclude opt"
  by (auto simp: range_option_def elim!: bind_SomeE split: list.split_asm scanned.split_asm)

lemma parse_option_files:
  "parse_option a opt = Some (Inr opt') \<Longrightarrow> pp_include opt = None \<or> pp_exclude opt = None \<Longrightarrow> pp_include opt' = None \<or> pp_exclude opt' = None"
  by (cases a) (auto dest: range_option_files split: if_split_asm option.split_asm)

lemma parse_options_files:
  "parse_options as opt = Some (Inr opt') \<Longrightarrow> pp_include opt = None \<or> pp_exclude opt = None \<Longrightarrow> pp_include opt' = None \<or> pp_exclude opt' = None"
proof (induction as arbitrary: opt)
  case (Cons a as)
  then obtain opt1 where o: "parse_option a opt = Some (Inr opt1)" "parse_options as opt1 = Some (Inr opt')"
    by (auto elim!: bind_SomeE split: sum.split_asm)
  show ?case by (rule Cons.IH [OF o(2) parse_option_files [OF o(1) Cons.prems(2)]])
qed simp

lemma validate_options_iff:
  "validate_options opt = Inr opt' \<Longrightarrow> (pp_compare opt' \<noteq> None) = pp_compress opt' \<and>
    opt' = opt\<lparr>pp_compare := pp_compare opt'\<rparr> \<and> (pp_compare opt \<noteq> None \<longrightarrow> opt' = opt)"
  by (auto simp: validate_options_def split: if_splits)

end
