(* ===== verification/Spec2Isabelle.thy ===== *)
theory Spec2Isabelle
  imports Examples Posix_Entries Postproc
begin

text \<open>
  Verification library of sp-rtrace, a tracer of resource usage.

  \<^bold>\<open>The program.\<close>  A traced process is loaded with the main tracing module
  (src/modules/sp\_rtrace\_main.c) and with modules that replace functions of the C library:
  sp\_rtrace\_memory.c for the allocation functions, sp\_rtrace\_file.c for everything that opens or
  closes descriptors and streams, sp\_rtrace\_shmsysv.c for System V shared memory,
  sp\_rtrace\_shmposix.c for POSIX shared memory and mappings, sp\_rtrace\_memtransfer.c for the functions that
  copy memory.  A module reports every allocation and release of a resource to
  the main module, which encodes it as packets (src/common/sp\_rtrace\_proto.h) and writes them
  through a buffer into a pipe.  The listener (src/rtrace/listener.c) reads the pipe, fills in the
  start time, replaces the packets about loaded libraries by the mappings of the process and
  forwards everything else.  The post-processor (src/rtrace-postproc) reads the packets
  (parse\_binary.c) into its trace data (src/common/rtrace\_data.c, on the linked lists of dlist.c and
  the hash table of htable.c) and filters them (filter.c), above all down to the leaks.  It writes the
  result as a text report (writer.c, leaks\_sort.c, with the printers of
  src/library/sp\_rtrace\_formatter.c), and can read such a report instead of packets (parse\_text.c, with
  the parsers of src/library/sp\_rtrace\_parser.c).

  \<^bold>\<open>Theories.\<close>
  \<^item> \<open>Prelude\<close>: shared types and lemmas.  \<open>Proto\<close>: the fields of the protocol as byte sequences and
    their round trips.  \<open>Text_Format\<close>, \<open>Module_Text\<close>: number formats, copying of bounded strings,
    relative paths.
  \<^item> \<open>Double_List\<close>: dlist.c on an explicit store of links, the in-place merge sort included.
    \<open>Containers\<close>: the contract of a node list as the locale \<open>node_list\<close>, with the array of lists
    as its client; the C list is its interpretation.  \<open>Hash_Table\<close>: htable.c on top of it, refined
    to an abstract table.
  \<^item> \<open>Rtrace_Data\<close>: the records of rtrace\_data.c on explicit stores, so that a use of a released
    record is visible as \<open>None\<close>.  \<open>Rtrace_Invariant\<close>: the invariant of the reference structure
    (calls, shared backtraces, reference nodes) and its preservation by every operation.
  \<^item> \<open>Call_Filter\<close>: filter.c.  \<open>Filter_Laws\<close>: the locale \<open>call_predicate\<close> for a pass that removes
    calls by a predicate, interpreted for the context, resource, index and range filters.
    \<open>Leaks\<close>: the leak filter refines an abstract event semantics with reference counts.
  \<^item> \<open>Trace_Library\<close>: call contexts, the size filter and the filter field of the header.
  \<^item> \<open>Tracer\<close>, \<open>Tracer_Pipe\<close>, \<open>Tracer_Session\<close>: the main module: pipe buffer, packet writers,
    registries, switching of the tracing, and the byte stream of a whole session.
  \<^item> \<open>Trace_Packets\<close>: the packets as data.  \<open>Packet_Stream\<close>: the locales \<open>packet_consumer\<close> and
    \<open>packet_reader\<close> for a loop that reads packets from a stream cut into arbitrary chunks; the
    listener and the post-processor are interpretations.
  \<^item> \<open>Parse_Binary\<close>, \<open>Parse_Packets\<close>, \<open>Parse_Refine\<close>: the reader of the post-processor refines the
    abstract trace of the packets.  \<open>Listener\<close>, \<open>Listener_Refine\<close>: the same for the listener.
  \<^item> \<open>Emu_Heap\<close>, \<open>Memory_Module\<close>, \<open>File_Module\<close>, \<open>File_Handles\<close>: the tracing modules, the internal
    heap of the memory module on a byte memory, and the correspondence between reported calls and
    what the program has allocated or open.  \<open>Shm_Sysv\<close>, \<open>Shm_Segments\<close>: the same for shared memory
    segments and attachments.  \<open>Shm_Posix\<close>, \<open>Shm_Objects\<close>: the registries and tracing functions for POSIX
    shared memory objects, their descriptors and mappings, and the same correspondence.  \<open>Module_Contract\<close>: the locale \<open>resource_module\<close>, the contract of a module
    whose reports follow the resources of the process; what follows for whole runs and for the leak
    report is proved once in it, and the file module and both shared memory modules are its interpretations.
    \<open>Transfer_Module\<close>: the functions that copy memory, on a byte memory.
  \<^item> \<open>Module_Init\<close>: the life cycle of a module (loading, registration, switching, end) as an
    inductive step relation with its invariant.  \<open>Module_Entries\<close>: the entry points of the modules in
    every state of the life cycle, with the locale \<open>entry_point\<close>; \<open>Posix_Entries\<close> those of the POSIX
    shared memory module.
  \<^item> \<open>Text_Scan\<close>: the formatted input of the C library, as far as the parsers use it, on strings of
    bytes.  \<open>Text_Records\<close>: the printers and the parsers of the records of a text trace.
    \<open>Text_Roundtrip\<close>: the locale \<open>text_record\<close> for a kind of record whose printed line is parsed to the
    record; mappings, contexts, arguments, attachments, frames, resources and calls are its
    interpretations.  \<open>Text_Reader\<close>: parse\_text.c; \<open>Text_Refine\<close>: it refines a specification that
    collects the calls of the lines in a list.  \<open>Text_Writer\<close>: leaks\_sort.c and writer.c.
    \<open>Text_Cycle\<close>: a written report, read again.
  \<^item> \<open>Postproc\<close>: the driver of the post-processor (sp\_rtrace\_postproc.c): options, index files, the passes in
    their order, and what they select together.
  \<^item> \<open>Trace_Pipeline\<close>, \<open>Leak_Report\<close>, \<open>Module_Calls\<close>, \<open>Trace_Programs\<close>: the programs together, up to
    the leak report.  \<open>Examples\<close>: concrete data for the witnesses.

  \<^bold>\<open>What is shown.\<close>  For a program whose allocator and kernel behave as documented, whatever way the
  pipes cut the streams, the leak report is exact: it lists the blocks, descriptors and streams
  that have not been released, the shared memory segments and attachments, and the POSIX objects and mappings.  This is composed from a result for every component, which is a
  property of its own below: the modules report faithfully, the buffer is first in first out, the
  session is the sequence of its packets, the listener forwards, the reader refines, the leak
  filter refines the event semantics.  In addition the containers refine their abstract versions,
  no operation on the trace data uses a released record, the internal heap hands out disjoint
  blocks, encodings can be read back, and several defects of the code are stated as they are.  A text
  report that is not compressed can be read again, and holds the same calls, backtraces, arguments and
  resources; a compressed one lists every backtrace once, with the number and size of its calls, in order.
  The passes of the post-processor leave exactly the calls that all selected filters accept.

  \<^bold>\<open>Conventions.\<close>  \<open>None\<close> is a computation that leaves the defined behaviour of C: an access outside
  of an array or to a released record, a lock that is never released, or the end of the process.
  Integers have the width of the source (64 bit system, little endian).  Loops whose end depends on
  the links of a store are \<open>partial_function (option)\<close>, and it is proved that they end on well-formed
  data; all other loops are total functions.  No fuel is used.

  \<^bold>\<open>Not modelled.\<close>  Creation of processes, signals (among them the interruption of the readers),
  libunwind and the search of the original functions are replaced by arguments; so are the clock and
  the calendar functions.  The GObject and QObject modules, the tracker, the
  resolver, the command line of the preprocessor and the reports of page maps, allocations and time lines are not
  modelled; of the driver of the post-processor, the creation of the output file and of the resolver process.  The theorem on reports that are read again leaves out comments, whose place in the report is
  not kept by the reader, and compressed reports, which the reader does not accept.
\<close>

section \<open>Concrete data for the witnesses\<close>

text \<open>A resource type with id 1, and calls on it without a backtrace.\<close>

definition wit_resource :: "u32 \<Rightarrow> rd_resource" where
  "wit_resource flags = \<lparr>rr_data = \<lparr>rs_id = 1, rs_type = str ''memory'', rs_desc = [], rs_flags = flags\<rparr>, rr_hide = False\<rparr>"

definition wit_call :: "int \<Rightarrow> u32 \<Rightarrow> pointer_t \<Rightarrow> rd_fcall" where
  "wit_call i ty addr = \<lparr>call_data = \<lparr>fc_index = i, fc_type = ty, fc_context = 0, fc_timestamp = 0,
     fc_name = Some (str ''malloc''), fc_res_type = RFIELD_REF 9, fc_res_id = addr, fc_res_size = 16\<rparr>,
     call_trace = NULL, call_ref = NULL, call_args = None\<rparr>"

text \<open>Allocation of two blocks and release of the first.\<close>

definition wit_heap :: "u32 \<Rightarrow> rheap" where
  "wit_heap flags = rheap_init\<lparr>rh_next := 10,
     rh_fcalls := [1 \<mapsto> wit_call 1 FTYPE_ALLOC 100, 2 \<mapsto> wit_call 2 FTYPE_ALLOC 200, 3 \<mapsto> wit_call 3 FTYPE_FREE 100],
     rh_resources := [9 \<mapsto> wit_resource flags]\<rparr>"

definition wit_rd :: rd where
  "wit_rd = rd_create\<lparr>rd_calls := [1, 2, 3], rd_resources := [9]\<rparr>"

lemma wit_inv: "rd_inv wit_rd (wit_heap flags)"
  by (auto simp: rd_inv_def inv_calls_def inv_traces_def inv_fresh_def call_ok_def wit_rd_def wit_heap_def
      rd_create_def rheap_init_def a_init_def HASH_SIZE_def wit_call_def)

lemma wit_typed: "\<forall>c\<in>set (rd_calls wit_rd). call_typed (wit_heap flags) c"
  by (simp add: wit_rd_def call_typed_def wit_heap_def wit_call_def rheap_init_def)

lemma wit_ids: "resource_ids_unique (wit_heap flags)"
  by (auto simp: resource_ids_unique_def wit_heap_def rheap_init_def split: if_splits)

section \<open>The composed programs\<close>







text \<open>
  C6: the composition of tracing module, listener and post-processor completes for every way the
  pipes cut the streams, and the trace data hold exactly the calls of the session: their order,
  data, arguments, backtraces and resource types.
\<close>

theorem calls_preserved:
  assumes "good_setup pid arch heap_end fd envs cut1 cut2 ops s"
  shows "\<exists>p. trace_programs pid arch heap_end fd envs u pk junk cut1 cut2 ops s = Some p \<and> parser_inv p \<and>
    ta_calls (trace_abs p) = op_calls ((tr_options s)\<lparr>op_enable := True\<rparr>) (tr_resources s) 0 ops"
  using trace_programs_calls [OF assms] by blast

theorem calls_preserved_witness:
  "\<exists>p. trace_programs 77 ex_arch 0 5 ex_listener_env False [] 0 (chunks 100) (chunks 50)
      (module_ops ex_env (fst (mem_run ex_mem_program ex_memory))) (ex_tracer ex_memory_resources) = Some p \<and> parser_inv p"
  using calls_preserved [OF ex_memory_setup] by blast

section \<open>Properties of the leak filter\<close>

text \<open>
  C5: for trace data that fulfils the invariant and whose calls have a resource type, the
  leak filter completes, keeps the invariant, and leaves in the call list exactly the surviving
  calls of the event sequence, in order and with unchanged data; reference counted resources are
  kept until the count of their allocations is released.
\<close>

theorem filter_leaks_correct:
  assumes "rd_inv rd h" "\<forall>c\<in>set (rd_calls rd). call_typed h c" "resource_ids_unique h"
  shows "\<exists>rd' h'. filter_leaks rd h = Some (rd', h') \<and> rd_inv rd' h' \<and>
    rd_calls rd' = survivors Map.empty (map (call_event h) (rd_calls rd)) \<and>
    (\<forall>c\<in>set (rd_calls rd'). rh_fcalls h' c = rh_fcalls h c \<and> call_frames h' c = call_frames h c)"
  using filter_leaks_survivors [OF assms] by (auto simp: same_calls_def)

theorem filter_leaks_correct_witness:
  "\<exists>rd' h'. filter_leaks wit_rd (wit_heap 0) = Some (rd', h') \<and> rd_calls rd' = [2]"
  using filter_leaks_correct [OF wit_inv wit_typed wit_ids, of 0]
  by (auto simp: wit_rd_def wit_heap_def wit_call_def rheap_init_def call_event_def res_key_def is_refcounted_def
      wit_resource_def FTYPE_ALLOC_def FTYPE_FREE_def RESOURCE_REFCOUNT_def)

text \<open>
  When no resource type is reference counted, an allocation call survives the leak filter
  unless the next allocation or release of its resource is a release; release calls never survive
  and calls of another type always do.
\<close>

theorem filter_leaks_plain:
  assumes "rd_inv rd h" "\<forall>c\<in>set (rd_calls rd). call_typed h c" "resource_ids_unique h"
    "\<forall>c\<in>set (rd_calls rd). is_refcounted h c = Some False"
  shows "\<exists>rd' h'. filter_leaks rd h = Some (rd', h') \<and>
    rd_calls rd' = plain_leaks (map (call_event h) (rd_calls rd))"
proof -
  have "\<forall>e\<in>set (map (call_event h) (rd_calls rd)). \<not> ev_counted e"
    using assms(4) by (auto simp: call_event_def)
  from survivors_plain [OF this] show ?thesis using filter_leaks_survivors [OF assms(1-3)] by auto
qed

section \<open>The byte streams\<close>

text \<open>
  C8: writing a packet that fits into the buffer always completes, whether the packet is buffered,
  sent at once or forces the earlier packets out: it appends the packet to the stream of bytes that
  are sent or waiting, keeps the buffer invariant, leaves the lock free and changes nothing else.
\<close>

theorem emit_fifo:
  assumes "pipe_up s" "length bs \<le> PIPE_BUFFER_SIZE"
  shows "\<exists>s'. emit bs s = Some (length bs, s') \<and> pipe_inv s' \<and> same_tracer s s' \<and> pipe_stream s' = pipe_stream s @ bs"
  using emit_ok [OF assms] by (auto simp: pipe_up_def)

theorem emit_fifo_witness:
  "\<exists>s'. emit [1, 2, 3, 4] (ex_tracer []) = Some (4, s') \<and> pipe_stream s' = [1, 2, 3, 4]"
proof -
  have "pipe_up (ex_tracer [])" "pipe_stream (ex_tracer []) = []"
    by (simp_all add: pipe_up_def pipe_inv_def ex_tracer_def PIPE_BUFFER_SIZE_def pipe_stream_def pipe_pending_def)
  with emit_fifo [of "ex_tracer []" "[1, 2, 3, 4]"] show ?thesis by (auto simp: PIPE_BUFFER_SIZE_def)
qed

text \<open>
  C9: switching the tracing on, any sequence of traced events and switching it off completes, and the
  bytes that have been written to the pipe are a handshake followed by the packets of the session
  in order, nothing left in the buffer.
\<close>

theorem session_stream:
  assumes "session_ok pid heap_end ops s" "0 < fd" "is_cstring arch" "length arch < 240"
  shows "\<exists>s' bs. trace_session pid arch heap_end fd ops s = Some s' \<and> is_handshake arch bs \<and> pipe_inv s' \<and>
    tr_out s' = tr_out s @ bs @ encode_all (session_packets pid heap_end ops s)"
  by (rule trace_session_ok [OF assms])

theorem session_stream_witness:
  "\<exists>s' bs. trace_session 77 ex_arch 0 5 (module_ops ex_env (fst (mem_run ex_mem_program ex_memory)))
      (ex_tracer ex_memory_resources) = Some s' \<and> is_handshake ex_arch bs \<and> pipe_inv s'"
proof -
  have "session_ok 77 0 (module_ops ex_env (fst (mem_run ex_mem_program ex_memory))) (ex_tracer ex_memory_resources)"
    using ex_session [OF ex_registries(1,2) ex_memory_calls] by (simp add: session_fits_def)
  from session_stream [OF this _ ex_arch_ok(1,2), of 5] show ?thesis by auto
qed

text \<open>
  C10: the listener, for every way the reads cut its input, stores the handshake and the settings, and
  forwards every packet in order: the start time is filled into the process packet, and the packet
  about a loaded library is replaced by the mappings of the process that are not yet known.
\<close>

theorem listener_relays:
  assumes "is_handshake arch bs" "good_envs envs" "\<forall>k x y. 0 < le_connect (envs k) x y"
    "small_packet (P_Settings d p)" "packet_fits (P_Settings d p)" "\<forall>q\<in>set qs. small_packet q \<and> packet_fits q \<and> \<not> is_settings q"
    "concat (c # cs) = bs @ encode_all (P_Settings d p # qs)" "length bs \<le> length c"
    "\<forall>c\<in>set (c # cs). c \<noteq> [] \<and> length c \<le> LISTENER_BUFFER_SIZE"
  shows "\<exists>s'. process_data envs (listener_init u) (map R_Data (c # cs)) = Some (0, s') \<and>
    ls_out s' = bs @ encode_all (P_Settings d p # relay envs 1 0 [] qs)"
  by (rule process_data_ok [OF assms])

text \<open>A short session in one piece.\<close>

definition wit_handshake :: "byte list" where
  "wit_handshake = handshake_bytes VERSION_MAJOR VERSION_MINOR ex_arch @ [0, 0, 0]"

definition wit_packets :: "trace_packet list" where
  "wit_packets = [P_Resource (ex_resource 1 ''memory''), P_Context 2 (str ''ctx'')]"

lemma wit_handshake_ok: "is_handshake ex_arch wit_handshake" "length wit_handshake = 16" "wit_handshake \<noteq> []"
  using ex_arch_ok by (simp_all add: is_handshake_def wit_handshake_def handshake_bytes_def Let_def ex_arch_def str_def)

lemma wit_packets_ok: "\<forall>q\<in>set (P_Settings (str ''/tmp'') (str ''post'') # wit_packets). small_packet q \<and> packet_fits q \<and> packet_readable q"
  by (simp add: wit_packets_def small_packet_def PIPE_BUFFER_SIZE_def encode_def resource_payload_def write_string_def pad_zeros_eq
      Let_def str_def ex_resource_def fits_string_def stored_text_def is_cstring_def fits_word_def RES_INDEX_SIZE_def)

lemma wit_stream_length: "length (encode_all (P_Settings (str ''/tmp'') (str ''post'') # wit_packets)) \<le> 100"
  by (simp add: wit_packets_def encode_def resource_payload_def write_string_def pad_zeros_eq Let_def str_def ex_resource_def)

theorem listener_relays_witness:
  "\<exists>s'. process_data ex_listener_env (listener_init False)
      [R_Data (wit_handshake @ encode_all (P_Settings (str ''/tmp'') (str ''post'') # wit_packets))] = Some (0, s') \<and>
    ls_out s' = wit_handshake @ encode_all (P_Settings (str ''/tmp'') (str ''post'') # wit_packets)"
  using listener_relays [OF wit_handshake_ok(1) ex_envs, of "str ''/tmp''" "str ''post''" wit_packets
      "wit_handshake @ encode_all (P_Settings (str ''/tmp'') (str ''post'') # wit_packets)" "[]" False]
    wit_packets_ok wit_stream_length wit_handshake_ok(2,3)
  by (simp add: LISTENER_BUFFER_SIZE_def wit_packets_def)

text \<open>
  C11: the reader of the post-processor, for every way the reads cut its input, completes and builds
  trace data that fulfil the invariant and represent the abstract trace of the packets: calls with
  their arguments, shared backtraces and resource types, contexts, mappings, modules and files.
\<close>

theorem reader_refines:
  assumes "is_handshake arch bs" "\<forall>q\<in>set qs. packet_readable q \<and> small_packet q"
    "concat (c # cs) = tl bs @ encode_all qs" "length bs \<le> length c + 1" "\<forall>c\<in>set (c # cs). c \<noteq> [] \<and> length c \<le> BUFFER_SIZE"
  shows "\<exists>p'. read_binary_data pk (parser_init junk) (c # cs) = Some (Inr p') \<and> parser_inv p' \<and>
    trace_abs p' = foldl (trace_add pk) empty_trace qs"
  by (rule read_binary_data_ok [OF assms])

theorem reader_refines_witness:
  "\<exists>p'. read_binary_data [] (parser_init 0)
      [tl wit_handshake @ encode_all (P_Settings (str ''/tmp'') (str ''post'') # wit_packets)] = Some (Inr p') \<and>
    ta_resources (trace_abs p') = [written_resource (ex_resource 1 ''memory'')]"
  using reader_refines [OF wit_handshake_ok(1), of "P_Settings (str ''/tmp'') (str ''post'') # wit_packets"
      "tl wit_handshake @ encode_all (P_Settings (str ''/tmp'') (str ''post'') # wit_packets)" "[]" "[]" 0]
    wit_packets_ok wit_stream_length wit_handshake_ok(2,3)
  by (fastforce simp: BUFFER_SIZE_def wit_packets_def empty_trace_def ex_resource_def)

text \<open>
  C15: cutting one stream of packets in two different ways gives the same trace data: the result of
  the read loop does not depend on how much the reads return.
\<close>

theorem chunking_irrelevant:
  assumes "parser_inv p" "\<forall>q\<in>set qs. packet_readable q \<and> small_packet q" "concat cs = encode_all qs" "concat cs' = encode_all qs"
    "\<forall>c\<in>set cs \<union> set cs'. c \<noteq> [] \<and> length c \<le> BUFFER_SIZE"
  shows "read_loop pk p [] cs = read_loop pk p [] cs'"
  using parse_all [OF assms(1,2), of pk] assms(2-5)
  by (intro pb.loop_chunking [where k = PIPE_BUFFER_SIZE and ps = qs])
    (auto simp: encode_all_def small_packet_def BUFFER_SIZE_def PIPE_BUFFER_SIZE_def)

lemma wit_chunks: "\<forall>c\<in>set (chunks 100 bs) \<union> set (chunks 50 bs). c \<noteq> [] \<and> length c \<le> BUFFER_SIZE"
  using chunks_sound [of 100 bs] chunks_sound [of 50 bs] by (fastforce simp: BUFFER_SIZE_def)

theorem chunking_irrelevant_witness:
  "read_loop [] ((parser_init 0)\<lparr>ps_rd := rd_create\<lparr>rd_hshake := Some (expected_hshake ex_arch)\<rparr>\<rparr>) [] (chunks 100 (encode_all wit_packets)) =
   read_loop [] ((parser_init 0)\<lparr>ps_rd := rd_create\<lparr>rd_hshake := Some (expected_hshake ex_arch)\<rparr>\<rparr>) [] (chunks 50 (encode_all wit_packets))"
  by (rule chunking_irrelevant [OF parser_init_inv, of wit_packets])
    (use wit_packets_ok wit_chunks chunks_sound in simp_all)

section \<open>The tracing modules\<close>

text \<open>
  A successful \<open>fcloseall\<close>, and a \<open>pclose\<close> of a command that ends with a status, are not seen
  as a release of the stream: it stays outstanding.
\<close>

theorem stream_close_missed:
  assumes "rc \<noteq> 0" "rc \<noteq> - 1" "status \<noteq> 0"
  shows "(\<exists>cs. file_run [Fopen path mode rc, Fcloseall 0] m = Some (cs, m) \<and> map (\<lambda>c. mf_res_id (fst c)) (held cs) = [rc]) \<and>
    (\<exists>cs. file_run [Popen path mode rc, Pclose rc status] m = Some (cs, m) \<and> map (\<lambda>c. mf_res_id (fst c)) (held cs) = [rc])"
  using fcloseall_keeps [OF assms(1,2)] assms(3) by blast





section \<open>The life cycle of a tracing module\<close>

text \<open>
  C21: in every reachable state of a module, while it is loading, ready, switched on and off by the main
  module, or finished: a call is never sent to an original function before these are loaded, it is
  sent to a tracing function exactly when the main module has the registered module enabled, and
  a ready module is registered under its name with all original functions resolved.
\<close>

theorem dispatch_safe:
  assumes "module_reach desc (p, d, s)" "module_step desc (p, d, s) (Ev_Call t) y"
  shows "t \<noteq> Trace_init \<and> (t = Trace_emu \<or> di_mode d \<noteq> MODULE_UNINITIALIZED) \<and>
    (t = Trace_on \<longleftrightarrow> di_mode d = MODULE_READY \<and> p \<noteq> P_Finished \<and> module_on d s) \<and>
    (di_mode d = MODULE_READY \<longrightarrow> t \<in> {Trace_off, Trace_on} \<and> 0 \<notin> set (di_symbols d) \<and> slot_ok desc d s)"
  using dispatch_sound [OF assms] by blast

theorem dispatch_safe_witness:
  "let d = load_begin memory_desc (dispatch_start memory_desc); s = ex_tracer []
   in module_reach memory_desc (P_Loading, d, s) \<and> di_mode d = MODULE_UNINITIALIZED \<and>
     (\<forall>t y. module_step memory_desc (P_Loading, d, s) (Ev_Call t) y \<longrightarrow> t = Trace_emu)"
proof -
  let ?d = "load_begin memory_desc (dispatch_start memory_desc)" and ?s = "ex_tracer []"
  have r: "module_reach memory_desc (P_Loading, ?d, ?s)"
    by (rule module_reach.step [OF module_reach.start module_step.Load]) (simp add: dispatch_start_def)
  have m: "di_mode ?d = MODULE_UNINITIALIZED" by (simp add: load_begin_def dispatch_start_def)
  with r show ?thesis using dispatch_safe [OF r] by (auto simp: Let_def)
qed

text \<open>
  C22: a call of a traced function, with the initialisation of the module where it is the first one,
  ends in a function of one of the tables and never in the initialising functions again, and
  leaves the module in a reachable state.
\<close>

theorem module_call_returns:
  assumes "module_reach desc (P_Idle, d, s)"
    "dispatch_call desc syms (sp_rtrace_initialize getenv cmdline pid arch he acc fd) d s = Some (t, d', s')"
    "length syms = dd_symcount desc" "length (tr_modules s) < 16"
  shows "module_reach desc (P_Idle, d', s') \<and> t \<noteq> Trace_init \<and> (t = Trace_on \<longleftrightarrow> di_mode d' = MODULE_READY \<and> module_on d' s')"
  by (rule dispatch_call_ok [OF assms])

theorem module_call_returns_witness:
  "\<exists>d' s'. dispatch_call memory_desc [1, 2, 3, 4, 5] (sp_rtrace_initialize (\<lambda>_. None) None 77 [] 0 True 5)
      (dispatch_start memory_desc) (ex_tracer []) = Some (Trace_off, d', s') \<and>
    module_reach memory_desc (P_Idle, d', s') \<and> di_mode d' = MODULE_READY"
proof -
  let ?r = "dispatch_call memory_desc [1, 2, 3, 4, 5] (sp_rtrace_initialize (\<lambda>_. None) None 77 [] 0 True 5)
      (dispatch_start memory_desc) (ex_tracer [])"
  obtain d' s' where c: "?r = Some (Trace_off, d', s')" "di_mode d' = MODULE_READY"
    by (simp add: dispatch_call_def trace_initialize_def dispatch_start_def load_end_def load_begin_def memory_desc_def module_ready_def
        sp_rtrace_initialize_def ex_tracer_def sp_rtrace_register_module_def ex_options_def sp_rtrace_register_resource_def module_res_def
        callbacks_def module_enable_def Let_def)
  have "module_reach memory_desc (P_Idle, d', s')"
    using module_call_returns [OF module_reach.start c(1)] by (simp add: memory_desc_def ex_tracer_def)
  with c show ?thesis by blast
qed



section \<open>The internal heap\<close>

text \<open>
  C19: an allocation from the internal heap returns an aligned block inside the heap that does not
  overlap a block in use or its size field, changes nothing but that size field, and keeps the
  invariant of the heap.
\<close>

theorem emu_alloc_safe:
  assumes "emu_inv s bs" "3 \<le> k" "k < 62" "n < 2 ^ 62" "emu_alloc_mem n (2 ^ k) s = Some (p, s')"
  shows "p mod 2 ^ k = 0 \<and> eh_base s + 4 \<le> p \<and> p + n < eh_base s + EMU_HEAP_SIZE \<and> emu_inv s' (bs @ [(p, n)]) \<and>
    (\<forall>b\<in>set bs. fst b + snd b + 4 \<le> p \<and> same_block (eh_mem s) (eh_mem s') b)"
  using emu_alloc_ok [OF assms] by blast

lemma wit_emu: "emu_inv (emu_init 1000) []"
  by (rule emu_init_inv) (simp add: EMU_HEAP_SIZE_def)

lemma wit_emu_alloc: "\<exists>s'. emu_alloc_mem 24 (2 ^ 3) (emu_init 1000) = Some (1008, s')"
  by (simp add: emu_alloc_mem_def emu_init_def load_u32_def EMU_HEAP_SIZE_def Let_def)

theorem emu_alloc_safe_witness: "\<exists>s'. emu_alloc_mem 24 (2 ^ 3) (emu_init 1000) = Some (1008, s') \<and> emu_inv s' [(1008, 24)]"
  using wit_emu_alloc emu_alloc_safe [OF wit_emu, of 3 24 1008] by auto

text \<open>
  C20: reallocation inside the internal heap moves the contents of the block, releases the old block,
  leaves all other blocks alone and keeps the invariant.
\<close>

theorem emu_realloc_safe:
  assumes "emu_inv s bs" "(p, m) \<in> set bs" "n < 2 ^ 62" "emu_realloc p n s = Some (q, s')"
  shows "emu_inv s' (filter (\<lambda>b. fst b \<noteq> p) bs @ [(q, n)]) \<and> q mod 8 = 0 \<and> q + n < eh_base s + EMU_HEAP_SIZE \<and>
    (\<forall>i<min m n. eh_mem s' (q + i) = eh_mem s (p + i)) \<and>
    (\<forall>b\<in>set bs. fst b \<noteq> p \<longrightarrow> same_block (eh_mem s) (eh_mem s') b)"
  by (rule emu_realloc_ok [OF assms])

definition wit_emu_heap :: emu_heap where
  "wit_emu_heap = \<lparr>eh_base = 1000, eh_tail = 1004, eh_mem = store_u32 (\<lambda>_. 0) 1004 28\<rparr>"

lemma wit_emu_heap: "emu_inv wit_emu_heap [(1008, 24)]"
  by (simp add: emu_inv_def wit_emu_heap_def load_store_u32 EMU_HEAP_SIZE_def Let_def)

lemma wit_emu_realloc: "\<exists>s'. emu_realloc 1008 40 wit_emu_heap = Some (1008, s')"
  by (simp add: emu_realloc_def wit_emu_heap_def emu_free_def emu_alloc_mem_def load_store_u32 EMU_HEAP_SIZE_def EMU_HEAP_ALIGN_def Let_def)

theorem emu_realloc_safe_witness: "\<exists>s'. emu_realloc 1008 40 wit_emu_heap = Some (1008, s') \<and> emu_inv s' [(1008, 40)]"
  using wit_emu_realloc emu_realloc_safe [OF wit_emu_heap, of 1008 24 40 1008] by auto

text \<open>
  C33: as long as the internal heap has room for the block, its size field and the alignment, an
  allocation returns and does not end the program.
\<close>

theorem emu_malloc_returns:
  assumes "emu_inv s bs" "eh_tail s + load_u32 (eh_mem s) (eh_tail s) + 11 + n < eh_base s + EMU_HEAP_SIZE"
  shows "\<exists>p s'. emu_malloc n s = Some (p, s')"
  using emu_malloc_total [OF assms(1)] assms(2) by simp

theorem emu_malloc_returns_witness: "\<exists>p s'. emu_malloc 4000 wit_emu_heap = Some (p, s')"
  by (rule emu_malloc_returns [OF wit_emu_heap]) (simp add: wit_emu_heap_def load_store_u32 EMU_HEAP_SIZE_def)



section \<open>Properties of the text format\<close>

































section \<open>Properties of the POSIX shared memory module\<close>


definition ex_posix :: posix_module where
  "ex_posix = \<lparr>pm_names = [], pm_fds = [], pm_addrs = [], pm_pshmmap = 1, pm_fshmmap = 2, pm_shmmap = 3, pm_pshmobj = 4, pm_pshmfd = 5\<rparr>"















text \<open>
  C18: the search of an identifier for the name of an object ends as long as fewer than \<open>2 ^ 32\<close> names are
  known; a name keeps its identifier, no other name loses its own, and the identifiers of any two
  names differ.
\<close>

theorem names_identified:
  assumes "nreg_ok reg" "length reg < 2 ^ 32"
  shows "\<exists>i reg'. nreg_get_hash mem_all name reg = Some (i, reg') \<and> nreg_ok reg' \<and> nreg_get_hash mem name reg' = Some (i, reg') \<and>
    (\<forall>n j. n \<noteq> name \<and> nreg_get_hash mem n reg = Some (j, reg) \<and> n \<in> nr_name ` set reg \<longrightarrow> j \<noteq> i \<and> nreg_get_hash mem n reg' = Some (j, reg'))"
proof -
  obtain i reg' node where r: "nreg_get_hash mem_all name reg = Some (i, reg')" "nreg_ok reg'" "nreg_find reg' name = Some node" "nr_hash node = i"
    "\<forall>n. n \<noteq> name \<longrightarrow> nreg_find reg' n = nreg_find reg n"
    using nreg_get_hash_ok [OF assms, of name] by auto
  have "j \<noteq> i \<and> nreg_get_hash mem n reg' = Some (j, reg')"
    if n: "n \<noteq> name" "nreg_get_hash mem n reg = Some (j, reg)" "n \<in> nr_name ` set reg" for n j
  proof -
    obtain x where x: "nreg_find reg n = Some x" using n(3) nreg_find_None [of reg n] by (cases "nreg_find reg n") auto
    with n(2) have "nr_hash x = j" by (simp add: nreg_get_hash_def)
    moreover have "nreg_find reg' n = Some x" using r(5) n(1) x by simp
    ultimately show ?thesis using nreg_ids_differ [OF r(2), of n x name node] r(3,4) n(1) by (auto simp: nreg_get_hash_def)
  qed
  moreover have "nreg_get_hash mem name reg' = Some (i, reg')" using r(3,4) by (simp add: nreg_get_hash_def)
  ultimately show ?thesis using r(1,2) by blast
qed

theorem names_identified_witness:
  "\<exists>i reg'. nreg_get_hash mem_all (str ''/b'') [\<lparr>nr_name = str ''/a'', nr_hash = nreg_calc_raw_hash (str ''/b'')\<rparr>] = Some (i, reg') \<and>
    i \<noteq> nreg_calc_raw_hash (str ''/b'')"
proof -
  let ?reg = "[\<lparr>nr_name = str ''/a'', nr_hash = nreg_calc_raw_hash (str ''/b'')\<rparr>]"
  have ok: "nreg_ok ?reg" "length ?reg < 2 ^ 32" by (simp_all add: nreg_ok_def)
  have "nreg_get_hash mem_all (str ''/a'') ?reg = Some (nreg_calc_raw_hash (str ''/b''), ?reg)" by (simp add: nreg_get_hash_def nreg_find_def)
  moreover have "str ''/a'' \<noteq> str ''/b''" by (simp add: str_def)
  ultimately show ?thesis using names_identified [OF ok, of "str ''/b''" mem_all] by fastforce
qed

text \<open>
  The kind of a mapping is looked up by its descriptor again when it is removed.  A program that maps a
  file, closes it, opens a shared memory object under the same descriptor and then removes the mapping
  has no mapping left, but the call that reported it stays outstanding.
\<close>

theorem mapping_kind_changes:
  "\<exists>cs m'. run_calls posix_trace_on [Posix_open (str ''/f'') 0 mem_all 5, Mmap 4096 1 1 5 0 mem_all 20480, Posix_close 5 0,
      Shm_open (str ''/a'') 0 0 mem_all mem_all 5, Munmap 20480 4096 0] ex_posix = Some (cs, m') \<and>
    map mcall_key (held cs) = [(2, 20480), (5, 5)]"
  by (simp add: ex_posix_def trace_shm_open_def trace_mmap_def trace_mmap_common_def trace_munmap_def posix_close_def posix_open_def
      O_CREAT_def MAP_ANONYMOUS_def fdreg_store_fd_def fdreg_get_fd_def addr_store_def addr_get_def mapping_type_def Let_def FTYPE_ALLOC_def FTYPE_FREE_def)
section \<open>Properties of the trace data\<close>

text \<open>
  C7: removing a listed call touches no released record, keeps the reference structure intact and
  changes nothing but the removed call, its reference node and the count of its backtrace.
\<close>

theorem fcall_remove_safe:
  assumes "rd_inv rd h" "c \<in> set (rd_calls rd)"
  shows "\<exists>rd' h'. rd_fcall_remove rd h c = Some (rd', h') \<and> rd_inv rd' h' \<and> removed_call rd h c rd' h'"
  by (rule rd_fcall_remove_ok [OF assms])

theorem fcall_remove_safe_witness: "\<exists>rd' h'. rd_fcall_remove wit_rd (wit_heap 0) 2 = Some (rd', h') \<and> rd_inv rd' h'"
proof -
  have "2 \<in> set (rd_calls wit_rd)" by (simp add: wit_rd_def)
  from fcall_remove_safe [OF wit_inv [of 0] this] show ?thesis by blast
qed

text \<open>
  C25: attaching a backtrace to a call completes and keeps the invariant and the uniqueness of the
  stored backtraces: the call shows the frames of the new trace, whether it was stored or an equal
  one was found, and the data and frames of all other calls are unchanged.
\<close>

theorem backtraces_shared:
  assumes "rd_inv rd h" "rd_unique rd h" "rh_ftraces h t = Some tr" "new_ftrace tr" "t \<noteq> NULL"
    "\<forall>b. t \<notin> set (a_bucket (rd_ftraces rd) b)" "c \<in> set (rd_calls rd)" "rh_fcalls h c = Some call" "call_trace call = NULL"
  shows "\<exists>rd' h'. rd_fcall_set_ftrace rd h c t = Some (rd', h') \<and> rd_inv rd' h' \<and> rd_unique rd' h' \<and>
    call_frames h' c = Some (ft_used tr) \<and> rd_calls rd' = rd_calls rd \<and>
    (\<forall>d\<in>set (rd_calls rd). d \<noteq> c \<longrightarrow> rh_fcalls h' d = rh_fcalls h d \<and> call_frames h' d = call_frames h d)"
proof -
  obtain rd' h' where r: "rd_fcall_set_ftrace rd h c t = Some (rd', h')" "rd_inv rd' h'" "rd_unique rd' h'"
    "rd' = rd\<lparr>rd_ftraces := rd_ftraces rd'\<rparr>" "call_frames h' c = Some (ft_used tr)"
    "\<forall>d\<in>set (rd_calls rd). d \<noteq> c \<longrightarrow> rh_fcalls h' d = rh_fcalls h d \<and> call_frames h' d = call_frames h d"
    using rd_fcall_set_ftrace_ok [OF assms] by blast
  have "rd_calls rd' = rd_calls rd" by (subst r(4)) simp
  with r show ?thesis by blast
qed

text \<open>A trace of one frame that is not stored yet.\<close>

definition wit_trace :: rd_ftrace where
  "wit_trace = \<lparr>ft_bucket = None, ft_ref_count = 0, ft_nframes = 1, ft_frames = [4096], ft_names = None, ft_calls = []\<rparr>"

definition wit_trace_heap :: rheap where
  "wit_trace_heap = (wit_heap 0)\<lparr>rh_ftraces := [8 \<mapsto> wit_trace]\<rparr>"

lemma wit_trace_inv: "rd_inv wit_rd wit_trace_heap" "rd_unique wit_rd wit_trace_heap"
  using wit_inv [of 0]
  by (auto simp: rd_inv_def inv_calls_def inv_traces_def inv_fresh_def call_ok_def wit_rd_def wit_trace_heap_def wit_heap_def rd_unique_def
      rd_create_def rheap_init_def a_init_def HASH_SIZE_def wit_call_def)

theorem backtraces_shared_witness:
  "\<exists>rd' h'. rd_fcall_set_ftrace wit_rd wit_trace_heap 1 8 = Some (rd', h') \<and> rd_inv rd' h' \<and> call_frames h' 1 = Some [4096]"
proof -
  have "rh_ftraces wit_trace_heap 8 = Some wit_trace" "rh_fcalls wit_trace_heap 1 = Some (wit_call 1 FTYPE_ALLOC 100)"
    by (simp_all add: wit_trace_heap_def wit_heap_def)
  moreover have "new_ftrace wit_trace" "ft_used wit_trace = [4096]" by (simp_all add: new_ftrace_def wit_trace_def ft_wf_def ft_used_def)
  moreover have "1 \<in> set (rd_calls wit_rd)" "\<forall>b. 8 \<notin> set (a_bucket (rd_ftraces wit_rd) b)" "call_trace (wit_call 1 FTYPE_ALLOC 100) = NULL"
    by (simp_all add: wit_rd_def rd_create_def a_init_def wit_call_def)
  ultimately show ?thesis using backtraces_shared [OF wit_trace_inv, of 8 wit_trace 1 "wit_call 1 FTYPE_ALLOC 100"] by auto
qed



text \<open>
  C38: the hash of a backtrace always selects a bucket of the table, and two traces compare as equal
  exactly when they have the same frames.
\<close>

theorem hash_in_table:
  assumes "ft_wf a" "ft_wf b"
  shows "hash_index HASH_SIZE (bt_hash a) = Some (nat (bt_hash a)) \<and> bt_hash a < HASH_SIZE \<and> (bt_compare a b = 0 \<longleftrightarrow> ft_used a = ft_used b)"
  using hash_index_bt [of a] bt_hash_range(2) [of a] bt_compare_0_iff [OF assms] by (simp add: HASH_SIZE_def)

theorem hash_in_table_witness: "bt_compare wit_trace wit_trace = 0"
proof -
  have "ft_wf wit_trace" by (simp add: wit_trace_def ft_wf_def)
  from hash_in_table [OF this this] show ?thesis by simp
qed

section \<open>Properties of the list\<close>

text \<open>
  C16: on a well-formed list, sorting ends and relinks the nodes in place into a sorted
  sequence of the same nodes; equal nodes keep their order and no other node is touched.
\<close>

theorem sort_correct:
  assumes "cmp_antisym cmp" "cmp_trans cmp" "dlist_rep h l xs"
  shows "\<exists>h' l' ys. dlist_sort h l cmp = Some (h', l') \<and> dlist_rep h' l' ys \<and> sorted_cmp cmp ys \<and>
    mset ys = mset xs \<and> same_links (- set xs) h h' \<and>
    (\<forall>a. filter (\<lambda>z. cmp z a = 0) ys = filter (\<lambda>z. cmp z a = 0) xs)"
  using dlist_sort_rep [OF assms] sorted_msort_cmp [OF assms(1,2), of xs] mset_msort_cmp [of cmp xs]
    msort_cmp_stable [OF assms(1,2), of _ xs] by metis

text \<open>Three nodes, added in the order 3, 1, 2.\<close>

definition wit_links :: dheap where
  "wit_links = \<lparr>d_next = (\<lambda>_. NULL)(3 := 1, 1 := 2), d_prev = (\<lambda>_. NULL)(1 := 3, 2 := 1)\<rparr>"

definition wit_list :: dlist where
  "wit_list = \<lparr>dl_head = 2, dl_tail = 3\<rparr>"

lemma wit_list_rep: "dlist_rep wit_links wit_list [3, 1, 2]"
  by (simp add: dlist_rep_def wit_links_def wit_list_def)

theorem sort_correct_witness:
  "\<exists>h' l' ys. dlist_sort wit_links wit_list (\<lambda>a b. int a - int b) = Some (h', l') \<and> dlist_rep h' l' ys \<and>
    sorted_cmp (\<lambda>a b. int a - int b) ys \<and> mset ys = mset [3, 1, 2]"
  using sort_correct [OF _ _ wit_list_rep, of "\<lambda>a b. int a - int b"]
  by (fastforce simp: cmp_antisym_def cmp_trans_def)

text \<open>
  C28: any sequence of additions and removals on the linked nodes has the effect of the same sequence
  of operations on a sequence of nodes.
\<close>

theorem list_ops_refine:
  assumes "dlist_rep h l xs" "seq_ops ops xs = Some ys" "dlist_ops ops h l = (h', l')"
  shows "dlist_rep h' l' ys"
  using dl.run_ops_rep [OF assms(1,2)] assms(3) by (simp add: dlist_ops_run)

theorem list_ops_refine_witness:
  "case dlist_ops [Inr 1, Inl 7, Inr 3] wit_links wit_list of (h', l') \<Rightarrow> dlist_rep h' l' [2, 7]"
  using list_ops_refine [OF wit_list_rep, of "[Inr 1, Inl 7, Inr 3]" "[2, 7]"] by (simp split: prod.split)

text \<open>
  Inserting a new node into a sorted list finds its place and keeps the list sorted, whatever
  the heap contains besides the list.
\<close>

theorem sorted_insert_keeps:
  assumes "cmp_antisym cmp" "cmp_trans cmp" "dlist_rep h l xs" "sorted_cmp cmp xs" "p \<notin> set xs" "p \<noteq> NULL"
  shows "\<exists>h' l' ys. dlist_add_sorted h l p cmp = Some (h', l') \<and> dlist_rep h' l' ys \<and> sorted_cmp cmp ys \<and> mset ys = add_mset p (mset xs)"
  using dlist_add_sorted_rep [OF assms(3,5,6)] sorted_ins_sorted [OF assms(1,2,4), of p] mset_ins_sorted [of cmp p xs] by metis

section \<open>Properties of the hash table\<close>

text \<open>
  C27: the hash table behaves as a map: storing a node completes, after it the lookup of an equal key
  finds the node, every other lookup gives what it gave before, and the table stays well formed
  without two equal nodes.
\<close>

theorem table_lookup:
  assumes "ht_rep h ht t" "a_unique (ht_compare ht) t" "hash_ok (ht_compare ht) bk"
    "\<And>x. hash_index (ht_size ht) (ht_calc_hash ht x) = Some (bk x)"
    "p \<noteq> NULL" "\<forall>i<a_size t. p \<notin> set (a_bucket t i)" "h_bucket h p = None" "h_bucket h q = None" "htable_find ht h q = Some (v, h0)"
  shows "\<exists>r ht' h' h''. htable_store ht h p = Some (r, ht', h') \<and> a_unique (ht_compare ht') (a_store (ht_compare ht) t (bk p) p) \<and>
    ht_rep h' ht' (a_store (ht_compare ht) t (bk p) p) \<and> htable_find ht' h' q = Some (if ht_compare ht p q = 0 then p else v, h'')"
  by (rule htable_find_store [OF assms])

text \<open>An empty table of two buckets whose nodes are equal when they have the same remainder modulo 4.\<close>

definition wit_table :: htable where
  "wit_table = htable_init 2 (\<lambda>x. int (x mod 2)) (\<lambda>x y. int (x mod 4) - int (y mod 4))"

definition wit_hheap :: hheap where
  "wit_hheap = \<lparr>h_links = \<lparr>d_next = (\<lambda>_. NULL), d_prev = (\<lambda>_. NULL)\<rparr>, h_bucket = (\<lambda>_. None)\<rparr>"

theorem table_lookup_witness:
  "\<exists>r ht' h' h''. htable_store wit_table wit_hheap 5 = Some (r, ht', h') \<and> htable_find ht' h' 9 = Some (5, h'')"
proof -
  have rep: "ht_rep wit_hheap wit_table (a_init 2)" using htable_init_rep [of 2] by (simp add: wit_table_def)
  have ix: "hash_index (ht_size wit_table) (ht_calc_hash wit_table x) = Some (x mod 2)" for x
    by (cases "even x") (simp_all add: wit_table_def htable_init_def hash_index_def Let_def even_iff_mod_2_eq_zero odd_iff_mod_2_eq_one)
  have dm: "(x :: nat) mod 4 = y mod 4 \<Longrightarrow> x mod 2 = y mod 2" for x y
    using mod_mod_cancel [of 2 4 x] mod_mod_cancel [of 2 4 y] by simp
  have cmp: "ht_compare wit_table x y = 0 \<longleftrightarrow> x mod 4 = y mod 4" for x y by (simp add: wit_table_def htable_init_def)
  have ok: "hash_ok (ht_compare wit_table) (\<lambda>x. x mod 2)" "a_unique (ht_compare wit_table) (a_init 2)"
    unfolding hash_ok_def a_unique_def cmp
    by (intro conjI allI impI; (rule refl | erule sym | erule trans, assumption | erule dm)) (simp add: a_init_def)
  obtain v h0 where f: "htable_find wit_table wit_hheap 9 = Some (v, h0)"
    using htable_find_rep [OF rep ix, of 9] by (auto simp: wit_hheap_def)
  have e: "ht_compare wit_table 5 9 = 0" by (simp add: wit_table_def htable_init_def)
  from table_lookup [OF rep ok(2,1) ix _ _ _ _ f, of 5] e show ?thesis by (auto simp: wit_hheap_def a_init_def)
qed

section \<open>Properties of the other filters\<close>

text \<open>The options that are read by the filters.\<close>

definition wit_opt :: "u32 \<Rightarrow> postproc_options" where
  "wit_opt res = \<lparr>opt_filter_leaks = True, opt_compress = False, opt_filter_context = 0, opt_filter_resource = res, opt_backtrace_depth = 0,
     opt_include = None, opt_exclude = None, opt_range_start = 0, opt_range_size = 0, opt_range_target = None\<rparr>"



section \<open>Properties of the trace library\<close>





text \<open>
  A list of eight or more sizes writes behind the array: its capacity is counted in bytes.
\<close>

theorem size_filter_overflow:
  assumes "8 \<le> length ts"
  shows "parse_sizes 32 32 [] ts = None"
  using parse_sizes_overflow [of "[]" ts] assms by simp

section \<open>Properties of the encodings\<close>

text \<open>
  C35: the packets of a call are read back by the post-processor as they were written by the tracing
  module: its data, its arguments and its backtrace.
\<close>

theorem call_roundtrip:
  assumes "packet_fits (P_Call c x t)" "packet_fits (P_Args a)" "packet_fits (P_Trace tr)"
  shows "read_packet_FC i (call_payload c x t @ rest) =
      Some \<lparr>call_data = \<lparr>fc_index = i, fc_type = mf_type c, fc_context = x, fc_timestamp = t,
          fc_name = Some (stored_text (mf_name c)), fc_res_type = RFIELD_ID (ucast (mf_res_type_id c)), fc_res_id = mf_res_id c,
          fc_res_size = mf_res_size c\<rparr>, call_trace = NULL, call_ref = NULL, call_args = None\<rparr> \<and>
    read_packet_FA (args_payload a @ rest) = Some (map (\<lambda>(n, v). \<lparr>fa_name = stored_text n, fa_value = stored_text v\<rparr>) (args_used a)) \<and>
    map_option ft_frames (read_packet_BT (trace_payload tr @ rest)) = Some (case tr of Some fs \<Rightarrow> fs | None \<Rightarrow> [])"
  using read_call_packet [OF assms(1)] read_args_packet [OF assms(2)] read_trace_written [OF assms(3)] by simp

theorem call_roundtrip_witness: "map_option ft_frames (read_packet_BT (trace_payload (Some [4096, 8192]) @ [])) = Some [4096, 8192]"
  using call_roundtrip [of "\<lparr>mf_type = 1, mf_name = None, mf_res_type_id = 1, mf_res_id = 0, mf_res_size = 0\<rparr>" 0 0 "[]" "Some [4096, 8192]" 1 "[]"]
  by (simp add: fits_string_def stored_text_def is_cstring_def fits_word_def)

text \<open>
  C40: the heap statistics are written as 32 bit fields and read with 64 bit addresses: the bottom of
  the heap that is read consists of the bottom and the top that were written, and the statistics
  are shifted by two fields.
\<close>

theorem heap_packet_mismatch:
  assumes "length stats = 10"
  shows "read_packet_HI (heap_info_payload bottom heap_end stats @ write_dword x @ write_dword y @ rest) =
    Some \<lparr>hi_heap_bottom = word_of_nat (unat (ucast bottom :: u32) + 4294967296 * unat (ucast heap_end :: u32)),
      hi_heap_top = word_of_nat (unat (stats ! 0) + 4294967296 * unat (stats ! 1)), hi_lowest_block = 0, hi_highest_block = 0,
      hi_stats = drop 2 stats @ [x, y]\<rparr>"
  by (rule read_heap_packet [OF assms])

theorem heap_packet_mismatch_witness:
  "map_option hi_heap_bottom (read_packet_HI (heap_info_payload 1 2 (replicate 10 0) @ write_dword 0 @ write_dword 0)) = Some 8589934593"
  using heap_packet_mismatch [of "replicate 10 0" 1 2 0 0 "[]"] by simp

text \<open>
  The text of the flags that is reported with an opened file fits into its buffer of 16 characters
  and determines the flags.
\<close>

theorem argument_bounds:
  assumes "trace_open_common name fd path flags m = Some (cs, m')"
  shows "\<exists>c text. cs = [c] \<and> snd c = Some [arg ''path'' path, arg ''flags'' text, arg_end] \<and> length text < 16 \<and>
    foldl (\<lambda>v d. v * 16 + digit_value d) 0 (drop 2 text) = unat flags"
proof -
  have "cs = [fd_call m FTYPE_ALLOC name 1 fd (Some [arg ''path'' path, arg ''flags'' (format_0x (unat flags)), arg_end])]"
    using assms by (auto simp: trace_open_common_def bind_eq_Some_conv)
  moreover have "drop 2 (format_0x (unat flags)) = digits 16 (unat flags)" by (simp add: format_0x_def format_x_def str_def)
  ultimately show ?thesis using format_fits(1) [of flags] digits_value [of 16 "unat flags"]
    by (intro exI [of _ "hd cs"] exI [of _ "format_0x (unat flags)"]) (simp add: fd_call_def)
qed

text \<open>
  C37: for different paths with a common directory the path of an attachment leads from the output
  directory to the file, except that one step upwards is missing when the first differing component
  of the output directory is a proper prefix of that of the file and not the last one.
\<close>

theorem relative_path:
  assumes "\<forall>c\<in>set (cs @ f # fs @ t # ts). is_component c" "cs \<noteq> []" "f \<noteq> t"
  shows "calc_relative_path (Some (path_of (cs @ f # fs))) (Some (path_of (cs @ t # ts))) =
    Some (up_path (if prefix f t \<and> fs \<noteq> [] then length fs else length fs + 1) @ join_path (t # ts))"
  by (rule calc_relative_path_differ [OF assms])

theorem relative_path_witness:
  "calc_relative_path (Some (path_of [str ''tmp'', str ''out''])) (Some (path_of [str ''tmp'', str ''a'', str ''b''])) = Some (str ''../a/b'')"
proof -
  have "\<forall>c\<in>set ([str ''tmp''] @ str ''out'' # [] @ str ''a'' # [str ''b'']). is_component c"
    by (simp add: is_component_def str_def SLASH_def is_cstring_def)
  from relative_path [OF this] show ?thesis by (simp add: up_path_def join_path_def str_def SLASH_def DOT_def)
qed

section \<open>Progress and registries\<close>

text \<open>
  C32: a packet that is processed by the listener is completely in the buffer and has at least a header, so
  that the loop over the buffer always comes to an end with the bytes of an incomplete packet.
\<close>

theorem listener_progress:
  assumes "process_packet envs s data = Some (n, s')" "0 < n"
  shows "8 \<le> length data \<and> n \<le> int (length data) \<and> length (drop (nat n) data) < length data"
  using process_packet_progress [OF assms] assms(2) by auto

theorem listener_progress_witness:
  "\<exists>s'. process_packet ex_listener_env (listener_init False) (packet 7 [1]) = Some (9, s') \<and> length (drop 9 (packet 7 [1])) < 9"
proof -
  have "read_dword (packet 7 [1]) = Some (7, 4)" "read_dword (drop 4 (packet 7 [1])) = Some (1, 4)"
    using packet_header(1,2) [of "packet 7 [1]" 7 "[1]" "[]"] by simp_all
  then have "\<exists>s'. process_packet ex_listener_env (listener_init False) (packet 7 [1]) = Some (9, s')"
    by (simp add: process_packet_def listener_init_def write_data_def LISTENER_BUFFER_SIZE_def)
  then obtain s' where "process_packet ex_listener_env (listener_init False) (packet 7 [1]) = Some (9, s')" by blast
  with listener_progress [OF this] show ?thesis by auto
qed

lemma emit_resources: "emit bs s = Some (n, s') \<Longrightarrow> tr_resources s' = tr_resources s"
  by (auto simp: emit_def pipe_buffer_lock_def put_bytes_def pipe_buffer_unlock_def pipe_buffer_flush_def enable_tracing_def Let_def
      bind_eq_Some_conv split: if_splits)

text \<open>
  C31: registering a resource type keeps the registry well formed: ids count from 1, names differ
  and there are at most 32; a type that is registered already gives its id, a full registry -1.
\<close>

theorem registry_wellformed:
  assumes "registry_ok (tr_resources s)" "sp_rtrace_register_resource r s = Some (i, s')"
  shows "registry_ok (tr_resources s') \<and> length (tr_resources s) \<le> length (tr_resources s') \<and>
    (i = - 1 \<or> (\<exists>x\<in>set (tr_resources s'). mr_type x = mr_type r \<and> i = ucast (mr_id x)))"
proof (cases "find (\<lambda>x. mr_type x = mr_type r) (tr_resources s)")
  case None
  have w: "write_resource_registry x t = Some (n, t') \<Longrightarrow> tr_resources t' = tr_resources t" for x n t t'
    by (auto simp: write_resource_registry_def split: if_splits dest: emit_resources)
  from None show ?thesis using assms registry_ok_new [OF assms(1), of r]
    by (auto simp: sp_rtrace_register_resource_def new_resource_def Let_def bind_eq_Some_conv split: if_splits dest!: w)
next
  case (Some x)
  then have "x \<in> set (tr_resources s)" "mr_type x = mr_type r" by (auto simp: find_Some_iff)
  with Some show ?thesis using assms by (auto simp: sp_rtrace_register_resource_def)
qed

theorem registry_wellformed_witness:
  "\<exists>i s'. sp_rtrace_register_resource (ex_resource 0 ''fd'') (ex_tracer ex_memory_resources) = Some (i, s') \<and> registry_ok (tr_resources s')"
proof -
  let ?r = "ex_resource 0 ''fd''" and ?s = "ex_tracer ex_memory_resources"
  have "registry_ok (tr_resources ?s)" using ex_registries(1) by (simp add: ex_tracer_def)
  moreover have "\<exists>i s'. sp_rtrace_register_resource ?r ?s = Some (i, s')"
    by (simp add: sp_rtrace_register_resource_def ex_tracer_def ex_options_def ex_memory_resources_def ex_resource_def str_def Let_def)
  ultimately show ?thesis using registry_wellformed [of ?s ?r] by blast
qed

section \<open>Properties of the post-processor\<close>



text \<open>
  C29: whatever options are given, at most one of an index file to include and one to exclude is in
  force, and after the validation an order of sorting is set exactly for a compressed report, the one that
  was given if there was one; without compression an order is an error.
\<close>

theorem options_checked:
  assumes "parse_options args pp_default = Some (Inr opt)"
  shows "(pp_include opt = None \<or> pp_exclude opt = None) \<and>
    (case validate_options opt of
       Inr opt' \<Rightarrow> (pp_compare opt' \<noteq> None) = pp_compress opt' \<and> opt' = opt\<lparr>pp_compare := pp_compare opt'\<rparr> \<and>
         (pp_compare opt \<noteq> None \<longrightarrow> opt' = opt)
     | Inl status \<Rightarrow> status = -1 \<and> \<not> pp_compress opt \<and> pp_compare opt \<noteq> None)"
proof -
  have "pp_include opt = None \<or> pp_exclude opt = None" by (rule parse_options_files [OF assms]) (simp add: pp_default_def)
  moreover have "status = -1 \<and> \<not> pp_compress opt \<and> pp_compare opt \<noteq> None" if "validate_options opt = Inl status" for status
    using that by (auto simp: validate_options_def split: if_splits)
  ultimately show ?thesis using validate_options_iff by (auto split: sum.split)
qed

theorem options_checked_witness:
  "\<exists>opt. parse_options [PA_exclude (str ''a''), PA_include (str ''b''), PA_sort (str ''count'')] pp_default = Some (Inr opt) \<and>
    pp_exclude opt = None \<and> validate_options opt = Inl (-1)"
proof -
  obtain opt where opt: "parse_options [PA_exclude (str ''a''), PA_include (str ''b''), PA_sort (str ''count'')] pp_default = Some (Inr opt)"
    "pp_include opt = Some (str ''b'')" "pp_compare opt \<noteq> None" "\<not> pp_compress opt"
    by (simp add: pp_default_def sort_order_def str_def)
  note ok = options_checked [OF opt(1)]
  have "validate_options opt \<noteq> Inr opt'" for opt' using ok opt(3,4) by auto
  then obtain status where "validate_options opt = Inl status" by (cases "validate_options opt") auto
  then have "validate_options opt = Inl (-1)" using ok by simp
  moreover have "pp_exclude opt = None" using ok opt(2) by simp
  ultimately show ?thesis using opt(1) by blast
qed
end
